(* ===== verification/Prelude.thy ===== *)
theory Prelude
  imports Main "HOL-Library.Word"
begin

text \<open>
  Shared vocabulary of the development: the machine integers of the crate, the checked and
  saturating integer operations of the Rust standard library that the sources call, results as
  sums (\<open>Inl\<close> the error, \<open>Inr\<close> the value), and the generic lemmas on words and byte lists
  that the component theories rest on.

  Integers. A Rust \<open>u64\<close> is a \<open>64 word\<close>. A Rust \<open>usize\<close> is a \<open>'w word\<close>: the range
  arithmetic is stated for every width \<open>'w\<close>, and the layers above fix the 64-bit target
  (\<open>usize = 64 word\<close>). Lengths of lists are \<open>nat\<close>; \<open>unat\<close> reads a word.
\<close>

unbundle bit_operations_syntax

section \<open>Names for the machine types\<close>

type_synonym byte = "8 word"
type_synonym u32 = "32 word"
type_synonym u64 = "64 word"
type_synonym usize = "64 word"

text \<open>Facts that turn word operations into facts on \<open>unat\<close>, and facts on byte lists.\<close>

named_theorems word_nat
named_theorems byte_list

section \<open>Integer operations of the Rust standard library\<close>

definition word_max :: "'a::len word" where
  "word_max = - 1"

definition checked_add :: "'a::len word \<Rightarrow> 'a word \<Rightarrow> 'a word option" where
  "checked_add a b = (if unat a + unat b < 2 ^ LENGTH('a) then Some (a + b) else None)"

definition checked_sub :: "'a::len word \<Rightarrow> 'a word \<Rightarrow> 'a word option" where
  "checked_sub a b = (if b \<le> a then Some (a - b) else None)"

definition checked_mul :: "'a::len word \<Rightarrow> 'a word \<Rightarrow> 'a word option" where
  "checked_mul a b = (if unat a * unat b < 2 ^ LENGTH('a) then Some (a * b) else None)"

definition saturating_add :: "'a::len word \<Rightarrow> 'a word \<Rightarrow> 'a word" where
  "saturating_add a b = (case checked_add a b of Some c \<Rightarrow> c | None \<Rightarrow> word_max)"

definition saturating_sub :: "'a::len word \<Rightarrow> 'a word \<Rightarrow> 'a word" where
  "saturating_sub a b = (case checked_sub a b of Some c \<Rightarrow> c | None \<Rightarrow> 0)"

definition saturating_mul :: "'a::len word \<Rightarrow> 'a word \<Rightarrow> 'a word" where
  "saturating_mul a b = (case checked_mul a b of Some c \<Rightarrow> c | None \<Rightarrow> word_max)"

text \<open>\<open>is_power_of_two\<close>: the value is \<open>2 ^ k\<close> for a \<open>k\<close> below the width.\<close>

definition is_power_of_two :: "'a::len word \<Rightarrow> bool" where
  "is_power_of_two x = list_ex (\<lambda>k. x = 2 ^ k) [0..<LENGTH('a)]"

text \<open>\<open>div_ceil\<close>: the quotient, one more when there is a remainder.\<close>

definition div_ceil :: "'a::len word \<Rightarrow> 'a word \<Rightarrow> 'a word" where
  "div_ceil a b = (if a mod b > 0 then a div b + 1 else a div b)"

text \<open>\<open>TryFrom\<close> between unsigned integer types: the value when it fits.\<close>

definition word_try_from :: "'a::len word \<Rightarrow> 'b::len word option" where
  "word_try_from x = (if unat x < 2 ^ LENGTH('b) then Some (ucast x) else None)"

text \<open>\<open>TryFrom\<close> of a signed C integer, read as an \<open>int\<close>.\<close>

definition word_try_from_int :: "int \<Rightarrow> 'b::len word option" where
  "word_try_from_int x = (if 0 \<le> x \<and> x < 2 ^ LENGTH('b) then Some (word_of_int x) else None)"

text \<open>\<open>Option::filter\<close>.\<close>

definition option_filter :: "('a \<Rightarrow> bool) \<Rightarrow> 'a option \<Rightarrow> 'a option" where
  "option_filter p x = (case x of Some v \<Rightarrow> (if p v then Some v else None) | None \<Rightarrow> None)"

section \<open>Reading words as naturals\<close>

lemma unat_bound [simp]: "unat (x::'a::len word) < 2 ^ LENGTH('a)"
  by (rule unsigned_less)

lemma unat_word_max [word_nat]: "unat (word_max :: 'a::len word) = 2 ^ LENGTH('a) - 1"
  by (simp add: word_max_def unsigned_minus_1_eq_mask mask_eq_exp_minus_1)

lemma unat_add_exact [word_nat]:
  "unat a + unat (b::'a::len word) < 2 ^ LENGTH('a) \<Longrightarrow> unat (a + b) = unat a + unat b"
  by (simp add: unat_word_ariths)

lemma unat_sub_exact [word_nat]: "b \<le> (a::'a::len word) \<Longrightarrow> unat (a - b) = unat a - unat b"
  by (simp add: unat_sub)

lemma unat_mult_exact [word_nat]:
  "unat a * unat (b::'a::len word) < 2 ^ LENGTH('a) \<Longrightarrow> unat (a * b) = unat a * unat b"
  by (simp add: unat_word_ariths)

lemma word_le_unat: "a \<le> b \<longleftrightarrow> unat a \<le> unat (b::'a::len word)"
  by (rule word_le_nat_alt)

lemma word_less_unat: "a < b \<longleftrightarrow> unat a < unat (b::'a::len word)"
  by (rule word_less_nat_alt)

lemma checked_add_Some [word_nat]:
  "checked_add a b = Some c \<longleftrightarrow> unat c = unat a + unat (b::'a::len word)"
proof
  assume "checked_add a b = Some c"
  then show "unat c = unat a + unat b"
    by (auto simp: checked_add_def unat_add_exact split: if_splits)
next
  assume c: "unat c = unat a + unat b"
  have lt: "unat a + unat b < 2 ^ LENGTH('a)"
    using unat_bound [of c] c by simp
  then have "a + b = c"
    using c by (simp add: word_unat_eq_iff unat_add_exact)
  with lt show "checked_add a b = Some c"
    by (simp add: checked_add_def)
qed

lemma checked_add_None [word_nat]:
  "checked_add a b = None \<longleftrightarrow> 2 ^ LENGTH('a) \<le> unat a + unat (b::'a::len word)"
  by (simp add: checked_add_def not_less)

lemma checked_sub_Some [word_nat]:
  "checked_sub a b = Some c \<longleftrightarrow> unat b \<le> unat a \<and> unat c = unat a - unat (b::'a::len word)"
  by (auto simp: checked_sub_def word_le_unat unat_sub_exact word_unat_eq_iff split: if_splits)

lemma checked_sub_None [word_nat]:
  "checked_sub a b = None \<longleftrightarrow> unat a < unat (b::'a::len word)"
  by (auto simp: checked_sub_def word_le_unat)

lemma unat_saturating_add [word_nat]:
  "unat (saturating_add a b) = min (unat a + unat b) (2 ^ LENGTH('a) - 1)"
  for a :: "'a::len word"
proof (cases "checked_add a b")
  case None
  then have "2 ^ LENGTH('a) \<le> unat a + unat b"
    by (simp add: checked_add_None)
  with None show ?thesis
    by (simp add: saturating_add_def unat_word_max)
next
  case (Some c)
  then have "unat c = unat a + unat b"
    by (simp add: checked_add_Some)
  moreover have "unat c < 2 ^ LENGTH('a)" by simp
  ultimately have "unat a + unat b \<le> 2 ^ LENGTH('a) - 1" by linarith
  with Some \<open>unat c = unat a + unat b\<close> show ?thesis
    by (simp add: saturating_add_def)
qed

lemma unat_saturating_sub [word_nat]:
  "unat (saturating_sub a b) = unat a - unat (b::'a::len word)"
  by (auto simp: saturating_sub_def checked_sub_None checked_sub_Some split: option.splits)

lemma unat_saturating_mul [word_nat]:
  "unat (saturating_mul a b) = min (unat a * unat b) (2 ^ LENGTH('a) - 1)"
  for a :: "'a::len word"
proof (cases "unat a * unat b < 2 ^ LENGTH('a)")
  case True
  then have "unat a * unat b \<le> 2 ^ LENGTH('a) - 1" by linarith
  with True show ?thesis
    by (simp add: saturating_mul_def checked_mul_def unat_mult_exact)
qed (simp add: saturating_mul_def checked_mul_def unat_word_max)

lemma word_try_from_Some [word_nat]:
  "(word_try_from x :: 'b::len word option) = Some y \<longleftrightarrow> unat y = unat (x::'a::len word)"
proof
  assume "word_try_from x = Some y"
  then show "unat y = unat x"
    by (auto simp: word_try_from_def unsigned_ucast_eq take_bit_nat_eq_self split: if_splits)
next
  assume eq: "unat y = unat x"
  then have lt: "unat x < 2 ^ LENGTH('b)"
    using unat_bound [of y] by simp
  then have "unat (ucast x :: 'b word) = unat x"
    by (simp add: unsigned_ucast_eq take_bit_nat_eq_self)
  with eq lt show "word_try_from x = Some y"
    by (simp add: word_try_from_def word_unat_eq_iff)
qed

lemma word_try_from_None [word_nat]:
  "(word_try_from x :: 'b::len word option) = None \<longleftrightarrow> 2 ^ LENGTH('b) \<le> unat (x::'a::len word)"
  by (simp add: word_try_from_def not_less)

lemma word_try_from_self [simp]: "word_try_from x = Some (x::'a::len word)"
  by (simp add: word_try_from_Some)

section \<open>Powers of two and masks\<close>

lemma is_power_of_two_iff: "is_power_of_two (x::'a::len word) \<longleftrightarrow> (\<exists>k < LENGTH('a). x = 2 ^ k)"
  by (auto simp: is_power_of_two_def list_ex_iff)

lemma is_power_of_twoI: "x = 2 ^ k \<Longrightarrow> k < LENGTH('a) \<Longrightarrow> is_power_of_two (x::'a::len word)"
  by (auto simp: is_power_of_two_iff)

lemma unat_power_two: "k < LENGTH('a) \<Longrightarrow> unat (2 ^ k :: 'a::len word) = 2 ^ k"
  proof -
  assume "k < LENGTH('a)"
  then have "unat (of_nat (2 ^ k) :: 'a word) = 2 ^ k"
    by (simp only: unat_of_nat) (simp add: power_strict_increasing)
  then show ?thesis by simp
qed

lemma is_power_of_two_obtain:
  assumes "is_power_of_two (x::'a::len word)"
  obtains k where "k < LENGTH('a)" "x = 2 ^ k" "unat x = 2 ^ k"
  using assms unat_power_two by (auto simp: is_power_of_two_iff)

lemma is_power_of_two_pos: "is_power_of_two x \<Longrightarrow> 0 < unat (x::'a::len word)"
  by (auto elim!: is_power_of_two_obtain)

lemma not_power_of_two_zero [simp]: "\<not> is_power_of_two (0::'a::len word)"
  using is_power_of_two_pos [of "0::'a word"] by auto

text \<open>Masking with \<open>p - 1\<close> is the remainder, with its complement the multiple below.\<close>

lemma and_power_minus_one:
  assumes "is_power_of_two (p::'a::len word)"
  shows "unat (x AND (p - 1)) = unat x mod unat p"
proof -
  obtain k where k: "k < LENGTH('a)" "p = 2 ^ k" "unat p = 2 ^ k"
    using assms by (rule is_power_of_two_obtain)
  have "x AND (p - 1) = take_bit k x"
    by (simp add: k(2) take_bit_eq_mask mask_eq_exp_minus_1)
  then show ?thesis
    by (simp only: k(3) unsigned_take_bit_eq) (simp add: take_bit_eq_mod)
qed

lemma and_not_power_minus_one_word:
  "x AND NOT (m::'a::len word) = x - (x AND m)"
proof -
  have "(x AND NOT m) + (x AND m) = (x AND NOT m) OR (x AND m)"
    by (rule disjunctive_add) (auto simp: bit_simps)
  also have "\<dots> = x"
    by (rule bit_eqI) (auto simp: bit_simps)
  finally show ?thesis by (simp add: eq_diff_eq)
qed

lemma and_not_power_minus_one:
  assumes "is_power_of_two (p::'a::len word)"
  shows "unat (x AND NOT (p - 1)) = unat x - unat x mod unat p"
proof -
  have "x AND (p - 1) \<le> x"
    by (simp add: word_le_unat and_power_minus_one [OF assms])
  then show ?thesis
    by (simp add: and_not_power_minus_one_word unat_sub_exact and_power_minus_one [OF assms])
qed

section \<open>Results\<close>

text \<open>The \<open>?\<close> operator: an error ends the function, a value is passed on.\<close>

definition result_bind :: "'e + 'a \<Rightarrow> ('a \<Rightarrow> 'e + 'b) \<Rightarrow> 'e + 'b" where
  "result_bind r f = (case r of Inl e \<Rightarrow> Inl e | Inr x \<Rightarrow> f x)"

lemma result_bind_simps [simp]:
  "result_bind (Inl e) f = Inl e"
  "result_bind (Inr x) f = f x"
  by (simp_all add: result_bind_def)

lemma result_bind_Inr: "result_bind r f = Inr y \<longleftrightarrow> (\<exists>x. r = Inr x \<and> f x = Inr y)"
  by (cases r) auto

lemma result_bind_Inl:
  "result_bind r f = Inl e \<longleftrightarrow> r = Inl e \<or> (\<exists>x. r = Inr x \<and> f x = Inl e)"
  by (cases r) auto

definition ok_or :: "'e \<Rightarrow> 'a option \<Rightarrow> 'e + 'a" where
  "ok_or e x = (case x of Some v \<Rightarrow> Inr v | None \<Rightarrow> Inl e)"

lemma ok_or_simps [simp]: "ok_or e (Some v) = Inr v" "ok_or e None = Inl e"
  by (simp_all add: ok_or_def)

lemma ok_or_Inr: "ok_or e x = Inr v \<longleftrightarrow> x = Some v"
  by (cases x) auto

lemma ok_or_Inl: "ok_or e x = Inl e' \<longleftrightarrow> x = None \<and> e' = e"
  by (cases x) auto

definition map_err :: "('e \<Rightarrow> 'f) \<Rightarrow> 'e + 'a \<Rightarrow> 'f + 'a" where
  "map_err g r = (case r of Inl e \<Rightarrow> Inl (g e) | Inr x \<Rightarrow> Inr x)"

lemma map_err_simps [simp]: "map_err g (Inl e) = Inl (g e)" "map_err g (Inr x) = Inr x"
  by (simp_all add: map_err_def)

lemma map_err_Inr [simp]: "map_err g r = Inr x \<longleftrightarrow> r = Inr x"
  by (cases r) auto

definition is_ok :: "'e + 'a \<Rightarrow> bool" where
  "is_ok r = (case r of Inl _ \<Rightarrow> False | Inr _ \<Rightarrow> True)"

lemma is_ok_simps [simp]: "\<not> is_ok (Inl e)" "is_ok (Inr x)"
  by (simp_all add: is_ok_def)

lemma is_ok_iff: "is_ok r \<longleftrightarrow> (\<exists>x. r = Inr x)"
  by (cases r) auto

section \<open>Lists updated by index\<close>

lemma nth_update: "j < length xs \<Longrightarrow> xs[i := x] ! j = (if i = j then x else xs ! j)"
  by (cases "i = j") simp_all

section \<open>Byte ranges of lists\<close>

text \<open>\<open>sub_slice xs s e\<close> is \<open>xs[s..e]\<close>; \<open>splice xs s d\<close> is \<open>xs[s..].copy_from_slice(d)\<close>.\<close>

definition sub_slice :: "'a list \<Rightarrow> nat \<Rightarrow> nat \<Rightarrow> 'a list" where
  "sub_slice xs s e = take (e - s) (drop s xs)"

definition splice_at :: "'a list \<Rightarrow> nat \<Rightarrow> 'a list \<Rightarrow> 'a list" where
  "splice_at xs s d = take s xs @ d @ drop (s + length d) xs"

lemma length_slice [byte_list]: "length (sub_slice xs s e) = min (e - s) (length xs - s)"
  by (simp add: sub_slice_def min.commute)

lemma nth_slice [byte_list]:
  "i < e - s \<Longrightarrow> s + i < length xs \<Longrightarrow> sub_slice xs s e ! i = xs ! (s + i)"
  by (simp add: sub_slice_def)

lemma slice_empty [simp]: "e \<le> s \<Longrightarrow> sub_slice xs s e = []"
  by (simp add: sub_slice_def)

lemma slice_all [simp]: "length xs \<le> e \<Longrightarrow> sub_slice xs 0 e = xs"
  by (simp add: sub_slice_def)

lemma slice_append [byte_list]: "s \<le> m \<Longrightarrow> m \<le> e \<Longrightarrow> sub_slice xs s m @ sub_slice xs m e = sub_slice xs s e"
proof -
  assume a: "s \<le> m" "m \<le> e"
  have "take (m - s) (drop s xs) @ take (e - m) (drop (m - s) (drop s xs)) = take (m - s + (e - m)) (drop s xs)"
    by (simp only: take_add)
  with a show ?thesis by (simp add: sub_slice_def add.commute)
qed

lemma length_splice_at [byte_list]:
  "s + length d \<le> length xs \<Longrightarrow> length (splice_at xs s d) = length xs"
  by (simp add: splice_at_def)

lemma nth_splice_at [byte_list]:
  assumes "s + length d \<le> length xs" "i < length xs"
  shows "splice_at xs s d ! i = (if s \<le> i \<and> i < s + length d then d ! (i - s) else xs ! i)"
  using assms by (auto simp: splice_at_def nth_append)

lemma slice_splice_same [byte_list]:
  assumes "s + length d \<le> length xs"
  shows "sub_slice (splice_at xs s d) s (s + length d) = d"
  using assms by (simp add: sub_slice_def splice_at_def)

lemma slice_splice_disjoint [byte_list]:
  assumes "s + length d \<le> length xs" "b \<le> s \<or> s + length d \<le> a"
  shows "sub_slice (splice_at xs s d) a b = sub_slice xs a b"
proof (rule nth_equalityI)
  show "length (sub_slice (splice_at xs s d) a b) = length (sub_slice xs a b)"
    using assms by (simp add: byte_list)
next
  fix i assume i: "i < length (sub_slice (splice_at xs s d) a b)"
  with assms(1) have "i < b - a" "a + i < length xs"
    by (auto simp: byte_list)
  then show "sub_slice (splice_at xs s d) a b ! i = sub_slice xs a b ! i"
    using assms by (auto simp: byte_list)
qed

lemma splice_at_nil [simp]: "splice_at xs s [] = xs"
  by (simp add: splice_at_def)

lemma splice_splice_same [byte_list]:
  assumes "s + length d \<le> length xs" "length d' = length d"
  shows "splice_at (splice_at xs s d) s d' = splice_at xs s d'"
  using assms by (simp add: splice_at_def)

lemma splice_at_slice [byte_list]:
  assumes "s \<le> e" "e \<le> length xs"
  shows "splice_at xs s (sub_slice xs s e) = xs"
proof -
  have "sub_slice xs s e @ drop e xs = drop s xs"
    using assms by (metis append_take_drop_id drop_drop le_add_diff_inverse2 sub_slice_def)
  then show ?thesis
    using assms by (simp add: splice_at_def sub_slice_def min_absorb1)
qed

text \<open>Two half-open ranges share an element.\<close>

definition ranges_meet :: "nat \<Rightarrow> nat \<Rightarrow> nat \<Rightarrow> nat \<Rightarrow> bool" where
  "ranges_meet a0 a1 b0 b1 \<longleftrightarrow> (\<exists>i. a0 \<le> i \<and> i < a1 \<and> b0 \<le> i \<and> i < b1)"

lemma ranges_meet_iff: "a0 < a1 \<Longrightarrow> b0 < b1 \<Longrightarrow> ranges_meet a0 a1 b0 b1 \<longleftrightarrow> a0 < b1 \<and> b0 < a1"
proof -
  assume ne: "a0 < a1" "b0 < b1"
  show ?thesis
  proof
    assume "a0 < b1 \<and> b0 < a1"
    with ne have "a0 \<le> max a0 b0 \<and> max a0 b0 < a1 \<and> b0 \<le> max a0 b0 \<and> max a0 b0 < b1"
      by auto
    then show "ranges_meet a0 a1 b0 b1"
      unfolding ranges_meet_def by blast
  qed (auto simp: ranges_meet_def)
qed

section \<open>Decimal printing\<close>

text \<open>\<open>Display\<close> of an unsigned integer.\<close>

definition digit_char :: "nat \<Rightarrow> char" where
  "digit_char d = char_of (48 + d)"

fun show_nat :: "nat \<Rightarrow> string" where
  "show_nat n = (if n < 10 then [digit_char n] else show_nat (n div 10) @ [digit_char (n mod 10)])"

declare show_nat.simps [simp del]

definition show_word :: "'a::len word \<Rightarrow> string" where
  "show_word x = show_nat (unat x)"

end
