(* ===== verification/Errors.thy ===== *)
theory Errors
  imports Prelude
begin

text \<open>
  The error types: \<open>std::io::Error\<close> (its kind, the raw OS code when there is one, and the text
  its \<open>Display\<close> prints) and the crate's \<open>MmapIoError\<close> of \<open>src/errors.rs\<close> with its
  \<open>Display\<close>, \<open>source\<close> and \<open>From\<close> implementations.
\<close>

datatype error_kind =
    NotFound | PermissionDenied | AlreadyExists | InvalidInput | Unsupported | OtherKind

datatype io_error = Io_Error (io_kind: error_kind) (io_raw_os: "int option") (io_text: string)

datatype mmap_io_error =
    Io io_error
  | InvalidMode string
  | OutOfBounds u64 u64 u64
  | FlushFailed string
  | ResizeFailed string
  | AdviceFailed string
  | LockFailed string
  | UnlockFailed string
  | Misaligned u64 u64
  | WatchFailed string

text \<open>\<open>impl fmt::Display for MmapIoError\<close>\<close>

fun display_error :: "mmap_io_error \<Rightarrow> string" where
  "display_error (Io e) = ''I/O error: '' @ io_text e"
| "display_error (InvalidMode msg) = ''invalid access mode: '' @ msg"
| "display_error (OutOfBounds off len tot) =
     ''range out of bounds: offset='' @ show_word off @ '', len='' @ show_word len
       @ '', total='' @ show_word tot"
| "display_error (FlushFailed msg) = ''flush failed: '' @ msg"
| "display_error (ResizeFailed msg) = ''resize failed: '' @ msg"
| "display_error (AdviceFailed msg) = ''advice failed: '' @ msg"
| "display_error (LockFailed msg) = ''lock failed: '' @ msg"
| "display_error (UnlockFailed msg) = ''unlock failed: '' @ msg"
| "display_error (Misaligned required off) =
     ''atomic alignment error: required='' @ show_word required @ '', offset='' @ show_word off"
| "display_error (WatchFailed msg) = ''watch failed: '' @ msg"

text \<open>\<open>impl Error for MmapIoError\<close>: only \<open>Io\<close> has a source.\<close>

fun error_source :: "mmap_io_error \<Rightarrow> io_error option" where
  "error_source (Io e) = Some e"
| "error_source _ = None"

text \<open>\<open>impl From<io::Error>\<close>, what \<open>?\<close> applies to an \<open>io::Result\<close>.\<close>

definition from_io_error :: "io_error \<Rightarrow> mmap_io_error" where
  "from_io_error e = Io e"

definition lift_io :: "io_error + 'a \<Rightarrow> mmap_io_error + 'a" where
  "lift_io = map_err from_io_error"

lemma lift_io_simps [simp]:
  "lift_io (Inr x) = Inr x"
  "lift_io (Inl e) = Inl (Io e)"
  by (simp_all add: lift_io_def from_io_error_def)

lemma lift_io_Inr [simp]: "lift_io r = Inr x \<longleftrightarrow> r = Inr x"
  by (cases r) auto

text \<open>Constructors of \<open>io::Error\<close> the crate uses: \<open>Error::new(kind, msg)\<close> and \<open>Error::other\<close>.\<close>

definition io_new :: "error_kind \<Rightarrow> string \<Rightarrow> io_error" where
  "io_new k msg = Io_Error k None msg"

definition io_other :: "string \<Rightarrow> io_error" where
  "io_other msg = io_new OtherKind msg"

lemma io_kind_new [simp]: "io_kind (io_new k msg) = k"
  by (simp add: io_new_def)

end
