(* ===== verification/Utils.thy ===== *)
theory Utils
  imports Errors
begin

text \<open>
  \<open>src/utils.rs\<close>: the page size, \<open>align_up\<close>, and the two range checks
  \<open>ensure_in_bounds\<close> and \<open>slice_range\<close> behind every bounds-checked method. The lemmas turn each
  into arithmetic on \<open>nat\<close>, which is how the other components use them.
\<close>

section \<open>The platform\<close>

text \<open>
  The compilation target and what the operating system reports for its sizes: the result of
  \<open>sysconf(_SC_PAGESIZE)\<close>, and the two fields of \<open>SYSTEM_INFO\<close> on Windows.
\<close>

datatype target = Linux | Android | Other_Unix | Windows | Other_Target

fun is_unix :: "target \<Rightarrow> bool" where
  "is_unix Linux = True"
| "is_unix Android = True"
| "is_unix Other_Unix = True"
| "is_unix _ = False"

record platform =
  p_target :: target
  p_sysconf_page :: int
  p_win_page :: u32
  p_win_alloc :: u32

section \<open>Operations\<close>

definition query_page_size :: "platform \<Rightarrow> usize" where
  "query_page_size p =
     (if is_unix (p_target p)
      then (case option_filter (\<lambda>s. s > 0) (word_try_from_int (p_sysconf_page p)) of
              Some s \<Rightarrow> s | None \<Rightarrow> 4096)
      else if p_target p = Windows then ucast (p_win_page p)
      else 4096)"

text \<open>\<open>page_size\<close> caches the first query; the value cannot change.\<close>

definition page_size :: "platform \<Rightarrow> usize" where
  "page_size p = query_page_size p"

definition align_up :: "u64 \<Rightarrow> u64 \<Rightarrow> u64" where
  "align_up value alignment =
     (if alignment = 0 then value
      else
        let aligned =
          (if is_power_of_two alignment
           then let mask = alignment - 1
                in map_option (\<lambda>v. v AND NOT mask) (checked_add value mask)
           else checked_mul (div_ceil value alignment) alignment)
        in (case aligned of Some v \<Rightarrow> v | None \<Rightarrow> word_max))"

definition ensure_in_bounds :: "u64 \<Rightarrow> u64 \<Rightarrow> u64 \<Rightarrow> mmap_io_error + unit" where
  "ensure_in_bounds off len tot =
     (case checked_add off len of
        Some e \<Rightarrow> (if e \<le> tot then Inr () else Inl (OutOfBounds off len tot))
      | None \<Rightarrow> Inl (OutOfBounds off len tot))"

definition slice_range :: "u64 \<Rightarrow> u64 \<Rightarrow> u64 \<Rightarrow> mmap_io_error + 'w::len word \<times> 'w word" where
  "slice_range off len tot =
     (let oob = OutOfBounds off len tot
      in result_bind (ok_or oob (option_filter (\<lambda>e. e \<le> tot) (checked_add off len)))
           (\<lambda>e. case (word_try_from off, word_try_from e) of
                  (Some s, Some e') \<Rightarrow> Inr (s, e')
                | _ \<Rightarrow> Inl oob))"

text \<open>The instance on the 64-bit target.\<close>

abbreviation slice_range64 :: "u64 \<Rightarrow> u64 \<Rightarrow> u64 \<Rightarrow> mmap_io_error + usize \<times> usize" where
  "slice_range64 \<equiv> slice_range"

section \<open>Page size\<close>

lemma query_page_size_unix:
  assumes "is_unix (p_target p)" "p_sysconf_page p = 2 ^ k" "k < 64"
  shows "query_page_size p = 2 ^ k"
proof -
  have "(2::int) ^ k < 2 ^ 64"
    using assms(3) by (rule power_strict_increasing) simp
  then have "(word_try_from_int (2 ^ k) :: usize option) = Some (2 ^ k)"
    by (simp add: word_try_from_int_def)
  moreover have "(0::usize) < 2 ^ k"
    using assms(3) unat_power_two [of k, where 'a = 64] by (simp add: word_less_unat)
  ultimately show ?thesis
    using assms(1,2) by (simp add: query_page_size_def option_filter_def)
qed

lemma query_page_size_unix_pos: "is_unix (p_target p) \<Longrightarrow> 0 < unat (query_page_size p)"
  by (auto simp: query_page_size_def option_filter_def word_less_unat split: option.splits)

section \<open>Bounds\<close>

lemma ensure_in_bounds_iff:
  "ensure_in_bounds off len tot =
     (if unat off + unat len \<le> unat tot then Inr () else Inl (OutOfBounds off len tot))"
proof (cases "checked_add off len")
  case None
  then have "unat tot < unat off + unat len"
    using unat_bound [of tot] by (simp add: checked_add_None)
  with None show ?thesis
    by (simp add: ensure_in_bounds_def)
next
  case (Some e)
  then have "unat e = unat off + unat len"
    by (simp add: checked_add_Some)
  with Some show ?thesis
    by (simp add: ensure_in_bounds_def word_le_unat)
qed

lemma slice_range_Inr:
  "slice_range off len tot = Inr (s, e) \<longleftrightarrow>
     unat off + unat len \<le> unat tot \<and> unat s = unat off \<and> unat e = unat off + unat len"
  for s :: "'w::len word"
proof (cases "checked_add off len")
  case None
  then have "unat tot < unat off + unat len"
    using unat_bound [of tot] by (simp add: checked_add_None)
  with None show ?thesis
    by (simp add: slice_range_def option_filter_def)
next
  case (Some c)
  then have c: "unat c = unat off + unat len"
    by (simp add: checked_add_Some)
  show ?thesis
  proof (cases "unat c \<le> unat tot")
    case True
    with Some have "slice_range off len tot = Inr (s, e) \<longleftrightarrow>
        word_try_from off = Some s \<and> word_try_from c = Some e"
      by (auto simp: slice_range_def Let_def option_filter_def word_le_unat split: option.splits)
    with True show ?thesis
      by (simp add: word_try_from_Some c)
  next
    case False
    with Some c show ?thesis
      by (simp add: slice_range_def option_filter_def word_le_unat)
  qed
qed

lemma slice_range_Inl:
  "slice_range off len tot = (Inl e :: mmap_io_error + 'w::len word \<times> 'w word) \<Longrightarrow>
     e = OutOfBounds off len tot"
  by (auto simp: slice_range_def Let_def result_bind_Inl ok_or_Inl split: option.splits)

lemma slice_range64_eq:
  "slice_range64 off len tot =
     (if unat off + unat len \<le> unat tot then Inr (off, off + len)
      else Inl (OutOfBounds off len tot))"
proof (cases "unat off + unat len \<le> unat tot")
  case True
  moreover have "unat tot < 2 ^ LENGTH(64)" by (rule unat_bound)
  ultimately have "unat off + unat len < 2 ^ LENGTH(64)" by linarith
  with True show ?thesis
    by (auto simp: slice_range_Inr unat_add_exact)
next
  case False
  then have "slice_range64 off len tot \<noteq> Inr r" for r
    by (cases r) (auto simp: slice_range_Inr)
  then obtain e where "slice_range64 off len tot = Inl e"
    by (cases "slice_range64 off len tot") auto
  with slice_range_Inl [OF this] False show ?thesis by simp
qed

lemma slice_range64_ok:
  assumes "slice_range64 off len tot = Inr (s, e)"
  shows "unat s = unat off" "unat e = unat off + unat len" "unat e \<le> unat tot" "s = off"
  using assms by (auto simp: slice_range_Inr word_unat_eq_iff)

section \<open>Alignment\<close>

lemma unat_div_ceil:
  assumes "b \<noteq> (0::'a::len word)"
  shows "unat (div_ceil a b) = (unat a + unat b - 1) div unat b"
proof -
  let ?a = "unat a" and ?b = "unat b"
  have b: "0 < ?b" using assms by (simp add: unat_gt_0)
  have d: "unat (a div b) = ?a div ?b" and m: "unat (a mod b) = ?a mod ?b"
    by (simp_all add: unat_div_distrib unat_mod_distrib)
  show ?thesis
  proof (cases "?a mod ?b = 0")
    case True
    then have "(?a + ?b - 1) div ?b = ?a div ?b"
      using b by (metis add_diff_assoc add_cancel_left_right diff_less div_less div_plus_div_distrib_dvd_left
          less_one mod_0_imp_dvd add_0_right Suc_leI One_nat_def)
    with True m d show ?thesis
      by (simp add: div_ceil_def word_less_unat)
  next
    case False
    have "?a + ?b - 1 = (?a div ?b + 1) * ?b + (?a mod ?b - 1)"
    proof -
      have "?a = ?a div ?b * ?b + ?a mod ?b" by simp
      with False b show ?thesis
        unfolding add_mult_distrib by linarith
    qed
    moreover have "?a mod ?b - 1 < ?b"
      using b by (simp add: less_imp_diff_less)
    ultimately have eq: "(?a + ?b - 1) div ?b = ?a div ?b + 1"
      by (intro div_nat_eqI) (simp_all add: algebra_simps)
    have "?a div ?b < ?a"
      using False by (metis b div_less_dividend div_by_1 gr0I less_one linorder_neqE_nat mod_by_1 mod_0 mod_less
          nat_less_le One_nat_def)
    then have "unat (a div b) + unat (1::'a word) \<le> ?a"
      by (simp add: d)
    then have "unat (a div b) + unat (1::'a word) < 2 ^ LENGTH('a)"
      using unat_bound by (rule le_less_trans)
    then have "unat (a div b + 1) = ?a div ?b + 1"
      by (simp add: unat_add_exact d)
    with False m eq show ?thesis
      by (simp add: div_ceil_def word_less_unat)
  qed
qed

text \<open>The smallest multiple of \<open>a\<close> that is at least \<open>v\<close>.\<close>

definition next_multiple :: "nat \<Rightarrow> nat \<Rightarrow> nat" where
  "next_multiple v a = ((v + a - 1) div a) * a"

lemma next_multiple_dvd: "a dvd next_multiple v a"
  by (simp add: next_multiple_def)

lemma next_multiple_ge: "0 < a \<Longrightarrow> v \<le> next_multiple v a"
proof -
  assume a: "0 < a"
  have "v + a - 1 = next_multiple v a + (v + a - 1) mod a"
    by (simp add: next_multiple_def)
  moreover have "(v + a - 1) mod a \<le> a - 1"
    using a by (simp add: Suc_leI less_Suc_eq_le [symmetric])
  ultimately show ?thesis using a by linarith
qed

lemma next_multiple_least: "0 < a \<Longrightarrow> a dvd m \<Longrightarrow> v \<le> m \<Longrightarrow> next_multiple v a \<le> m"
proof -
  assume a: "0 < a" and "a dvd m" and le: "v \<le> m"
  then obtain q where m: "m = a * q" by (rule_tac dvdE)
  have "v + a - 1 < (q + 1) * a"
    using le a by (simp add: m algebra_simps)
  then have "(v + a - 1) div a \<le> q"
    by (metis a Suc_eq_plus1 less_mult_imp_div_less less_Suc_eq_le mult.commute)
  then show ?thesis by (simp add: next_multiple_def m)
qed

lemma unat_align_up:
  assumes "alignment \<noteq> 0"
  shows "unat (align_up value alignment) =
    (if next_multiple (unat value) (unat alignment) < 2 ^ 64
     then next_multiple (unat value) (unat alignment) else 2 ^ 64 - 1)"
proof (cases "is_power_of_two alignment")
  case pow: True
  let ?v = "unat value" and ?a = "unat alignment"
  obtain k where k: "k < 64" "?a = 2 ^ k"
    using pow by (auto elim!: is_power_of_two_obtain)
  have "(1::u64) \<le> alignment"
    using k by (simp add: word_le_unat)
  then have mask: "unat (alignment - 1) = ?a - 1"
    by (simp add: unat_sub_exact)
  have sum: "?v + unat (alignment - 1) = ?v + ?a - 1"
    using k by (simp add: mask)
  have nm: "next_multiple ?v ?a = (?v + ?a - 1) - (?v + ?a - 1) mod ?a"
    by (simp add: next_multiple_def minus_mod_eq_div_mult)
  show ?thesis
  proof (cases "checked_add value (alignment - 1)")
    case None
    then have big: "2 ^ 64 \<le> ?v + ?a - 1"
      by (simp add: checked_add_None sum)
    have "?a dvd (2::nat) ^ 64"
      unfolding k(2) using k(1) by (intro le_imp_power_dvd) simp
    then have "(2::nat) ^ 64 div ?a * ?a = 2 ^ 64" by simp
    moreover have "(2::nat) ^ 64 div ?a \<le> (?v + ?a - 1) div ?a"
      using big by (rule div_le_mono)
    ultimately have "2 ^ 64 \<le> next_multiple ?v ?a"
      unfolding next_multiple_def by (metis mult_le_mono1)
    with None pow assms show ?thesis
      by (simp add: align_up_def Let_def unat_word_max)
  next
    case (Some c)
    then have c: "unat c = ?v + ?a - 1"
      by (simp add: checked_add_Some sum)
    then have "next_multiple ?v ?a < 2 ^ 64"
      using unat_bound [of c] nm by simp
    with Some pow assms c show ?thesis
      by (simp add: align_up_def Let_def and_not_power_minus_one nm)
  qed
next
  case False
  with assms show ?thesis
    by (auto simp: align_up_def Let_def checked_mul_def unat_div_ceil unat_word_max unat_mult_exact
        next_multiple_def)
qed

section \<open>The contract of a range check\<close>

text \<open>
  What every bounds-checked method relies on: a check accepts a range exactly when its end, computed
  without wrap-around, is inside the total, and otherwise reports the range it was given.
\<close>

locale range_check =
  fixes check :: "u64 \<Rightarrow> u64 \<Rightarrow> u64 \<Rightarrow> mmap_io_error + 'r"
  assumes accepts: "is_ok (check off len tot) \<longleftrightarrow> unat off + unat len \<le> unat tot"
    and rejects: "check off len tot = Inl e \<Longrightarrow> e = OutOfBounds off len tot"
begin

lemma refused_iff:
  "check off len tot = Inl (OutOfBounds off len tot) \<longleftrightarrow> unat tot < unat off + unat len"
  using accepts [of off len tot] rejects [of off len tot]
  by (cases "check off len tot") auto

lemma accepted_obtain:
  assumes "unat off + unat len \<le> unat tot"
  obtains r where "check off len tot = Inr r"
  using assms accepts [of off len tot] by (auto simp: is_ok_iff)

lemma wrapping_refused:
  "2 ^ 64 \<le> unat off + unat len \<Longrightarrow> check off len tot = Inl (OutOfBounds off len tot)"
  using unat_bound [of tot] by (subst refused_iff) simp

lemma accepted_mono:
  "is_ok (check off len tot) \<Longrightarrow> off \<le> off' \<Longrightarrow> unat off' + unat len' \<le> unat off + unat len \<Longrightarrow>
     tot \<le> tot' \<Longrightarrow> is_ok (check off' len' tot')"
  by (simp add: accepts word_le_unat)

end

interpretation in_bounds: range_check ensure_in_bounds
  by unfold_locales (auto simp: ensure_in_bounds_iff split: if_splits)

interpretation sliced: range_check slice_range64
  by unfold_locales (auto simp: slice_range64_eq split: if_splits)

section \<open>Properties\<close>

text \<open>\<open>align_up\<close> returns the smallest multiple of the alignment that is at least the value, for
  every non-zero alignment (a power of two or not), and saturates to \<open>u64::MAX\<close> exactly when no
  such multiple is representable.\<close>

lemma align_up_least_multiple:
  assumes "alignment \<noteq> 0"
  shows "if \<exists>m < 2 ^ 64. unat alignment dvd m \<and> unat value \<le> m
         then unat alignment dvd unat (align_up value alignment)
            \<and> unat value \<le> unat (align_up value alignment)
            \<and> (\<forall>m. unat alignment dvd m \<longrightarrow> unat value \<le> m \<longrightarrow> unat (align_up value alignment) \<le> m)
         else align_up value alignment = word_max"
proof -
  let ?v = "unat value" and ?a = "unat alignment"
  have pos: "0 < ?a" using assms by (simp add: unat_gt_0)
  have ex: "(\<exists>m < 2 ^ 64. ?a dvd m \<and> ?v \<le> m) \<longleftrightarrow> next_multiple ?v ?a < 2 ^ 64"
    using next_multiple_dvd [of ?a ?v] next_multiple_ge [OF pos, of ?v]
      next_multiple_least [OF pos, of _ ?v] by (meson le_less_trans)
  show ?thesis
    using next_multiple_dvd [of ?a ?v] next_multiple_ge [OF pos, of ?v]
      next_multiple_least [OF pos, of _ ?v]
    by (simp only: ex unat_align_up [OF assms]) (simp add: word_unat_eq_iff unat_align_up [OF assms] unat_word_max)
qed

lemma align_up_least_multiple_witness:
  "unat (4096::u64) dvd unat (align_up 4097 4096) \<and> unat (4097::u64) \<le> unat (align_up 4097 4096)
    \<and> (4096::u64) \<noteq> 0"
proof -
  have "\<exists>m < 2 ^ 64. unat (4096::u64) dvd m \<and> unat (4097::u64) \<le> m"
    by (rule exI [of _ 8192]) simp
  with align_up_least_multiple [of 4096 4097] show ?thesis by simp
qed

text \<open>The two range checks agree and never wrap: on every input both accept exactly the ranges
  with \<open>offset + len \<le> total\<close> over the naturals, \<open>slice_range\<close> then returns that range (for any
  width of \<open>usize\<close> that can hold it), and both otherwise report the range they were given.\<close>

lemma range_checks_exact:
  "(ensure_in_bounds off len tot = Inr () \<longleftrightarrow> unat off + unat len \<le> unat tot)
   \<and> (slice_range64 off len tot = Inr (s, e) \<longleftrightarrow>
        unat off + unat len \<le> unat tot \<and> unat s = unat off \<and> unat e = unat off + unat len)
   \<and> ((slice_range off len tot :: mmap_io_error + 32 word \<times> 32 word) = Inr (s32, e32) \<longleftrightarrow>
        unat off + unat len \<le> unat tot \<and> unat s32 = unat off \<and> unat e32 = unat off + unat len)
   \<and> (ensure_in_bounds off len tot = Inl (OutOfBounds off len tot) \<longleftrightarrow> unat tot < unat off + unat len)
   \<and> (slice_range64 off len tot = Inl (OutOfBounds off len tot) \<longleftrightarrow> unat tot < unat off + unat len)"
  by (simp add: in_bounds.refused_iff sliced.refused_iff slice_range_Inr ensure_in_bounds_iff)

end
