(* ===== verification/Range.thy ===== *)
theory Range
  imports Utils
begin

text \<open>
  \<open>src/raw/range.rs\<close>: the checked offset and length arithmetic of the raw mapping layer.
  \<open>resolve_len\<close> fixes the window of a file mapping, \<open>layout\<close> the operating-system mapping that
  covers it, \<open>flush_span\<close> the page-aligned span of a ranged call. All are stated for a \<open>usize\<close> of
  any width \<open>'w\<close>; \<open>max_len\<close> is the target's limit, as in the source.
\<close>

section \<open>Definitions\<close>

record (overloaded) 'w region_layout =
  aligned_offset :: u64
  delta :: "'w::len word"
  l_len :: "'w word"
  map_len :: "'w word"

text \<open>\<open>MAX_LEN = isize::MAX as usize\<close>\<close>

definition MAX_LEN :: "'w::len word" where
  "MAX_LEN = word_max div 2"

definition invalid :: "string \<Rightarrow> io_error" where
  "invalid msg = io_new InvalidInput msg"

definition resolve_len ::
  "u64 \<Rightarrow> u64 \<Rightarrow> 'w::len word option \<Rightarrow> 'w word \<Rightarrow> io_error + 'w word" where
  "resolve_len file_len off len max_len =
     result_bind
       (ok_or (invalid (''mapping offset '' @ show_word off @ '' is past the end of the file (''
                        @ show_word file_len @ '' bytes)''))
          (checked_sub file_len off))
       (\<lambda>available.
          result_bind
            (case len of
               Some requested \<Rightarrow>
                 result_bind
                   (ok_or (invalid (''mapping length '' @ show_word requested
                                    @ '' does not fit in u64''))
                      (word_try_from requested :: u64 option))
                   (\<lambda>requested_u64.
                      if requested_u64 > available
                      then Inl (invalid (''mapping range offset '' @ show_word off @ '' + length ''
                                 @ show_word requested @ '' extends past the end of the file (''
                                 @ show_word file_len @ '' bytes)''))
                      else Inr requested)
             | None \<Rightarrow>
                 ok_or (invalid (''file window of '' @ show_word available
                                 @ '' bytes does not fit in this target's address space''))
                   (word_try_from available))
            (\<lambda>n. if n > max_len
                 then Inl (invalid (''mapping length '' @ show_word n
                            @ '' exceeds the largest addressable slice (''
                            @ show_word max_len @ '' bytes)''))
                 else Inr n))"

definition layout ::
  "u64 \<Rightarrow> 'w::len word \<Rightarrow> 'w word \<Rightarrow> 'w word \<Rightarrow> io_error + 'w region_layout" where
  "layout off len granularity max_len =
     (if \<not> is_power_of_two granularity
      then Inl (invalid (''OS reported an invalid mapping granularity of ''
                         @ show_word granularity @ '' bytes''))
      else
        result_bind
          (ok_or (invalid (''granularity '' @ show_word granularity @ '' does not fit in u64''))
             (word_try_from granularity :: u64 option))
          (\<lambda>gran_u64.
             let delta_u64 = off AND (gran_u64 - 1)
             in result_bind
                  (ok_or (invalid (''alignment delta '' @ show_word delta_u64
                                   @ '' does not fit in usize''))
                     (word_try_from delta_u64))
                  (\<lambda>d. result_bind
                          (ok_or (invalid (''mapping length '' @ show_word len @ '' plus alignment ''
                                    @ show_word d @ '' exceeds the largest addressable slice (''
                                    @ show_word max_len @ '' bytes)''))
                             (option_filter (\<lambda>n. n \<le> max_len) (checked_add len d)))
                          (\<lambda>m. Inr \<lparr>aligned_offset = off - delta_u64, delta = d,
                                     l_len = len, map_len = m\<rparr>))))"

definition flush_span ::
  "'w::len word \<Rightarrow> 'w word \<Rightarrow> 'w word \<Rightarrow> 'w word \<Rightarrow> 'w word
     \<Rightarrow> io_error + ('w word \<times> 'w word) option" where
  "flush_span d window_len off flush_len page =
     result_bind
       (ok_or (invalid (''flush offset '' @ show_word off @ '' is past the end of the mapping (''
                        @ show_word window_len @ '' bytes)''))
          (checked_sub window_len off))
       (\<lambda>remaining.
          if flush_len > remaining
          then Inl (invalid (''flush range offset '' @ show_word off @ '' + length ''
                     @ show_word flush_len @ '' extends past the end of the mapping (''
                     @ show_word window_len @ '' bytes)''))
          else if flush_len = 0 then Inr None
          else if \<not> is_power_of_two page
          then Inl (invalid (''OS reported an invalid page size of '' @ show_word page @ '' bytes''))
          else
            let overflow = invalid ''flush range arithmetic overflowed''
            in result_bind (ok_or overflow (checked_add d off))
                 (\<lambda>abs_start.
                    result_bind (ok_or overflow (checked_add abs_start flush_len))
                      (\<lambda>abs_end.
                         let aligned_start = abs_start AND NOT (page - 1)
                         in Inr (Some (aligned_start, abs_end - aligned_start)))))"

section \<open>The window of a file mapping\<close>

lemma option_filter_Some: "option_filter p x = Some v \<longleftrightarrow> x = Some v \<and> p v"
  by (auto simp: option_filter_def split: option.splits)

lemma unat_MAX_LEN: "unat (MAX_LEN :: 'w::len word) = 2 ^ (LENGTH('w) - 1) - 1"
proof -
  have "(2::nat) ^ LENGTH('w) = 2 * 2 ^ (LENGTH('w) - 1)"
    by (simp add: power_eq_if)
  then have "(2 ^ LENGTH('w) - 1) div 2 = (2::nat) ^ (LENGTH('w) - 1) - 1"
    by linarith
  moreover have "unat (2 :: 'w word) = 2 \<or> LENGTH('w) = 1"
    by (cases "LENGTH('w) = 1") (simp_all add: unat_power_two [of 1, simplified] len_gt_0 nat_neq_iff)
  ultimately show ?thesis
    by (auto simp: MAX_LEN_def unat_div_distrib unat_word_max)
qed

lemma resolve_len_Inr:
  "resolve_len file_len off len max_len = Inr n \<longleftrightarrow>
     unat off \<le> unat file_len \<and> unat n \<le> unat max_len \<and>
     (case len of Some r \<Rightarrow> n = r \<and> unat off + unat r \<le> unat file_len
      | None \<Rightarrow> unat n = unat file_len - unat off)"
proof (cases "checked_sub file_len off")
  case None
  moreover have "unat file_len < unat off"
    using None by (simp add: checked_sub_None)
  ultimately show ?thesis by (simp add: resolve_len_def)
next
  case (Some available)
  then have av: "unat off \<le> unat file_len" "unat available = unat file_len - unat off"
    by (simp_all add: checked_sub_Some)
  show ?thesis
  proof (cases len)
    case None
    with Some av show ?thesis
      by (auto simp: resolve_len_def result_bind_Inr ok_or_Inr word_try_from_Some word_le_unat
          not_less split: if_splits)
  next
    case req: (Some r)
    show ?thesis
    proof (cases "word_try_from r :: u64 option")
      case None
      then have "unat file_len < unat r"
        using unat_bound [of file_len] by (simp add: word_try_from_None)
      with None Some req show ?thesis by (auto simp: resolve_len_def)
    next
      case r64: (Some r')
      then have "unat r' = unat r"
        by (simp add: word_try_from_Some)
      with r64 Some req av show ?thesis
        by (auto simp: resolve_len_def result_bind_Inr word_le_unat word_less_unat not_less
            split: if_splits)
    qed
  qed
qed

lemma resolve_len_Inl: "resolve_len file_len off len max_len = Inl e \<Longrightarrow> io_kind e = InvalidInput"
  by (auto simp: resolve_len_def result_bind_Inl ok_or_Inl invalid_def split: if_splits option.splits)

section \<open>The mapping that covers a window\<close>

lemma layout_ok:
  assumes "layout off len granularity max_len = Inr l"
  shows "unat (aligned_offset l) + unat (delta l) = unat off"
    and "unat granularity dvd unat (aligned_offset l)"
    and "unat (delta l) < unat granularity"
    and "l_len l = len"
    and "unat (map_len l) = unat (delta l) + unat len"
    and "unat (map_len l) \<le> unat max_len"
    and "is_power_of_two granularity"
proof -
  from assms have pow: "is_power_of_two granularity"
    by (auto simp: layout_def split: if_splits)
  from assms obtain g d m where
    g: "unat g = unat granularity" and d: "unat d = unat (off AND (g - 1))"
    and m: "unat m = unat len + unat d" "unat m \<le> unat max_len"
    and l: "l = \<lparr>aligned_offset = off - (off AND (g - 1)), delta = d, l_len = len, map_len = m\<rparr>"
    by (auto simp: layout_def Let_def result_bind_Inr ok_or_Inr word_try_from_Some
        option_filter_Some checked_add_Some word_le_unat split: if_splits)
  from pow obtain k where k: "unat granularity = 2 ^ k"
    by (rule is_power_of_two_obtain)
  have "(2::nat) ^ k < 2 ^ LENGTH(64)"
    using unat_bound [of g] g k by simp
  then have "k < 64"
    by (simp only: power_strict_increasing_iff) simp
  then have "g = 2 ^ k"
    using g k by (simp add: word_unat_eq_iff unat_power_two)
  then have gp: "is_power_of_two g"
    using \<open>k < 64\<close> by (intro is_power_of_twoI [of _ k]) simp_all
  have rem: "unat (off AND (g - 1)) = unat off mod unat granularity"
    by (simp add: and_power_minus_one [OF gp] g)
  have al: "unat (off - (off AND (g - 1))) = unat off - unat off mod unat granularity"
    by (simp add: unat_sub_exact word_le_unat rem)
  show "unat (aligned_offset l) + unat (delta l) = unat off"
    by (simp add: l al d rem)
  show "unat granularity dvd unat (aligned_offset l)"
    by (simp add: l al dvd_minus_mod)
  show "unat (delta l) < unat granularity"
    using is_power_of_two_pos [OF pow] by (simp add: l d rem)
  show "l_len l = len" and "unat (map_len l) = unat (delta l) + unat len"
    and "unat (map_len l) \<le> unat max_len"
    using m by (simp_all add: l)
  show "is_power_of_two granularity" by (rule pow)
qed

text \<open>It succeeds whenever the granularity is sane and the padded window fits.\<close>

lemma layout_succeeds:
  fixes len :: "'w::len word"
  assumes "is_power_of_two granularity" "LENGTH('w) \<le> 64"
    and "unat len + unat off mod unat granularity \<le> unat max_len"
  shows "\<exists>l. layout off len granularity max_len = Inr l"
proof -
  from assms(1) obtain k where k: "k < LENGTH('w)" "unat granularity = 2 ^ k"
    by (rule is_power_of_two_obtain)
  with assms(2) have k64: "k < LENGTH(64)" by simp
  have "(word_try_from granularity :: u64 option) = Some (2 ^ k)"
    using k k64 by (simp only: word_try_from_Some unat_power_two)
  moreover have gp: "is_power_of_two (2 ^ k :: u64)"
    using k64 by (intro is_power_of_twoI [of _ k]) simp_all
  moreover define m where "m = off AND (2 ^ k - 1)"
  have m: "unat m = unat off mod unat granularity"
    unfolding m_def by (simp only: and_power_minus_one [OF gp] k(2) unat_power_two [OF k64])
  have "unat m < 2 ^ LENGTH('w)"
    using m is_power_of_two_pos [OF assms(1)] unat_bound [of granularity]
    by (metis mod_less_divisor order.strict_trans)
  then obtain d where d: "word_try_from m = Some (d::'w word)"
    by (auto simp: word_try_from_def)
  then have ud: "unat d = unat m" by (simp add: word_try_from_Some)
  have "unat len + unat d < 2 ^ LENGTH('w)"
    using assms(3) unat_bound [of max_len] by (simp add: ud m del: unat_bound unsigned_less)
  then obtain n where n: "checked_add len d = Some n" "unat n = unat len + unat d"
    by (auto simp: checked_add_def unat_add_exact)
  with assms(3) have "n \<le> max_len"
    by (simp add: word_le_unat ud m)
  with assms(1) calculation d n show ?thesis
    by (simp add: layout_def option_filter_def Let_def m_def)
qed

lemma layout_Inl: "layout off len granularity max_len = Inl e \<Longrightarrow> io_kind e = InvalidInput"
  by (auto simp: layout_def Let_def result_bind_Inl ok_or_Inl invalid_def split: if_splits)

section \<open>The span of a ranged call\<close>

lemma flush_span_None:
  "flush_span d w off n page = Inr None \<longleftrightarrow> unat off \<le> unat w \<and> n = 0"
proof (cases "checked_sub w off")
  case None
  moreover from None have "unat w < unat off" by (simp add: checked_sub_None)
  ultimately show ?thesis by (simp add: flush_span_def)
next
  case (Some r)
  moreover from Some have "unat off \<le> unat w" by (simp add: checked_sub_Some)
  ultimately show ?thesis
    by (auto simp: flush_span_def Let_def result_bind_Inr split: if_splits)
qed

lemma flush_span_Some:
  assumes "flush_span d w off n page = Inr (Some (start, count))"
  shows "unat off + unat n \<le> unat w" and "0 < unat n"
    and "unat page dvd unat start"
    and "unat start \<le> unat d + unat off"
    and "unat d + unat off < unat start + unat page"
    and "unat start + unat count = unat d + unat off + unat n"
proof -
  from assms obtain r a b where raw: "checked_sub w off = Some r" "\<not> r < n"
    "checked_add d off = Some a" "checked_add a n = Some b"
    and n: "n \<noteq> 0" and pow: "is_power_of_two page"
    and start: "start = a AND NOT (page - 1)" and count: "count = b - start"
    by (auto simp: flush_span_def Let_def result_bind_Inr ok_or_Inr split: if_splits)
  then have r: "unat off \<le> unat w" "unat r = unat w - unat off" "unat n \<le> unat r"
    and a: "unat a = unat d + unat off" and b: "unat b = unat a + unat n"
    by (auto simp: checked_sub_Some checked_add_Some word_less_unat)
  have s: "unat start = unat a - unat a mod unat page"
    unfolding start by (rule and_not_power_minus_one [OF pow])
  have "start \<le> b"
    by (simp add: word_le_unat s b)
  then have c: "unat count = unat b - unat start"
    by (simp add: count unat_sub_exact)
  show "unat off + unat n \<le> unat w" using r by linarith
  show "0 < unat n" using n by (simp add: unat_gt_0)
  show "unat page dvd unat start" by (simp add: s dvd_minus_mod)
  show "unat start \<le> unat d + unat off" by (simp add: s a)
  show "unat d + unat off < unat start + unat page"
    using mod_less_divisor [OF is_power_of_two_pos [OF pow], of "unat a"] s a by linarith
  show "unat start + unat count = unat d + unat off + unat n"
    using \<open>start \<le> b\<close> by (simp add: c a b word_le_unat)
qed

lemma flush_span_succeeds:
  assumes "unat off + unat n \<le> unat w" "n \<noteq> 0" "is_power_of_two page"
    and "unat d + unat w < 2 ^ LENGTH('w)"
  shows "\<exists>start count. flush_span d w off n (page::'w::len word) = Inr (Some (start, count))"
proof -
  have le: "off \<le> w" using assms(1) by (simp add: word_le_unat)
  have "n \<le> w - off"
    using assms(1) le by (simp add: word_le_unat unat_sub_exact)
  moreover have "unat d + unat off < 2 ^ LENGTH('w)" using assms(1,4) by linarith
  moreover from this have "unat (d + off) + unat n < 2 ^ LENGTH('w)"
    using assms(1,4) by (simp add: unat_add_exact)
  ultimately show ?thesis
    using assms(2,3) le
    by (simp add: flush_span_def checked_sub_def checked_add_def Let_def not_less)
qed

lemma flush_span_Inl: "flush_span d w off n page = Inl e \<Longrightarrow> io_kind e = InvalidInput"
  by (auto simp: flush_span_def Let_def result_bind_Inl ok_or_Inl invalid_def split: if_splits)

lemma flush_span_out_of_range:
  "unat w < unat off + unat n \<Longrightarrow> \<exists>e. flush_span d w off n page = Inl e"
  by (cases "flush_span d w off n page")
    (auto simp: flush_span_None dest!: flush_span_Some(1) split: option.splits,
     metis flush_span_None flush_span_Some(1) not_less option.exhaust surj_pair unat_0 add.right_neutral)

section \<open>Properties\<close>

text \<open>\<open>layout\<close> on every input: it refuses (as \<open>InvalidInput\<close>) exactly a granularity that is not
  a power of two or a padded window longer than \<open>max_len\<close>; otherwise the mapping it describes
  starts at a multiple of the granularity, less than one granule before the window, and ends
  exactly with the window.\<close>

lemma layout_exact:
  "case layout off (len::usize) granularity max_len of
     Inl e \<Rightarrow> io_kind e = InvalidInput
       \<and> \<not> (is_power_of_two granularity \<and> unat len + unat off mod unat granularity \<le> unat max_len)
   | Inr l \<Rightarrow> is_power_of_two granularity
       \<and> unat granularity dvd unat (aligned_offset l)
       \<and> unat (aligned_offset l) + unat (delta l) = unat off
       \<and> unat (delta l) < unat granularity
       \<and> unat (aligned_offset l) + unat (map_len l) = unat off + unat len
       \<and> unat (map_len l) \<le> unat max_len
       \<and> l_len l = len"
proof (cases "layout off len granularity max_len")
  case (Inl e)
  with layout_succeeds [of granularity len off max_len] layout_Inl [OF Inl] show ?thesis by auto
next
  case (Inr l)
  with layout_ok [OF Inr] show ?thesis by simp
qed

text \<open>\<open>resolve_len\<close> on every input and every width of \<open>usize\<close>: an explicit length is returned
  unchanged exactly when the window ends inside the file, an omitted one becomes the rest of the
  file, neither exceeds \<open>max_len\<close>, and everything else is \<open>InvalidInput\<close>.\<close>

lemma resolve_len_exact:
  "case resolve_len flen off len max_len of
     Inl e \<Rightarrow> io_kind e = InvalidInput
       \<and> (unat flen < unat off
          \<or> (case len of
               Some r \<Rightarrow> unat flen < unat off + unat r \<or> unat max_len < unat r
             | None \<Rightarrow> unat max_len < unat flen - unat off))
   | Inr n \<Rightarrow> unat off + unat n \<le> unat flen \<and> unat n \<le> unat max_len
       \<and> (case len of Some r \<Rightarrow> n = r | None \<Rightarrow> unat off + unat n = unat flen)"
  for max_len :: "'w::len word"
proof (cases "resolve_len flen off len max_len")
  case (Inl e)
  have no: "resolve_len flen off len max_len \<noteq> Inr n" for n by (simp add: Inl)
  show ?thesis
  proof (cases len)
    case None
    have "unat max_len < unat flen - unat off" if "unat off \<le> unat flen"
    proof (rule ccontr)
      assume "\<not> ?thesis"
      then have le: "unat flen - unat off \<le> unat max_len" by simp
      define n :: "'w word" where "n = of_nat (unat flen - unat off)"
      have "unat n = unat flen - unat off"
        using le_less_trans [OF le unat_bound] by (simp add: n_def unat_of_nat)
      with no [of n] None that le show False by (simp add: resolve_len_Inr)
    qed
    with Inl resolve_len_Inl [OF Inl] None show ?thesis
      by (cases "unat off \<le> unat flen") auto
  next
    case (Some r)
    with no [of r] Inl resolve_len_Inl [OF Inl] show ?thesis
      by (auto simp: resolve_len_Inr not_le)
  qed
next
  case (Inr n)
  from Inr [unfolded resolve_len_Inr] have "unat off + unat n \<le> unat flen \<and> unat n \<le> unat max_len
      \<and> (case len of Some r \<Rightarrow> n = r | None \<Rightarrow> unat off + unat n = unat flen)"
    by (cases len) auto
  with Inr show ?thesis by simp
qed

text \<open>C17. \<open>flush_span\<close> on every input: \<open>None\<close> exactly for an empty range inside the window; a span
  that is page aligned, starts less than a page before the range, ends exactly with it and lies
  inside the mapping; and an error for every range outside the window.\<close>

theorem flush_span_exact:
  "case flush_span d win off n page of
     Inl e \<Rightarrow> io_kind e = InvalidInput
       \<and> (unat win < unat off + unat n
          \<or> (0 < unat n \<and> \<not> (is_power_of_two page \<and> unat d + unat win < 2 ^ LENGTH('w))))
   | Inr None \<Rightarrow> n = 0 \<and> unat off \<le> unat win
   | Inr (Some (start, count)) \<Rightarrow>
       unat off + unat n \<le> unat win \<and> 0 < unat count
       \<and> unat page dvd unat start
       \<and> unat start \<le> unat d + unat off \<and> unat d + unat off < unat start + unat page
       \<and> unat start + unat count = unat d + unat off + unat n"
  for d :: "'w::len word"
proof (cases "flush_span d win off n page")
  case (Inl e)
  have "unat win < unat off + unat n
      \<or> (0 < unat n \<and> \<not> (is_power_of_two page \<and> unat d + unat win < 2 ^ LENGTH('w)))"
  proof (cases "unat off + unat n \<le> unat win")
    case True
    moreover have "n \<noteq> 0" using Inl True flush_span_None [of d win off n page] by auto
    ultimately show ?thesis
      using flush_span_succeeds [of off n win page d] Inl by (auto simp: unat_gt_0)
  qed simp
  with Inl flush_span_Inl [OF Inl] show ?thesis by simp
next
  case (Inr sp)
  show ?thesis
  proof (cases sp)
    case None
    then have "n = 0 \<and> unat off \<le> unat win"
      using Inr flush_span_None [of d win off n page] by simp
    with Inr None show ?thesis by simp
  next
    case (Some sc)
    obtain start count where sc: "sc = (start, count)" by (cases sc)
    from flush_span_Some [of d win off n page start count] Inr Some sc show ?thesis by auto
  qed
qed

end
