(* ===== verification/Text.thy ===== *)
theory Text
  imports Prelude
begin

text \<open>
  The string operations of the Rust standard library that the \<open>/proc\<close> parsers call, on ASCII
  text: \<open>lines\<close>, \<open>split_whitespace().next()\<close>, \<open>strip_prefix\<close>, \<open>split_once\<close> and the parsing of
  unsigned integers in a radix.
\<close>

section \<open>Definitions\<close>

definition is_ws :: "char \<Rightarrow> bool" where
  "is_ws c \<longleftrightarrow> of_char c \<in> {9, 10, 11, 12, 13, 32 :: nat}"

text \<open>\<open>s.split_whitespace().next()\<close>\<close>

definition first_token :: "string \<Rightarrow> string option" where
  "first_token s =
     (let t = takeWhile (\<lambda>c. \<not> is_ws c) (dropWhile is_ws s)
      in if t = [] then None else Some t)"

fun strip_prefix :: "string \<Rightarrow> string \<Rightarrow> string option" where
  "strip_prefix [] s = Some s"
| "strip_prefix (p # ps) [] = None"
| "strip_prefix (p # ps) (c # s) = (if p = c then strip_prefix ps s else None)"

text \<open>\<open>s.split_once(c)\<close>: the text before and after the first \<open>c\<close>.\<close>

fun split_once :: "char \<Rightarrow> string \<Rightarrow> (string \<times> string) option" where
  "split_once c [] = None"
| "split_once c (x # s) =
     (if x = c then Some ([], s)
      else map_option (\<lambda>(a, b). (x # a, b)) (split_once c s))"

text \<open>\<open>lines\<close>: split at each newline, a final empty piece is dropped, and a carriage return
  before the newline (or at the very end) is not part of the line.\<close>

definition strip_cr :: "string \<Rightarrow> string" where
  "strip_cr s = (if s \<noteq> [] \<and> last s = char_of (13::nat) then butlast s else s)"

fun split_lines :: "string \<Rightarrow> string \<Rightarrow> string list" where
  "split_lines acc [] = (if acc = [] then [] else [rev acc])"
| "split_lines acc (c # s) =
     (if c = char_of (10::nat) then strip_cr (rev acc) # split_lines [] s else split_lines (c # acc) s)"

definition text_lines :: "string \<Rightarrow> string list" where
  "text_lines s = split_lines [] s"

definition digit_value :: "nat \<Rightarrow> char \<Rightarrow> nat option" where
  "digit_value radix c =
     (let n = of_char c :: nat;
          d = (if 48 \<le> n \<and> n \<le> 57 then Some (n - 48)
               else if 97 \<le> n \<and> n \<le> 122 then Some (n - 87)
               else if 65 \<le> n \<and> n \<le> 90 then Some (n - 55)
               else None)
      in option_filter (\<lambda>v. v < radix) d)"

fun digits_value :: "nat \<Rightarrow> nat \<Rightarrow> string \<Rightarrow> nat option" where
  "digits_value radix acc [] = Some acc"
| "digits_value radix acc (c # s) =
     (case digit_value radix c of None \<Rightarrow> None | Some d \<Rightarrow> digits_value radix (acc * radix + d) s)"

text \<open>\<open>from_str_radix\<close> and \<open>parse\<close> on an unsigned type: an optional plus sign, then at least one
  digit, no overflow.\<close>

definition parse_radix :: "nat \<Rightarrow> string \<Rightarrow> 'a::len word option" where
  "parse_radix radix s =
     (let ds = (case s of [] \<Rightarrow> [] | c # r \<Rightarrow> if c = CHR ''+'' then r else s)
      in if ds = [] then None
         else (case digits_value radix 0 ds of
                 None \<Rightarrow> None
               | Some n \<Rightarrow> if n < 2 ^ LENGTH('a) then Some (of_nat n) else None))"

section \<open>Lemmas\<close>

lemma strip_prefix_Some: "strip_prefix p s = Some r \<longleftrightarrow> s = p @ r"
  by (induction p s rule: strip_prefix.induct) auto

lemma split_once_Some: "split_once c s = Some (a, b) \<longleftrightarrow> s = a @ c # b \<and> c \<notin> set a"
proof (induction s arbitrary: a)
  case Nil
  show ?case by simp
next
  case (Cons x s)
  show ?case
  proof (cases a)
    case Nil
    then show ?thesis by auto
  next
    case (Cons y a')
    with Cons.IH [of a'] show ?thesis by (auto split: option.splits)
  qed
qed

lemma split_once_None: "split_once c s = None \<longleftrightarrow> c \<notin> set s"
  by (induction s) auto

lemma digits_value_append:
  "digits_value r acc (s @ t) =
     (case digits_value r acc s of None \<Rightarrow> None | Some n \<Rightarrow> digits_value r n t)"
  by (induction s arbitrary: acc) (auto split: option.splits)

lemma digit_value_digit_char: "d < 10 \<Longrightarrow> digit_value 10 (digit_char d) = Some d"
  by (simp add: digit_value_def digit_char_def option_filter_def Let_def)

lemma digits_value_show_nat: "digits_value 10 0 (show_nat n) = Some n"
proof (induction n rule: show_nat.induct)
  case (1 n)
  show ?case
  proof (cases "n < 10")
    case True
    then show ?thesis
      by (subst show_nat.simps) (simp add: digit_value_digit_char)
  next
    case False
    with "1.IH" show ?thesis
      by (subst show_nat.simps) (simp add: digits_value_append digit_value_digit_char)
  qed
qed

lemma show_nat_nonempty: "show_nat n \<noteq> []"
  by (subst show_nat.simps) simp

lemma show_nat_chars: "\<forall>c \<in> set (show_nat n). 48 \<le> (of_char c :: nat) \<and> (of_char c :: nat) \<le> 57"
proof (induction n rule: show_nat.induct)
  case (1 n)
  have d: "m < 10 \<Longrightarrow> 48 \<le> (of_char (digit_char m) :: nat) \<and> (of_char (digit_char m) :: nat) \<le> 57" for m
    by (simp add: digit_char_def)
  show ?case
    using "1.IH" d by (subst show_nat.simps) auto
qed

text \<open>Printing and parsing are inverse.\<close>

lemma parse_show_word: "parse_radix 10 (show_word x) = Some (x :: 'a::len word)"
proof -
  obtain c s where cs: "show_nat (unat x) = c # s"
    using show_nat_nonempty by (cases "show_nat (unat x)") auto
  have "c \<noteq> CHR ''+''"
    using show_nat_chars [of "unat x"] by (auto simp: cs)
  then show ?thesis
    using digits_value_show_nat [of "unat x"]
    by (simp add: parse_radix_def show_word_def cs Let_def)
qed

end
