(* ===== verification/World.thy ===== *)
theory World
  imports Range Text
begin

text \<open>
  What the crate runs on. System calls are values of \<open>syscall\<close>; the kernel is a parameter that
  answers each call from the calls made before it (\<open>Inl\<close> the error it reports, \<open>Inr\<close> the value
  it returns), so every theorem holds for any pattern of failures. Every call is recorded in
  the world's trace. \<open>std::fs\<close> is modelled on a directory and file contents: a call that the
  kernel lets through has the effect the standard library documents.

  \<open>'s\<close>-state computations that may fail are functions \<open>'s \<Rightarrow> ('e + 'a) \<times> 's\<close>, composed with
  \<open>bind_se\<close> (Rust's \<open>?\<close> in sequence).
\<close>

section \<open>Flags and system calls\<close>

type_synonym path = string
type_synonym fid = nat
type_synonym addr = u64
type_synonym dword = u32

datatype prot_flag = PROT_READ | PROT_WRITE
datatype map_flag = MAP_SHARED | MAP_PRIVATE | MAP_ANON | MAP_POPULATE | MAP_HUGETLB
datatype msync_flag = MS_SYNC | MS_ASYNC
datatype madv_flag =
    MADV_NORMAL | MADV_RANDOM | MADV_SEQUENTIAL | MADV_WILLNEED | MADV_DONTNEED | MADV_HUGEPAGE

record open_opts =
  o_read :: bool
  o_write :: bool
  o_create :: bool
  o_truncate :: bool
  o_create_new :: bool

datatype syscall =
    Sys_mmap usize "prot_flag list" "map_flag list" "fid option" u64
  | Sys_munmap addr usize
  | Sys_msync addr usize msync_flag
  | Sys_mprotect addr usize "prot_flag list"
  | Sys_madvise addr usize madv_flag
  | Sys_mlock addr usize
  | Sys_munlock addr usize
  | Sys_sync_file_range fid u64 u64
  | Sys_posix_fadvise fid u64 u64
  | Win_CreateFileMapping "fid option" dword dword dword
  | Win_MapViewOfFile u64 dword dword dword usize
  | Win_FlushViewOfFile addr usize
  | Win_UnmapViewOfFile addr
  | Win_CloseHandle u64
  | Win_VirtualProtect addr usize dword
  | Win_PrefetchVirtualMemory addr usize
  | Win_VirtualLock addr usize
  | Win_VirtualUnlock addr usize
  | Fs_open path open_opts
  | Fs_metadata fid
  | Fs_set_len fid u64
  | Fs_sync_data fid
  | Fs_try_clone fid
  | Fs_remove_file path
  | Fs_copy path path

type_synonym kernel = "syscall list \<Rightarrow> syscall \<Rightarrow> io_error + u64"

text \<open>
  The environment: platform, kernel, the cargo features that change behaviour, and the text of
  the two \<open>/proc\<close> files the crate reads (\<open>None\<close>: unreadable; \<open>smaps\<close> line by line, a line may be unreadable).
\<close>

record env =
  e_plat :: platform
  e_kern :: kernel
  e_cow :: bool
  e_atomic :: bool
  e_hugepages :: bool
  e_meminfo :: "string option"
  e_smaps :: "string option list option"

abbreviation e_target :: "env \<Rightarrow> target" where
  "e_target env \<equiv> p_target (e_plat env)"

record world =
  w_dir :: "path \<Rightarrow> fid option"
  w_data :: "fid \<Rightarrow> byte list"
  w_next :: fid
  w_trace :: "syscall list"

section \<open>Computations\<close>

definition bind_se ::
  "('s \<Rightarrow> ('e + 'a) \<times> 's) \<Rightarrow> ('a \<Rightarrow> 's \<Rightarrow> ('e + 'b) \<times> 's) \<Rightarrow> 's \<Rightarrow> ('e + 'b) \<times> 's" where
  "bind_se m f s = (case m s of (Inl e, s') \<Rightarrow> (Inl e, s') | (Inr x, s') \<Rightarrow> f x s')"

definition return_se :: "'a \<Rightarrow> 's \<Rightarrow> ('e + 'a) \<times> 's" where
  "return_se x s = (Inr x, s)"

definition fail_se :: "'e \<Rightarrow> 's \<Rightarrow> ('e + 'a) \<times> 's" where
  "fail_se e s = (Inl e, s)"

definition lift_se :: "'e + 'a \<Rightarrow> 's \<Rightarrow> ('e + 'a) \<times> 's" where
  "lift_se r s = (r, s)"

definition map_err_se :: "('e \<Rightarrow> 'f) \<Rightarrow> ('s \<Rightarrow> ('e + 'a) \<times> 's) \<Rightarrow> 's \<Rightarrow> ('f + 'a) \<times> 's" where
  "map_err_se g m s = (case m s of (r, s') \<Rightarrow> (map_err g r, s'))"

text \<open>\<open>let _ = m;\<close>: run for the effect, ignore the result.\<close>

definition ignore_se :: "('s \<Rightarrow> ('e + 'a) \<times> 's) \<Rightarrow> 's \<Rightarrow> ('f + unit) \<times> 's" where
  "ignore_se m s = (Inr (), snd (m s))"

lemmas se_defs = bind_se_def return_se_def fail_se_def lift_se_def map_err_se_def ignore_se_def

lemma bind_se_Inr:
  "bind_se m f s = (Inr y, s'') \<longleftrightarrow> (\<exists>x s'. m s = (Inr x, s') \<and> f x s' = (Inr y, s''))"
  by (auto simp: bind_se_def split: prod.splits sum.splits)

lemma bind_se_Inl:
  "bind_se m f s = (Inl e, s'') \<longleftrightarrow>
     m s = (Inl e, s'') \<or> (\<exists>x s'. m s = (Inr x, s') \<and> f x s' = (Inl e, s''))"
  by (auto simp: bind_se_def split: prod.splits sum.splits)

lemma simple_se [simp]:
  "return_se x s = (Inr x, s)"
  "fail_se e s = (Inl e, s)"
  "lift_se r s = (r, s)"
  by (simp_all add: se_defs)

lemma bind_se_step [simp]:
  "m s = (Inr x, s') \<Longrightarrow> bind_se m f s = f x s'"
  "m s = (Inl e, s') \<Longrightarrow> bind_se m f s = (Inl e, s')"
  by (simp_all add: bind_se_def)

lemma bind_se_return [simp]: "bind_se (return_se x) f = f x"
  by (rule ext) simp

lemma bind_se_fail [simp]: "bind_se (fail_se e) f = fail_se e"
  by (rule ext) (simp add: se_defs)

lemma bind_se_lift [simp]: "bind_se (lift_se (Inr x)) f = f x"
  by (rule ext) simp

lemma map_err_se_Inr [simp]: "map_err_se g m s = (Inr x, s') \<longleftrightarrow> m s = (Inr x, s')"
  by (auto simp: map_err_se_def split: prod.splits)

lemma map_err_se_Inl:
  "map_err_se g m s = (Inl e, s') \<longleftrightarrow> (\<exists>e'. m s = (Inl e', s') \<and> e = g e')"
  by (auto simp: map_err_se_def map_err_def split: prod.splits sum.splits)

definition os_call :: "env \<Rightarrow> syscall \<Rightarrow> world \<Rightarrow> (io_error + u64) \<times> world" where
  "os_call env c w = (e_kern env (w_trace w) c, w\<lparr>w_trace := w_trace w @ [c]\<rparr>)"

section \<open>\<open>std::fs\<close>\<close>

text \<open>\<open>OpenOptions::open\<close>. Exclusive creation fails on an existing path; truncation empties the
  file; without \<open>create\<close> a missing path is \<open>NotFound\<close>.\<close>

definition create_file :: "path \<Rightarrow> world \<Rightarrow> fid \<times> world" where
  "create_file pth w =
     (w_next w,
      w\<lparr>w_dir := (w_dir w)(pth \<mapsto> w_next w), w_data := (w_data w)(w_next w := []),
        w_next := Suc (w_next w)\<rparr>)"

definition fs_open :: "env \<Rightarrow> path \<Rightarrow> open_opts \<Rightarrow> world \<Rightarrow> (io_error + fid) \<times> world" where
  "fs_open env pth opts =
     bind_se (os_call env (Fs_open pth opts))
       (\<lambda>_ w. case w_dir w pth of
            Some f \<Rightarrow>
              if o_create_new opts then (Inl (io_new AlreadyExists ''file exists''), w)
              else if o_truncate opts then (Inr f, w\<lparr>w_data := (w_data w)(f := [])\<rparr>)
              else (Inr f, w)
          | None \<Rightarrow>
              if o_create_new opts \<or> o_create opts
              then (case create_file pth w of (f, w') \<Rightarrow> (Inr f, w'))
              else (Inl (io_new NotFound ''no such file''), w))"

definition file_len :: "world \<Rightarrow> fid \<Rightarrow> u64" where
  "file_len w f = of_nat (length (w_data w f))"

text \<open>\<open>file.metadata()?.len()\<close>\<close>

definition fs_metadata_len :: "env \<Rightarrow> fid \<Rightarrow> world \<Rightarrow> (io_error + u64) \<times> world" where
  "fs_metadata_len env f = bind_se (os_call env (Fs_metadata f)) (\<lambda>_ w. (Inr (file_len w f), w))"

text \<open>\<open>File::set_len\<close>: cut the file, or extend it with zeros.\<close>

definition resize_bytes :: "nat \<Rightarrow> byte list \<Rightarrow> byte list" where
  "resize_bytes n bs = take n bs @ replicate (n - length bs) 0"

definition fs_set_len :: "env \<Rightarrow> fid \<Rightarrow> u64 \<Rightarrow> world \<Rightarrow> (io_error + unit) \<times> world" where
  "fs_set_len env f n =
     bind_se (os_call env (Fs_set_len f n))
       (\<lambda>_ w. (Inr (), w\<lparr>w_data := (w_data w)(f := resize_bytes (unat n) (w_data w f))\<rparr>))"

definition fs_remove_file :: "env \<Rightarrow> path \<Rightarrow> world \<Rightarrow> (io_error + unit) \<times> world" where
  "fs_remove_file env pth =
     bind_se (os_call env (Fs_remove_file pth))
       (\<lambda>_ w. case w_dir w pth of
            Some _ \<Rightarrow> (Inr (), w\<lparr>w_dir := (w_dir w)(pth := None)\<rparr>)
          | None \<Rightarrow> (Inl (io_new NotFound ''no such file''), w))"

text \<open>\<open>fs::copy\<close>: the destination is created or truncated, then receives the source's bytes; a file copied to
  itself is empty afterwards.\<close>

definition fs_copy :: "env \<Rightarrow> path \<Rightarrow> path \<Rightarrow> world \<Rightarrow> (io_error + u64) \<times> world" where
  "fs_copy env src dst =
     bind_se (os_call env (Fs_copy src dst))
       (\<lambda>_ w. case w_dir w src of
            None \<Rightarrow> (Inl (io_new NotFound ''no such file''), w)
          | Some s \<Rightarrow>
              (case (case w_dir w dst of Some d \<Rightarrow> (d, w) | None \<Rightarrow> create_file dst w) of
                 (d, w') \<Rightarrow>
                   let bs = (if d = s then [] else w_data w s)
                   in (Inr (of_nat (length bs)), w'\<lparr>w_data := (w_data w')(d := bs)\<rparr>)))"

definition path_exists :: "world \<Rightarrow> path \<Rightarrow> bool" where
  "path_exists w pth \<longleftrightarrow> w_dir w pth \<noteq> None"

section \<open>A concrete system\<close>

text \<open>
  A 64-bit Linux with 4096-byte pages whose kernel grants every call and places mappings at
  address \<open>0x10000\<close>, and a file system with one eight-byte file: the instance on which the
  hypotheses of the properties are shown to hold.
\<close>

fun sample_kernel :: kernel where
  "sample_kernel tr (Sys_mmap _ _ _ _ _) = Inr 0x10000"
| "sample_kernel tr _ = Inr 0"

definition sample_env :: env where
  "sample_env =
     \<lparr>e_plat = \<lparr>p_target = Linux, p_sysconf_page = 4096, p_win_page = 4096, p_win_alloc = 65536\<rparr>,
      e_kern = sample_kernel, e_cow = True, e_atomic = True, e_hugepages = True,
      e_meminfo = None, e_smaps = None\<rparr>"

definition sample_bytes :: "byte list" where
  "sample_bytes = [10, 11, 12, 13, 14, 15, 16, 17]"

definition sample_world :: world where
  "sample_world =
     \<lparr>w_dir = [''f'' \<mapsto> 0], w_data = (\<lambda>f. if f = 0 then sample_bytes else []), w_next = 1, w_trace = []\<rparr>"

section \<open>Facts about files\<close>

text \<open>Every file fits in a signed 64-bit offset, and fresh identifiers are unused.\<close>

definition world_ok :: "world \<Rightarrow> bool" where
  "world_ok w \<longleftrightarrow> (\<forall>f. length (w_data w f) < 2 ^ 63) \<and> (\<forall>pth f. w_dir w pth = Some f \<longrightarrow> f < w_next w)"

lemma length_resize_bytes [simp]: "length (resize_bytes n bs) = n"
  by (simp add: resize_bytes_def)

lemma nth_resize_bytes:
  "i < n \<Longrightarrow> resize_bytes n bs ! i = (if i < length bs then bs ! i else 0)"
  by (auto simp: resize_bytes_def nth_append)

lemma resize_bytes_same [simp]: "resize_bytes (length bs) bs = bs"
  by (simp add: resize_bytes_def)

lemma resize_bytes_shorter: "n \<le> length bs \<Longrightarrow> resize_bytes n bs = take n bs"
  by (simp add: resize_bytes_def)

lemma take_resize_bytes: "n \<le> m \<Longrightarrow> n \<le> length bs \<Longrightarrow> take n (resize_bytes m bs) = take n bs"
  by (simp add: resize_bytes_def min_absorb1)

lemma unat_file_len: "length (w_data w f) < 2 ^ 63 \<Longrightarrow> unat (file_len w f) = length (w_data w f)"
  by (simp add: file_len_def unat_of_nat)

lemma os_call_eq:
  "os_call env c w = (r, w') \<longleftrightarrow>
     e_kern env (w_trace w) c = r \<and> w' = w\<lparr>w_trace := w_trace w @ [c]\<rparr>"
  by (auto simp: os_call_def)

lemma fs_set_len_Inr:
  "fs_set_len env f n w = (Inr u, w') \<longleftrightarrow>
     (\<exists>v. e_kern env (w_trace w) (Fs_set_len f n) = Inr v) \<and>
     w' = w\<lparr>w_trace := w_trace w @ [Fs_set_len f n],
            w_data := (w_data w)(f := resize_bytes (unat n) (w_data w f))\<rparr>"
  by (auto simp: fs_set_len_def bind_se_Inr os_call_eq)

lemma fs_set_len_Inl:
  "fs_set_len env f n w = (Inl e, w') \<longleftrightarrow>
     e_kern env (w_trace w) (Fs_set_len f n) = Inl e \<and>
     w' = w\<lparr>w_trace := w_trace w @ [Fs_set_len f n]\<rparr>"
  by (auto simp: fs_set_len_def bind_se_Inl os_call_eq)

lemma fs_metadata_len_Inr:
  "fs_metadata_len env f w = (Inr n, w') \<longleftrightarrow>
     (\<exists>v. e_kern env (w_trace w) (Fs_metadata f) = Inr v) \<and> n = file_len w f \<and>
     w' = w\<lparr>w_trace := w_trace w @ [Fs_metadata f]\<rparr>"
  by (auto simp: fs_metadata_len_def bind_se_Inr os_call_eq file_len_def)

lemma fs_metadata_len_Inl:
  "fs_metadata_len env f w = (Inl e, w') \<longleftrightarrow>
     e_kern env (w_trace w) (Fs_metadata f) = Inl e \<and>
     w' = w\<lparr>w_trace := w_trace w @ [Fs_metadata f]\<rparr>"
  by (auto simp: fs_metadata_len_def bind_se_Inl os_call_eq)

lemma sample_env_simps [simp]:
  "e_kern sample_env = sample_kernel" "p_target (e_plat sample_env) = Linux"
  "e_meminfo sample_env = None" "e_smaps sample_env = None" "e_cow sample_env" "e_atomic sample_env" "e_hugepages sample_env"
  "p_sysconf_page (e_plat sample_env) = 4096"
  by (simp_all add: sample_env_def)

lemma sample_world_simps [simp]:
  "w_data sample_world 0 = sample_bytes" "w_trace sample_world = []" "w_next sample_world = 1"
  "w_dir sample_world = [''f'' \<mapsto> 0]" "length sample_bytes = 8"
  by (simp_all add: sample_world_def sample_bytes_def)

lemma sample_world_ok [simp]: "world_ok sample_world"
  by (simp add: world_ok_def sample_world_def sample_bytes_def)

end
