(* ===== verification/Raw_Os.thy ===== *)
theory Raw_Os
  imports World
begin

text \<open>
  The platform backends of the raw layer: \<open>src/raw/unix.rs\<close>, \<open>src/raw/windows.rs\<close> and
  \<open>src/raw/stub.rs\<close>, and the selection the \<open>use \<dots> as os\<close> lines of \<open>src/raw/mod.rs\<close> make. Each
  operation is the system calls it issues with the arguments the source computes, and the
  mapping of their results. Pages and addresses are 64-bit words.
\<close>

section \<open>Shared types of the raw layer\<close>

datatype access = Access_Read | Access_Write | Access_Copy

datatype map_kind = Kind_Read | Kind_Write | Kind_Copy | Kind_Anon

datatype protection = Prot_ReadOnly | Prot_ReadWrite | Prot_WriteCopy

record map_flags =
  f_populate :: bool
  f_huge :: bool

datatype flush_mode = Flush_Sync | Flush_Async

datatype mmap_advice = Adv_Normal | Adv_Random | Adv_Sequential | Adv_WillNeed | Adv_DontNeed

text \<open>What a flush has to do: nothing (\<open>Private\<close>), or write back; on Windows the duplicated file
  handle for \<open>FlushFileBuffers\<close> is kept.\<close>

datatype backing = Backing_Private | Backing_Shared "fid option"

type_synonym 'a os_io = "world \<Rightarrow> (io_error + 'a) \<times> world"

text \<open>A call whose returned value is not used: \<open>if rc == 0 { Ok(()) } else { Err(last_os_error()) }\<close>.\<close>

definition os_call_unit :: "env \<Rightarrow> syscall \<Rightarrow> unit os_io" where
  "os_call_unit env c = bind_se (os_call env c) (\<lambda>_. return_se ())"

section \<open>Unix\<close>

definition unix_mark_shared_writable :: "backing \<Rightarrow> io_error + backing" where
  "unix_mark_shared_writable b = Inr (Backing_Shared None)"

definition unix_page_size :: "env \<Rightarrow> io_error + usize" where
  "unix_page_size env =
     ok_or (io_other ''sysconf(_SC_PAGESIZE) returned an invalid page size'')
       (option_filter is_power_of_two (word_try_from_int (p_sysconf_page (e_plat env))))"

definition unix_offset_granularity :: "env \<Rightarrow> io_error + usize" where
  "unix_offset_granularity env = unix_page_size env"

definition populate_flag :: "env \<Rightarrow> map_flags \<Rightarrow> map_flag list" where
  "populate_flag env extra =
     (if e_target env \<in> {Linux, Android} \<and> f_populate extra then [MAP_POPULATE] else [])"

definition huge_page_size :: "env \<Rightarrow> usize" where
  "huge_page_size env =
     (let kb = Option.bind (e_meminfo env)
                 (\<lambda>text. Option.bind
                    (List.find (\<lambda>r. r \<noteq> None) (map (strip_prefix ''Hugepagesize:'') (text_lines text)))
                    (\<lambda>rest. Option.bind (Option.bind rest first_token) (parse_radix 10)));
          bytes = Option.bind kb (\<lambda>k. checked_mul k 1024)
      in (case option_filter is_power_of_two bytes of Some n \<Rightarrow> n | None \<Rightarrow> 2 * 1024 * 1024))"

definition huge_layout :: "env \<Rightarrow> usize \<Rightarrow> map_flags \<Rightarrow> io_error + usize \<times> map_flag list" where
  "huge_layout env len extra =
     (if e_target env \<in> {Linux, Android} \<and> f_huge extra
      then
        let huge = huge_page_size env
        in result_bind
             (ok_or (io_new InvalidInput (''anonymous mapping length '' @ show_word len
                       @ '' rounded up to the huge page size ('' @ show_word huge
                       @ '' bytes) exceeds the address space''))
                (option_filter (\<lambda>n. n \<le> MAX_LEN)
                   (map_option (\<lambda>n. n AND NOT (huge - 1)) (checked_add len (huge - 1)))))
             (\<lambda>rounded. Inr (rounded, [MAP_HUGETLB]))
      else Inr (len, []))"

text \<open>A null address is unmapped again and reported as an error.\<close>

definition unix_finish :: "env \<Rightarrow> addr \<Rightarrow> usize \<Rightarrow> addr os_io" where
  "unix_finish env a len =
     (if a \<noteq> 0 then return_se a
      else (\<lambda>w. case os_call env (Sys_munmap a len) w of
              (_, w') \<Rightarrow> (Inl (io_other ''mmap returned a null address''), w')))"

definition unix_map_file ::
  "env \<Rightarrow> fid \<Rightarrow> access \<Rightarrow> 64 region_layout \<Rightarrow> map_flags \<Rightarrow> (addr \<times> backing) os_io" where
  "unix_map_file env f acc l extra =
     (if unat (aligned_offset l) < 2 ^ 63
      then
        let (prot, flags, b) =
          (case acc of
             Access_Read \<Rightarrow> ([PROT_READ], [MAP_SHARED], Backing_Private)
           | Access_Write \<Rightarrow> ([PROT_READ, PROT_WRITE], [MAP_SHARED], Backing_Shared None)
           | Access_Copy \<Rightarrow> ([PROT_READ, PROT_WRITE], [MAP_PRIVATE], Backing_Private))
        in bind_se
             (os_call env (Sys_mmap (map_len l) prot (flags @ populate_flag env extra) (Some f)
                             (aligned_offset l)))
             (\<lambda>a. bind_se (unix_finish env a (map_len l)) (\<lambda>base. return_se (base, b)))
      else fail_se (io_new InvalidInput (''mapping offset '' @ show_word (aligned_offset l)
                      @ '' does not fit in this target's off_t'')))"

definition unix_map_anon :: "env \<Rightarrow> usize \<Rightarrow> map_flags \<Rightarrow> (addr \<times> backing \<times> usize) os_io" where
  "unix_map_anon env len extra =
     bind_se (lift_se (huge_layout env len extra))
       (\<lambda>(os_len, huge_flag).
          bind_se
            (os_call env (Sys_mmap os_len [PROT_READ, PROT_WRITE]
               ([MAP_PRIVATE, MAP_ANON] @ populate_flag env extra @ huge_flag) None 0))
            (\<lambda>a. bind_se (unix_finish env a os_len)
                    (\<lambda>base. return_se (base, Backing_Private, os_len))))"

definition unix_flush :: "env \<Rightarrow> addr \<Rightarrow> usize \<Rightarrow> backing \<Rightarrow> flush_mode \<Rightarrow> unit os_io" where
  "unix_flush env a count b mode =
     (case b of
        Backing_Private \<Rightarrow> return_se ()
      | Backing_Shared _ \<Rightarrow>
          os_call_unit env
            (Sys_msync a count (case mode of Flush_Sync \<Rightarrow> MS_SYNC | Flush_Async \<Rightarrow> MS_ASYNC)))"

definition unix_protect :: "env \<Rightarrow> addr \<Rightarrow> usize \<Rightarrow> protection \<Rightarrow> unit os_io" where
  "unix_protect env base os_len prot =
     os_call_unit env
       (Sys_mprotect base os_len
          (case prot of
             Prot_ReadOnly \<Rightarrow> [PROT_READ]
           | Prot_ReadWrite \<Rightarrow> [PROT_READ, PROT_WRITE]
           | Prot_WriteCopy \<Rightarrow> [PROT_READ, PROT_WRITE]))"

definition unix_advise :: "env \<Rightarrow> addr \<Rightarrow> usize \<Rightarrow> mmap_advice \<Rightarrow> unit os_io" where
  "unix_advise env a count advice =
     os_call_unit env
       (Sys_madvise a count
          (case advice of
             Adv_Normal \<Rightarrow> MADV_NORMAL
           | Adv_Random \<Rightarrow> MADV_RANDOM
           | Adv_Sequential \<Rightarrow> MADV_SEQUENTIAL
           | Adv_WillNeed \<Rightarrow> MADV_WILLNEED
           | Adv_DontNeed \<Rightarrow> MADV_DONTNEED))"

definition unix_lock :: "env \<Rightarrow> addr \<Rightarrow> usize \<Rightarrow> bool \<Rightarrow> unit os_io" where
  "unix_lock env a count lock =
     os_call_unit env (if lock then Sys_mlock a count else Sys_munlock a count)"

definition start_writeback :: "env \<Rightarrow> fid \<Rightarrow> u64 \<Rightarrow> u64 \<Rightarrow> unit os_io" where
  "start_writeback env f off len =
     (if unat off < 2 ^ 63 \<and> unat len < 2 ^ 63
      then os_call_unit env (Sys_sync_file_range f off len)
      else fail_se (io_new InvalidInput (''write-back range '' @ show_word off @ '' + ''
                      @ show_word len @ '' does not fit in off64_t'')))"

definition unix_unmap :: "env \<Rightarrow> addr \<Rightarrow> usize \<Rightarrow> world \<Rightarrow> world" where
  "unix_unmap env base len w = snd (os_call env (Sys_munmap base len) w)"

section \<open>Windows\<close>

definition PAGE_READONLY :: dword where "PAGE_READONLY = 0x02"
definition PAGE_READWRITE :: dword where "PAGE_READWRITE = 0x04"
definition PAGE_WRITECOPY :: dword where "PAGE_WRITECOPY = 0x08"
definition FILE_MAP_COPY :: dword where "FILE_MAP_COPY = 0x0001"
definition FILE_MAP_WRITE :: dword where "FILE_MAP_WRITE = 0x0002"
definition FILE_MAP_READ :: dword where "FILE_MAP_READ = 0x0004"
definition ERROR_NOT_LOCKED :: int where "ERROR_NOT_LOCKED = 158"

definition win_mark_shared_writable :: "backing \<Rightarrow> io_error + backing" where
  "win_mark_shared_writable b =
     Inl (io_new Unsupported ''a read-only file mapping cannot be made writable on Windows'')"

definition win_page_size :: "env \<Rightarrow> io_error + usize" where
  "win_page_size env =
     (let page = ucast (p_win_page (e_plat env))
      in if is_power_of_two page then Inr page
         else Inl (io_other ''GetSystemInfo reported an invalid page size''))"

definition win_offset_granularity :: "env \<Rightarrow> io_error + usize" where
  "win_offset_granularity env =
     (let gran = ucast (p_win_alloc (e_plat env))
      in if is_power_of_two gran then Inr gran
         else Inl (io_other ''GetSystemInfo reported an invalid allocation granularity''))"

definition split_u64 :: "u64 \<Rightarrow> dword \<times> dword" where
  "split_u64 v = (ucast (drop_bit 32 v), ucast (v AND 0xFFFFFFFF))"

text \<open>Create a section, map a view of it, close the section handle whether or not the view was
  mapped; the error of the view is the one reported.\<close>

definition map_view ::
  "env \<Rightarrow> fid option \<Rightarrow> dword \<Rightarrow> dword \<Rightarrow> u64 \<Rightarrow> u64 \<Rightarrow> usize \<Rightarrow> addr os_io" where
  "map_view env source protect acc max_size off len =
     (case split_u64 max_size of (max_high, max_low) \<Rightarrow>
      bind_se (os_call env (Win_CreateFileMapping source protect max_high max_low))
        (\<lambda>section w.
           case split_u64 off of (off_high, off_low) \<Rightarrow>
           (case os_call env (Win_MapViewOfFile section acc off_high off_low len) w of
              (view, w1) \<Rightarrow>
                (case os_call env (Win_CloseHandle section) w1 of
                   (_, w2) \<Rightarrow>
                     (case view of
                        Inl err \<Rightarrow> (Inl err, w2)
                      | Inr v \<Rightarrow>
                          if v = 0 then (Inl (io_other ''MapViewOfFile returned a null view''), w2)
                          else (Inr v, w2))))))"

definition win_map_file ::
  "env \<Rightarrow> fid \<Rightarrow> access \<Rightarrow> 64 region_layout \<Rightarrow> map_flags \<Rightarrow> (addr \<times> backing) os_io" where
  "win_map_file env f acc l extra =
     bind_se
       (case acc of
          Access_Read \<Rightarrow> return_se (PAGE_READONLY, FILE_MAP_READ, Backing_Private)
        | Access_Write \<Rightarrow>
            bind_se (os_call env (Fs_try_clone f))
              (\<lambda>_. return_se (PAGE_READWRITE, FILE_MAP_READ OR FILE_MAP_WRITE,
                               Backing_Shared (Some f)))
        | Access_Copy \<Rightarrow> return_se (PAGE_WRITECOPY, FILE_MAP_COPY, Backing_Private))
       (\<lambda>(protect, view_access, b).
          bind_se (map_view env (Some f) protect view_access 0 (aligned_offset l) (map_len l))
            (\<lambda>base. return_se (base, b)))"

definition win_map_anon :: "env \<Rightarrow> usize \<Rightarrow> map_flags \<Rightarrow> (addr \<times> backing \<times> usize) os_io" where
  "win_map_anon env len extra =
     bind_se
       (lift_se (ok_or (io_new InvalidInput (''anonymous mapping length '' @ show_word len
                   @ '' does not fit in u64''))
                  (word_try_from len :: u64 option)))
       (\<lambda>size. bind_se
          (map_view env None PAGE_READWRITE (FILE_MAP_READ OR FILE_MAP_WRITE) size 0 len)
          (\<lambda>base. return_se (base, Backing_Private, len)))"

definition win_flush :: "env \<Rightarrow> addr \<Rightarrow> usize \<Rightarrow> backing \<Rightarrow> flush_mode \<Rightarrow> unit os_io" where
  "win_flush env a count b mode =
     (case b of
        Backing_Private \<Rightarrow> return_se ()
      | Backing_Shared file \<Rightarrow>
          bind_se (os_call env (Win_FlushViewOfFile a count))
            (\<lambda>_. case (mode, file) of
                    (Flush_Sync, Some f) \<Rightarrow> os_call_unit env (Fs_sync_data f)
                  | _ \<Rightarrow> return_se ()))"

definition win_protect :: "env \<Rightarrow> addr \<Rightarrow> usize \<Rightarrow> protection \<Rightarrow> unit os_io" where
  "win_protect env base os_len prot =
     os_call_unit env
       (Win_VirtualProtect base os_len
          (case prot of
             Prot_ReadOnly \<Rightarrow> PAGE_READONLY
           | Prot_ReadWrite \<Rightarrow> PAGE_READWRITE
           | Prot_WriteCopy \<Rightarrow> PAGE_WRITECOPY))"

definition win_advise :: "env \<Rightarrow> addr \<Rightarrow> usize \<Rightarrow> mmap_advice \<Rightarrow> unit os_io" where
  "win_advise env a count advice =
     (if advice \<noteq> Adv_WillNeed then return_se ()
      else os_call_unit env (Win_PrefetchVirtualMemory a count))"

definition win_lock :: "env \<Rightarrow> addr \<Rightarrow> usize \<Rightarrow> bool \<Rightarrow> unit os_io" where
  "win_lock env a count lock w =
     (case os_call env (if lock then Win_VirtualLock a count else Win_VirtualUnlock a count) w of
        (Inr _, w') \<Rightarrow> (Inr (), w')
      | (Inl err, w') \<Rightarrow>
          if \<not> lock \<and> io_raw_os err = Some ERROR_NOT_LOCKED then (Inr (), w') else (Inl err, w'))"

definition win_unmap :: "env \<Rightarrow> addr \<Rightarrow> usize \<Rightarrow> world \<Rightarrow> world" where
  "win_unmap env base len w = snd (os_call env (Win_UnmapViewOfFile base) w)"

section \<open>Other targets\<close>

definition unsupported :: io_error where
  "unsupported = io_new Unsupported ''memory mapping is not supported on this target''"

section \<open>The selected backend\<close>

definition os_select :: "env \<Rightarrow> 'a \<Rightarrow> 'a \<Rightarrow> 'a \<Rightarrow> 'a" where
  "os_select env unix windows stub =
     (if is_unix (e_target env) then unix else if e_target env = Windows then windows else stub)"

definition os_page_size :: "env \<Rightarrow> io_error + usize" where
  "os_page_size env = os_select env (unix_page_size env) (win_page_size env) (Inl unsupported)"

definition offset_granularity :: "env \<Rightarrow> io_error + usize" where
  "offset_granularity env =
     os_select env (unix_offset_granularity env) (win_offset_granularity env) (Inl unsupported)"

definition os_mark_shared_writable :: "env \<Rightarrow> backing \<Rightarrow> io_error + backing" where
  "os_mark_shared_writable env b =
     os_select env (unix_mark_shared_writable b) (win_mark_shared_writable b) (Inl unsupported)"

definition os_map_file ::
  "env \<Rightarrow> fid \<Rightarrow> access \<Rightarrow> 64 region_layout \<Rightarrow> map_flags \<Rightarrow> (addr \<times> backing) os_io" where
  "os_map_file env f acc l extra =
     os_select env (unix_map_file env f acc l extra) (win_map_file env f acc l extra)
       (fail_se unsupported)"

definition os_map_anon :: "env \<Rightarrow> usize \<Rightarrow> map_flags \<Rightarrow> (addr \<times> backing \<times> usize) os_io" where
  "os_map_anon env len extra =
     os_select env (unix_map_anon env len extra) (win_map_anon env len extra) (fail_se unsupported)"

definition os_flush :: "env \<Rightarrow> addr \<Rightarrow> usize \<Rightarrow> backing \<Rightarrow> flush_mode \<Rightarrow> unit os_io" where
  "os_flush env a count b mode =
     os_select env (unix_flush env a count b mode) (win_flush env a count b mode)
       (fail_se unsupported)"

definition os_protect :: "env \<Rightarrow> addr \<Rightarrow> usize \<Rightarrow> protection \<Rightarrow> unit os_io" where
  "os_protect env base os_len prot =
     os_select env (unix_protect env base os_len prot) (win_protect env base os_len prot)
       (fail_se unsupported)"

definition os_advise :: "env \<Rightarrow> addr \<Rightarrow> usize \<Rightarrow> mmap_advice \<Rightarrow> unit os_io" where
  "os_advise env a count advice =
     os_select env (unix_advise env a count advice) (win_advise env a count advice)
       (fail_se unsupported)"

definition os_lock :: "env \<Rightarrow> addr \<Rightarrow> usize \<Rightarrow> bool \<Rightarrow> unit os_io" where
  "os_lock env a count lock =
     os_select env (unix_lock env a count lock) (win_lock env a count lock) (fail_se unsupported)"

definition os_unmap :: "env \<Rightarrow> addr \<Rightarrow> usize \<Rightarrow> world \<Rightarrow> world" where
  "os_unmap env base len = os_select env (unix_unmap env base len) (win_unmap env base len) (\<lambda>w. w)"

lemmas os_dispatch = os_page_size_def offset_granularity_def os_mark_shared_writable_def
  os_map_file_def os_map_anon_def os_flush_def os_protect_def os_advise_def os_lock_def os_unmap_def

section \<open>Which calls a computation issues\<close>

text \<open>\<open>emits P m\<close>: every call \<open>m\<close> adds to the trace satisfies \<open>P\<close>, and \<open>m\<close> only appends.\<close>

definition emits :: "(syscall \<Rightarrow> bool) \<Rightarrow> (world \<Rightarrow> 'r \<times> world) \<Rightarrow> bool" where
  "emits P m \<longleftrightarrow>
     (\<forall>w. \<exists>cs. w_trace (snd (m w)) = w_trace w @ cs \<and> list_all P cs)"

named_theorems emits_intro

lemma emitsD:
  "emits P m \<Longrightarrow> m w = (r, w') \<Longrightarrow> \<exists>cs. w_trace w' = w_trace w @ cs \<and> list_all P cs"
  unfolding emits_def by (metis snd_conv)

lemma emits_mono: "emits P m \<Longrightarrow> (\<And>c. P c \<Longrightarrow> Q c) \<Longrightarrow> emits Q m"
  unfolding emits_def by (blast intro: list.pred_mono_strong)

lemma emits_pure [emits_intro]:
  "emits P (return_se x)" "emits P (fail_se e)" "emits P (lift_se r)"
  by (simp_all add: emits_def)

lemma emits_call [emits_intro]: "P c \<Longrightarrow> emits P (os_call env c)"
  by (simp add: emits_def os_call_def)

lemma emits_bind [emits_intro]:
  assumes "emits P m" "\<And>x. emits P (f x)"
  shows "emits P (bind_se m f)"
  unfolding emits_def
proof
  fix w
  obtain r w1 where m: "m w = (r, w1)" by (cases "m w")
  from emitsD [OF assms(1) m] obtain cs where cs: "w_trace w1 = w_trace w @ cs" "list_all P cs"
    by auto
  show "\<exists>cs. w_trace (snd (bind_se m f w)) = w_trace w @ cs \<and> list_all P cs"
  proof (cases r)
    case (Inl e)
    with m cs show ?thesis by (auto simp: bind_se_def)
  next
    case (Inr x)
    obtain r' w2 where f: "f x w1 = (r', w2)" by (cases "f x w1")
    from emitsD [OF assms(2) f] obtain ds where "w_trace w2 = w_trace w1 @ ds" "list_all P ds"
      by auto
    with m Inr cs f show ?thesis
      by (intro exI [of _ "cs @ ds"]) (simp add: bind_se_def)
  qed
qed

lemma emits_if [emits_intro]: "(b \<Longrightarrow> emits P m) \<Longrightarrow> (\<not> b \<Longrightarrow> emits P n) \<Longrightarrow> emits P (if b then m else n)"
  by simp

lemma emits_map_err [emits_intro]: "emits P m \<Longrightarrow> emits P (map_err_se g m)"
  unfolding emits_def map_err_se_def by (simp add: case_prod_beta)

lemma emits_call_unit [emits_intro]: "P c \<Longrightarrow> emits P (os_call_unit env c)"
  by (simp add: os_call_unit_def emits_intro)

lemma os_call_unit_Inr:
  "os_call_unit env c w = (Inr u, w') \<longleftrightarrow>
     (\<exists>v. e_kern env (w_trace w) c = Inr v) \<and> w' = w\<lparr>w_trace := w_trace w @ [c]\<rparr>"
  by (auto simp: os_call_unit_def bind_se_Inr os_call_eq)

lemma os_call_unit_Inl:
  "os_call_unit env c w = (Inl e, w') \<longleftrightarrow>
     e_kern env (w_trace w) c = Inl e \<and> w' = w\<lparr>w_trace := w_trace w @ [c]\<rparr>"
  by (auto simp: os_call_unit_def bind_se_Inl os_call_eq)

section \<open>Computations that leave the files alone\<close>

definition same_files :: "world \<Rightarrow> world \<Rightarrow> bool" where
  "same_files w w' \<longleftrightarrow> w_data w' = w_data w \<and> w_dir w' = w_dir w \<and> w_next w' = w_next w"

definition quiet :: "(world \<Rightarrow> 'r \<times> world) \<Rightarrow> bool" where
  "quiet m \<longleftrightarrow> (\<forall>w. same_files w (snd (m w)))"

named_theorems quiet_intro

lemma same_files_refl [simp]: "same_files w w"
  by (simp add: same_files_def)

lemma same_files_trans: "same_files w w' \<Longrightarrow> same_files w' w'' \<Longrightarrow> same_files w w''"
  by (simp add: same_files_def)

lemma quietD: "quiet m \<Longrightarrow> m w = (r, w') \<Longrightarrow> same_files w w'"
  unfolding quiet_def by (metis snd_conv)

lemma quiet_pure [quiet_intro]: "quiet (return_se x)" "quiet (fail_se e)" "quiet (lift_se r)"
  by (simp_all add: quiet_def)

lemma quiet_call [quiet_intro]: "quiet (os_call env c)"
  by (simp add: quiet_def os_call_def same_files_def)

lemma quiet_bind [quiet_intro]: "quiet m \<Longrightarrow> (\<And>x. quiet (f x)) \<Longrightarrow> quiet (bind_se m f)"
  unfolding quiet_def bind_se_def
  by (auto split: prod.splits sum.splits simp: same_files_def) (metis snd_conv)+

lemma quiet_if [quiet_intro]: "(b \<Longrightarrow> quiet m) \<Longrightarrow> (\<not> b \<Longrightarrow> quiet n) \<Longrightarrow> quiet (if b then m else n)"
  by simp

lemma quiet_call_unit [quiet_intro]: "quiet (os_call_unit env c)"
  by (simp add: os_call_unit_def quiet_intro)

lemma quiet_os [quiet_intro]:
  "quiet (os_flush env a n b md)" "quiet (os_advise env a n adv)" "quiet (os_lock env a n lk)"
  "quiet (os_protect env a n p)" "quiet (start_writeback env f off len)"
proof -
  show "quiet (os_flush env a n b md)"
    by (auto simp: os_flush_def os_select_def unix_flush_def win_flush_def intro!: quiet_intro
        split: backing.splits flush_mode.splits option.splits)
  show "quiet (os_advise env a n adv)"
    by (auto simp: os_advise_def os_select_def unix_advise_def win_advise_def intro!: quiet_intro)
  have "quiet (win_lock env a n lk)"
    by (auto simp: quiet_def win_lock_def os_call_def same_files_def split: sum.splits)
  then show "quiet (os_lock env a n lk)"
    by (auto simp: os_lock_def os_select_def unix_lock_def intro!: quiet_intro)
  show "quiet (os_protect env a n p)"
    by (auto simp: os_protect_def os_select_def unix_protect_def win_protect_def intro!: quiet_intro)
  show "quiet (start_writeback env f off len)"
    by (auto simp: start_writeback_def intro!: quiet_intro)
qed

lemma os_unmap_files: "same_files w (os_unmap env a n w)"
  by (simp add: os_unmap_def os_select_def unix_unmap_def win_unmap_def os_call_def same_files_def)

section \<open>Facts about the backends\<close>

lemma os_page_size_pow: "os_page_size env = Inr p \<Longrightarrow> is_power_of_two p"
  by (auto simp: os_dispatch os_select_def unix_page_size_def win_page_size_def ok_or_Inr
      option_filter_Some Let_def split: if_splits)

lemma offset_granularity_pow: "offset_granularity env = Inr g \<Longrightarrow> is_power_of_two g"
  by (auto simp: os_dispatch os_select_def unix_offset_granularity_def unix_page_size_def
      win_offset_granularity_def ok_or_Inr option_filter_Some Let_def split: if_splits)

text \<open>Splitting an offset into two 32-bit halves loses nothing.\<close>

lemma split_u64_recombine:
  "split_u64 v = (hi, lo) \<Longrightarrow> unat hi * 2 ^ 32 + unat lo = unat v"
proof -
  assume s: "split_u64 v = (hi, lo)"
  have m: "(0xFFFFFFFF :: u64) = 2 ^ 32 - 1" by simp
  have pow: "is_power_of_two (2 ^ 32 :: u64)"
    by (rule is_power_of_twoI [of _ 32]) simp_all
  have lo: "unat lo = unat v mod 2 ^ 32"
  proof -
    have "unat (v AND 0xFFFFFFFF) = unat v mod 2 ^ 32"
      unfolding m by (subst and_power_minus_one [OF pow]) simp
    with s show ?thesis
      by (auto simp: split_u64_def unsigned_ucast_eq take_bit_eq_mod)
  qed
  have "unat (drop_bit 32 v) = unat v div 2 ^ 32"
    using unat_bound [of v]
    by (simp only: unsigned_drop_bit_eq take_bit_nat_eq_self) (simp only: drop_bit_eq_div)
  moreover have "unat v div 2 ^ 32 < 2 ^ 32"
    using unat_bound [of v] by (simp add: less_mult_imp_div_less)
  ultimately have hi: "unat hi = unat v div 2 ^ 32"
    using s by (auto simp: split_u64_def unsigned_ucast_eq take_bit_nat_eq_self)
  show ?thesis by (simp add: hi lo)
qed

lemma huge_page_size_pow: "is_power_of_two (huge_page_size env)"
proof -
  have "is_power_of_two (2 * 1024 * 1024 :: usize)"
    by (rule is_power_of_twoI [of _ 21]) simp_all
  then show ?thesis
    by (auto simp: huge_page_size_def Let_def option_filter_def split: option.splits)
qed

lemma huge_layout_ok:
  assumes "huge_layout env len extra = Inr (n, fl)" "unat len \<le> unat (MAX_LEN :: usize)"
  shows "unat len \<le> unat n" "unat n \<le> unat (MAX_LEN :: usize)"
proof -
  let ?h = "huge_page_size env"
  have "unat len \<le> unat n \<and> unat n \<le> unat (MAX_LEN :: usize)"
  proof (cases "e_target env \<in> {Linux, Android} \<and> f_huge extra")
    case True
    with assms(1) obtain c where c: "checked_add len (?h - 1) = Some c"
      and n: "n = c AND NOT (?h - 1)" and le: "n \<le> MAX_LEN"
      by (auto simp: huge_layout_def Let_def result_bind_Inr ok_or_Inr option_filter_Some)
    have "(1::usize) \<le> ?h"
      using is_power_of_two_pos [OF huge_page_size_pow] by (simp add: word_le_unat Suc_leI)
    then have "unat c = unat len + (unat ?h - 1)"
      using c by (simp add: checked_add_Some unat_sub_exact)
    moreover have "unat n = unat c - unat c mod unat ?h"
      unfolding n by (rule and_not_power_minus_one [OF huge_page_size_pow])
    moreover have "unat c mod unat ?h < unat ?h"
      using is_power_of_two_pos [OF huge_page_size_pow] by simp
    ultimately have "unat len \<le> unat n" by linarith
    with le show ?thesis by (simp add: word_le_unat)
  next
    case False
    with assms show ?thesis by (auto simp: huge_layout_def)
  qed
  then show "unat len \<le> unat n" "unat n \<le> unat (MAX_LEN :: usize)" by simp_all
qed

end
