(* ===== verification/Byte_Store.thy ===== *)
theory Byte_Store
  imports Prelude
begin

text \<open>
  The interface of byte-addressed memory that the layers above a mapping rely on: a state with
  contents of a fixed length, and stores that overwrite a range inside them. The client lemmas
  (a read returns what was stored, a store leaves every other range alone, stores to disjoint
  ranges commute, a sequence of stores) are proved here once, for every provider.
\<close>

locale byte_store =
  fixes contents :: "'s \<Rightarrow> byte list"
    and store :: "nat \<Rightarrow> byte list \<Rightarrow> 's \<Rightarrow> 's"
    and valid :: "'s \<Rightarrow> bool"
  assumes store_valid: "valid s \<Longrightarrow> off + length d \<le> length (contents s) \<Longrightarrow> valid (store off d s)"
    and contents_store: "valid s \<Longrightarrow> off + length d \<le> length (contents s) \<Longrightarrow>
          contents (store off d s) = splice_at (contents s) off d"
begin

lemma store_length:
  "valid s \<Longrightarrow> off + length d \<le> length (contents s) \<Longrightarrow>
     length (contents (store off d s)) = length (contents s)"
  by (simp add: contents_store length_splice_at)

lemma read_after_store:
  "valid s \<Longrightarrow> off + length d \<le> length (contents s) \<Longrightarrow>
     sub_slice (contents (store off d s)) off (off + length d) = d"
  by (simp add: contents_store slice_splice_same)

lemma read_elsewhere:
  "valid s \<Longrightarrow> off + length d \<le> length (contents s) \<Longrightarrow> b \<le> off \<or> off + length d \<le> a \<Longrightarrow>
     sub_slice (contents (store off d s)) a b = sub_slice (contents s) a b"
  by (simp add: contents_store slice_splice_disjoint)

lemma byte_after_store:
  "valid s \<Longrightarrow> off + length d \<le> length (contents s) \<Longrightarrow> i < length (contents s) \<Longrightarrow>
     contents (store off d s) ! i =
       (if off \<le> i \<and> i < off + length d then d ! (i - off) else contents s ! i)"
  by (simp add: contents_store nth_splice_at)

lemma store_empty:
  "valid s \<Longrightarrow> off \<le> length (contents s) \<Longrightarrow> contents (store off [] s) = contents s"
  by (simp add: contents_store splice_at_def)

lemma disjoint_stores_commute:
  assumes "valid s" "i + length x \<le> length (contents s)" "j + length y \<le> length (contents s)"
    and "i + length x \<le> j \<or> j + length y \<le> i"
  shows "contents (store j y (store i x s)) = contents (store i x (store j y s))"
proof (rule nth_equalityI)
  show "length (contents (store j y (store i x s))) = length (contents (store i x (store j y s)))"
    using assms by (simp add: store_length store_valid)
next
  fix k assume "k < length (contents (store j y (store i x s)))"
  then have "k < length (contents s)"
    using assms by (simp add: store_length store_valid)
  then show "contents (store j y (store i x s)) ! k = contents (store i x (store j y s)) ! k"
    using assms by (auto simp: byte_after_store store_length store_valid)
qed

lemma adjacent_stores:
  assumes "valid s" "i + length x + length y \<le> length (contents s)"
  shows "contents (store (i + length x) y (store i x s)) = contents (store i (x @ y) s)"
proof (rule nth_equalityI)
  show "length (contents (store (i + length x) y (store i x s))) = length (contents (store i (x @ y) s))"
    using assms by (simp add: store_length store_valid)
next
  fix k assume "k < length (contents (store (i + length x) y (store i x s)))"
  then have "k < length (contents s)"
    using assms by (simp add: store_length store_valid)
  then show "contents (store (i + length x) y (store i x s)) ! k = contents (store i (x @ y) s) ! k"
    using assms by (auto simp: byte_after_store store_length store_valid nth_append)
qed

end

end
