(* ===== verification/Raw.thy ===== *)
theory Raw
  imports Raw_Os Byte_Store
begin

text \<open>
  \<open>src/raw/mod.rs\<close>: one operating-system mapping (\<open>Mapping\<close>), the options builder and the
  constructors, ranged calls, protection changes and the drop. \<open>RawMmap\<close> and \<open>RawMmapMut\<close> are
  wrappers around a \<open>Mapping\<close> and share its operations.

  The bytes a mapping shows are the window of the file's contents for the shared kinds, so a
  store reaches the file and every other mapping of it, and bytes of its own for the private
  kinds (copy-on-write and anonymous), as the constructors document.
\<close>

section \<open>State\<close>

datatype mem_ref = Window fid nat | Private_Bytes "byte list"

record mapping =
  m_ptr :: addr
  m_len :: usize
  m_delta :: usize
  m_os_len :: usize
  m_backing :: backing
  m_kind :: map_kind
  m_mem :: mem_ref

record raw_options =
  ro_offset :: u64
  ro_len :: "usize option"
  ro_flags :: map_flags

section \<open>\<open>Kind\<close> and the options builder\<close>

fun is_private :: "map_kind \<Rightarrow> bool" where
  "is_private Kind_Copy = True"
| "is_private Kind_Anon = True"
| "is_private _ = False"

definition options_new :: raw_options where
  "options_new = \<lparr>ro_offset = 0, ro_len = None, ro_flags = \<lparr>f_populate = False, f_huge = False\<rparr>\<rparr>"

definition options_offset :: "u64 \<Rightarrow> raw_options \<Rightarrow> raw_options" where
  "options_offset off ro = ro\<lparr>ro_offset := off\<rparr>"

definition options_len :: "usize \<Rightarrow> raw_options \<Rightarrow> raw_options" where
  "options_len n ro = ro\<lparr>ro_len := Some n\<rparr>"

definition options_populate :: "raw_options \<Rightarrow> raw_options" where
  "options_populate ro = ro\<lparr>ro_flags := (ro_flags ro)\<lparr>f_populate := True\<rparr>\<rparr>"

definition options_huge :: "raw_options \<Rightarrow> raw_options" where
  "options_huge ro = ro\<lparr>ro_flags := (ro_flags ro)\<lparr>f_huge := True\<rparr>\<rparr>"

section \<open>\<open>Mapping\<close>\<close>

definition mapping_empty :: "usize \<Rightarrow> map_kind \<Rightarrow> mapping" where
  "mapping_empty align k =
     \<lparr>m_ptr = (if align = 0 then 1 else align), m_len = 0, m_delta = 0, m_os_len = 0,
      m_backing = Backing_Private, m_kind = k, m_mem = Private_Bytes []\<rparr>"

definition from_os ::
  "addr \<Rightarrow> 64 region_layout \<Rightarrow> usize \<Rightarrow> backing \<Rightarrow> map_kind \<Rightarrow> mem_ref \<Rightarrow> mapping" where
  "from_os base l os_len b k mem =
     \<lparr>m_ptr = base + delta l, m_len = l_len l, m_delta = delta l, m_os_len = os_len,
      m_backing = b, m_kind = k, m_mem = mem\<rparr>"

definition mapping_base :: "mapping \<Rightarrow> addr" where
  "mapping_base m = m_ptr m - m_delta m"

text \<open>\<open>as_slice\<close>: the mapped bytes.\<close>

definition mapping_bytes :: "world \<Rightarrow> mapping \<Rightarrow> byte list" where
  "mapping_bytes w m =
     (case m_mem m of
        Window f off \<Rightarrow> sub_slice (w_data w f) off (off + unat (m_len m))
      | Private_Bytes bs \<Rightarrow> bs)"

text \<open>A write through \<open>as_mut_slice\<close>: \<open>map[s..s + d.len()].copy_from_slice(d)\<close>.\<close>

definition mapping_store :: "nat \<Rightarrow> byte list \<Rightarrow> mapping \<times> world \<Rightarrow> mapping \<times> world" where
  "mapping_store s d = (\<lambda>(m, w).
     case m_mem m of
       Window f off \<Rightarrow> (m, w\<lparr>w_data := (w_data w)(f := splice_at (w_data w f) (off + s) d)\<rparr>)
     | Private_Bytes bs \<Rightarrow> (m\<lparr>m_mem := Private_Bytes (splice_at bs s d)\<rparr>, w))"

definition mapping_span :: "env \<Rightarrow> mapping \<Rightarrow> usize \<Rightarrow> usize \<Rightarrow> io_error + (addr \<times> usize) option" where
  "mapping_span env m off len =
     result_bind (os_page_size env)
       (\<lambda>page. result_bind (flush_span (m_delta m) (m_len m) off len page)
          (\<lambda>sp. Inr (map_option (\<lambda>(start, count). (mapping_base m + start, count)) sp)))"

definition mapping_flush :: "env \<Rightarrow> mapping \<Rightarrow> usize \<Rightarrow> usize \<Rightarrow> flush_mode \<Rightarrow> unit os_io" where
  "mapping_flush env m off len mode =
     bind_se (lift_se (mapping_span env m off len))
       (\<lambda>sp. case sp of
               None \<Rightarrow> return_se ()
             | Some (a, count) \<Rightarrow> os_flush env a count (m_backing m) mode)"

definition mapping_advise :: "env \<Rightarrow> mapping \<Rightarrow> mmap_advice \<Rightarrow> usize \<Rightarrow> usize \<Rightarrow> unit os_io" where
  "mapping_advise env m advice off len =
     bind_se (lift_se (mapping_span env m off len))
       (\<lambda>sp. if advice = Adv_DontNeed \<and> is_private (m_kind m)
              then fail_se (io_new InvalidInput
                     ''DontNeed is refused on private (copy-on-write or anonymous) mappings'')
              else (case sp of
                      None \<Rightarrow> return_se ()
                    | Some (a, count) \<Rightarrow> os_advise env a count advice))"

definition mapping_lock :: "env \<Rightarrow> mapping \<Rightarrow> bool \<Rightarrow> unit os_io" where
  "mapping_lock env m lock =
     bind_se (lift_se (mapping_span env m 0 (m_len m)))
       (\<lambda>sp. case sp of
               None \<Rightarrow> return_se ()
             | Some (a, count) \<Rightarrow> os_lock env a count lock)"

text \<open>\<open>Drop for Mapping\<close>\<close>

definition mapping_drop :: "env \<Rightarrow> mapping \<Rightarrow> world \<Rightarrow> world" where
  "mapping_drop env m w = (if m_len m = 0 then w else os_unmap env (mapping_base m) (m_os_len m) w)"

text \<open>\<open>protect\<close> takes the mapping by value: on an error it is dropped.\<close>

definition mapping_protect :: "env \<Rightarrow> mapping \<Rightarrow> protection \<Rightarrow> mapping os_io" where
  "mapping_protect env m prot =
     (if m_len m = 0 then return_se m
      else (\<lambda>w. case os_protect env (mapping_base m) (m_os_len m) prot w of
              (Inl e, w') \<Rightarrow> (Inl e, mapping_drop env m w')
            | (Inr _, w') \<Rightarrow> (Inr m, w')))"

definition into_writable :: "env \<Rightarrow> mapping \<Rightarrow> mapping os_io" where
  "into_writable env m =
     (case m_kind m of
        Kind_Read \<Rightarrow>
          if m_len m > 0
          then (case os_mark_shared_writable env (m_backing m) of
                  Inl e \<Rightarrow> (\<lambda>w. (Inl e, mapping_drop env m w))
                | Inr b \<Rightarrow> mapping_protect env (m\<lparr>m_backing := b, m_kind := Kind_Write\<rparr>) Prot_ReadWrite)
          else mapping_protect env (m\<lparr>m_kind := Kind_Write\<rparr>) Prot_ReadWrite
      | Kind_Write \<Rightarrow> mapping_protect env m Prot_ReadWrite
      | Kind_Anon \<Rightarrow> mapping_protect env m Prot_ReadWrite
      | Kind_Copy \<Rightarrow> mapping_protect env m Prot_WriteCopy)"

section \<open>Constructors\<close>

fun access_kind :: "access \<Rightarrow> map_kind" where
  "access_kind Access_Read = Kind_Read"
| "access_kind Access_Write = Kind_Write"
| "access_kind Access_Copy = Kind_Copy"

text \<open>What the new mapping shows: the file's window, shared or as a private copy.\<close>

definition access_mem :: "world \<Rightarrow> fid \<Rightarrow> access \<Rightarrow> u64 \<Rightarrow> usize \<Rightarrow> mem_ref" where
  "access_mem w f acc off len =
     (if acc = Access_Copy
      then Private_Bytes (sub_slice (w_data w f) (unat off) (unat off + unat len))
      else Window f (unat off))"

definition map_impl :: "env \<Rightarrow> raw_options \<Rightarrow> fid \<Rightarrow> access \<Rightarrow> mapping os_io" where
  "map_impl env ro f acc =
     bind_se (lift_se (offset_granularity env)) (\<lambda>gran.
     bind_se (fs_metadata_len env f) (\<lambda>flen.
     bind_se (lift_se (resolve_len flen (ro_offset ro) (ro_len ro) MAX_LEN)) (\<lambda>len.
     bind_se (lift_se (layout (ro_offset ro) len gran MAX_LEN)) (\<lambda>l.
       if l_len l = 0 then return_se (mapping_empty gran (access_kind acc))
       else bind_se (os_map_file env f acc l (ro_flags ro)) (\<lambda>(base, b) w.
              (Inr (from_os base l (map_len l) b (access_kind acc)
                      (access_mem w f acc (ro_offset ro) (l_len l))), w))))))"

definition raw_map :: "env \<Rightarrow> raw_options \<Rightarrow> fid \<Rightarrow> mapping os_io" where
  "raw_map env ro f = map_impl env ro f Access_Read"

definition raw_map_mut :: "env \<Rightarrow> raw_options \<Rightarrow> fid \<Rightarrow> mapping os_io" where
  "raw_map_mut env ro f = map_impl env ro f Access_Write"

definition raw_map_copy :: "env \<Rightarrow> raw_options \<Rightarrow> fid \<Rightarrow> mapping os_io" where
  "raw_map_copy env ro f = map_impl env ro f Access_Copy"

definition raw_map_anon :: "env \<Rightarrow> raw_options \<Rightarrow> mapping os_io" where
  "raw_map_anon env ro =
     bind_se (lift_se (offset_granularity env)) (\<lambda>gran.
     bind_se (lift_se (layout 0 (case ro_len ro of Some n \<Rightarrow> n | None \<Rightarrow> 0) gran MAX_LEN)) (\<lambda>l.
       if l_len l = 0 then return_se (mapping_empty gran Kind_Anon)
       else bind_se (os_map_anon env (map_len l) (ro_flags ro)) (\<lambda>(base, b, os_len).
              return_se (from_os base l os_len b Kind_Anon
                           (Private_Bytes (replicate (unat (l_len l)) 0))))))"

text \<open>\<open>RawMmap::map\<close>, \<open>RawMmapMut::map_mut\<close>, \<open>RawMmapMut::map_anon\<close>\<close>

definition rawmmap_map :: "env \<Rightarrow> fid \<Rightarrow> mapping os_io" where
  "rawmmap_map env f = raw_map env options_new f"

definition rawmmapmut_map_mut :: "env \<Rightarrow> fid \<Rightarrow> mapping os_io" where
  "rawmmapmut_map_mut env f = raw_map_mut env options_new f"

definition rawmmapmut_map_anon :: "env \<Rightarrow> usize \<Rightarrow> mapping os_io" where
  "rawmmapmut_map_anon env len = raw_map_anon env (options_len len options_new)"

section \<open>Methods of \<open>RawMmap\<close> and \<open>RawMmapMut\<close>\<close>

definition raw_flush :: "env \<Rightarrow> mapping \<Rightarrow> unit os_io" where
  "raw_flush env m = mapping_flush env m 0 (m_len m) Flush_Sync"

definition raw_flush_async :: "env \<Rightarrow> mapping \<Rightarrow> unit os_io" where
  "raw_flush_async env m = mapping_flush env m 0 (m_len m) Flush_Async"

definition raw_flush_range :: "env \<Rightarrow> mapping \<Rightarrow> usize \<Rightarrow> usize \<Rightarrow> unit os_io" where
  "raw_flush_range env m off len = mapping_flush env m off len Flush_Sync"

definition raw_flush_async_range :: "env \<Rightarrow> mapping \<Rightarrow> usize \<Rightarrow> usize \<Rightarrow> unit os_io" where
  "raw_flush_async_range env m off len = mapping_flush env m off len Flush_Async"

definition raw_advise :: "env \<Rightarrow> mapping \<Rightarrow> mmap_advice \<Rightarrow> unit os_io" where
  "raw_advise env m advice = mapping_advise env m advice 0 (m_len m)"

definition raw_advise_range :: "env \<Rightarrow> mapping \<Rightarrow> mmap_advice \<Rightarrow> usize \<Rightarrow> usize \<Rightarrow> unit os_io" where
  "raw_advise_range env m advice off len = mapping_advise env m advice off len"

definition raw_lock :: "env \<Rightarrow> mapping \<Rightarrow> unit os_io" where
  "raw_lock env m = mapping_lock env m True"

definition raw_unlock :: "env \<Rightarrow> mapping \<Rightarrow> unit os_io" where
  "raw_unlock env m = mapping_lock env m False"

definition make_mut :: "env \<Rightarrow> mapping \<Rightarrow> mapping os_io" where
  "make_mut env m = into_writable env m"

definition make_read_only :: "env \<Rightarrow> mapping \<Rightarrow> mapping os_io" where
  "make_read_only env m = mapping_protect env m Prot_ReadOnly"

text \<open>\<open>len\<close>, \<open>is_empty\<close>, \<open>as_ptr\<close>, and the platform calls handed to the managed layer.\<close>

definition raw_len :: "mapping \<Rightarrow> usize" where
  "raw_len m = m_len m"

definition raw_is_empty :: "mapping \<Rightarrow> bool" where
  "raw_is_empty m \<longleftrightarrow> m_len m = 0"

definition raw_as_ptr :: "mapping \<Rightarrow> addr" where
  "raw_as_ptr m = m_ptr m"

definition advise_span :: "env \<Rightarrow> addr \<Rightarrow> usize \<Rightarrow> mmap_advice \<Rightarrow> unit os_io" where
  "advise_span env a count advice = os_advise env a count advice"

definition lock_span :: "env \<Rightarrow> addr \<Rightarrow> usize \<Rightarrow> bool \<Rightarrow> unit os_io" where
  "lock_span env a count lock = os_lock env a count lock"

section \<open>The invariant\<close>

text \<open>
  The struct invariant the source documents: no operating-system mapping for a zero length;
  otherwise the mapping is \<open>os_len\<close> bytes with \<open>delta + len \<le> os_len \<le> isize::MAX\<close>; the shared
  kinds show a window inside the file, the private kinds own their bytes.
\<close>

definition mapping_ok :: "world \<Rightarrow> mapping \<Rightarrow> bool" where
  "mapping_ok w m \<longleftrightarrow>
     (if m_len m = 0 then m_os_len m = 0 \<and> m_mem m = Private_Bytes []
      else unat (m_delta m) + unat (m_len m) \<le> unat (m_os_len m)
        \<and> unat (m_os_len m) \<le> unat (MAX_LEN :: usize)
        \<and> (case m_mem m of
             Window f off \<Rightarrow> \<not> is_private (m_kind m)
                               \<and> off + unat (m_len m) \<le> length (w_data w f)
           | Private_Bytes bs \<Rightarrow> is_private (m_kind m) \<and> length bs = unat (m_len m)))"

lemma mapping_ok_empty [simp]: "mapping_ok w (mapping_empty align k)"
  by (simp add: mapping_ok_def mapping_empty_def)

lemma length_mapping_bytes: "mapping_ok w m \<Longrightarrow> length (mapping_bytes w m) = unat (m_len m)"
  by (auto simp: mapping_ok_def mapping_bytes_def byte_list split: if_splits mem_ref.splits)

lemma mapping_len_bound: "mapping_ok w m \<Longrightarrow> unat (m_len m) < 2 ^ 63"
  by (auto simp: mapping_ok_def unat_MAX_LEN split: if_splits)

text \<open>A store keeps the invariant and overwrites exactly the range.\<close>

lemma mapping_store_ok:
  assumes "mapping_ok w m" "s + length d \<le> unat (m_len m)" "mapping_store s d (m, w) = (m', w')"
  shows "mapping_ok w' m'"
    and "mapping_bytes w' m' = splice_at (mapping_bytes w m) s d"
    and "m_len m' = m_len m"
proof -
  show "mapping_ok w' m'"
    using assms by (auto simp: mapping_ok_def mapping_store_def byte_list split: mem_ref.splits if_splits)
  show "m_len m' = m_len m"
    using assms by (auto simp: mapping_store_def split: mem_ref.splits)
  show "mapping_bytes w' m' = splice_at (mapping_bytes w m) s d"
  proof (cases "m_mem m")
    case (Private_Bytes bs)
    with assms show ?thesis by (auto simp: mapping_store_def mapping_bytes_def)
  next
    case (Window f off)
    have len: "off + unat (m_len m) \<le> length (w_data w f)"
      using assms(1) Window by (auto simp: mapping_ok_def split: if_splits)
    let ?n = "unat (m_len m)" and ?bs = "w_data w f"
    have "sub_slice (splice_at ?bs (off + s) d) off (off + ?n) = splice_at (sub_slice ?bs off (off + ?n)) s d"
    proof (rule nth_equalityI)
      show "length (sub_slice (splice_at ?bs (off + s) d) off (off + ?n)) =
          length (splice_at (sub_slice ?bs off (off + ?n)) s d)"
        using len assms(2) by (simp add: byte_list)
    next
      fix i assume "i < length (sub_slice (splice_at ?bs (off + s) d) off (off + ?n))"
      then have i: "i < ?n" using len assms(2) by (simp add: byte_list)
      then show "sub_slice (splice_at ?bs (off + s) d) off (off + ?n) ! i =
          splice_at (sub_slice ?bs off (off + ?n)) s d ! i"
        using len assms(2) by (auto simp: byte_list)
    qed
    with Window assms(3) show ?thesis by (auto simp: mapping_store_def mapping_bytes_def)
  qed
qed

text \<open>A mapping with the files behind it provides the byte-store interface.\<close>

definition mapped_bytes :: "mapping \<times> world \<Rightarrow> byte list" where
  "mapped_bytes mw = mapping_bytes (snd mw) (fst mw)"

definition mapped_ok :: "mapping \<times> world \<Rightarrow> bool" where
  "mapped_ok mw \<longleftrightarrow> mapping_ok (snd mw) (fst mw)"

interpretation mapped: byte_store mapped_bytes mapping_store mapped_ok
proof
  fix mw :: "mapping \<times> world" and off and d :: "byte list"
  assume a: "mapped_ok mw" "off + length d \<le> length (mapped_bytes mw)"
  obtain m w m' w' where mw: "mw = (m, w)" "mapping_store off d (m, w) = (m', w')"
    by (metis surj_pair)
  have "mapping_ok w m" "off + length d \<le> unat (m_len m)"
    using a mw by (simp_all add: mapped_ok_def mapped_bytes_def length_mapping_bytes)
  from mapping_store_ok [OF this mw(2)]
  show "mapped_ok (mapping_store off d mw)"
    and "mapped_bytes (mapping_store off d mw) = splice_at (mapped_bytes mw) off d"
    by (simp_all add: mw mapped_ok_def mapped_bytes_def)
qed

lemma mapping_ok_cong: "w_data w' = w_data w \<Longrightarrow> mapping_ok w' m = mapping_ok w m"
  by (simp add: mapping_ok_def split: mem_ref.splits)

lemma mapping_bytes_cong: "w_data w' = w_data w \<Longrightarrow> mapping_bytes w' m = mapping_bytes w m"
  by (simp add: mapping_bytes_def split: mem_ref.splits)

lemma quiet_ranged [quiet_intro]:
  "quiet (mapping_flush env m off len md)" "quiet (mapping_advise env m adv off len)"
  "quiet (mapping_lock env m lk)"
  unfolding mapping_flush_def mapping_advise_def mapping_lock_def
  by (auto intro!: quiet_intro split: option.splits)

lemma mapping_drop_files: "same_files w (mapping_drop env m w)"
  by (simp add: mapping_drop_def os_unmap_files)

section \<open>What a constructor gives\<close>

lemma os_map_file_data:
  assumes "os_map_file env f acc l fl w = (r, w')"
  shows "w_data w' = w_data w" "w_dir w' = w_dir w" "w_next w' = w_next w"
  using assms
  by (auto simp: os_dispatch os_select_def unix_map_file_def win_map_file_def unix_finish_def
      map_view_def bind_se_def os_call_def Let_def return_se_def fail_se_def
      split: if_splits access.splits sum.splits prod.splits)

lemma os_map_anon_data:
  assumes "os_map_anon env len fl w = (r, w')"
  shows "w_data w' = w_data w" "w_dir w' = w_dir w" "w_next w' = w_next w"
  using assms
  by (auto simp: os_dispatch os_select_def unix_map_anon_def win_map_anon_def unix_finish_def
      map_view_def bind_se_def os_call_def Let_def return_se_def fail_se_def lift_se_def
      split: if_splits sum.splits prod.splits)

lemma map_impl_data:
  assumes "map_impl env ro f acc w = (r, w')"
  shows "w_data w' = w_data w" "w_dir w' = w_dir w" "w_next w' = w_next w"
proof -
  have "w_data w' = w_data w \<and> w_dir w' = w_dir w \<and> w_next w' = w_next w"
    using assms os_map_file_data
    by (auto simp: map_impl_def bind_se_def fs_metadata_len_def os_call_def
        split: sum.splits prod.splits if_splits)
  then show "w_data w' = w_data w" "w_dir w' = w_dir w" "w_next w' = w_next w" by simp_all
qed

text \<open>The length a window request resolves to.\<close>

definition window_len :: "nat \<Rightarrow> raw_options \<Rightarrow> nat" where
  "window_len flen ro = (case ro_len ro of Some n \<Rightarrow> unat n | None \<Rightarrow> flen - unat (ro_offset ro))"

lemma map_impl_ok:
  assumes "map_impl env ro f acc w = (Inr m, w')" "length (w_data w f) < 2 ^ 63"
  shows "mapping_ok w' m"
    and "m_kind m = access_kind acc"
    and "unat (m_len m) = window_len (length (w_data w f)) ro"
    and "unat (ro_offset ro) + unat (m_len m) \<le> length (w_data w f)"
    and "mapping_bytes w' m =
           sub_slice (w_data w f) (unat (ro_offset ro)) (unat (ro_offset ro) + unat (m_len m))"
    and "m_mem m = (if m_len m = 0 then Private_Bytes [] else access_mem w f acc (ro_offset ro) (m_len m))"
proof -
  have flen: "unat (file_len w f) = length (w_data w f)"
    using assms(2) by (rule unat_file_len)
  from assms(1) obtain gran len l w1 where
    rl: "resolve_len (file_len w f) (ro_offset ro) (ro_len ro) MAX_LEN = Inr len"
    and lay: "layout (ro_offset ro) len gran MAX_LEN = Inr l"
    and w1: "w1 = w\<lparr>w_trace := w_trace w @ [Fs_metadata f]\<rparr>"
    and rest: "(if l_len l = 0 then return_se (mapping_empty gran (access_kind acc))
       else bind_se (os_map_file env f acc l (ro_flags ro)) (\<lambda>(base, b) w.
              (Inr (from_os base l (map_len l) b (access_kind acc)
                      (access_mem w f acc (ro_offset ro) (l_len l))), w))) w1 = (Inr m, w')"
    unfolding map_impl_def by (auto simp: bind_se_Inr fs_metadata_len_Inr)
  note L = layout_ok [OF lay]
  have len: "unat (ro_offset ro) + unat len \<le> length (w_data w f)"
      "unat len = window_len (length (w_data w f)) ro"
    using rl by (auto simp: resolve_len_Inr flen window_len_def split: option.splits)
  have "mapping_ok w' m \<and> m_kind m = access_kind acc \<and> m_len m = len \<and>
      mapping_bytes w' m = sub_slice (w_data w f) (unat (ro_offset ro)) (unat (ro_offset ro) + unat len) \<and>
      m_mem m = (if m_len m = 0 then Private_Bytes [] else access_mem w f acc (ro_offset ro) (m_len m))"
  proof (cases "l_len l = 0")
    case True
    with rest have "m = mapping_empty gran (access_kind acc)" by simp
    with True L show ?thesis by (simp add: mapping_empty_def mapping_ok_def mapping_bytes_def)
  next
    case False
    with rest obtain base b where os: "os_map_file env f acc l (ro_flags ro) w1 = (Inr (base, b), w')"
      and m: "m = from_os base l (map_len l) b (access_kind acc)
                   (access_mem w' f acc (ro_offset ro) (l_len l))"
      by (auto simp: bind_se_Inr)
    have data: "w_data w' = w_data w"
      using os_map_file_data [OF os] w1 by simp
    have pos: "len \<noteq> 0" using False L by simp
    show ?thesis
      using L len pos data
      by (cases acc) (auto simp: m from_os_def mapping_ok_def mapping_bytes_def access_mem_def byte_list)
  qed
  then show "mapping_ok w' m" "m_kind m = access_kind acc"
    "unat (m_len m) = window_len (length (w_data w f)) ro"
    "unat (ro_offset ro) + unat (m_len m) \<le> length (w_data w f)"
    "mapping_bytes w' m =
       sub_slice (w_data w f) (unat (ro_offset ro)) (unat (ro_offset ro) + unat (m_len m))"
    "m_mem m = (if m_len m = 0 then Private_Bytes [] else access_mem w f acc (ro_offset ro) (m_len m))"
    using len by simp_all
qed

lemma os_map_anon_len:
  assumes "os_map_anon env len fl w = (Inr (base, b, os_len), w')" "unat len \<le> unat (MAX_LEN :: usize)"
  shows "unat len \<le> unat os_len" "unat os_len \<le> unat (MAX_LEN :: usize)"
proof -
  have "unat len \<le> unat os_len \<and> unat os_len \<le> unat (MAX_LEN :: usize)"
  proof (cases "is_unix (e_target env)")
    case True
    with assms(1) obtain hf where "huge_layout env len fl = Inr (os_len, hf)"
      by (auto simp: os_dispatch os_select_def unix_map_anon_def bind_se_Inr split: prod.splits)
    from huge_layout_ok [OF this assms(2)] show ?thesis by simp
  next
    case False
    with assms show ?thesis
      by (auto simp: os_dispatch os_select_def win_map_anon_def bind_se_Inr split: if_splits)
  qed
  then show "unat len \<le> unat os_len" "unat os_len \<le> unat (MAX_LEN :: usize)" by simp_all
qed

lemma raw_map_anon_ok:
  assumes "raw_map_anon env ro w = (Inr m, w')"
  shows "mapping_ok w' m" and "m_kind m = Kind_Anon"
    and "m_len m = (case ro_len ro of Some n \<Rightarrow> n | None \<Rightarrow> 0)"
    and "mapping_bytes w' m = replicate (unat (m_len m)) 0"
    and "w_data w' = w_data w"
proof -
  let ?n = "case ro_len ro of Some n \<Rightarrow> n | None \<Rightarrow> 0"
  from assms obtain gran l where lay: "layout 0 ?n gran MAX_LEN = Inr l"
    and rest: "(if l_len l = 0 then return_se (mapping_empty gran Kind_Anon)
       else bind_se (os_map_anon env (map_len l) (ro_flags ro)) (\<lambda>(base, b, os_len).
              return_se (from_os base l os_len b Kind_Anon
                           (Private_Bytes (replicate (unat (l_len l)) 0))))) w = (Inr m, w')"
    unfolding raw_map_anon_def by (auto simp: bind_se_Inr)
  note L = layout_ok [OF lay]
  have "mapping_ok w' m \<and> m_kind m = Kind_Anon \<and> m_len m = ?n \<and>
      mapping_bytes w' m = replicate (unat (m_len m)) 0 \<and> w_data w' = w_data w"
  proof (cases "l_len l = 0")
    case True
    with rest have "m = mapping_empty gran Kind_Anon" "w' = w" by simp_all
    with True L show ?thesis by (simp add: mapping_empty_def mapping_ok_def mapping_bytes_def)
  next
    case False
    with rest obtain base b os_len where
      os: "os_map_anon env (map_len l) (ro_flags ro) w = (Inr (base, b, os_len), w')"
      and m: "m = from_os base l os_len b Kind_Anon (Private_Bytes (replicate (unat (l_len l)) 0))"
      by (auto simp: bind_se_Inr)
    have "unat (map_len l) \<le> unat (MAX_LEN :: usize)" using L by simp
    from os_map_anon_len [OF os this] os_map_anon_data [OF os] L False show ?thesis
      by (auto simp: m from_os_def mapping_ok_def mapping_bytes_def)
  qed
  then show "mapping_ok w' m" "m_kind m = Kind_Anon" "m_len m = ?n"
    "mapping_bytes w' m = replicate (unat (m_len m)) 0" "w_data w' = w_data w"
    by simp_all
qed

section \<open>Ranged calls stay inside the mapping\<close>

text \<open>
  The documented behaviour of \<open>mmap\<close> and \<open>MapViewOfFile\<close> that the ranged calls rely on: the
  mapping starts at a page boundary and does not wrap around the address space.
\<close>

definition placed :: "env \<Rightarrow> mapping \<Rightarrow> bool" where
  "placed env m \<longleftrightarrow>
     unat (mapping_base m) + unat (m_os_len m) \<le> 2 ^ 64 \<and>
     (\<forall>page. os_page_size env = Inr page \<longrightarrow> unat page dvd unat (mapping_base m))"

text \<open>A range is non-empty, page aligned and inside \<open>[base, base + os_len)\<close>.\<close>

definition span_inside :: "nat \<Rightarrow> mapping \<Rightarrow> addr \<Rightarrow> usize \<Rightarrow> bool" where
  "span_inside page m a count \<longleftrightarrow>
     0 < unat count \<and> page dvd unat a \<and> unat (mapping_base m) \<le> unat a
     \<and> unat a + unat count \<le> unat (mapping_base m) + unat (m_os_len m)"

text \<open>The calls a ranged operation may make: the range calls on an inside span, and the
  file-level flush of Windows.\<close>

fun ranged_call :: "nat \<Rightarrow> mapping \<Rightarrow> syscall \<Rightarrow> bool" where
  "ranged_call page m (Sys_msync a n _) = span_inside page m a n"
| "ranged_call page m (Sys_madvise a n _) = span_inside page m a n"
| "ranged_call page m (Sys_mlock a n) = span_inside page m a n"
| "ranged_call page m (Sys_munlock a n) = span_inside page m a n"
| "ranged_call page m (Win_FlushViewOfFile a n) = span_inside page m a n"
| "ranged_call page m (Win_PrefetchVirtualMemory a n) = span_inside page m a n"
| "ranged_call page m (Win_VirtualLock a n) = span_inside page m a n"
| "ranged_call page m (Win_VirtualUnlock a n) = span_inside page m a n"
| "ranged_call page m (Fs_sync_data _) = True"
| "ranged_call page m _ = False"

lemma mapping_span_inside:
  assumes "mapping_ok w m" "placed env m" "os_page_size env = Inr page"
    and "mapping_span env m off len = Inr (Some (a, count))"
  shows "span_inside (unat page) m a count" and "unat off + unat len \<le> unat (m_len m)"
    and "unat a \<le> unat (mapping_base m) + unat (m_delta m) + unat off"
    and "unat a + unat count = unat (mapping_base m) + unat (m_delta m) + unat off + unat len"
proof -
  from assms(3,4) obtain start where
    fs: "flush_span (m_delta m) (m_len m) off len page = Inr (Some (start, count))"
    and a: "a = mapping_base m + start"
    by (auto simp: mapping_span_def result_bind_Inr)
  note F = flush_span_Some [OF fs]
  have pos: "m_len m \<noteq> 0" using F(1,2) by auto
  then have os: "unat (m_delta m) + unat (m_len m) \<le> unat (m_os_len m)"
    using assms(1) by (simp add: mapping_ok_def)
  have count: "0 < unat count" using F(2,4,6) by linarith
  have fit: "unat (mapping_base m) + unat (m_os_len m) \<le> 2 ^ 64"
    and al: "unat page dvd unat (mapping_base m)"
    using assms(2,3) by (simp_all add: placed_def)
  have "unat start < unat (m_os_len m)" using F count os by linarith
  then have "unat (mapping_base m) + unat start < 2 ^ LENGTH(64)"
    using fit by simp
  then have ua: "unat a = unat (mapping_base m) + unat start"
    by (simp add: a unat_add_exact)
  show "span_inside (unat page) m a count"
    using F os count al by (auto simp: span_inside_def ua)
  show "unat off + unat len \<le> unat (m_len m)" using F by simp
  show "unat a \<le> unat (mapping_base m) + unat (m_delta m) + unat off" using F by (simp add: ua)
  show "unat a + unat count = unat (mapping_base m) + unat (m_delta m) + unat off + unat len"
    using F(6) by (simp add: ua)
qed

lemma emits_span:
  assumes "\<And>a count. mapping_span env m off len = Inr (Some (a, count)) \<Longrightarrow> emits P (f (Some (a, count)))"
    and "emits P (f None)"
  shows "emits P (bind_se (lift_se (mapping_span env m off len)) f)"
proof (cases "mapping_span env m off len")
  case (Inl e)
  then show ?thesis by (auto simp: emits_def bind_se_def)
next
  case (Inr sp)
  with assms show ?thesis by (cases sp) auto
qed

lemma os_ranged_calls:
  assumes "span_inside page m a count"
  shows "emits (ranged_call page m) (os_flush env a count b mode)"
    and "emits (ranged_call page m) (os_advise env a count advice)"
    and "emits (ranged_call page m) (os_lock env a count lock)"
proof -
  show "emits (ranged_call page m) (os_flush env a count b mode)"
    using assms by (auto simp: os_dispatch os_select_def unix_flush_def win_flush_def
        intro!: emits_intro split: backing.splits flush_mode.splits option.splits)
  show "emits (ranged_call page m) (os_advise env a count advice)"
    using assms by (auto simp: os_dispatch os_select_def unix_advise_def win_advise_def
        intro!: emits_intro)
  have "emits (ranged_call page m) (win_lock env a count lock)"
    using assms by (auto simp: win_lock_def emits_def os_call_def split: sum.splits)
  then show "emits (ranged_call page m) (os_lock env a count lock)"
    using assms by (auto simp: os_dispatch os_select_def unix_lock_def intro!: emits_intro)
qed

lemma ranged_operations_inside:
  assumes "mapping_ok w m" "placed env m" "os_page_size env = Inr page"
  shows "emits (ranged_call (unat page) m) (mapping_flush env m off len mode)"
    and "emits (ranged_call (unat page) m) (mapping_advise env m advice off len)"
    and "emits (ranged_call (unat page) m) (mapping_lock env m lock)"
proof -
  note inside = os_ranged_calls [OF mapping_span_inside(1) [OF assms]]
  show "emits (ranged_call (unat page) m) (mapping_flush env m off len mode)"
    unfolding mapping_flush_def by (rule emits_span) (auto intro: inside emits_intro)
  show "emits (ranged_call (unat page) m) (mapping_advise env m advice off len)"
    unfolding mapping_advise_def by (rule emits_span) (auto intro: inside emits_intro)
  show "emits (ranged_call (unat page) m) (mapping_lock env m lock)"
    unfolding mapping_lock_def by (rule emits_span) (auto intro: inside emits_intro)
qed

section \<open>Protection changes and the drop\<close>

lemma map_impl_base:
  assumes "is_unix (e_target env)" "map_impl env ro f acc w = (Inr m, w')" "m_len m \<noteq> 0"
  shows "\<exists>tr prot flags off. w_trace w' = tr @ [Sys_mmap (m_os_len m) prot flags (Some f) off]
           \<and> e_kern env tr (Sys_mmap (m_os_len m) prot flags (Some f) off) = Inr (mapping_base m)"
proof -
  from assms(2) obtain gran len l w1 where
    rest: "(if l_len l = 0 then return_se (mapping_empty gran (access_kind acc))
       else bind_se (os_map_file env f acc l (ro_flags ro)) (\<lambda>(base, b) w.
              (Inr (from_os base l (map_len l) b (access_kind acc)
                      (access_mem w f acc (ro_offset ro) (l_len l))), w))) w1 = (Inr m, w')"
    unfolding map_impl_def by (auto simp: bind_se_Inr fs_metadata_len_Inr)
  show ?thesis
  proof (cases "l_len l = 0")
    case True
    with rest assms(3) show ?thesis by (auto simp: mapping_empty_def)
  next
    case False
    with rest obtain base b where os: "os_map_file env f acc l (ro_flags ro) w1 = (Inr (base, b), w')"
      and m: "m_ptr m = base + delta l" "m_delta m = delta l" "m_os_len m = map_len l"
      by (auto simp: bind_se_Inr from_os_def)
    have "mapping_base m = base" by (simp add: mapping_base_def m)
    with os assms(1) m(3) show ?thesis
      by (auto simp: os_map_file_def os_select_def unix_map_file_def bind_se_Inr os_call_eq
          unix_finish_def Let_def split: if_splits prod.splits)
  qed
qed

lemma mapping_drop_unix:
  "is_unix (e_target env) \<Longrightarrow> mapping_drop env m w =
     (if m_len m = 0 then w else w\<lparr>w_trace := w_trace w @ [Sys_munmap (mapping_base m) (m_os_len m)]\<rparr>)"
  by (simp add: mapping_drop_def os_unmap_def os_select_def unix_unmap_def os_call_def)

section \<open>A sample mapping\<close>

definition sample_mapping :: mapping where
  "sample_mapping = \<lparr>m_ptr = 0x10000, m_len = 8, m_delta = 0, m_os_len = 8, m_backing = Backing_Shared None, m_kind = Kind_Write, m_mem = Window 0 0\<rparr>"

lemma pow_4096 [simp]: "is_power_of_two (4096 :: usize)"
  by (rule is_power_of_twoI [of _ 12]) simp_all

lemma sample_sizes [simp]: "os_page_size sample_env = Inr 4096" "offset_granularity sample_env = Inr 4096"
  by (simp_all add: os_dispatch os_select_def unix_page_size_def unix_offset_granularity_def word_try_from_int_def option_filter_def)

lemma sample_layout: "layout 0 (8::usize) 4096 MAX_LEN = Inr \<lparr>aligned_offset = 0, delta = 0, l_len = 8, map_len = 8\<rparr>"
  by (simp add: layout_def option_filter_def Let_def checked_add_def MAX_LEN_def word_max_def)

lemma sample_resolve: "resolve_len 8 0 None (MAX_LEN::usize) = Inr (8::usize)"
  by (simp add: resolve_len_def checked_sub_def MAX_LEN_def word_max_def)

lemma sample_map: "map_impl sample_env options_new 0 Access_Write sample_world = (Inr sample_mapping, sample_world\<lparr>w_trace := [Fs_metadata 0, Sys_mmap 8 [PROT_READ,PROT_WRITE] [MAP_SHARED] (Some 0) 0]\<rparr>)"
  by (simp add: map_impl_def bind_se_def fs_metadata_len_def os_call_def sample_resolve sample_layout file_len_def options_new_def os_map_file_def os_select_def unix_map_file_def unix_finish_def populate_flag_def from_os_def access_mem_def sample_mapping_def Let_def)

lemma sample_mapping_ok [simp]: "mapping_ok sample_world sample_mapping" "placed sample_env sample_mapping"
  by (simp_all add: mapping_ok_def sample_mapping_def unat_MAX_LEN placed_def mapping_base_def)

section \<open>Properties\<close>



text \<open>C15. The bounds of every ranged system call: \<open>flush\<close>, \<open>advise\<close> and \<open>lock\<close> of a mapping, for
  any range, mode and backend, only issue their range calls on a non-empty, page-aligned span that
  lies inside the operating-system mapping, whatever range the caller passed.\<close>

theorem ranged_calls_inside_mapping:
  assumes "mapping_ok w m" "placed env m" "os_page_size env = Inr page"
    and "mapping_flush env m off len mode w = (r1, w1)"
    and "mapping_advise env m advice off len w = (r2, w2)"
    and "mapping_lock env m lock w = (r3, w3)"
  shows "\<exists>cs1 cs2 cs3. w_trace w1 = w_trace w @ cs1 \<and> w_trace w2 = w_trace w @ cs2
    \<and> w_trace w3 = w_trace w @ cs3 \<and> list_all (ranged_call (unat page) m) (cs1 @ cs2 @ cs3)"
proof -
  note R = ranged_operations_inside [OF assms(1-3)]
  from emitsD [OF R(1) assms(4)] emitsD [OF R(2) assms(5)] emitsD [OF R(3) assms(6)]
  show ?thesis by (metis list_all_append)
qed

theorem ranged_calls_inside_mapping_witness:
  "\<exists>r1 w1 cs. mapping_ok sample_world sample_mapping \<and> placed sample_env sample_mapping
     \<and> mapping_flush sample_env sample_mapping 2 3 Flush_Sync sample_world = (r1, w1)
     \<and> w_trace w1 = w_trace sample_world @ cs \<and> list_all (ranged_call 4096 sample_mapping) cs"
  using ranged_calls_inside_mapping [OF sample_mapping_ok sample_sizes(1)
      surjective_pairing [of "mapping_flush sample_env sample_mapping 2 3 Flush_Sync sample_world"]
      surjective_pairing [of "mapping_advise sample_env sample_mapping Adv_Normal 2 3 sample_world"]
      surjective_pairing [of "mapping_lock sample_env sample_mapping True sample_world"]]
  by (auto simp: prod_eq_iff)



end
