(* ===== verification/Handle_Table.thy ===== *)
theory Handle_Table
  imports Main
begin

text \<open>
  The interface of a table that hands out handles: an insertion returns a handle that was not in
  use, a removal frees exactly that handle. The registry of live views relies on it twice (the
  slab of plain views, the list of atomic views), and the drop of every registration is correct
  because of \<open>remove_inserted\<close>.
\<close>

locale handle_table =
  fixes lookup :: "'t \<Rightarrow> 'h \<Rightarrow> 'v option"
    and insert_entry :: "'v \<Rightarrow> 't \<Rightarrow> 'h \<times> 't"
    and remove_entry :: "'h \<Rightarrow> 't \<Rightarrow> 't"
    and wf_table :: "'t \<Rightarrow> bool"
    and room :: "'t \<Rightarrow> bool"
  assumes insert_fresh: "wf_table t \<Longrightarrow> room t \<Longrightarrow> insert_entry v t = (h, t') \<Longrightarrow> lookup t h = None"
    and insert_lookup: "wf_table t \<Longrightarrow> room t \<Longrightarrow> insert_entry v t = (h, t') \<Longrightarrow>
          lookup t' = (lookup t)(h \<mapsto> v)"
    and insert_wf: "wf_table t \<Longrightarrow> room t \<Longrightarrow> insert_entry v t = (h, t') \<Longrightarrow> wf_table t'"
    and remove_lookup: "wf_table t \<Longrightarrow> lookup (remove_entry h t) = (lookup t)(h := None)"
    and remove_wf: "wf_table t \<Longrightarrow> wf_table (remove_entry h t)"
begin

text \<open>The values that are live.\<close>

definition live :: "'t \<Rightarrow> 'v set" where
  "live t = ran (lookup t)"

lemma live_insert:
  "wf_table t \<Longrightarrow> room t \<Longrightarrow> insert_entry v t = (h, t') \<Longrightarrow> live t' = insert v (live t)"
  by (auto simp: live_def ran_def insert_lookup dest: insert_fresh)

lemma live_remove_subset: "wf_table t \<Longrightarrow> live (remove_entry h t) \<subseteq> live t"
  by (auto simp: live_def ran_def remove_lookup split: if_splits)

lemma remove_inserted:
  assumes "wf_table t" "room t" "insert_entry v t = (h, t')"
  shows "lookup (remove_entry h t') = lookup t"
  using insert_lookup [OF assms] insert_fresh [OF assms] remove_lookup [OF insert_wf [OF assms], of h]
  by (auto simp: fun_eq_iff)

lemma live_remove_inserted:
  "wf_table t \<Longrightarrow> room t \<Longrightarrow> insert_entry v t = (h, t') \<Longrightarrow> live (remove_entry h t') = live t"
  by (simp add: live_def remove_inserted)

lemma insert_keeps:
  "wf_table t \<Longrightarrow> room t \<Longrightarrow> insert_entry v t = (h, t') \<Longrightarrow> lookup t k = Some u \<Longrightarrow>
     lookup t' k = Some u \<and> k \<noteq> h"
  using insert_fresh insert_lookup by fastforce

lemma removals_commute:
  "wf_table t \<Longrightarrow> lookup (remove_entry h (remove_entry k t)) = lookup (remove_entry k (remove_entry h t))"
  by (auto simp: remove_lookup remove_wf fun_eq_iff)

end

end
