(* ===== verification/Views.thy ===== *)
theory Views
  imports Errors Handle_Table "HOL-Library.Multiset"
begin

text \<open>
  \<open>src/views.rs\<close>: the registry of live views of one mapping. Plain views live in eight slabs,
  atomic views in one list, whose length \<open>atomic_live\<close> mirrors. The operations here are the
  registry's methods run without interference; \<open>Views_Protocol\<close> interleaves their steps.

  Range bounds are naturals: they are offsets inside a mapping, at most \<open>isize::MAX\<close>, so neither
  \<open>start + dst.len()\<close> nor \<open>off += page\<close> can wrap. The counters \<open>atomic_live\<close> and \<open>next_id\<close> are
  machine words.
\<close>

section \<open>State\<close>

type_synonym brange = "nat \<times> nat"

datatype conflict = AtomicLive | PlainLive | MixedSize

record slab =
  sl_entries :: "brange option list"
  sl_free :: "nat list"

record atomic_entry =
  a_start :: nat
  a_end :: nat
  a_size :: nat
  a_id :: u64

record atomic_set =
  as_entries :: "atomic_entry list"
  as_next_id :: u64

record view_registry =
  vr_atomics :: atomic_set
  vr_atomic_live :: usize
  vr_plain :: "slab list"

text \<open>\<open>PlainReg\<close> and \<open>AtomicReg\<close>; the untracked registration is the one of a build without atomic
  views.\<close>

datatype plain_reg = Untracked | Plain_Reg (pr_shard: nat) (pr_slot: nat)

datatype atomic_reg = Atomic_Reg (ar_id: "u64 option")

definition SHARDS :: nat where "SHARDS = 8"

section \<open>Conflicts\<close>

fun conflict_message :: "conflict \<Rightarrow> string" where
  "conflict_message AtomicLive =
     ''range overlaps a live atomic view of this mapping; read those bytes through the atomic view or copy them with read_into''"
| "conflict_message PlainLive =
     ''range overlaps a live MappedSlice or iterator item of this mapping; drop it before creating an atomic view over the same bytes''"
| "conflict_message MixedSize =
     ''range overlaps a live atomic view with a different element size; mixed-size atomic access to the same bytes is not allowed''"

definition from_conflict :: "conflict \<Rightarrow> mmap_io_error" where
  "from_conflict c = InvalidMode (conflict_message c)"

text \<open>The shard of a thread: its number in the round-robin, or 0 while thread-locals are destroyed.\<close>

definition shard_index :: "usize option \<Rightarrow> nat" where
  "shard_index ticket = (case ticket of Some n \<Rightarrow> unat n mod SHARDS | None \<Rightarrow> 0)"

definition overlaps :: "nat \<Rightarrow> nat \<Rightarrow> nat \<Rightarrow> nat \<Rightarrow> bool" where
  "overlaps a0 a1 b0 b1 \<longleftrightarrow> a0 < b1 \<and> b0 < a1"

section \<open>The slab of plain views\<close>

definition slab_empty :: slab where
  "slab_empty = \<lparr>sl_entries = [], sl_free = []\<rparr>"

text \<open>\<open>free\<close> is a stack: \<open>pop\<close> and \<open>push\<close> work at its end.\<close>

definition slab_insert :: "brange \<Rightarrow> slab \<Rightarrow> nat \<times> slab" where
  "slab_insert r s =
     (if sl_free s \<noteq> []
      then let slot = last (sl_free s)
           in (slot, \<lparr>sl_entries = (sl_entries s)[slot := Some r], sl_free = butlast (sl_free s)\<rparr>)
      else (length (sl_entries s), s\<lparr>sl_entries := sl_entries s @ [Some r]\<rparr>))"

definition slab_remove :: "nat \<Rightarrow> slab \<Rightarrow> slab" where
  "slab_remove slot s =
     (if slot < length (sl_entries s) \<and> sl_entries s ! slot \<noteq> None
      then \<lparr>sl_entries = (sl_entries s)[slot := None], sl_free = sl_free s @ [slot]\<rparr>
      else s)"

definition slab_overlaps :: "slab \<Rightarrow> nat \<Rightarrow> nat \<Rightarrow> bool" where
  "slab_overlaps s start en =
     list_ex (\<lambda>x. case x of Some (b, e) \<Rightarrow> overlaps b e start en | None \<Rightarrow> False) (sl_entries s)"

section \<open>The set of atomic views\<close>

definition atomic_empty :: atomic_set where
  "atomic_empty = \<lparr>as_entries = [], as_next_id = 0\<rparr>"

text \<open>The last part of \<open>register_atomic\<close>: take the next id and push the entry.\<close>

definition atomic_push :: "nat \<times> nat \<times> nat \<Rightarrow> atomic_set \<Rightarrow> u64 \<times> atomic_set" where
  "atomic_push = (\<lambda>(start, en, sz) s.
     (as_next_id s,
      \<lparr>as_entries = as_entries s @ [\<lparr>a_start = start, a_end = en, a_size = sz, a_id = as_next_id s\<rparr>],
       as_next_id = as_next_id s + 1\<rparr>))"

text \<open>\<open>Vec::swap_remove\<close>: the last element takes the place of the removed one.\<close>

definition swap_remove :: "nat \<Rightarrow> 'a list \<Rightarrow> 'a list" where
  "swap_remove i xs = (if i = length xs - 1 then butlast xs else butlast (xs[i := last xs]))"

fun position :: "('a \<Rightarrow> bool) \<Rightarrow> 'a list \<Rightarrow> nat option" where
  "position p [] = None"
| "position p (x # xs) = (if p x then Some 0 else map_option Suc (position p xs))"

definition atomic_remove :: "u64 \<Rightarrow> atomic_set \<Rightarrow> atomic_set" where
  "atomic_remove i s =
     (case position (\<lambda>a. a_id a = i) (as_entries s) of
        Some k \<Rightarrow> s\<lparr>as_entries := swap_remove k (as_entries s)\<rparr>
      | None \<Rightarrow> s)"

section \<open>The registry\<close>

definition registry_new :: view_registry where
  "registry_new =
     \<lparr>vr_atomics = atomic_empty, vr_atomic_live = 0, vr_plain = replicate SHARDS slab_empty\<rparr>"

definition plain_insert :: "nat \<Rightarrow> brange \<Rightarrow> view_registry \<Rightarrow> plain_reg \<times> view_registry" where
  "plain_insert shard r v =
     (case slab_insert r (vr_plain v ! shard) of
        (slot, s) \<Rightarrow> (Plain_Reg shard slot, v\<lparr>vr_plain := (vr_plain v)[shard := s]\<rparr>))"

text \<open>\<open>Drop for PlainReg\<close>\<close>

fun drop_plain :: "plain_reg \<Rightarrow> view_registry \<Rightarrow> view_registry" where
  "drop_plain Untracked v = v"
| "drop_plain (Plain_Reg shard slot) v =
     v\<lparr>vr_plain := (vr_plain v)[shard := slab_remove slot (vr_plain v ! shard)]\<rparr>"

definition atomic_hit :: "view_registry \<Rightarrow> nat \<Rightarrow> nat \<Rightarrow> bool" where
  "atomic_hit v start en =
     list_ex (\<lambda>a. overlaps (a_start a) (a_end a) start en) (as_entries (vr_atomics v))"

definition register_plain ::
  "nat \<Rightarrow> nat \<Rightarrow> nat \<Rightarrow> view_registry \<Rightarrow> (conflict + plain_reg) \<times> view_registry" where
  "register_plain shard start en v =
     (case plain_insert shard (start, en) v of
        (reg, v1) \<Rightarrow>
          if vr_atomic_live v1 = 0 then (Inr reg, v1)
          else if atomic_hit v1 start en then (Inl AtomicLive, drop_plain reg v1)
          else (Inr reg, v1))"

definition mixed_hit :: "view_registry \<Rightarrow> nat \<Rightarrow> nat \<Rightarrow> nat \<Rightarrow> bool" where
  "mixed_hit v start en sz =
     list_ex (\<lambda>a. a_size a \<noteq> sz \<and> overlaps (a_start a) (a_end a) start en)
       (as_entries (vr_atomics v))"

definition register_atomic ::
  "nat \<Rightarrow> nat \<Rightarrow> nat \<Rightarrow> view_registry \<Rightarrow> (conflict + atomic_reg) \<times> view_registry" where
  "register_atomic start en sz v =
     (if start = en then (Inr (Atomic_Reg None), v)
      else if mixed_hit v start en sz then (Inl MixedSize, v)
      else
        let v1 = v\<lparr>vr_atomic_live := vr_atomic_live v + 1\<rparr>
        in if list_ex (\<lambda>s. slab_overlaps s start en) (vr_plain v1)
           then (Inl PlainLive, v1\<lparr>vr_atomic_live := vr_atomic_live v1 - 1\<rparr>)
           else (case atomic_push (start, en, sz) (vr_atomics v1) of
                   (i, s) \<Rightarrow> (Inr (Atomic_Reg (Some i)), v1\<lparr>vr_atomics := s\<rparr>)))"

text \<open>\<open>Drop for AtomicReg\<close>\<close>

fun drop_atomic :: "atomic_reg \<Rightarrow> view_registry \<Rightarrow> view_registry" where
  "drop_atomic (Atomic_Reg None) v = v"
| "drop_atomic (Atomic_Reg (Some i)) v =
     (case position (\<lambda>a. a_id a = i) (as_entries (vr_atomics v)) of
        Some _ \<Rightarrow> v\<lparr>vr_atomics := atomic_remove i (vr_atomics v),
                     vr_atomic_live := vr_atomic_live v - 1\<rparr>
      | None \<Rightarrow> v)"

text \<open>The registry of a build without the \<open>atomic\<close> feature tracks nothing.\<close>

definition register_plain_untracked :: "view_registry \<Rightarrow> (conflict + plain_reg) \<times> view_registry" where
  "register_plain_untracked v = (Inr Untracked, v)"

section \<open>The slab as a handle table\<close>

definition slab_lookup :: "slab \<Rightarrow> nat \<Rightarrow> brange option" where
  "slab_lookup s i = (if i < length (sl_entries s) then sl_entries s ! i else None)"

text \<open>The free list holds each empty slot exactly once.\<close>

definition slab_wf :: "slab \<Rightarrow> bool" where
  "slab_wf s \<longleftrightarrow> distinct (sl_free s)
     \<and> (\<forall>i. i \<in> set (sl_free s) \<longleftrightarrow> i < length (sl_entries s) \<and> sl_entries s ! i = None)"

lemma slab_wf_empty [simp]: "slab_wf slab_empty"
  by (simp add: slab_wf_def slab_empty_def)

lemma slab_lookup_empty [simp]: "slab_lookup slab_empty i = None"
  by (simp add: slab_lookup_def slab_empty_def)

lemma slab_insert_cases:
  assumes "slab_wf s" "slab_insert r s = (slot, s')"
  obtains (reuse) fr where "sl_free s = fr @ [slot]" "slot < length (sl_entries s)"
      "sl_entries s ! slot = None" "slot \<notin> set fr"
      "s' = \<lparr>sl_entries = (sl_entries s)[slot := Some r], sl_free = fr\<rparr>"
    | (grow) "sl_free s = []" "slot = length (sl_entries s)"
      "s' = s\<lparr>sl_entries := sl_entries s @ [Some r]\<rparr>"
proof (cases "sl_free s" rule: rev_cases)
  case Nil
  with assms(2) grow show ?thesis by (auto simp: slab_insert_def)
next
  case (snoc fr x)
  with assms(2) have "slot = x" "s' = \<lparr>sl_entries = (sl_entries s)[slot := Some r], sl_free = fr\<rparr>"
    by (auto simp: slab_insert_def Let_def)
  moreover have "x < length (sl_entries s)" "sl_entries s ! x = None" "x \<notin> set fr"
    using snoc assms(1) by (auto simp: slab_wf_def)
  ultimately show ?thesis
    using reuse [of fr] snoc by simp
qed

interpretation slab: handle_table slab_lookup slab_insert slab_remove slab_wf "\<lambda>_. True"
proof
  fix s s' :: slab and r slot
  assume wf: "slab_wf s" and ins: "slab_insert r s = (slot, s')"
  show "slab_lookup s slot = None"
    using wf ins by (cases rule: slab_insert_cases) (auto simp: slab_lookup_def)
  show "slab_lookup s' = (slab_lookup s)(slot \<mapsto> r)"
    using wf ins by (cases rule: slab_insert_cases)
      (auto simp: slab_lookup_def fun_eq_iff nth_append nth_list_update)
  show "slab_wf s'"
    using wf ins
  proof (cases rule: slab_insert_cases)
    case (reuse fr)
    from wf reuse(1,4) have "distinct fr"
      and "i \<in> set fr \<longleftrightarrow> i \<noteq> slot \<and> i < length (sl_entries s) \<and> sl_entries s ! i = None" for i
      by (auto simp: slab_wf_def)
    with reuse(2,5) show ?thesis
      by (simp add: slab_wf_def nth_list_update)
  next
    case grow
    with wf show ?thesis
      by (auto simp: slab_wf_def nth_append)
  qed
next
  fix s :: slab and slot
  assume wf: "slab_wf s"
  show "slab_lookup (slab_remove slot s) = (slab_lookup s)(slot := None)"
    by (cases "sl_entries s ! slot")
      (auto simp: slab_remove_def slab_lookup_def fun_eq_iff)
  show "slab_wf (slab_remove slot s)"
    using wf by (auto simp: slab_remove_def slab_wf_def nth_list_update)
qed

lemma slab_overlaps_iff:
  "slab_overlaps s b e \<longleftrightarrow> (\<exists>i r. slab_lookup s i = Some r \<and> overlaps (fst r) (snd r) b e)"
proof -
  have "slab_overlaps s b e \<longleftrightarrow> (\<exists>r. Some r \<in> set (sl_entries s) \<and> overlaps (fst r) (snd r) b e)"
    by (force simp: slab_overlaps_def list_ex_iff split: option.splits prod.splits)
  also have "\<dots> \<longleftrightarrow> (\<exists>i r. slab_lookup s i = Some r \<and> overlaps (fst r) (snd r) b e)"
    by (auto simp: in_set_conv_nth slab_lookup_def split: if_splits)
  finally show ?thesis .
qed

section \<open>The atomic set as a handle table\<close>

definition entry_of :: "nat \<times> nat \<times> nat \<Rightarrow> u64 \<Rightarrow> atomic_entry" where
  "entry_of x i = (case x of (b, e, sz) \<Rightarrow> \<lparr>a_start = b, a_end = e, a_size = sz, a_id = i\<rparr>)"

definition atomic_lookup :: "atomic_set \<Rightarrow> u64 \<Rightarrow> (nat \<times> nat \<times> nat) option" where
  "atomic_lookup s i =
     map_option (\<lambda>a. (a_start a, a_end a, a_size a)) (List.find (\<lambda>a. a_id a = i) (as_entries s))"

text \<open>No two live views share an id, and the ids handed out are the ones below the next. The set
  has room as long as the counter has not come round.\<close>

definition atomic_wf :: "atomic_set \<Rightarrow> bool" where
  "atomic_wf s \<longleftrightarrow> distinct (map a_id (as_entries s))
     \<and> (\<forall>a \<in> set (as_entries s). unat (a_id a) < unat (as_next_id s))"

definition atomic_room :: "atomic_set \<Rightarrow> bool" where
  "atomic_room s \<longleftrightarrow> as_next_id s \<noteq> word_max"

lemma atomic_wf_empty [simp]: "atomic_wf atomic_empty"
  by (simp add: atomic_wf_def atomic_empty_def)

lemma position_Some: "position p xs = Some k \<Longrightarrow> k < length xs \<and> p (xs ! k) \<and> (\<forall>j < k. \<not> p (xs ! j))"
proof (induction xs arbitrary: k)
  case (Cons x xs)
  then show ?case
    by (auto split: if_splits simp: nth_Cons split: nat.splits)
qed simp

lemma position_None: "position p xs = None \<longleftrightarrow> (\<forall>x \<in> set xs. \<not> p x)"
  by (induction xs) auto

lemma mset_swap_remove:
  assumes "k < length xs"
  shows "mset (swap_remove k xs) = mset xs - {#xs ! k#}"
proof -
  obtain ys y where xs: "xs = ys @ [y]" using assms by (cases xs rule: rev_cases) auto
  show ?thesis
  proof (cases "k = length ys")
    case True
    with xs show ?thesis by (simp add: swap_remove_def)
  next
    case False
    with assms xs have k: "k < length ys" by simp
    then have "swap_remove k xs = ys[k := y]"
      using xs by (simp add: swap_remove_def list_update_append)
    with k xs show ?thesis by (simp add: mset_update nth_append)
  qed
qed

lemma swap_remove_facts:
  assumes "distinct (map a_id xs)" "position (\<lambda>a. a_id a = i) xs = Some k"
  shows "set (swap_remove k xs) = {a \<in> set xs. a_id a \<noteq> i}"
    and "distinct (map a_id (swap_remove k xs))"
    and "length xs = Suc (length (swap_remove k xs))"
proof -
  have k: "k < length xs" "a_id (xs ! k) = i" using position_Some [OF assms(2)] by auto
  have m: "mset xs = add_mset (xs ! k) (mset (swap_remove k xs))"
    using k(1) by (simp add: mset_swap_remove)
  have "mset (map a_id xs) = mset (map a_id (xs ! k # swap_remove k xs))"
    using m by simp
  then have d: "distinct (map a_id (xs ! k # swap_remove k xs))"
    using assms(1) by (metis mset_eq_imp_distinct_iff)
  then show "distinct (map a_id (swap_remove k xs))" by simp
  have s: "set xs = insert (xs ! k) (set (swap_remove k xs))"
    using m by (metis set_mset_add_mset_insert set_mset_mset)
  have "a_id a \<noteq> i" if "a \<in> set (swap_remove k xs)" for a
    using d k(2) that by (auto simp: image_iff)
  then show "set (swap_remove k xs) = {a \<in> set xs. a_id a \<noteq> i}"
    using s k(2) by auto
  show "length xs = Suc (length (swap_remove k xs))"
    using arg_cong [OF m, of size] by simp
qed

lemma find_id:
  "distinct (map a_id xs) \<Longrightarrow>
     List.find (\<lambda>a. a_id a = i) xs = Some a \<longleftrightarrow> a \<in> set xs \<and> a_id a = i"
  by (induction xs) auto

lemma a_id_entry_of [simp]: "a_id (entry_of x i) = i"
  by (simp add: entry_of_def split: prod.splits)

lemma entry_of_inj [simp]: "entry_of x i = entry_of y i \<longleftrightarrow> x = y"
  by (auto simp: entry_of_def split: prod.splits)

lemma entry_of_eta: "entry_of (a_start a, a_end a, a_size a) (a_id a) = a"
  by (simp add: entry_of_def)

lemma atomic_lookup_Some:
  assumes "atomic_wf s"
  shows "atomic_lookup s i = Some x \<longleftrightarrow> entry_of x i \<in> set (as_entries s)"
proof
  assume "atomic_lookup s i = Some x"
  with assms obtain a where "a \<in> set (as_entries s)" "a_id a = i" "x = (a_start a, a_end a, a_size a)"
    by (auto simp: atomic_lookup_def atomic_wf_def find_id)
  then show "entry_of x i \<in> set (as_entries s)" by (auto simp: entry_of_eta)
next
  assume "entry_of x i \<in> set (as_entries s)"
  with assms have "List.find (\<lambda>a. a_id a = i) (as_entries s) = Some (entry_of x i)"
    by (simp add: atomic_wf_def find_id)
  then show "atomic_lookup s i = Some x"
    by (simp add: atomic_lookup_def entry_of_def split: prod.splits)
qed

lemma atomic_lookup_entry:
  "atomic_wf s \<Longrightarrow> a \<in> set (as_entries s) \<Longrightarrow>
     atomic_lookup s (a_id a) = Some (a_start a, a_end a, a_size a)"
  by (simp add: atomic_lookup_Some entry_of_eta)

lemma atomic_push_wf:
  assumes "atomic_wf s" "atomic_room s" "atomic_push x s = (i, s')"
  shows "atomic_wf s'" and "i = as_next_id s" and "as_entries s' = as_entries s @ [entry_of x i]"
    and "i \<notin> a_id ` set (as_entries s)"
proof -
  show e: "as_entries s' = as_entries s @ [entry_of x i]" and i: "i = as_next_id s"
    using assms(3) by (auto simp: atomic_push_def entry_of_def split: prod.splits)
  show f: "i \<notin> a_id ` set (as_entries s)"
    using assms(1) i by (auto simp: atomic_wf_def)
  have "unat (as_next_id s) \<noteq> 2 ^ 64 - 1"
    using assms(2) by (simp add: atomic_room_def word_unat_eq_iff unat_word_max)
  moreover have "unat (as_next_id s) < 2 ^ LENGTH(64)" by (rule unat_bound)
  ultimately have "unat (as_next_id s) + unat (1::u64) < 2 ^ LENGTH(64)" by simp
  then have "unat (as_next_id s + 1) = Suc (unat (as_next_id s))"
    by (simp add: unat_add_exact)
  moreover have "as_next_id s' = as_next_id s + 1" and "a_id (entry_of x i) = i"
    using assms(3) by (auto simp: atomic_push_def entry_of_def split: prod.splits)
  ultimately show "atomic_wf s'"
    using assms(1) e i f by (auto simp: atomic_wf_def less_Suc_eq)
qed

lemma atomic_remove_facts:
  assumes "atomic_wf s"
  shows "atomic_wf (atomic_remove i s)"
    and "set (as_entries (atomic_remove i s)) = {a \<in> set (as_entries s). a_id a \<noteq> i}"
    and "as_next_id (atomic_remove i s) = as_next_id s"
proof -
  have d: "distinct (map a_id (as_entries s))" using assms by (simp add: atomic_wf_def)
  show s: "set (as_entries (atomic_remove i s)) = {a \<in> set (as_entries s). a_id a \<noteq> i}"
    using swap_remove_facts(1) [OF d]
    by (auto simp: atomic_remove_def position_None split: option.splits)
  show n: "as_next_id (atomic_remove i s) = as_next_id s"
    by (simp add: atomic_remove_def split: option.splits)
  have "distinct (map a_id (as_entries (atomic_remove i s)))"
    using swap_remove_facts(2) [OF d] d by (auto simp: atomic_remove_def split: option.splits)
  then show "atomic_wf (atomic_remove i s)"
    using assms by (auto simp: atomic_wf_def s n)
qed

interpretation atomics: handle_table atomic_lookup atomic_push atomic_remove atomic_wf atomic_room
proof
  fix s s' :: atomic_set and x i
  assume a: "atomic_wf s" "atomic_room s" "atomic_push x s = (i, s')"
  note P = atomic_push_wf [OF a]
  show "atomic_wf s'" by (rule P)
  show none: "atomic_lookup s i = None"
  proof (rule ccontr)
    assume "atomic_lookup s i \<noteq> None"
    then obtain y where "entry_of y i \<in> set (as_entries s)"
      using a(1) by (auto simp: atomic_lookup_Some)
    then have "a_id (entry_of y i) \<in> a_id ` set (as_entries s)" by (rule imageI)
    with P(4) show False by simp
  qed
  show "atomic_lookup s' = (atomic_lookup s)(i \<mapsto> x)"
  proof
    fix k
    show "atomic_lookup s' k = ((atomic_lookup s)(i \<mapsto> x)) k"
    proof (cases "k = i")
      case True
      with P show ?thesis by (simp add: atomic_lookup_Some)
    next
      case False
      then have "entry_of y k \<in> set (as_entries s') \<longleftrightarrow> entry_of y k \<in> set (as_entries s)" for y
        using P(3) by (auto dest: arg_cong [of _ _ a_id])
      then have "atomic_lookup s' k = Some y \<longleftrightarrow> atomic_lookup s k = Some y" for y
        by (simp add: atomic_lookup_Some P(1) a(1))
      with False show ?thesis by (metis fun_upd_other option.exhaust)
    qed
  qed
next
  fix s :: atomic_set and i
  assume a: "atomic_wf s"
  note R = atomic_remove_facts [OF a, of i]
  show "atomic_wf (atomic_remove i s)" by (rule R)
  show "atomic_lookup (atomic_remove i s) = (atomic_lookup s)(i := None)"
  proof
    fix k
    have "atomic_lookup (atomic_remove i s) k = Some y \<longleftrightarrow> k \<noteq> i \<and> atomic_lookup s k = Some y" for y
      by (auto simp: atomic_lookup_Some R(1,2) a)
    then show "atomic_lookup (atomic_remove i s) k = ((atomic_lookup s)(i := None)) k"
      by (metis fun_upd_apply option.exhaust)
  qed
qed

lemma atomic_wf_length: "atomic_wf s \<Longrightarrow> length (as_entries s) \<le> unat (as_next_id s)"
proof -
  assume wf: "atomic_wf s"
  have "length (as_entries s) = card ((unat \<circ> a_id) ` set (as_entries s))"
  proof -
    have "distinct (map (unat \<circ> a_id) (as_entries s))"
      using wf by (auto simp: atomic_wf_def distinct_map inj_on_def word_unat_eq_iff)
    then show ?thesis by (metis distinct_card length_map list.set_map)
  qed
  also have "\<dots> \<le> card {..<unat (as_next_id s)}"
    by (rule card_mono) (use wf in \<open>auto simp: atomic_wf_def\<close>)
  finally show ?thesis by simp
qed

section \<open>What the registry promises\<close>

text \<open>The live plain views by registration; the live atomic views are \<open>atomic_lookup\<close> of the set.\<close>

fun plain_lookup :: "view_registry \<Rightarrow> plain_reg \<Rightarrow> brange option" where
  "plain_lookup v Untracked = None"
| "plain_lookup v (Plain_Reg shard slot) =
     (if shard < length (vr_plain v) then slab_lookup (vr_plain v ! shard) slot else None)"

text \<open>Structure: eight well-formed slabs, well-formed atomic set, and a counter equal to the number
  of live atomic views.\<close>

definition slabs_wf :: "view_registry \<Rightarrow> bool" where
  "slabs_wf v \<longleftrightarrow> length (vr_plain v) = SHARDS \<and> list_all slab_wf (vr_plain v)"

definition registry_wf :: "view_registry \<Rightarrow> bool" where
  "registry_wf v \<longleftrightarrow> slabs_wf v
     \<and> atomic_wf (vr_atomics v) \<and> unat (vr_atomic_live v) = length (as_entries (vr_atomics v))"

text \<open>Exclusion: no live plain view overlaps a live atomic view, and live atomic views that overlap
  have the same element size.\<close>

definition plain_excluded :: "view_registry \<Rightarrow> bool" where
  "plain_excluded v \<longleftrightarrow>
     (\<forall>h r. \<forall>a \<in> set (as_entries (vr_atomics v)).
        plain_lookup v h = Some r \<longrightarrow> \<not> overlaps (a_start a) (a_end a) (fst r) (snd r))"

definition sizes_agree :: "atomic_set \<Rightarrow> bool" where
  "sizes_agree s \<longleftrightarrow>
     (\<forall>a \<in> set (as_entries s). \<forall>b \<in> set (as_entries s).
        overlaps (a_start a) (a_end a) (a_start b) (a_end b) \<longrightarrow> a_size a = a_size b)"

definition registry_ok :: "view_registry \<Rightarrow> bool" where
  "registry_ok v \<longleftrightarrow> registry_wf v \<and> plain_excluded v \<and> sizes_agree (vr_atomics v)"

lemma overlaps_sym: "overlaps a b c d \<longleftrightarrow> overlaps c d a b"
  by (auto simp: overlaps_def)

lemma registry_ok_new: "registry_ok registry_new"
  by (simp add: registry_ok_def registry_wf_def slabs_wf_def plain_excluded_def sizes_agree_def registry_new_def
      atomic_empty_def atomic_wf_def list_all_length)

lemma shard_index_bound [simp]: "shard_index t < SHARDS"
  by (simp add: shard_index_def SHARDS_def split: option.splits)

lemma registry_wf_slabs: "registry_wf v \<Longrightarrow> slabs_wf v"
  by (simp add: registry_wf_def)

lemma slabs_wf_slab: "slabs_wf v \<Longrightarrow> shard < SHARDS \<Longrightarrow> slab_wf (vr_plain v ! shard)"
  by (simp add: slabs_wf_def list_all_length)

lemma plain_insert_slabs:
  assumes "slabs_wf v" "shard < SHARDS" "plain_insert shard r v = (h, v')"
  shows "slabs_wf v'" and "plain_lookup v h = None"
    and "plain_lookup v' = (plain_lookup v)(h \<mapsto> r)"
    and "vr_atomics v' = vr_atomics v" "vr_atomic_live v' = vr_atomic_live v"
    and "\<exists>slot. h = Plain_Reg shard slot"
proof -
  obtain slot s where ins: "slab_insert r (vr_plain v ! shard) = (slot, s)"
    by (cases "slab_insert r (vr_plain v ! shard)")
  have h: "h = Plain_Reg shard slot" and v': "v' = v\<lparr>vr_plain := (vr_plain v)[shard := s]\<rparr>"
    using assms(3) ins by (simp_all add: plain_insert_def)
  have sh: "shard < length (vr_plain v)" using assms(1,2) by (simp add: slabs_wf_def)
  note S = slab.insert_fresh [OF slabs_wf_slab [OF assms(1,2)] TrueI ins]
    slab.insert_lookup [OF slabs_wf_slab [OF assms(1,2)] TrueI ins]
    slab.insert_wf [OF slabs_wf_slab [OF assms(1,2)] TrueI ins]
  show "slabs_wf v'"
    using assms(1) S(3) by (auto simp: slabs_wf_def v' list_all_length nth_update)
  show "plain_lookup v h = None" using S(1) sh by (simp add: h)
  show "plain_lookup v' = (plain_lookup v)(h \<mapsto> r)"
  proof
    fix k show "plain_lookup v' k = ((plain_lookup v)(h \<mapsto> r)) k"
      using sh S(2) by (cases k) (auto simp: h v' nth_list_update)
  qed
qed (use assms(3) in \<open>auto simp: plain_insert_def split: prod.splits\<close>)

lemma plain_insert_ok:
  assumes "registry_wf v" "shard < SHARDS" "plain_insert shard r v = (h, v')"
  shows "registry_wf v'" and "plain_lookup v h = None"
    and "plain_lookup v' = (plain_lookup v)(h \<mapsto> r)"
    and "vr_atomics v' = vr_atomics v" "vr_atomic_live v' = vr_atomic_live v"
  using plain_insert_slabs [OF registry_wf_slabs assms(2,3)] assms(1) by (simp_all add: registry_wf_def)

lemma drop_plain_atomics [simp]:
  "vr_atomics (drop_plain h v) = vr_atomics v" "vr_atomic_live (drop_plain h v) = vr_atomic_live v"
  by (cases h; simp)+

lemma drop_plain_slabs:
  assumes "slabs_wf v"
  shows "slabs_wf (drop_plain h v)" and "plain_lookup (drop_plain h v) = (plain_lookup v)(h := None)"
proof -
  show "slabs_wf (drop_plain h v)"
  proof (cases h)
    case (Plain_Reg shard slot)
    with assms slab.remove_wf show ?thesis
      by (cases "shard < length (vr_plain v)")
        (auto simp: slabs_wf_def list_all_length nth_list_update)
  qed (simp add: assms)
  show "plain_lookup (drop_plain h v) = (plain_lookup v)(h := None)"
  proof
    fix k
    have "slab_lookup (slab_remove slot s) i = (if i = slot then None else slab_lookup s i)"
      if "s \<in> set (vr_plain v)" for slot s i
      using assms that slab.remove_lookup by (auto simp: slabs_wf_def list_all_iff)
    then show "plain_lookup (drop_plain h v) k = ((plain_lookup v)(h := None)) k"
      by (cases h; cases k) (auto simp: nth_update)
  qed
qed

lemma drop_plain_ok:
  assumes "registry_wf v"
  shows "registry_wf (drop_plain h v)" and "plain_lookup (drop_plain h v) = (plain_lookup v)(h := None)"
    and "vr_atomics (drop_plain h v) = vr_atomics v" "vr_atomic_live (drop_plain h v) = vr_atomic_live v"
  using drop_plain_slabs [OF registry_wf_slabs [OF assms], of h] assms by (simp_all add: registry_wf_def)

lemma atomic_hit_iff:
  "atomic_hit v b e \<longleftrightarrow> (\<exists>a \<in> set (as_entries (vr_atomics v)). overlaps (a_start a) (a_end a) b e)"
  by (auto simp: atomic_hit_def list_ex_iff)

lemma plain_scan_iff:
  assumes "registry_wf v"
  shows "list_ex (\<lambda>s. slab_overlaps s b e) (vr_plain v) \<longleftrightarrow>
    (\<exists>h r. plain_lookup v h = Some r \<and> overlaps (fst r) (snd r) b e)"
proof
  assume "list_ex (\<lambda>s. slab_overlaps s b e) (vr_plain v)"
  then obtain shard slot r where "shard < length (vr_plain v)"
    "slab_lookup (vr_plain v ! shard) slot = Some r" "overlaps (fst r) (snd r) b e"
    by (auto simp: list_ex_length slab_overlaps_iff)
  then show "\<exists>h r. plain_lookup v h = Some r \<and> overlaps (fst r) (snd r) b e"
    by (intro exI [of _ "Plain_Reg shard slot"] exI [of _ r]) simp
next
  assume "\<exists>h r. plain_lookup v h = Some r \<and> overlaps (fst r) (snd r) b e"
  then obtain h r where h: "plain_lookup v h = Some r" "overlaps (fst r) (snd r) b e" by auto
  then show "list_ex (\<lambda>s. slab_overlaps s b e) (vr_plain v)"
    by (cases h) (auto simp: list_ex_length slab_overlaps_iff split: if_splits, metis prod.collapse)
qed

section \<open>Registration against the abstract registry\<close>

text \<open>
  The abstract registry is two finite maps from handles to ranges. Each operation is correct when it
  changes those maps as the contract says.
\<close>

lemma register_plain_ok:
  assumes ok: "registry_ok v" and sh: "shard < SHARDS" and reg: "register_plain shard b e v = (Inr h, v')"
  shows "registry_ok v'" and "plain_lookup v h = None"
    and "plain_lookup v' = (plain_lookup v)(h \<mapsto> (b, e))"
    and "vr_atomics v' = vr_atomics v" and "\<not> atomic_hit v b e"
proof -
  have wf: "registry_wf v" using ok by (simp add: registry_ok_def)
  obtain h1 v1 where ins: "plain_insert shard (b, e) v = (h1, v1)"
    by (cases "plain_insert shard (b, e) v")
  note I = plain_insert_ok [OF wf sh ins]
  have hv: "h1 = h" "v1 = v'" and hit: "\<not> atomic_hit v b e"
    using reg I(4,5) wf
    by (auto simp: register_plain_def ins atomic_hit_def registry_wf_def split: if_splits)
  have "plain_excluded v'"
    unfolding plain_excluded_def
  proof (intro allI ballI impI)
    fix k r a assume "a \<in> set (as_entries (vr_atomics v'))" "plain_lookup v' k = Some r"
    then show "\<not> overlaps (a_start a) (a_end a) (fst r) (snd r)"
      using ok hit I(3,4) hv
      by (auto simp: registry_ok_def plain_excluded_def atomic_hit_iff split: if_splits)
  qed
  with ok I hv show "registry_ok v'" by (simp add: registry_ok_def)
  show "plain_lookup v h = None" "plain_lookup v' = (plain_lookup v)(h \<mapsto> (b, e))"
    "vr_atomics v' = vr_atomics v"
    using I hv by simp_all
  show "\<not> atomic_hit v b e" by (rule hit)
qed

lemma register_plain_refused:
  assumes ok: "registry_ok v" and sh: "shard < SHARDS" and reg: "register_plain shard b e v = (Inl c, v')"
  shows "c = AtomicLive" and "atomic_hit v b e" and "registry_ok v'"
    and "plain_lookup v' = plain_lookup v" and "vr_atomics v' = vr_atomics v"
proof -
  have wf: "registry_wf v" using ok by (simp add: registry_ok_def)
  obtain h1 v1 where ins: "plain_insert shard (b, e) v = (h1, v1)"
    by (cases "plain_insert shard (b, e) v")
  note I = plain_insert_ok [OF wf sh ins] and D = drop_plain_ok [OF plain_insert_ok(1) [OF wf sh ins], of h1]
  have v': "v' = drop_plain h1 v1" and "c = AtomicLive" "atomic_hit v1 b e"
    using reg by (auto simp: register_plain_def ins split: if_splits)
  then show "c = AtomicLive" "atomic_hit v b e" using I(4) by (simp_all add: atomic_hit_def)
  show l: "plain_lookup v' = plain_lookup v" using I(2,3) D(2) by (auto simp: v' fun_eq_iff)
  show a: "vr_atomics v' = vr_atomics v" using I(4) D(3) by (simp add: v')
  show "registry_ok v'"
    using ok D(1) a l by (simp add: registry_ok_def plain_excluded_def flip: v')
qed

lemma register_plain_succeeds:
  assumes "registry_ok v" "shard < SHARDS" "\<not> atomic_hit v b e"
  shows "\<exists>h v'. register_plain shard b e v = (Inr h, v')"
  using register_plain_refused [OF assms(1,2)] assms(3)
  by (metis surj_pair sum.exhaust)

lemma register_atomic_empty: "register_atomic b b sz v = (Inr (Atomic_Reg None), v)"
  by (simp add: register_atomic_def)

lemma register_atomic_refused:
  assumes "registry_ok v" "register_atomic b e sz v = (Inl c, v')"
  shows "v' = v"
    and "c = MixedSize \<and> mixed_hit v b e sz
         \<or> c = PlainLive \<and> \<not> mixed_hit v b e sz
           \<and> (\<exists>h r. plain_lookup v h = Some r \<and> overlaps (fst r) (snd r) b e)"
  using assms plain_scan_iff [of v b e]
  by (auto simp: register_atomic_def registry_ok_def Let_def split: if_splits prod.splits)

lemma register_atomic_ok:
  assumes ok: "registry_ok v" and room: "atomic_room (vr_atomics v)" and ne: "b \<noteq> e"
    and reg: "register_atomic b e sz v = (Inr h, v')"
  shows "registry_ok v'"
    and "\<exists>i. h = Atomic_Reg (Some i) \<and> atomic_lookup (vr_atomics v) i = None
           \<and> atomic_lookup (vr_atomics v') = (atomic_lookup (vr_atomics v))(i \<mapsto> (b, e, sz))
           \<and> as_entries (vr_atomics v') = as_entries (vr_atomics v) @ [entry_of (b, e, sz) i]"
    and "plain_lookup v' = plain_lookup v"
    and "\<not> mixed_hit v b e sz"
    and "plain_lookup v k = Some r \<Longrightarrow> \<not> overlaps (fst r) (snd r) b e"
proof -
  have wf: "registry_wf v" and awf: "atomic_wf (vr_atomics v)"
    using ok by (simp_all add: registry_ok_def registry_wf_def)
  obtain i s where push: "atomic_push (b, e, sz) (vr_atomics v) = (i, s)"
    by (cases "atomic_push (b, e, sz) (vr_atomics v)")
  have mix: "\<not> mixed_hit v b e sz" and scan: "\<not> list_ex (\<lambda>s. slab_overlaps s b e) (vr_plain v)"
    and h: "h = Atomic_Reg (Some i)"
    and v': "v' = v\<lparr>vr_atomic_live := vr_atomic_live v + 1, vr_atomics := s\<rparr>"
    using reg ne push by (auto simp: register_atomic_def Let_def split: if_splits)
  note P = atomic_push_wf [OF awf room push]
  have lookup: "plain_lookup v' k = plain_lookup v k" for k
    by (cases k) (simp_all add: v')
  then show pl: "plain_lookup v' = plain_lookup v" by (simp add: fun_eq_iff)
  show free: "\<not> overlaps (fst r) (snd r) b e" if "plain_lookup v k = Some r" for k r
    using scan that by (auto simp: plain_scan_iff [OF wf])
  have "length (as_entries (vr_atomics v)) < 2 ^ 64 - 1"
  proof -
    have "unat (as_next_id (vr_atomics v)) < 2 ^ LENGTH(64)" by (rule unat_bound)
    moreover have "unat (as_next_id (vr_atomics v)) \<noteq> 2 ^ 64 - 1"
      using room by (simp add: atomic_room_def word_unat_eq_iff unat_word_max)
    ultimately show ?thesis using atomic_wf_length [OF awf] by simp
  qed
  then have live: "unat (vr_atomic_live v + 1) = Suc (length (as_entries (vr_atomics v)))"
    using wf by (simp add: registry_wf_def unat_add_exact)
  have ent: "as_entries (vr_atomics v') = as_entries (vr_atomics v) @ [entry_of (b, e, sz) i]"
    using P(3) by (simp add: v')
  have free': "\<not> overlaps b e (fst r) (snd r)" if "plain_lookup v k = Some r" for k r
    using free [OF that] by (simp add: overlaps_sym)
  have mix': "a_size a = sz" if "a \<in> set (as_entries (vr_atomics v))"
      "overlaps (a_start a) (a_end a) b e \<or> overlaps b e (a_start a) (a_end a)" for a
    using mix that overlaps_sym [of b e] by (auto simp: mixed_hit_def list_ex_iff)
  have "plain_excluded v'"
    using ok free'
    by (auto simp: registry_ok_def plain_excluded_def pl ent entry_of_def)
  moreover have "sizes_agree (vr_atomics v')"
    using ok mix' by (auto simp: registry_ok_def sizes_agree_def ent entry_of_def)
  moreover have "registry_wf v'"
    using wf P(1,3) live by (simp add: registry_wf_def slabs_wf_def v')
  ultimately show "registry_ok v'" by (simp add: registry_ok_def)
  show "\<exists>i. h = Atomic_Reg (Some i) \<and> atomic_lookup (vr_atomics v) i = None
           \<and> atomic_lookup (vr_atomics v') = (atomic_lookup (vr_atomics v))(i \<mapsto> (b, e, sz))
           \<and> as_entries (vr_atomics v') = as_entries (vr_atomics v) @ [entry_of (b, e, sz) i]"
    using h atomics.insert_fresh [OF awf room push] atomics.insert_lookup [OF awf room push] P(3)
    by (simp add: v')
  show "\<not> mixed_hit v b e sz" by (rule mix)
qed

lemma drop_plain_registry_ok:
  assumes "registry_ok v"
  shows "registry_ok (drop_plain h v)"
  using assms drop_plain_ok [of v h]
  by (auto simp: registry_ok_def plain_excluded_def split: if_splits)

lemma drop_atomic_ok:
  assumes "registry_ok v"
  shows "registry_ok (drop_atomic h v)" and "plain_lookup (drop_atomic h v) = plain_lookup v"
    and "atomic_lookup (vr_atomics (drop_atomic h v)) =
           (case ar_id h of None \<Rightarrow> atomic_lookup (vr_atomics v)
            | Some i \<Rightarrow> (atomic_lookup (vr_atomics v))(i := None))"
proof -
  have wf: "registry_wf v" "atomic_wf (vr_atomics v)"
    using assms by (simp_all add: registry_ok_def registry_wf_def)
  have pl: "plain_lookup (drop_atomic h v) k = plain_lookup v k" for k
    by (cases h rule: atomic_reg.exhaust; cases "ar_id h"; cases k) (auto split: option.splits)
  then show "plain_lookup (drop_atomic h v) = plain_lookup v" by (simp add: fun_eq_iff)
  have at: "vr_atomics (drop_atomic h v) =
      (case ar_id h of None \<Rightarrow> vr_atomics v | Some i \<Rightarrow> atomic_remove i (vr_atomics v))"
    by (cases h rule: atomic_reg.exhaust; cases "ar_id h") (auto simp: atomic_remove_def split: option.splits)
  then show "atomic_lookup (vr_atomics (drop_atomic h v)) =
           (case ar_id h of None \<Rightarrow> atomic_lookup (vr_atomics v)
            | Some i \<Rightarrow> (atomic_lookup (vr_atomics v))(i := None))"
    using atomics.remove_lookup [OF wf(2)] by (simp split: option.splits)
  have sub: "set (as_entries (vr_atomics (drop_atomic h v))) \<subseteq> set (as_entries (vr_atomics v))"
    using atomic_remove_facts(2) [OF wf(2)] by (auto simp: at split: option.splits)
  have "registry_wf (drop_atomic h v)"
  proof (cases "ar_id h")
    case None
    then have "drop_atomic h v = v" by (cases h) simp
    with wf show ?thesis by simp
  next
    case (Some i)
    then have h: "h = Atomic_Reg (Some i)" by (cases h) simp
    show ?thesis
    proof (cases "position (\<lambda>a. a_id a = i) (as_entries (vr_atomics v))")
      case None
      with h wf show ?thesis by simp
    next
      case pos: (Some k)
      have "length (as_entries (vr_atomics v)) =
          Suc (length (as_entries (atomic_remove i (vr_atomics v))))"
        using swap_remove_facts(3) [OF _ pos] wf(2) by (simp add: atomic_remove_def pos atomic_wf_def)
      moreover from this have "(1::usize) \<le> vr_atomic_live v"
        using wf(1) by (simp add: registry_wf_def word_le_unat)
      ultimately have "unat (vr_atomic_live v - 1) = length (as_entries (atomic_remove i (vr_atomics v)))"
        using wf(1) by (simp add: registry_wf_def unat_sub_exact)
      with h pos wf atomic_remove_facts(1) [OF wf(2), of i] show ?thesis
        by (simp add: registry_wf_def slabs_wf_def)
    qed
  qed
  then show "registry_ok (drop_atomic h v)"
    using assms sub by (auto simp: registry_ok_def plain_excluded_def sizes_agree_def pl; blast)
qed

section \<open>Runs of the registry\<close>

text \<open>
  The registry as its users drive it: registrations and drops in any order, up to \<open>n\<close> atomic
  registrations. The id counter has not come round while \<open>n < 2 ^ 64\<close>.
\<close>

inductive registry_run :: "nat \<Rightarrow> view_registry \<Rightarrow> bool" where
  run_new: "registry_run 0 registry_new"
| run_plain: "registry_run n v \<Longrightarrow> shard < SHARDS \<Longrightarrow> registry_run n (snd (register_plain shard b e v))"
| run_atomic: "registry_run n v \<Longrightarrow> registry_run (Suc n) (snd (register_atomic b e sz v))"
| run_drop_plain: "registry_run n v \<Longrightarrow> registry_run n (drop_plain h v)"
| run_drop_atomic: "registry_run n v \<Longrightarrow> registry_run n (drop_atomic k v)"

lemma register_plain_next_id:
  "as_next_id (vr_atomics (snd (register_plain shard b e v))) = as_next_id (vr_atomics v)"
proof -
  obtain h v1 where ins: "plain_insert shard (b, e) v = (h, v1)"
    by (cases "plain_insert shard (b, e) v")
  then have "vr_atomics v1 = vr_atomics v" by (auto simp: plain_insert_def split: prod.splits)
  then show ?thesis by (cases h) (simp_all add: register_plain_def ins)
qed

lemma drop_next_id [simp]:
  "as_next_id (vr_atomics (drop_plain h v)) = as_next_id (vr_atomics v)"
  "as_next_id (vr_atomics (drop_atomic k v)) = as_next_id (vr_atomics v)"
  by (cases h, simp_all) (cases k; cases "ar_id k"; auto simp: atomic_remove_def split: option.splits)

lemma register_atomic_next_id:
  "as_next_id (vr_atomics (snd (register_atomic b e sz v))) \<in>
     {as_next_id (vr_atomics v), as_next_id (vr_atomics v) + 1}"
  by (auto simp: register_atomic_def Let_def atomic_push_def split: prod.splits)

lemma unat_inc_le: "unat (x + 1 :: u64) \<le> Suc (unat x)"
  by (simp add: unat_word_ariths)

lemma registry_run_ok:
  "registry_run n v \<Longrightarrow> n < 2 ^ 64 - 1 \<Longrightarrow> registry_ok v \<and> unat (as_next_id (vr_atomics v)) \<le> n"
proof (induction rule: registry_run.induct)
  case run_new
  then show ?case using registry_ok_new by (simp add: registry_new_def atomic_empty_def)
next
  case (run_plain n v shard b e)
  obtain r v' where reg: "register_plain shard b e v = (r, v')" by (cases "register_plain shard b e v")
  have "registry_ok v'"
    using run_plain register_plain_ok(1) [of v shard b e _ v'] register_plain_refused(3) [of v shard b e _ v'] reg
    by (cases r) auto
  with run_plain reg register_plain_next_id [of shard b e v] show ?case by simp
next
  case (run_atomic n v b e sz)
  then have ok: "registry_ok v" and id: "unat (as_next_id (vr_atomics v)) \<le> n" by simp_all
  have room: "atomic_room (vr_atomics v)"
    using id run_atomic.prems by (auto simp: atomic_room_def unat_word_max)
  obtain r v' where reg: "register_atomic b e sz v = (r, v')" by (cases "register_atomic b e sz v")
  have "registry_ok v'"
  proof (cases r)
    case (Inl c)
    with reg ok register_atomic_refused(1) [of v b e sz c v'] show ?thesis by simp
  next
    case (Inr h)
    with reg ok room register_atomic_ok(1) [of v b e sz h v'] register_atomic_empty [of b sz v]
    show ?thesis by (cases "b = e") auto
  qed
  with reg id register_atomic_next_id [of b e sz v] unat_inc_le [of "as_next_id (vr_atomics v)"] show ?case
    by auto
qed (auto intro: drop_plain_registry_ok drop_atomic_ok)

section \<open>Properties\<close>

text \<open>Exclusion of live views: after any sequence of registrations (successful or refused) and
  drops with fewer than \<open>2 ^ 64 - 1\<close> atomic registrations, no byte lies both in a live plain view and
  in a live atomic view, no byte lies in two live atomic views of different element sizes, and
  \<open>atomic_live\<close> is exactly the number of live atomic views.\<close>

lemma live_views_exclude:
  assumes "registry_run n v" "n < 2 ^ 64 - 1"
  shows "unat (vr_atomic_live v) = length (as_entries (vr_atomics v))
    \<and> (\<forall>a \<in> set (as_entries (vr_atomics v)). \<forall>i. a_start a \<le> i \<and> i < a_end a \<longrightarrow>
         \<not> (\<exists>h r. plain_lookup v h = Some r \<and> fst r \<le> i \<and> i < snd r)
         \<and> (\<forall>b \<in> set (as_entries (vr_atomics v)). a_start b \<le> i \<and> i < a_end b \<longrightarrow> a_size a = a_size b))"
proof -
  have ok: "registry_ok v" using registry_run_ok [OF assms] by simp
  have "overlaps p q s t" if "p \<le> i \<and> i < q" "s \<le> i \<and> i < t" for p q s t i
    using that by (auto simp: overlaps_def)
  with ok show ?thesis
    unfolding registry_ok_def registry_wf_def plain_excluded_def sizes_agree_def by blast
qed

lemma live_views_exclude_witness:
  "registry_run 1 (snd (register_plain 0 8 16 (snd (register_atomic 0 8 4 registry_new))))
   \<and> as_entries (vr_atomics (snd (register_plain 0 8 16 (snd (register_atomic 0 8 4 registry_new))))) \<noteq> []
   \<and> unat (vr_atomic_live (snd (register_plain 0 8 16 (snd (register_atomic 0 8 4 registry_new))))) = 1"
proof -
  let ?v = "snd (register_plain 0 8 16 (snd (register_atomic 0 8 4 registry_new)))"
  have run: "registry_run 1 ?v"
    using run_plain [OF run_atomic [OF run_new], of 0 8 16 0 8 4] by (simp add: SHARDS_def)
  have len: "length (as_entries (vr_atomics ?v)) = 1" by code_simp
  from live_views_exclude [OF run] len have "unat (vr_atomic_live ?v) = 1" by simp
  with run len show ?thesis by auto
qed

text \<open>The contract of \<open>register_plain\<close>: it fails, with \<open>AtomicLive\<close>, exactly when a live atomic
  view overlaps the range, and then no live view has changed; otherwise it adds exactly one live
  plain view, of that range, under a handle that was not in use, and dropping that handle restores
  the live views.\<close>

lemma register_plain_contract:
  assumes "registry_ok v" "shard < SHARDS"
  shows "case register_plain shard b e v of
      (Inl c, v') \<Rightarrow> c = AtomicLive \<and> atomic_hit v b e \<and> registry_ok v'
        \<and> plain_lookup v' = plain_lookup v \<and> vr_atomics v' = vr_atomics v
    | (Inr h, v') \<Rightarrow> \<not> atomic_hit v b e \<and> registry_ok v' \<and> plain_lookup v h = None
        \<and> plain_lookup v' = (plain_lookup v)(h \<mapsto> (b, e)) \<and> vr_atomics v' = vr_atomics v
        \<and> plain_lookup (drop_plain h v') = plain_lookup v"
proof -
  obtain r v' where reg: "register_plain shard b e v = (r, v')" by (cases "register_plain shard b e v")
  show ?thesis
  proof (cases r)
    case (Inl c)
    with reg register_plain_refused [OF assms, of b e c v'] show ?thesis by simp
  next
    case (Inr h)
    note R = register_plain_ok [OF assms, of b e h v']
    have "plain_lookup (drop_plain h v') = plain_lookup v"
      using R drop_plain_ok(2) [of v' h] reg Inr by (auto simp: registry_ok_def fun_eq_iff)
    with R reg Inr show ?thesis by simp
  qed
qed

lemma register_plain_contract_witness:
  "registry_ok registry_new \<and>
   (case register_plain 3 8 16 registry_new of
      (Inl c, v') \<Rightarrow> False | (Inr h, v') \<Rightarrow> plain_lookup v' h = Some (8, 16))"
proof -
  have no: "\<not> atomic_hit registry_new 8 16" by code_simp
  from register_plain_contract [OF registry_ok_new, of 3 8 16] no registry_ok_new show ?thesis
    by (auto simp: SHARDS_def split: prod.splits sum.splits)
qed

text \<open>C18. The contract of \<open>register_atomic\<close>: an empty range registers nothing; a range that overlaps
  a live atomic view of another element size is refused as \<open>MixedSize\<close>, otherwise one that overlaps
  a live plain view as \<open>PlainLive\<close>, each leaving the registry exactly as it was (the announced count
  included); in every other case one live atomic view is added under an unused id, and dropping it
  restores the live views.\<close>

theorem register_atomic_contract:
  assumes "registry_ok v" "atomic_room (vr_atomics v)"
  shows "case register_atomic b e sz v of
      (Inl c, v') \<Rightarrow> v' = v \<and> b \<noteq> e
        \<and> c = (if mixed_hit v b e sz then MixedSize else PlainLive)
        \<and> (mixed_hit v b e sz \<or> (\<exists>h r. plain_lookup v h = Some r \<and> overlaps (fst r) (snd r) b e))
    | (Inr h, v') \<Rightarrow> registry_ok v' \<and> plain_lookup v' = plain_lookup v
        \<and> atomic_lookup (vr_atomics (drop_atomic h v')) = atomic_lookup (vr_atomics v)
        \<and> (case ar_id h of
             None \<Rightarrow> b = e \<and> v' = v
           | Some i \<Rightarrow> b \<noteq> e \<and> \<not> mixed_hit v b e sz
               \<and> \<not> (\<exists>h r. plain_lookup v h = Some r \<and> overlaps (fst r) (snd r) b e)
               \<and> atomic_lookup (vr_atomics v) i = None
               \<and> atomic_lookup (vr_atomics v') = (atomic_lookup (vr_atomics v))(i \<mapsto> (b, e, sz)))"
proof (cases "b = e")
  case True
  with assms show ?thesis by (simp add: register_atomic_empty)
next
  case False
  obtain r v' where reg: "register_atomic b e sz v = (r, v')" by (cases "register_atomic b e sz v")
  show ?thesis
  proof (cases r)
    case (Inl c)
    with False reg register_atomic_refused [OF assms(1), of b e sz c v'] show ?thesis by auto
  next
    case (Inr h)
    note R = register_atomic_ok [OF assms False reg [unfolded Inr]]
    from R(2) obtain i where i: "ar_id h = Some i" "atomic_lookup (vr_atomics v) i = None"
      "atomic_lookup (vr_atomics v') = (atomic_lookup (vr_atomics v))(i \<mapsto> (b, e, sz))"
      by auto
    then have "atomic_lookup (vr_atomics (drop_atomic h v')) = atomic_lookup (vr_atomics v)"
      using drop_atomic_ok(3) [OF R(1), of h] by (auto simp: fun_eq_iff)
    with R(1,3-5) i reg Inr False show ?thesis by auto
  qed
qed

theorem register_atomic_contract_witness:
  "registry_ok registry_new \<and> atomic_room (vr_atomics registry_new) \<and>
   (case register_atomic 0 8 4 registry_new of (Inl c, v') \<Rightarrow> False | (Inr h, v') \<Rightarrow> registry_ok v')"
proof -
  have room: "atomic_room (vr_atomics registry_new)"
    by (simp add: atomic_room_def registry_new_def atomic_empty_def word_max_def)
  have ok: "is_ok (fst (register_atomic 0 8 4 registry_new))" by code_simp
  from register_atomic_contract [OF registry_ok_new room, of 0 8 4] ok registry_ok_new room
  show ?thesis by (auto split: prod.splits sum.splits)
qed

end
