(* ===== verification/Views_Copy.thy ===== *)
theory Views_Copy
  imports Views
begin

text \<open>
  The copying reads of \<open>src/views.rs\<close>: \<open>copy_out\<close>, which reads bytes under a live atomic view with
  atomic loads of that view's element size and all others plainly, and \<open>touch\<close>, which reads one
  byte or element per page. Both hold the read lock of the atomic set, so the set does not change
  while they run. Memory is the list of mapped bytes; every access is recorded, so that what is
  read and how it is read can both be stated.
\<close>

datatype mem_access = Plain_Read nat nat | Atomic_Load nat nat

text \<open>The buffer being filled and the accesses made so far.\<close>

record copy_state =
  cs_dst :: "byte list"
  cs_log :: "mem_access list"

section \<open>Operations\<close>

definition plain_copy :: "byte list \<Rightarrow> nat \<Rightarrow> nat \<Rightarrow> nat \<Rightarrow> copy_state \<Rightarrow> copy_state" where
  "plain_copy mem frm to dst_start c =
     \<lparr>cs_dst = splice_at (cs_dst c) (frm - dst_start) (sub_slice mem frm to),
      cs_log = cs_log c @ [Plain_Read frm to]\<rparr>"

text \<open>Native-endian bytes of an atomic load are the bytes in memory.\<close>

definition atomic_load :: "byte list \<Rightarrow> nat \<Rightarrow> nat \<Rightarrow> byte list" where
  "atomic_load mem elem sz =
     (let out = replicate 8 0
      in if sz = 4 then splice_at out 0 (sub_slice mem elem (elem + 4))
         else splice_at out 0 (sub_slice mem elem (elem + 8)))"

text \<open>The loop of \<open>atomic_copy\<close>; \<open>frm % size\<close> of the source panics for a size of 0, which no entry has.\<close>

function atomic_copy_loop ::
  "byte list \<Rightarrow> nat \<Rightarrow> nat \<Rightarrow> nat \<Rightarrow> nat \<Rightarrow> nat \<Rightarrow> copy_state \<Rightarrow> copy_state" where
  "atomic_copy_loop mem elem frm to sz dst_start c =
     (if elem < to \<and> 0 < sz
      then
        let bytes = atomic_load mem elem sz;
            lo = max elem frm;
            hi = min (elem + sz) to
        in atomic_copy_loop mem (elem + sz) frm to sz dst_start
             \<lparr>cs_dst = splice_at (cs_dst c) (lo - dst_start) (sub_slice bytes (lo - elem) (hi - elem)),
              cs_log = cs_log c @ [Atomic_Load elem sz]\<rparr>
      else c)"
  by pat_completeness auto
termination
  by (relation "measure (\<lambda>(mem, elem, frm, to, sz, dst_start, c). to - elem)") auto

declare atomic_copy_loop.simps [simp del]

definition atomic_copy :: "byte list \<Rightarrow> nat \<Rightarrow> nat \<Rightarrow> nat \<Rightarrow> nat \<Rightarrow> copy_state \<Rightarrow> copy_state" where
  "atomic_copy mem frm to sz dst_start c =
     atomic_copy_loop mem (frm - frm mod sz) frm to sz dst_start c"

text \<open>One iteration of the loop over the overlapping atomic spans, and the plain rest.\<close>

definition copy_span :: "byte list \<Rightarrow> nat \<Rightarrow> nat \<Rightarrow> atomic_entry \<Rightarrow> nat \<times> copy_state \<Rightarrow> nat \<times> copy_state" where
  "copy_span mem start en sp = (\<lambda>(pos, c).
     let (pos1, c1) =
           (if a_start sp > pos
            then let plain_to = min (a_start sp) en in (plain_to, plain_copy mem pos plain_to start c)
            else (pos, c));
         atomic_to = min (a_end sp) en
     in if pos1 < atomic_to then (atomic_to, atomic_copy mem pos1 atomic_to (a_size sp) start c1)
        else (pos1, c1))"

definition copy_spans :: "byte list \<Rightarrow> nat \<Rightarrow> atomic_entry list \<Rightarrow> byte list \<Rightarrow> copy_state" where
  "copy_spans mem start spans dst =
     (let en = start + length dst;
          (pos, c) = fold (copy_span mem start en) spans (start, \<lparr>cs_dst = dst, cs_log = []\<rparr>)
      in if pos < en then plain_copy mem pos en start c else c)"

text \<open>\<open>sort_unstable_by_key\<close> gives some sorted permutation; the lemmas hold for every one.\<close>

definition copy_out :: "atomic_set \<Rightarrow> byte list \<Rightarrow> nat \<Rightarrow> byte list \<Rightarrow> copy_state" where
  "copy_out atomics mem start dst =
     copy_spans mem start
       (sort_key a_start
          (filter (\<lambda>a. overlaps (a_start a) (a_end a) start (start + length dst)) (as_entries atomics)))
       dst"

text \<open>\<open>touch\<close>: one access per page; a page size of 0 touches nothing.\<close>

definition touch_at :: "atomic_set \<Rightarrow> nat \<Rightarrow> mem_access" where
  "touch_at atomics off =
     (case List.find (\<lambda>a. a_start a \<le> off \<and> off < a_end a) (as_entries atomics) of
        Some a \<Rightarrow> Atomic_Load (off - off mod a_size a) (a_size a)
      | None \<Rightarrow> Plain_Read off (off + 1))"

function touch_loop :: "atomic_set \<Rightarrow> nat \<Rightarrow> nat \<Rightarrow> nat \<Rightarrow> mem_access list" where
  "touch_loop atomics off en page =
     (if off < en \<and> 0 < page then touch_at atomics off # touch_loop atomics (off + page) en page else [])"
  by pat_completeness auto
termination
  by (relation "measure (\<lambda>(a, off, en, page). en - off)") auto

declare touch_loop.simps [simp del]

definition touch :: "atomic_set \<Rightarrow> nat \<Rightarrow> nat \<Rightarrow> nat \<Rightarrow> mem_access list" where
  "touch atomics start len page =
     (if len = 0 \<or> page = 0 then [] else touch_loop atomics start (start + len) page)"

section \<open>Loads\<close>

text \<open>What the atomic constructors register: elements of 4 or 8 bytes, aligned, inside the mapping.\<close>

definition entry_fits :: "nat \<Rightarrow> atomic_entry \<Rightarrow> bool" where
  "entry_fits n a \<longleftrightarrow> a_size a \<in> {4, 8} \<and> a_size a dvd a_start a \<and> a_size a dvd a_end a
     \<and> a_start a < a_end a \<and> a_end a \<le> n"

lemma atomic_load_bytes:
  assumes "sz \<in> {4, 8}" "elem + sz \<le> length mem" "x \<le> y" "y \<le> sz"
  shows "sub_slice (atomic_load mem elem sz) x y = sub_slice mem (elem + x) (elem + y)"
proof (rule nth_equalityI)
  have len: "length (atomic_load mem elem sz) = 8"
    using assms(1,2) by (auto simp: atomic_load_def Let_def byte_list)
  show l: "length (sub_slice (atomic_load mem elem sz) x y) = length (sub_slice mem (elem + x) (elem + y))"
    using assms by (auto simp: byte_list len)
  fix i assume "i < length (sub_slice (atomic_load mem elem sz) x y)"
  then have i: "i < y - x" by (simp add: byte_list len)
  then have "atomic_load mem elem sz ! (x + i) = mem ! (elem + (x + i))"
    using assms by (auto simp: atomic_load_def Let_def byte_list)
  with i assms len show "sub_slice (atomic_load mem elem sz) x y ! i = sub_slice mem (elem + x) (elem + y) ! i"
    by (auto simp: byte_list add.assoc)
qed

text \<open>\<open>filled mem start to c\<close>: the buffer holds the mapped bytes from \<open>start\<close> up to \<open>to\<close>.\<close>

definition filled :: "byte list \<Rightarrow> nat \<Rightarrow> nat \<Rightarrow> nat \<Rightarrow> copy_state \<Rightarrow> bool" where
  "filled mem start n to c \<longleftrightarrow> length (cs_dst c) = n \<and> take (to - start) (cs_dst c) = sub_slice mem start to"

lemma filled_splice:
  assumes "filled mem start n frm c" "start \<le> frm" "frm \<le> to" "to \<le> start + n" "start + n \<le> length mem"
    and "cs_dst c' = splice_at (cs_dst c) (frm - start) (sub_slice mem frm to)"
  shows "filled mem start n to c'"
proof -
  have len: "length (cs_dst c) = n" and pre: "take (frm - start) (cs_dst c) = sub_slice mem start frm"
    using assms(1) by (simp_all add: filled_def)
  have sl: "length (sub_slice mem frm to) = to - frm" using assms by (simp add: byte_list)
  have "cs_dst c' = sub_slice mem start frm @ sub_slice mem frm to @ drop (to - start) (cs_dst c)"
    using assms(2,3) by (simp add: assms(6) splice_at_def pre sl)
  then have eq: "cs_dst c' = sub_slice mem start to @ drop (to - start) (cs_dst c)"
    using slice_append [of start frm to mem] assms(2,3) by simp
  have "length (sub_slice mem start to) = to - start" using assms by (simp add: byte_list)
  with eq len assms show ?thesis by (simp add: filled_def)
qed

lemma filled_plain_copy:
  "filled mem start n frm c \<Longrightarrow> start \<le> frm \<Longrightarrow> frm \<le> to \<Longrightarrow> to \<le> start + n \<Longrightarrow> start + n \<le> length mem \<Longrightarrow>
     filled mem start n to (plain_copy mem frm to start c)"
  by (rule filled_splice) (simp_all add: plain_copy_def)

lemma aligned_step:
  assumes "(sz::nat) dvd e" "sz dvd u" "e < u"
  shows "e + sz \<le> u"
proof -
  from assms(1,2) obtain i j where e: "e = sz * i" and u: "u = sz * j" by (auto elim!: dvdE)
  with assms(3) have "Suc i \<le> j" by (metis Suc_leI mult_less_cancel1)
  then have "sz * Suc i \<le> sz * j" by (rule mult_le_mono2)
  then show ?thesis by (simp add: e u)
qed

text \<open>The loads of an atomic copy are aligned elements between the bounds of the view.\<close>

definition element_load :: "nat \<Rightarrow> nat \<Rightarrow> nat \<Rightarrow> mem_access \<Rightarrow> bool" where
  "element_load lb ub sz x \<longleftrightarrow> (\<exists>e. x = Atomic_Load e sz \<and> sz dvd e \<and> lb \<le> e \<and> e + sz \<le> ub)"

lemma atomic_copy_loop_ok:
  assumes "sz \<in> {4, 8}" "sz dvd lb" "sz dvd ub" "ub \<le> length mem" "lb \<le> frm" "to \<le> ub"
    and "start \<le> frm" "frm \<le> to" "to \<le> start + n" "start + n \<le> length mem"
    and "sz dvd elem" "lb \<le> elem" "frm < elem + sz" "filled mem start n (min (max elem frm) to) c"
  shows "filled mem start n to (atomic_copy_loop mem elem frm to sz start c)
    \<and> (\<exists>L. cs_log (atomic_copy_loop mem elem frm to sz start c) = cs_log c @ L
         \<and> list_all (element_load lb ub sz) L)"
  using assms(11-14)
proof (induction "to - elem" arbitrary: elem c rule: less_induct)
  case less
  show ?case
  proof (cases "elem < to")
    case False
    with less.prems have "filled mem start n to c" by (simp add: min_absorb2 max.coboundedI1)
    with False show ?thesis by (simp add: atomic_copy_loop.simps [of mem elem])
  next
    case True
    let ?lo = "max elem frm" and ?hi = "min (elem + sz) to"
    define c1 where "c1 = \<lparr>cs_dst = splice_at (cs_dst c) (?lo - start)
        (sub_slice (atomic_load mem elem sz) (?lo - elem) (?hi - elem)),
        cs_log = cs_log c @ [Atomic_Load elem sz]\<rparr>"
    have sz: "0 < sz" using assms(1) by auto
    have fit: "elem + sz \<le> ub"
      using aligned_step [OF less.prems(1) assms(3)] True assms(6) by simp
    have order: "?lo \<le> ?hi" using True less.prems(3) assms(8) by auto
    have bytes: "sub_slice (atomic_load mem elem sz) (?lo - elem) (?hi - elem) = sub_slice mem ?lo ?hi"
      using atomic_load_bytes [OF assms(1), of elem mem "?lo - elem" "?hi - elem"] fit assms(4) order True
      by (simp add: le_diff_conv)
    have "filled mem start n ?hi c1"
    proof (rule filled_splice [of mem start n ?lo c])
      show "filled mem start n ?lo c" using less.prems(4) True assms(8) by (simp add: min_absorb1)
    qed (use order assms in \<open>auto simp: c1_def bytes\<close>)
    moreover have "min (max (elem + sz) frm) to = ?hi" using less.prems(3) by simp
    ultimately have "filled mem start n to (atomic_copy_loop mem (elem + sz) frm to sz start c1)
        \<and> (\<exists>L. cs_log (atomic_copy_loop mem (elem + sz) frm to sz start c1) = cs_log c1 @ L
             \<and> list_all (element_load lb ub sz) L)"
      using less.hyps [of "elem + sz" c1] True sz less.prems by simp
    moreover have "atomic_copy_loop mem elem frm to sz start c =
        atomic_copy_loop mem (elem + sz) frm to sz start c1"
      using True sz by (simp add: atomic_copy_loop.simps [of mem elem] Let_def c1_def)
    moreover have "element_load lb ub sz (Atomic_Load elem sz)"
      using less.prems fit by (simp add: element_load_def)
    ultimately show ?thesis
      by (auto simp: c1_def intro: exI [of _ "Atomic_Load elem sz # _"])
  qed
qed

lemma atomic_copy_ok:
  assumes "entry_fits (length mem) a" "a_start a \<le> frm" "frm < to" "to \<le> a_end a"
    and "start \<le> frm" "to \<le> start + n" "start + n \<le> length mem" "filled mem start n frm c"
  shows "filled mem start n to (atomic_copy mem frm to (a_size a) start c)
    \<and> (\<exists>L. cs_log (atomic_copy mem frm to (a_size a) start c) = cs_log c @ L
         \<and> list_all (element_load (a_start a) (a_end a) (a_size a)) L)"
proof -
  let ?sz = "a_size a" and ?e = "frm - frm mod a_size a"
  have f: "?sz \<in> {4, 8}" "?sz dvd a_start a" "?sz dvd a_end a" "a_end a \<le> length mem"
    using assms(1) by (simp_all add: entry_fits_def)
  have pos: "0 < ?sz" using f(1) by auto
  have al: "?sz dvd ?e" by (simp add: dvd_minus_mod)
  have "a_start a \<le> ?e"
  proof (rule ccontr)
    assume "\<not> a_start a \<le> ?e"
    then have "?e + ?sz \<le> a_start a" using aligned_step [OF al f(2)] by simp
    then show False using assms(2) mod_less_divisor [OF pos, of frm] by linarith
  qed
  moreover have "frm < ?e + ?sz" using mod_less_divisor [OF pos, of frm] by linarith
  moreover have "filled mem start n (min (max ?e frm) to) c"
    using assms(3,8) by (simp add: max_absorb2 min_absorb1)
  ultimately show ?thesis
    unfolding atomic_copy_def
    using atomic_copy_loop_ok [OF f assms(2,4,5) _ assms(6,7) al] assms(3) by simp
qed

section \<open>The copy as a whole\<close>

text \<open>An access is race free: plain reads touch no live atomic view, atomic loads are aligned elements
  of a live view of the same element size.\<close>

fun access_ok :: "atomic_entry list \<Rightarrow> mem_access \<Rightarrow> bool" where
  "access_ok E (Plain_Read p q) \<longleftrightarrow> p < q \<and> (\<forall>a \<in> set E. \<not> overlaps (a_start a) (a_end a) p q)"
| "access_ok E (Atomic_Load e sz) \<longleftrightarrow>
     (\<exists>a \<in> set E. a_size a = sz \<and> sz dvd e \<and> a_start a \<le> e \<and> e + sz \<le> a_end a)"

definition copy_inv ::
  "atomic_entry list \<Rightarrow> byte list \<Rightarrow> nat \<Rightarrow> nat \<Rightarrow> atomic_entry list \<Rightarrow> nat \<times> copy_state \<Rightarrow> bool" where
  "copy_inv E mem start n spans s \<longleftrightarrow>
     (case s of (pos, c) \<Rightarrow>
        start \<le> pos \<and> pos \<le> start + n \<and> filled mem start n pos c \<and> list_all (access_ok E) (cs_log c)
        \<and> (\<forall>a \<in> set E. overlaps (a_start a) (a_end a) start (start + n) \<longrightarrow>
             a \<in> set spans \<or> a_end a \<le> pos \<or> start + n \<le> pos))"

lemma copy_plain_ok:
  assumes "copy_inv E mem start n spans (pos, c)" "pos < q" "q \<le> start + n" "start + n \<le> length mem"
    and "\<forall>a \<in> set spans. q \<le> a_start a"
  shows "copy_inv E mem start n spans (q, plain_copy mem pos q start c)"
proof -
  note I = assms(1) [unfolded copy_inv_def prod.case]
  have "\<not> overlaps (a_start a) (a_end a) pos q" if a: "a \<in> set E" for a
  proof
    assume "overlaps (a_start a) (a_end a) pos q"
    then have ov: "a_start a < q" "pos < a_end a" by (simp_all add: overlaps_def)
    then have "overlaps (a_start a) (a_end a) start (start + n)"
      using I assms(3) by (auto simp: overlaps_def)
    with I a have "a \<in> set spans \<or> a_end a \<le> pos \<or> start + n \<le> pos" by blast
    with ov assms(2,3,5) show False by auto
  qed
  then have ok: "access_ok E (Plain_Read pos q)" using assms(2) by simp
  have "filled mem start n q (plain_copy mem pos q start c)"
    using I assms by (intro filled_plain_copy) auto
  with ok I assms(2,3) show ?thesis
    by (auto simp: copy_inv_def plain_copy_def)
qed

lemma copy_atomic_ok:
  assumes "copy_inv E mem start n spans (pos, c)" "a \<in> set E" "entry_fits (length mem) a"
    and "a_start a \<le> pos" "pos < q" "q = min (a_end a) (start + n)" "start + n \<le> length mem"
  shows "copy_inv E mem start n spans (q, atomic_copy mem pos q (a_size a) start c)"
proof -
  note I = assms(1) [unfolded copy_inv_def prod.case]
  have A: "filled mem start n q (atomic_copy mem pos q (a_size a) start c)
    \<and> (\<exists>L. cs_log (atomic_copy mem pos q (a_size a) start c) = cs_log c @ L
         \<and> list_all (element_load (a_start a) (a_end a) (a_size a)) L)"
    using I assms by (intro atomic_copy_ok) auto
  have "access_ok E x" if "element_load (a_start a) (a_end a) (a_size a) x" for x
    using that assms(2) by (auto simp: element_load_def)
  with A I assms(5,6) show ?thesis
    by (auto simp: copy_inv_def list_all_iff)
qed

lemma copy_span_ok:
  assumes "copy_inv E mem start n (sp # spans) s" "sp \<in> set E" "entry_fits (length mem) sp"
    and "overlaps (a_start sp) (a_end sp) start (start + n)" "\<forall>a \<in> set spans. a_start sp \<le> a_start a"
    and "start + n \<le> length mem"
  shows "copy_inv E mem start n spans (copy_span mem start (start + n) sp s)"
proof -
  obtain pos c where s: "s = (pos, c)" by (cases s)
  have sp: "a_start sp < start + n" using assms(4) by (simp add: overlaps_def)
  define s1 where "s1 = (if a_start sp > pos then (a_start sp, plain_copy mem pos (a_start sp) start c) else (pos, c))"
  have I1: "copy_inv E mem start n (sp # spans) s1"
    using assms(1,5,6) sp copy_plain_ok [of E mem start n "sp # spans" pos c "a_start sp"]
    by (auto simp: s1_def s)
  obtain pos1 c1 where s1: "s1 = (pos1, c1)" by (cases s1)
  have le: "a_start sp \<le> pos1" using s1 by (auto simp: s1_def split: if_splits)
  let ?q = "min (a_end sp) (start + n)"
  have step: "copy_span mem start (start + n) sp s =
      (if pos1 < ?q then (?q, atomic_copy mem pos1 ?q (a_size sp) start c1) else (pos1, c1))"
    using s1 sp by (auto simp: copy_span_def s Let_def s1_def min_absorb1 split: if_splits)
  show ?thesis
  proof (cases "pos1 < ?q")
    case True
    from copy_atomic_ok [OF I1 [unfolded s1] assms(2,3) le True refl assms(6)]
    have "copy_inv E mem start n (sp # spans) (?q, atomic_copy mem pos1 ?q (a_size sp) start c1)" .
    with True show ?thesis by (auto simp: step copy_inv_def)
  next
    case False
    with I1 [unfolded s1] show ?thesis by (auto simp: step copy_inv_def)
  qed
qed

lemma copy_spans_fold_ok:
  assumes "copy_inv E mem start n spans s" "sorted (map a_start spans)" "set spans \<subseteq> set E"
    and "\<forall>a \<in> set E. entry_fits (length mem) a" "start + n \<le> length mem"
    and "\<forall>a \<in> set spans. overlaps (a_start a) (a_end a) start (start + n)"
  shows "copy_inv E mem start n [] (fold (copy_span mem start (start + n)) spans s)"
  using assms(1-3,6)
proof (induction spans arbitrary: s)
  case (Cons sp spans)
  have "copy_inv E mem start n spans (copy_span mem start (start + n) sp s)"
    using Cons.prems assms(4,5) by (intro copy_span_ok) auto
  with Cons show ?case by simp
qed simp

lemma copy_spans_ok:
  assumes "sorted (map a_start spans)"
    and "set spans = {a \<in> set E. overlaps (a_start a) (a_end a) start (start + length dst)}"
    and "\<forall>a \<in> set E. entry_fits (length mem) a" "start + length dst \<le> length mem"
  shows "cs_dst (copy_spans mem start spans dst) = sub_slice mem start (start + length dst)"
    and "list_all (access_ok E) (cs_log (copy_spans mem start spans dst))"
proof -
  let ?n = "length dst" and ?s0 = "(start, \<lparr>cs_dst = dst, cs_log = []\<rparr>)"
  obtain pos c where f: "fold (copy_span mem start (start + ?n)) spans ?s0 = (pos, c)"
    by (cases "fold (copy_span mem start (start + ?n)) spans ?s0")
  have "copy_inv E mem start ?n spans ?s0"
    using assms(2) by (auto simp: copy_inv_def filled_def)
  moreover have "set spans \<subseteq> set E"
      and "\<forall>a \<in> set spans. overlaps (a_start a) (a_end a) start (start + ?n)"
    by (auto simp: assms(2))
  ultimately have I: "copy_inv E mem start ?n [] (pos, c)"
    using copy_spans_fold_ok [OF _ assms(1) _ assms(3,4), of ?s0] unfolding f by blast
  define r where "r = copy_spans mem start spans dst"
  have r: "r = (if pos < start + ?n then plain_copy mem pos (start + ?n) start c else c)"
    by (simp add: r_def copy_spans_def f Let_def)
  have "copy_inv E mem start ?n [] (start + ?n, r)"
  proof (cases "pos < start + ?n")
    case True
    with copy_plain_ok [OF I, of "start + ?n"] assms(4) show ?thesis by (simp add: r)
  next
    case False
    moreover have "pos \<le> start + ?n" using I by (simp add: copy_inv_def)
    ultimately have "pos = start + ?n" by simp
    with I show ?thesis by (simp add: r)
  qed
  then have "length (cs_dst r) = ?n" "take ?n (cs_dst r) = sub_slice mem start (start + ?n)"
    "list_all (access_ok E) (cs_log r)"
    by (simp_all add: copy_inv_def filled_def)
  then show "cs_dst (copy_spans mem start spans dst) = sub_slice mem start (start + ?n)"
    "list_all (access_ok E) (cs_log (copy_spans mem start spans dst))"
    by (simp_all add: r_def)
qed

lemma copy_out_ok:
  assumes "\<forall>a \<in> set (as_entries s). entry_fits (length mem) a" "start + length dst \<le> length mem"
  shows "cs_dst (copy_out s mem start dst) = sub_slice mem start (start + length dst)"
    and "list_all (access_ok (as_entries s)) (cs_log (copy_out s mem start dst))"
  using copy_spans_ok [of "sort_key a_start (filter (\<lambda>a. overlaps (a_start a) (a_end a) start
      (start + length dst)) (as_entries s))" "as_entries s" start dst mem] assms
  by (simp_all add: copy_out_def)

section \<open>Touching pages\<close>

lemma touch_at_ok:
  assumes "\<forall>a \<in> set (as_entries s). entry_fits n a"
  shows "access_ok (as_entries s) (touch_at s off)"
proof (cases "List.find (\<lambda>a. a_start a \<le> off \<and> off < a_end a) (as_entries s)")
  case None
  then have "\<not> overlaps (a_start a) (a_end a) off (off + 1)" if "a \<in> set (as_entries s)" for a
    using that by (auto simp: find_None_iff overlaps_def)
  with None show ?thesis by (simp add: touch_at_def)
next
  case (Some a)
  then have a: "a \<in> set (as_entries s)" "a_start a \<le> off" "off < a_end a"
    by (auto simp: find_Some_iff)
  let ?sz = "a_size a" and ?e = "off - off mod a_size a"
  have f: "?sz dvd a_start a" "?sz dvd a_end a" "0 < ?sz"
    using assms a(1) by (auto simp: entry_fits_def)
  have al: "?sz dvd ?e" by (simp add: dvd_minus_mod)
  have "?e + ?sz \<le> a_end a" using aligned_step [OF al f(2)] a(3) by simp
  moreover have "a_start a \<le> ?e"
    using aligned_step [OF al f(1)] a(2) mod_less_divisor [OF f(3), of off]
    by (meson add_leD1 diff_le_self leI le_diff_conv less_le_not_le linorder_not_less not_less_iff_gr_or_eq
        order.trans add_less_cancel_left le_add_diff_inverse2 mod_less_eq_dividend)
  ultimately show ?thesis using Some a(1) al by (auto simp: touch_at_def)
qed

lemma touch_loop_eq:
  "0 < page \<Longrightarrow> touch_loop s off en page =
     map (\<lambda>i. touch_at s (off + i * page)) [0..<(en - off + page - 1) div page]"
proof (induction "en - off" arbitrary: off rule: less_induct)
  case less
  show ?case
  proof (cases "off < en")
    case False
    with less.prems show ?thesis by (simp add: touch_loop.simps [of s off])
  next
    case True
    have step: "(en - off + page - 1) div page = Suc ((en - (off + page) + page - 1) div page)"
    proof (cases "off + page \<le> en")
      case True
      then have "en - off + page - 1 = (en - (off + page) + page - 1) + page"
        using less.prems by linarith
      then show ?thesis using less.prems by (simp only: div_add_self2)
    next
      case False
      then have "en - off + page - 1 = page + (en - off - 1)" "en - off - 1 < page"
        using True less.prems by linarith+
      then have "(en - off + page - 1) div page = 1"
        using less.prems by (simp only: div_add_self1) simp
      with False less.prems show ?thesis by simp
    qed
    have "touch_loop s off en page = touch_at s off # touch_loop s (off + page) en page"
      using True less.prems by (simp add: touch_loop.simps [of s off])
    also have "\<dots> = touch_at s off # map (\<lambda>i. touch_at s (off + page + i * page))
        [0..<(en - (off + page) + page - 1) div page]"
      using less.hyps [of "off + page"] True less.prems by simp
    also have "\<dots> = map (\<lambda>i. touch_at s (off + i * page)) [0..<(en - off + page - 1) div page]"
      unfolding step upt_conv_Cons [OF zero_less_Suc] map_Suc_upt [symmetric] by (simp add: add.assoc)
    finally show ?thesis .
  qed
qed

section \<open>Properties\<close>

text \<open>C6. \<open>copy_out\<close> is a faithful, race-free copy: whatever atomic views are live (nested, adjacent or
  partly outside the range), it fills the whole buffer with exactly the mapped bytes of the range;
  every plain read it makes is non-empty and touches no byte of a live atomic view; and every atomic
  load is an aligned element inside a live atomic view, of that view's element size. This holds for
  every order the unstable sort may give to views with the same start.\<close>

theorem copy_out_faithful:
  assumes "\<forall>a \<in> set (as_entries s). entry_fits (length mem) a" "start + length dst \<le> length mem"
    and "mset spans = mset (filter (\<lambda>a. overlaps (a_start a) (a_end a) start (start + length dst)) (as_entries s))"
    and "sorted (map a_start spans)"
  shows "cs_dst (copy_spans mem start spans dst) = take (length dst) (drop start mem)
    \<and> list_all (access_ok (as_entries s)) (cs_log (copy_spans mem start spans dst))
    \<and> cs_dst (copy_out s mem start dst) = take (length dst) (drop start mem)
    \<and> list_all (access_ok (as_entries s)) (cs_log (copy_out s mem start dst))"
proof -
  have "set spans = {a \<in> set (as_entries s). overlaps (a_start a) (a_end a) start (start + length dst)}"
    using arg_cong [OF assms(3), of set_mset] by auto
  from copy_spans_ok [OF assms(4) this assms(1,2)] copy_out_ok [OF assms(1,2)] show ?thesis
    by (simp add: sub_slice_def)
qed

theorem copy_out_faithful_witness:
  "cs_dst (copy_out \<lparr>as_entries = [\<lparr>a_start = 4, a_end = 12, a_size = 4, a_id = 0\<rparr>], as_next_id = 1\<rparr>
       [0, 1, 2, 3, 4, 5, 6, 7, 8, 9, 10, 11, 12, 13, 14, 15] 2 (replicate 8 0)) =
     [2, 3, 4, 5, 6, 7, 8, 9]"
proof -
  let ?e = "\<lparr>a_start = 4, a_end = 12, a_size = 4, a_id = 0\<rparr>"
  let ?s = "\<lparr>as_entries = [?e], as_next_id = 1\<rparr>" and ?m = "[0, 1, 2, 3, 4, 5, 6, 7, 8, 9, 10, 11, 12, 13, 14, 15] :: byte list"
  have "\<forall>a \<in> set (as_entries ?s). entry_fits (length ?m) a" by (simp add: entry_fits_def)
  from copy_out_faithful [OF this, of 2 "replicate 8 0" "[?e]"] show ?thesis
    by (simp add: overlaps_def)
qed

text \<open>\<open>touch\<close> reads once in every page of the range, at \<open>start\<close>, \<open>start + page\<close>, and so on up to the
  end and no further, and every one of those reads is race free; an empty range or a page size of
  0 reads nothing.\<close>

lemma touch_reads_each_page:
  assumes "\<forall>a \<in> set (as_entries s). entry_fits n a"
  shows "touch s start len page =
      (if page = 0 then []
       else map (\<lambda>i. touch_at s (start + i * page)) [0..<(len + page - 1) div page])
    \<and> list_all (access_ok (as_entries s)) (touch s start len page)"
proof -
  have eq: "touch s start len page =
      (if page = 0 then []
       else map (\<lambda>i. touch_at s (start + i * page)) [0..<(len + page - 1) div page])"
    by (auto simp: touch_def touch_loop_eq)
  then show ?thesis using touch_at_ok [OF assms] by (auto simp: list_all_iff)
qed

lemma touch_reads_each_page_witness:
  "touch \<lparr>as_entries = [\<lparr>a_start = 8, a_end = 16, a_size = 8, a_id = 0\<rparr>], as_next_id = 1\<rparr> 2 10 4
     = [Plain_Read 2 3, Plain_Read 6 7, Atomic_Load 8 8]"
proof -
  let ?e = "\<lparr>a_start = 8, a_end = 16, a_size = 8, a_id = 0\<rparr>"
  let ?s = "\<lparr>as_entries = [?e], as_next_id = 1\<rparr>"
  have "\<forall>a \<in> set (as_entries ?s). entry_fits 16 a" by (simp add: entry_fits_def)
  from touch_reads_each_page [OF this, of 2 10 4] show ?thesis
    by (simp add: touch_at_def upt_rec)
qed

end
