(* ===== verification/Joined_Worker.thy ===== *)
theory Joined_Worker
  imports Main
begin

text \<open>
  The interface of a background thread that its owner joins when it is dropped: the thread makes
  callbacks, an ended thread makes none, and a drop that has returned to another thread has seen the
  end. The background flusher and the dispatcher of a file watch both provide it.
\<close>

locale joined_worker =
  fixes step :: "'s \<Rightarrow> 's \<Rightarrow> bool"
    and good :: "'s \<Rightarrow> bool"
    and ended :: "'s \<Rightarrow> bool"
    and returned :: "'s \<Rightarrow> bool"
    and calls :: "'s \<Rightarrow> 'c"
  assumes good_step: "good s \<Longrightarrow> step s t \<Longrightarrow> good t"
    and ended_step: "ended s \<Longrightarrow> step s t \<Longrightarrow> ended t \<and> calls t = calls s"
    and returned_ended: "good s \<Longrightarrow> returned s \<Longrightarrow> ended s"
begin

lemma good_run: "step\<^sup>*\<^sup>* s t \<Longrightarrow> good s \<Longrightarrow> good t"
  by (induction rule: rtranclp_induct) (auto intro: good_step)

lemma ended_run: "step\<^sup>*\<^sup>* s t \<Longrightarrow> ended s \<Longrightarrow> ended t \<and> calls t = calls s"
  by (induction rule: rtranclp_induct) (auto dest: ended_step)

text \<open>Nothing is called after the drop has returned, in any continuation of any run.\<close>

lemma silent_after_return:
  assumes "good s" "step\<^sup>*\<^sup>* s t" "step\<^sup>*\<^sup>* t u" "returned t"
  shows "ended t \<and> ended u \<and> calls u = calls t"
  using good_run [OF assms(2,1)] returned_ended [OF _ assms(4)] ended_run [OF assms(3)] by blast

end

end
