(* ===== verification/Flush.thy ===== *)
theory Flush
  imports Prelude Joined_Worker
begin

text \<open>
  \<open>src/flush.rs\<close>: the flush policies and the background flusher. The worker thread and the dropping
  thread are a state machine over the shared \<open>stop\<close> flag. The worker holds the mutex from the moment
  its wait ends until it has read the flag, so leaving the wait and deciding what to do next is one
  step; the callback runs without the mutex. The time of a deadline is not modelled: a wait may end
  at any moment, as a time-out.
\<close>

datatype flush_policy =
    Never | Manual | Always | EveryBytes usize | EveryWrites usize | EveryMillis u64

section \<open>The flusher\<close>

datatype worker_pc = W_Waiting | W_Callback | W_Done

text \<open>Where the drop is: not started, signalled by another thread and joining, returned to another
  thread, or returned on the worker itself.\<close>

datatype drop_pc = D_Alive | D_Joining | D_Returned | D_On_Worker

record flusher =
  fl_stop :: bool
  fl_worker :: worker_pc
  fl_drop :: drop_pc
  fl_calls :: nat

text \<open>\<open>TimeBasedFlusher::new\<close>: no flusher for an interval of 0 or when the thread cannot be spawned.\<close>

definition flusher_new :: "u64 \<Rightarrow> bool \<Rightarrow> flusher option" where
  "flusher_new interval_ms spawned =
     (if interval_ms = 0 then None
      else if spawned
      then Some \<lparr>fl_stop = False, fl_worker = W_Waiting, fl_drop = D_Alive, fl_calls = 0\<rparr>
      else None)"

inductive worker_step :: "flusher \<Rightarrow> flusher \<Rightarrow> bool" where
  timed_out:
    "fl_worker f = W_Waiting \<Longrightarrow> \<not> fl_stop f \<Longrightarrow>
       worker_step f (f\<lparr>fl_worker := W_Callback, fl_calls := Suc (fl_calls f)\<rparr>)"
| woken_to_stop:
    "fl_worker f = W_Waiting \<Longrightarrow> fl_stop f \<Longrightarrow> worker_step f (f\<lparr>fl_worker := W_Done\<rparr>)"
| callback_returns:
    "fl_worker f = W_Callback \<Longrightarrow> worker_step f (f\<lparr>fl_worker := W_Waiting\<rparr>)"

text \<open>\<open>Drop for TimeBasedFlusher\<close>: set the flag and notify; join unless on the worker thread, where
  the drop can only run inside the callback.\<close>

inductive dropper_step :: "flusher \<Rightarrow> flusher \<Rightarrow> bool" where
  drop_signals:
    "fl_drop f = D_Alive \<Longrightarrow> dropper_step f (f\<lparr>fl_stop := True, fl_drop := D_Joining\<rparr>)"
| drop_joined:
    "fl_drop f = D_Joining \<Longrightarrow> fl_worker f = W_Done \<Longrightarrow> dropper_step f (f\<lparr>fl_drop := D_Returned\<rparr>)"
| drop_on_worker:
    "fl_drop f = D_Alive \<Longrightarrow> fl_worker f = W_Callback \<Longrightarrow>
       dropper_step f (f\<lparr>fl_stop := True, fl_drop := D_On_Worker\<rparr>)"

text \<open>The two threads interleave.\<close>

definition flusher_step :: "flusher \<Rightarrow> flusher \<Rightarrow> bool" where
  "flusher_step f g \<longleftrightarrow> worker_step f g \<or> dropper_step f g"

abbreviation flusher_run :: "flusher \<Rightarrow> flusher \<Rightarrow> bool" where
  "flusher_run \<equiv> flusher_step\<^sup>*\<^sup>*"

inductive_cases worker_stepE [elim!]: "worker_step f g"
inductive_cases dropper_stepE [elim!]: "dropper_step f g"

section \<open>Invariants\<close>

definition flusher_inv :: "flusher \<Rightarrow> bool" where
  "flusher_inv f \<longleftrightarrow> (fl_stop f \<longleftrightarrow> fl_drop f \<noteq> D_Alive) \<and> (fl_worker f = W_Done \<longrightarrow> fl_stop f)
     \<and> (fl_drop f = D_Returned \<longrightarrow> fl_worker f = W_Done)"

lemma flusher_inv_new: "flusher_new ms spawned = Some f \<Longrightarrow> flusher_inv f"
  by (auto simp: flusher_new_def flusher_inv_def split: if_splits)

lemma flusher_inv_step: "flusher_inv f \<Longrightarrow> flusher_step f g \<Longrightarrow> flusher_inv g"
  by (auto simp: flusher_step_def flusher_inv_def)

interpretation flush_worker: joined_worker flusher_step flusher_inv "\<lambda>f. fl_worker f = W_Done"
  "\<lambda>f. fl_drop f = D_Returned" fl_calls
  by unfold_locales (auto simp: flusher_inv_step, auto simp: flusher_step_def flusher_inv_def)

text \<open>Once the flag is set no callback starts any more.\<close>

lemma stopped_run:
  "flusher_run f g \<Longrightarrow> fl_stop f \<Longrightarrow> fl_stop g \<and> fl_calls g = fl_calls f"
  by (induction rule: rtranclp_induct) (auto simp: flusher_step_def)

section \<open>Properties\<close>





end
