(* ===== verification/Mmap.thy ===== *)
theory Mmap
  imports Raw Views_Copy Flush
begin

text \<open>
  \<open>src/mmap.rs\<close>, the managed mapping: the state of one \<open>MemoryMappedFile\<close> (\<open>Inner\<close>) and its reads,
  writes, flushes, touches and resizes. The constructors are in \<open>Mmap_Open\<close>.

  The lock around a writable mapping is the pair of a reader count and a writer flag. A blocking
  acquisition that would have to wait has the value \<open>None\<close>: the call does not return in this state.
  The non-blocking variants test the same condition. Guards held only inside a call are acquired and
  released within it; guards that a returned view keeps stay counted until its drop.

  An operation is a function \<open>sys \<Rightarrow> ((error + value) \<times> sys) option\<close> over the mapping and the world.
\<close>

section \<open>State\<close>

datatype mmap_mode = ReadOnly | ReadWrite | CopyOnWrite

datatype touch_hint = Hint_Never | Hint_Eager | Hint_Lazy

datatype map_variant = Ro mapping | Rw mapping | Cow mapping

record inner =
  i_path :: path
  i_file :: fid
  i_mode :: mmap_mode
  i_cached_len :: u64
  i_map :: map_variant
  i_policy :: flush_policy
  i_written :: u64
  i_writes :: u64
  i_flusher :: "flusher option"
  i_views :: view_registry
  i_huge :: bool
  i_readers :: nat
  i_writer :: bool

record sys =
  s_mm :: inner
  s_world :: world

type_synonym 'a op = "sys \<Rightarrow> ((mmap_io_error + 'a) \<times> sys) option"

definition ERR_ZERO_SIZE :: string where
  "ERR_ZERO_SIZE = ''Size must be greater than zero''"

definition ERR_ZERO_LENGTH_FILE :: string where
  "ERR_ZERO_LENGTH_FILE = ''Cannot map zero-length file''"

definition ERR_COW_READ_ONLY :: string where
  "ERR_COW_READ_ONLY = ''copy-on-write mapping is read-only; open it with open_cow_writable() or the builder's cow_writable(true) to write privately''"

text \<open>128 TB.\<close>

definition MAX_MMAP_SIZE :: u64 where
  "MAX_MMAP_SIZE = 128 * 2 ^ 40"

section \<open>Operations and locks\<close>

definition op_return :: "'a \<Rightarrow> 'a op" where
  "op_return x s = Some (Inr x, s)"

definition op_fail :: "mmap_io_error \<Rightarrow> 'a op" where
  "op_fail e s = Some (Inl e, s)"

definition op_lift :: "mmap_io_error + 'a \<Rightarrow> 'a op" where
  "op_lift r s = Some (r, s)"

definition op_bind :: "'a op \<Rightarrow> ('a \<Rightarrow> 'b op) \<Rightarrow> 'b op" where
  "op_bind m f s =
     (case m s of
        None \<Rightarrow> None
      | Some (Inl e, s') \<Rightarrow> Some (Inl e, s')
      | Some (Inr x, s') \<Rightarrow> f x s')"

text \<open>An I/O computation whose error is turned into one of the crate's.\<close>

definition op_io :: "(io_error \<Rightarrow> mmap_io_error) \<Rightarrow> 'a os_io \<Rightarrow> 'a op" where
  "op_io g m s = (case m (s_world s) of (r, w') \<Rightarrow> Some (map_err g r, s\<lparr>s_world := w'\<rparr>))"

fun variant_mapping :: "map_variant \<Rightarrow> mapping" where
  "variant_mapping (Ro m) = m"
| "variant_mapping (Rw m) = m"
| "variant_mapping (Cow m) = m"

fun set_variant :: "mapping \<Rightarrow> map_variant \<Rightarrow> map_variant" where
  "set_variant m (Ro _) = Ro m"
| "set_variant m (Rw _) = Rw m"
| "set_variant m (Cow _) = Cow m"

text \<open>\<open>MapVariant::locked\<close>\<close>

fun locked :: "map_variant \<Rightarrow> bool" where
  "locked (Ro _) = False"
| "locked (Rw _) = True"
| "locked (Cow _) = True"

abbreviation s_mapping :: "sys \<Rightarrow> mapping" where
  "s_mapping s \<equiv> variant_mapping (i_map (s_mm s))"

abbreviation mm_upd :: "(inner \<Rightarrow> inner) \<Rightarrow> sys \<Rightarrow> sys" where
  "mm_upd f s \<equiv> s\<lparr>s_mm := f (s_mm s)\<rparr>"

text \<open>A read guard can be had unless a writer holds the lock; a write guard unless anyone does.\<close>

definition read_free :: "sys \<Rightarrow> bool" where
  "read_free s \<longleftrightarrow> (locked (i_map (s_mm s)) \<longrightarrow> \<not> i_writer (s_mm s))"

definition write_free :: "sys \<Rightarrow> bool" where
  "write_free s \<longleftrightarrow> \<not> i_writer (s_mm s) \<and> i_readers (s_mm s) = 0"

text \<open>\<open>map_read\<close>: the mapping, under a read guard unless it is read-only.\<close>

definition map_read :: "(mapping \<Rightarrow> 'a op) \<Rightarrow> 'a op" where
  "map_read k s = (if read_free s then k (s_mapping s) s else None)"

definition write_lock :: "string \<Rightarrow> sys \<Rightarrow> mmap_io_error + unit" where
  "write_lock msg s =
     (if locked (i_map (s_mm s)) then Inr ()
      else Inl (InvalidMode (if i_mode (s_mm s) = CopyOnWrite then ERR_COW_READ_ONLY else msg)))"

definition tracks_writes :: "inner \<Rightarrow> bool" where
  "tracks_writes mm = (case i_map mm of Rw _ \<Rightarrow> True | _ \<Rightarrow> False)"

text \<open>\<open>pending_counter\<close>: the counter only a \<open>ReadWrite\<close> mapping has; \<open>record_write\<close> adds to it.\<close>

definition record_write :: "u64 \<Rightarrow> inner \<Rightarrow> inner" where
  "record_write n mm = (if tracks_writes mm then mm\<lparr>i_written := i_written mm + n\<rparr> else mm)"

text \<open>Bytes copied into the mapping under the write guard.\<close>

definition store_at :: "nat \<Rightarrow> byte list \<Rightarrow> sys \<Rightarrow> sys" where
  "store_at start d s =
     (case mapping_store start d (s_mapping s, s_world s) of
        (m, w) \<Rightarrow> \<lparr>s_mm = (s_mm s)\<lparr>i_map := set_variant m (i_map (s_mm s))\<rparr>, s_world = w\<rparr>)"

section \<open>Introspection\<close>

definition get_mode :: "sys \<Rightarrow> mmap_mode" where
  "get_mode s = i_mode (s_mm s)"

definition mmap_len :: "sys \<Rightarrow> u64" where
  "mmap_len s = i_cached_len (s_mm s)"

definition mmap_is_empty :: "sys \<Rightarrow> bool" where
  "mmap_is_empty s \<longleftrightarrow> mmap_len s = 0"

definition current_len :: "sys \<Rightarrow> mmap_io_error + u64" where
  "current_len s = Inr (mmap_len s)"

definition mmap_path :: "sys \<Rightarrow> path" where
  "mmap_path s = i_path (s_mm s)"

definition pending_bytes :: "sys \<Rightarrow> u64" where
  "pending_bytes s = i_written (s_mm s)"

definition get_flush_policy :: "sys \<Rightarrow> flush_policy" where
  "get_flush_policy s = i_policy (s_mm s)"

definition is_cow_writable :: "sys \<Rightarrow> bool" where
  "is_cow_writable s = (case i_map (s_mm s) of Cow _ \<Rightarrow> True | _ \<Rightarrow> False)"

section \<open>Read views\<close>

text \<open>\<open>MappedSlice\<close>: a range of a read-only mapping, a guarded and registered range of a lockable one,
  or an owned copy.\<close>

datatype mapped_slice =
    Slice_Owned nat nat
  | Slice_Guarded plain_reg nat nat
  | Slice_Snapshot "byte list"

definition slice_bytes :: "sys \<Rightarrow> mapped_slice \<Rightarrow> byte list" where
  "slice_bytes s sl =
     (case sl of
        Slice_Owned b e \<Rightarrow> sub_slice (mapping_bytes (s_world s) (s_mapping s)) b e
      | Slice_Guarded _ b e \<Rightarrow> sub_slice (mapping_bytes (s_world s) (s_mapping s)) b e
      | Slice_Snapshot bs \<Rightarrow> bs)"

definition slice_len :: "sys \<Rightarrow> mapped_slice \<Rightarrow> nat" where
  "slice_len s sl = length (slice_bytes s sl)"

text \<open>\<open>views.register_plain\<close> of the build's registry, by a thread of shard \<open>sh\<close>.\<close>

definition view_register :: "env \<Rightarrow> nat \<Rightarrow> nat \<Rightarrow> nat \<Rightarrow> view_registry \<Rightarrow> (conflict + plain_reg) \<times> view_registry" where
  "view_register env sh b e v = (if e_atomic env then register_plain sh b e v else register_plain_untracked v)"

text \<open>\<open>MapRead::into_view\<close>. The guard that was taken stays with the slice; on a conflict it is released.\<close>

definition into_view :: "env \<Rightarrow> nat \<Rightarrow> nat \<Rightarrow> nat \<Rightarrow> mapped_slice op" where
  "into_view env sh b e s =
     (if locked (i_map (s_mm s))
      then (case view_register env sh b e (i_views (s_mm s)) of
              (Inl c, v) \<Rightarrow> Some (Inl (from_conflict c), mm_upd (\<lambda>mm. mm\<lparr>i_views := v\<rparr>) s)
            | (Inr reg, v) \<Rightarrow>
                Some (Inr (Slice_Guarded reg b e),
                      mm_upd (\<lambda>mm. mm\<lparr>i_views := v, i_readers := Suc (i_readers mm)\<rparr>) s))
      else Some (Inr (Slice_Owned b e), s))"

definition as_slice :: "env \<Rightarrow> nat \<Rightarrow> u64 \<Rightarrow> u64 \<Rightarrow> mapped_slice op" where
  "as_slice env sh off len =
     (if len = 0 then op_return (Slice_Owned 0 0)
      else map_read (\<lambda>m. op_bind (op_lift (slice_range64 off len (m_len m)))
             (\<lambda>(b, e). into_view env sh (unat b) (unat e))))"

definition try_as_slice :: "env \<Rightarrow> nat \<Rightarrow> u64 \<Rightarrow> u64 \<Rightarrow> mapped_slice option op" where
  "try_as_slice env sh off len =
     (if len = 0 then op_return (Some (Slice_Owned 0 0))
      else (\<lambda>s. if \<not> read_free s then Some (Inr None, s)
        else op_bind (op_lift (slice_range64 off len (m_len (s_mapping s))))
               (\<lambda>(b, e). op_bind (into_view env sh (unat b) (unat e)) (\<lambda>v. op_return (Some v))) s))"

text \<open>The 0.9.6 shim: plain bytes of a mapping nothing can write.\<close>

definition as_slice_bytes :: "u64 \<Rightarrow> u64 \<Rightarrow> byte list op" where
  "as_slice_bytes off len s =
     (case i_map (s_mm s) of
        Ro m \<Rightarrow>
          if len = 0 then Some (Inr [], s)
          else op_bind (op_lift (slice_range64 off len (m_len m)))
                 (\<lambda>(b, e). op_return (sub_slice (mapping_bytes (s_world s) m) (unat b) (unat e))) s
      | _ \<Rightarrow> Some (Inl (InvalidMode ''use as_slice() for writable mappings; as_slice_bytes is the 0.9.6 compat shim and supports read-only mappings only''), s))"

text \<open>Dropping a \<open>MappedSlice\<close>: the registration first, then the guard.\<close>

definition drop_slice :: "mapped_slice \<Rightarrow> sys \<Rightarrow> sys" where
  "drop_slice sl s =
     (case sl of
        Slice_Guarded reg _ _ \<Rightarrow>
          mm_upd (\<lambda>mm. mm\<lparr>i_views := drop_plain reg (i_views mm), i_readers := i_readers mm - 1\<rparr>) s
      | _ \<Rightarrow> s)"

section \<open>Copying reads\<close>

text \<open>\<open>MapRead::copy_to\<close>: the new contents of \<open>dst\<close>.\<close>

definition copy_to :: "env \<Rightarrow> sys \<Rightarrow> nat \<Rightarrow> byte list \<Rightarrow> byte list" where
  "copy_to env s start dst =
     (let mem = mapping_bytes (s_world s) (s_mapping s)
      in if locked (i_map (s_mm s)) \<and> e_atomic env
         then cs_dst (copy_out (vr_atomics (i_views (s_mm s))) mem start dst)
         else sub_slice mem start (start + length dst))"

definition read_into :: "env \<Rightarrow> u64 \<Rightarrow> byte list \<Rightarrow> byte list op" where
  "read_into env off buf =
     (if buf = [] then op_return []
      else map_read (\<lambda>m. op_bind (op_lift (slice_range64 off (of_nat (length buf)) (m_len m)))
             (\<lambda>(b, e) s. Some (Inr (copy_to env s (unat b) buf), s))))"

definition read_bytes :: "env \<Rightarrow> u64 \<Rightarrow> u64 \<Rightarrow> byte list op" where
  "read_bytes env off len =
     (if len = 0 then op_return []
      else map_read (\<lambda>m. op_bind (op_lift (slice_range64 off len (m_len m)))
             (\<lambda>(b, e) s. Some (Inr (copy_to env s (unat b) (replicate (unat e - unat b) 0)), s))))"

section \<open>Flushing\<close>

definition flush_mapped :: "env \<Rightarrow> unit op" where
  "flush_mapped env s =
     (let bytes = i_written (s_mm s);
          writes = i_writes (s_mm s);
          s1 = mm_upd (\<lambda>mm. mm\<lparr>i_written := 0, i_writes := 0\<rparr>) s
      in (case raw_flush env (s_mapping s1) (s_world s1) of
            (Inl e, w') \<Rightarrow>
              Some (Inl (FlushFailed (io_text e)),
                    mm_upd (\<lambda>mm. mm\<lparr>i_written := i_written mm + bytes, i_writes := i_writes mm + writes\<rparr>)
                      (s1\<lparr>s_world := w'\<rparr>))
          | (Inr _, w') \<Rightarrow> Some (Inr (), s1\<lparr>s_world := w'\<rparr>)))"

definition mmap_flush :: "env \<Rightarrow> unit op" where
  "mmap_flush env s =
     (case i_map (s_mm s) of
        Rw _ \<Rightarrow> map_read (\<lambda>_. flush_mapped env) s
      | _ \<Rightarrow> Some (Inr (), s))"

text \<open>\<open>count_update\<close>: count one update and decide whether the policy flushes now.\<close>

definition count_update :: "u64 \<Rightarrow> sys \<Rightarrow> bool \<times> sys" where
  "count_update written s =
     (if \<not> tracks_writes (s_mm s) then (False, s)
      else
        let mm = s_mm s;
            pending = saturating_add (i_written mm) written;
            writes = saturating_add (i_writes mm) 1;
            s' = mm_upd (\<lambda>mm. mm\<lparr>i_written := i_written mm + written, i_writes := i_writes mm + 1\<rparr>) s
        in (case i_policy mm of
              Never \<Rightarrow> (False, s')
            | Manual \<Rightarrow> (False, s')
            | EveryMillis _ \<Rightarrow> (False, s')
            | Always \<Rightarrow> (True, s')
            | EveryBytes n \<Rightarrow> (n > 0 \<and> pending \<ge> ucast n, s')
            | EveryWrites n \<Rightarrow> (n > 0 \<and> writes \<ge> ucast n, s')))"

definition apply_flush_policy :: "env \<Rightarrow> u64 \<Rightarrow> unit op" where
  "apply_flush_policy env written s =
     (case count_update written s of
        (True, s') \<Rightarrow> mmap_flush env s'
      | (False, s') \<Rightarrow> Some (Inr (), s'))"

definition flush_range :: "env \<Rightarrow> u64 \<Rightarrow> u64 \<Rightarrow> unit op" where
  "flush_range env off len =
     (if len = 0 then op_return ()
      else map_read (\<lambda>m. op_bind (op_lift (slice_range64 off len (m_len m)))
             (\<lambda>(b, e) s.
                case i_map (s_mm s) of
                  Rw _ \<Rightarrow>
                    if b = 0 \<and> e = m_len m then mmap_flush env s
                    else op_io (\<lambda>err. FlushFailed (io_text err)) (raw_flush_range env m b (e - b)) s
                | _ \<Rightarrow> Some (Inr (), s))))"

definition schedule_mapped :: "env \<Rightarrow> usize \<Rightarrow> usize \<Rightarrow> unit op" where
  "schedule_mapped env start cnt s =
     (if cnt = 0 then Some (Inr (), s)
      else op_io (\<lambda>e. FlushFailed (''schedule_flush: '' @ io_text e))
             (if e_target env = Linux then start_writeback env (i_file (s_mm s)) start cnt
              else raw_flush_async_range env (s_mapping s) start cnt) s)"

definition schedule_flush :: "env \<Rightarrow> unit op" where
  "schedule_flush env s =
     (case i_map (s_mm s) of
        Rw _ \<Rightarrow> map_read (\<lambda>m. schedule_mapped env 0 (m_len m)) s
      | _ \<Rightarrow> Some (Inr (), s))"

definition schedule_flush_range :: "env \<Rightarrow> u64 \<Rightarrow> u64 \<Rightarrow> unit op" where
  "schedule_flush_range env off len =
     (if len = 0 then op_return ()
      else map_read (\<lambda>m. op_bind (op_lift (slice_range64 off len (m_len m)))
             (\<lambda>(b, e) s.
                case i_map (s_mm s) of
                  Rw _ \<Rightarrow> schedule_mapped env b (e - b) s
                | _ \<Rightarrow> Some (Inr (), s))))"

section \<open>Writes\<close>

definition update_region_within :: "env \<Rightarrow> u64 \<Rightarrow> byte list \<Rightarrow> u64 \<Rightarrow> unit op" where
  "update_region_within env off data span s =
     (case write_lock ''Update region requires ReadWrite or CopyOnWrite mode.'' s of
        Inl e \<Rightarrow> Some (Inl e, s)
      | Inr _ \<Rightarrow>
          if \<not> write_free s then None
          else
            let len = of_nat (length data)
            in (case slice_range64 off (max span len) (m_len (s_mapping s)) of
                  Inl e \<Rightarrow> Some (Inl e, s)
                | Inr (start, _) \<Rightarrow> apply_flush_policy env len (store_at (unat start) data s)))"

definition update_region :: "env \<Rightarrow> u64 \<Rightarrow> byte list \<Rightarrow> unit op" where
  "update_region env off data s =
     (if data = [] then Some (Inr (), s)
      else update_region_within env off data (of_nat (length data)) s)"

definition try_update_region :: "env \<Rightarrow> u64 \<Rightarrow> byte list \<Rightarrow> bool op" where
  "try_update_region env off data s =
     (if data = [] then Some (Inr True, s)
      else (case write_lock ''Update region requires ReadWrite or CopyOnWrite mode.'' s of
        Inl e \<Rightarrow> Some (Inl e, s)
      | Inr _ \<Rightarrow>
          if \<not> write_free s then Some (Inr False, s)
          else
            let len = of_nat (length data)
            in (case slice_range64 off len (m_len (s_mapping s)) of
                  Inl e \<Rightarrow> Some (Inl e, s)
                | Inr (start, _) \<Rightarrow>
                    (case count_update len (store_at (unat start) data s) of
                       (True, s') \<Rightarrow> op_bind (flush_mapped env) (\<lambda>_. op_return True) s'
                     | (False, s') \<Rightarrow> Some (Inr True, s')))))"

text \<open>\<open>MappedSliceMut\<close>: the range it lends, with the write guard.\<close>

datatype mapped_slice_mut = Slice_Mut (sm_start: nat) (sm_end: nat)

definition as_slice_mut :: "u64 \<Rightarrow> u64 \<Rightarrow> mapped_slice_mut op" where
  "as_slice_mut off len s =
     (case write_lock ''mutable access on read-only mapping'' s of
        Inl e \<Rightarrow> Some (Inl e, s)
      | Inr _ \<Rightarrow>
          if \<not> write_free s then None
          else (case (if len = 0 then Inr (0, 0) else slice_range64 off len (m_len (s_mapping s))) of
                  Inl e \<Rightarrow> Some (Inl e, s)
                | Inr (b, e) \<Rightarrow>
                    Some (Inr (Slice_Mut (unat b) (unat e)), mm_upd (\<lambda>mm. mm\<lparr>i_writer := True\<rparr>) s)))"

definition try_as_slice_mut :: "u64 \<Rightarrow> u64 \<Rightarrow> mapped_slice_mut option op" where
  "try_as_slice_mut off len s =
     (case write_lock ''mutable access on read-only mapping'' s of
        Inl e \<Rightarrow> Some (Inl e, s)
      | Inr _ \<Rightarrow>
          if \<not> write_free s then Some (Inr None, s)
          else (case (if len = 0 then Inr (0, 0) else slice_range64 off len (m_len (s_mapping s))) of
                  Inl e \<Rightarrow> Some (Inl e, s)
                | Inr (b, e) \<Rightarrow>
                    Some (Inr (Some (Slice_Mut (unat b) (unat e))), mm_upd (\<lambda>mm. mm\<lparr>i_writer := True\<rparr>) s)))"

text \<open>A write through the mutable slice, at an index of the slice.\<close>

definition slice_mut_store :: "mapped_slice_mut \<Rightarrow> nat \<Rightarrow> byte list \<Rightarrow> sys \<Rightarrow> sys" where
  "slice_mut_store sm i d s = store_at (sm_start sm + i) d s"

definition slice_mut_len :: "mapped_slice_mut \<Rightarrow> nat" where
  "slice_mut_len sm = sm_end sm - sm_start sm"

text \<open>\<open>Drop for MappedSliceMut\<close>: the whole range is counted as written, then the guard is released.\<close>

definition drop_slice_mut :: "mapped_slice_mut \<Rightarrow> sys \<Rightarrow> sys" where
  "drop_slice_mut sm s =
     mm_upd (\<lambda>mm. (record_write (of_nat (slice_mut_len sm)) mm)\<lparr>i_writer := False\<rparr>) s"

section \<open>Resizing\<close>

definition advise_huge_pages :: "env \<Rightarrow> mapping \<Rightarrow> world \<Rightarrow> world" where
  "advise_huge_pages env m w =
     (if e_target env = Linux \<and> \<not> raw_is_empty m
      then snd (os_call env (Sys_madvise (raw_as_ptr m) (raw_len m) MADV_HUGEPAGE) w)
      else w)"

definition map_file_rw :: "env \<Rightarrow> fid \<Rightarrow> usize \<Rightarrow> bool \<Rightarrow> mapping os_io" where
  "map_file_rw env f len huge w =
     (case raw_map_mut env (options_len len options_new) f w of
        (Inl e, w') \<Rightarrow> (Inl e, w')
      | (Inr m, w') \<Rightarrow> (Inr m, if e_hugepages env \<and> huge then advise_huge_pages env m w' else w'))"

definition huge_pages :: "env \<Rightarrow> sys \<Rightarrow> bool" where
  "huge_pages env s \<longleftrightarrow> e_hugepages env \<and> i_huge (s_mm s)"

text \<open>\<open>*map = new_map\<close>: the old mapping is dropped.\<close>

definition replace_map :: "env \<Rightarrow> mapping \<Rightarrow> sys \<Rightarrow> sys" where
  "replace_map env m s =
     \<lparr>s_mm = (s_mm s)\<lparr>i_map := set_variant m (i_map (s_mm s))\<rparr>,
      s_world = mapping_drop env (s_mapping s) (s_world s)\<rparr>"

definition grow_locked :: "env \<Rightarrow> u64 \<Rightarrow> u64 \<Rightarrow> usize \<Rightarrow> unit op" where
  "grow_locked env current_size new_size new_len s =
     (case fs_set_len env (i_file (s_mm s)) new_size (s_world s) of
        (Inl e, w1) \<Rightarrow> Some (Inl (from_io_error e), s\<lparr>s_world := w1\<rparr>)
      | (Inr _, w1) \<Rightarrow>
          (case map_file_rw env (i_file (s_mm s)) new_len (huge_pages env s) w1 of
             (Inr m, w2) \<Rightarrow> Some (Inr (), replace_map env m (s\<lparr>s_world := w2\<rparr>))
           | (Inl e, w2) \<Rightarrow>
               Some (Inl (from_io_error e),
                     s\<lparr>s_world := snd (fs_set_len env (i_file (s_mm s)) current_size w2)\<rparr>)))"

definition shrink_locked_unix :: "env \<Rightarrow> u64 \<Rightarrow> usize \<Rightarrow> unit op" where
  "shrink_locked_unix env new_size new_len s =
     (case map_file_rw env (i_file (s_mm s)) new_len (huge_pages env s) (s_world s) of
        (Inl e, w1) \<Rightarrow> Some (Inl (from_io_error e), s\<lparr>s_world := w1\<rparr>)
      | (Inr m, w1) \<Rightarrow>
          (case fs_set_len env (i_file (s_mm s)) new_size w1 of
             (Inl e, w2) \<Rightarrow> Some (Inl (from_io_error e), s\<lparr>s_world := mapping_drop env m w2\<rparr>)
           | (Inr _, w2) \<Rightarrow> Some (Inr (), replace_map env m (s\<lparr>s_world := w2\<rparr>))))"

text \<open>On Windows the view is unmapped first, by putting an empty mapping in its place.\<close>

definition shrink_locked_windows :: "env \<Rightarrow> usize \<Rightarrow> u64 \<Rightarrow> usize \<Rightarrow> unit op" where
  "shrink_locked_windows env cur_len new_size new_len s =
     (case rawmmapmut_map_anon env 0 (s_world s) of
        (Inl e, w1) \<Rightarrow> Some (Inl (from_io_error e), s\<lparr>s_world := w1\<rparr>)
      | (Inr placeholder, w1) \<Rightarrow>
          let s1 = replace_map env placeholder (s\<lparr>s_world := w1\<rparr>)
          in (case fs_set_len env (i_file (s_mm s)) new_size (s_world s1) of
                (Inl e, w2) \<Rightarrow>
                  (case map_file_rw env (i_file (s_mm s)) cur_len (huge_pages env s) w2 of
                     (Inl e', w3) \<Rightarrow> Some (Inl (from_io_error e'), s1\<lparr>s_world := w3\<rparr>)
                   | (Inr m, w3) \<Rightarrow> Some (Inl (from_io_error e), replace_map env m (s1\<lparr>s_world := w3\<rparr>)))
              | (Inr _, w2) \<Rightarrow>
                  (case map_file_rw env (i_file (s_mm s)) new_len (huge_pages env s) w2 of
                     (Inl e', w3) \<Rightarrow> Some (Inl (from_io_error e'), s1\<lparr>s_world := w3\<rparr>)
                   | (Inr m, w3) \<Rightarrow> Some (Inr (), replace_map env m (s1\<lparr>s_world := w3\<rparr>)))))"

definition shrink_locked :: "env \<Rightarrow> usize \<Rightarrow> u64 \<Rightarrow> usize \<Rightarrow> unit op" where
  "shrink_locked env cur_len new_size new_len =
     (if e_target env = Windows then shrink_locked_windows env cur_len new_size new_len
      else shrink_locked_unix env new_size new_len)"

text \<open>The cached length is stored after the attempt, whatever its result.\<close>

definition store_cached_len :: "sys \<Rightarrow> sys" where
  "store_cached_len s = mm_upd (\<lambda>mm. mm\<lparr>i_cached_len := ucast (m_len (variant_mapping (i_map mm)))\<rparr>) s"

definition resize :: "env \<Rightarrow> u64 \<Rightarrow> unit op" where
  "resize env new_size s =
     (if i_mode (s_mm s) \<noteq> ReadWrite then Some (Inl (InvalidMode ''Resize requires ReadWrite mode''), s)
      else if new_size = 0 then Some (Inl (ResizeFailed ''New size must be greater than zero''), s)
      else if new_size > MAX_MMAP_SIZE
      then Some (Inl (ResizeFailed (''New size '' @ show_word new_size @ '' exceeds maximum safe limit of ''
                   @ show_word MAX_MMAP_SIZE @ '' bytes'')), s)
      else (case word_try_from new_size of
              None \<Rightarrow> Some (Inl (ResizeFailed (''New size '' @ show_word new_size @ '' does not fit in usize'')), s)
            | Some new_len \<Rightarrow>
                (case i_map (s_mm s) of
                   Rw m \<Rightarrow>
                     if \<not> write_free s then None
                     else
                       let cur_len = m_len m
                       in map_option (\<lambda>(r, s'). (r, store_cached_len s'))
                            (if new_len = cur_len then Some (Inr (), s)
                             else if new_len > cur_len
                             then grow_locked env (ucast cur_len) new_size new_len s
                             else shrink_locked env cur_len new_size new_len s)
                 | _ \<Rightarrow> Some (Inl (InvalidMode ''Resize requires ReadWrite mode''), s))))"

section \<open>Touching and prefetching\<close>

text \<open>\<open>touch_range_with_ptr\<close> for a read-only mapping, the registry's \<open>touch\<close> otherwise.\<close>

definition touch_range_with_ptr :: "nat \<Rightarrow> nat \<Rightarrow> nat \<Rightarrow> mem_access list" where
  "touch_range_with_ptr start walk_len page_sz =
     (if walk_len = 0 \<or> page_sz = 0 then [] else touch_loop atomic_empty start (start + walk_len) page_sz)"

definition touch_locked :: "env \<Rightarrow> sys \<Rightarrow> nat \<Rightarrow> nat \<Rightarrow> nat \<Rightarrow> mem_access list" where
  "touch_locked env s start len page_sz =
     (if locked (i_map (s_mm s)) \<and> e_atomic env then touch (vr_atomics (i_views (s_mm s))) start len page_sz
      else touch_range_with_ptr start len page_sz)"

definition touch_pages :: "env \<Rightarrow> mem_access list op" where
  "touch_pages env =
     map_read (\<lambda>m s. Some (Inr (touch_locked env s 0 (unat (m_len m)) (unat (page_size (e_plat env)))), s))"

definition touch_pages_range :: "env \<Rightarrow> u64 \<Rightarrow> u64 \<Rightarrow> mem_access list op" where
  "touch_pages_range env off len =
     (if len = 0 then op_return []
      else map_read (\<lambda>m. op_bind (op_lift (slice_range64 off len (m_len m)))
             (\<lambda>(b, e) s.
                let page_sz = unat (page_size (e_plat env));
                    first_page = unat b - unat b mod page_sz
                in Some (Inr (touch_locked env s first_page (unat e - first_page) page_sz), s))))"

definition prefetch_range :: "env \<Rightarrow> u64 \<Rightarrow> u64 \<Rightarrow> unit op" where
  "prefetch_range env off len =
     (if len = 0 then op_return ()
      else (\<lambda>s. op_bind (op_lift (current_len s)) (\<lambda>n.
             op_bind (op_lift (ensure_in_bounds off len n)) (\<lambda>_.
               if e_target env \<in> {Linux, Android}
               then op_io (\<lambda>e. AdviceFailed (''posix_fadvise(WILLNEED) failed with errno ''
                               @ (case io_raw_os e of Some c \<Rightarrow> show_nat (nat c) | None \<Rightarrow> [])))
                      (os_call_unit env (Sys_posix_fadvise (i_file (s_mm s)) off len))
               else op_return ())) s))"

section \<open>Pointers and unmapping\<close>

definition mmap_as_ptr :: "addr op" where
  "mmap_as_ptr = map_read (\<lambda>m. op_return (raw_as_ptr m))"

definition mmap_as_mut_ptr :: "addr op" where
  "mmap_as_mut_ptr s =
     (case write_lock ''as_mut_ptr requires a writable mapping'' s of
        Inl e \<Rightarrow> Some (Inl e, s)
      | Inr _ \<Rightarrow>
          map_read (\<lambda>m s. Some (Inr (raw_as_ptr m), mm_upd (record_write (ucast (m_len m))) s)) s)"

text \<open>\<open>unmap\<close>, given whether this is the last handle: the flusher is stopped, the mapping is dropped and
  the file is handed back; otherwise the handle is.\<close>

definition unmap :: "env \<Rightarrow> bool \<Rightarrow> sys \<Rightarrow> (sys + fid) \<times> world" where
  "unmap env unique s =
     (if unique then (Inr (i_file (s_mm s)), mapping_drop env (s_mapping s) (s_world s))
      else (Inl s, s_world s))"

end
