(* ===== verification/Mmap_Facts.thy ===== *)
theory Mmap_Facts
  imports Mmap
begin

text \<open>
  What the operations of a managed mapping do: the invariant of its state, writes and reads, the
  accounting of the flush policies, the equivalence of the non-blocking variants, and resizing.
\<close>

section \<open>The invariant\<close>

abbreviation s_bytes :: "sys \<Rightarrow> byte list" where
  "s_bytes s \<equiv> mapping_bytes (s_world s) (s_mapping s)"

abbreviation s_file_bytes :: "sys \<Rightarrow> byte list" where
  "s_file_bytes s \<equiv> w_data (s_world s) (i_file (s_mm s))"

text \<open>The mapping of each mode: a read-write mapping is the whole file from its start, shared.\<close>

definition variant_ok :: "sys \<Rightarrow> bool" where
  "variant_ok s \<longleftrightarrow>
     (case i_map (s_mm s) of
        Ro m \<Rightarrow> i_mode (s_mm s) \<in> {ReadOnly, CopyOnWrite}
      | Rw m \<Rightarrow> i_mode (s_mm s) = ReadWrite \<and> m_kind m = Kind_Write
          \<and> m_len m \<noteq> 0 \<and> m_mem m = Window (i_file (s_mm s)) 0
          \<and> unat (m_len m) = length (s_file_bytes s)
      | Cow m \<Rightarrow> i_mode (s_mm s) = CopyOnWrite \<and> is_private (m_kind m))"

definition sys_ok :: "sys \<Rightarrow> bool" where
  "sys_ok s \<longleftrightarrow> mapping_ok (s_world s) (s_mapping s) \<and> variant_ok s
     \<and> i_cached_len (s_mm s) = m_len (s_mapping s)
     \<and> registry_ok (i_views (s_mm s))
     \<and> (i_writer (s_mm s) \<longrightarrow> i_readers (s_mm s) = 0)
     \<and> (\<forall>f. length (w_data (s_world s) f) < 2 ^ 63)"

lemma sys_okD:
  assumes "sys_ok s"
  shows "mapping_ok (s_world s) (s_mapping s)" "variant_ok s" "i_cached_len (s_mm s) = m_len (s_mapping s)"
    "registry_ok (i_views (s_mm s))" "length (s_bytes s) = unat (m_len (s_mapping s))"
    "unat (m_len (s_mapping s)) < 2 ^ 63"
  using assms length_mapping_bytes mapping_len_bound by (auto simp: sys_ok_def)

lemma unat_of_length: "length (d :: byte list) < 2 ^ 63 \<Longrightarrow> unat (of_nat (length d) :: u64) = length d"
  by (simp add: unat_of_nat)

lemma set_variant_simps [simp]:
  "variant_mapping (set_variant m v) = m" "locked (set_variant m v) = locked v"
  by (cases v; simp)+

section \<open>Stores\<close>

lemma store_at_simps [simp]:
  "i_mode (s_mm (store_at b d s)) = i_mode (s_mm s)" "i_file (s_mm (store_at b d s)) = i_file (s_mm s)"
  "i_cached_len (s_mm (store_at b d s)) = i_cached_len (s_mm s)"
  "i_policy (s_mm (store_at b d s)) = i_policy (s_mm s)"
  "i_written (s_mm (store_at b d s)) = i_written (s_mm s)" "i_writes (s_mm (store_at b d s)) = i_writes (s_mm s)"
  "i_views (s_mm (store_at b d s)) = i_views (s_mm s)" "i_readers (s_mm (store_at b d s)) = i_readers (s_mm s)"
  "i_writer (s_mm (store_at b d s)) = i_writer (s_mm s)" "i_flusher (s_mm (store_at b d s)) = i_flusher (s_mm s)"
  "i_path (s_mm (store_at b d s)) = i_path (s_mm s)" "i_huge (s_mm (store_at b d s)) = i_huge (s_mm s)"
  by (simp_all add: store_at_def split: prod.splits)

lemma store_at_variant [simp]:
  "locked (i_map (s_mm (store_at b d s))) = locked (i_map (s_mm s))"
  "tracks_writes (s_mm (store_at b d s)) = tracks_writes (s_mm s)"
  by (cases "i_map (s_mm s)"; simp add: store_at_def tracks_writes_def split: prod.splits)+

lemma store_at_map: "\<exists>m'. i_map (s_mm (store_at b d s)) = set_variant m' (i_map (s_mm s))"
  by (cases "mapping_store b d (s_mapping s, s_world s)") (auto simp: store_at_def)

lemma store_at_mapped:
  "(s_mapping (store_at b d s), s_world (store_at b d s)) = mapping_store b d (s_mapping s, s_world s)"
  by (simp add: store_at_def split: prod.splits)

lemma mapping_store_frame:
  assumes "mapping_store b d (m, w) = (m', w')"
  shows "m_kind m' = m_kind m" and "m_mem m = Window f off \<Longrightarrow> m_mem m' = Window f off"
    and "m_mem m = Window f off \<Longrightarrow> w_data w' = (w_data w)(f := splice_at (w_data w f) (off + b) d)"
  using assms by (auto simp: mapping_store_def split: mem_ref.splits)

lemma mapping_store_lengths:
  assumes "mapping_store b d (m, w) = (m', w')" "mapping_ok w m" "b + length d \<le> unat (m_len m)"
  shows "length (w_data w' f) = length (w_data w f)"
  using assms
  by (auto simp: mapping_store_def mapping_ok_def length_splice_at split: mem_ref.splits if_splits)

lemma mapping_store_private:
  assumes "mapping_store b d (m, w) = (m', w')" "mapping_ok w m" "is_private (m_kind m)"
  shows "w_data w' = w_data w"
  using assms by (auto simp: mapping_store_def mapping_ok_def split: mem_ref.splits if_splits)

lemma store_at_ok:
  assumes "sys_ok s" "b + length d \<le> unat (m_len (s_mapping s))"
  shows "s_bytes (store_at b d s) = splice_at (s_bytes s) b d"
    and "mapping_ok (s_world (store_at b d s)) (s_mapping (store_at b d s))"
    and "m_len (s_mapping (store_at b d s)) = m_len (s_mapping s)"
    and "m_kind (s_mapping (store_at b d s)) = m_kind (s_mapping s)"
proof -
  let ?s = "store_at b d s"
  have st: "mapping_store b d (s_mapping s, s_world s) = (s_mapping ?s, s_world ?s)"
    by (simp only: store_at_mapped)
  from mapping_store_ok [OF sys_okD(1) [OF assms(1)] assms(2) st]
  show "s_bytes ?s = splice_at (s_bytes s) b d" "mapping_ok (s_world ?s) (s_mapping ?s)"
    "m_len (s_mapping ?s) = m_len (s_mapping s)" by simp_all
  show "m_kind (s_mapping ?s) = m_kind (s_mapping s)"
    by (rule mapping_store_frame(1) [OF st])
qed

lemma store_at_files:
  assumes "sys_ok s" "b + length d \<le> unat (m_len (s_mapping s))"
  shows "length (w_data (s_world (store_at b d s)) f) = length (w_data (s_world s) f)"
    and "m_mem (s_mapping s) = Window f 0 \<Longrightarrow> m_mem (s_mapping (store_at b d s)) = Window f 0"
    and "m_mem (s_mapping s) = Window f 0 \<Longrightarrow>
           w_data (s_world (store_at b d s)) = (w_data (s_world s))(f := splice_at (w_data (s_world s) f) b d)"
    and "is_private (m_kind (s_mapping s)) \<Longrightarrow> w_data (s_world (store_at b d s)) = w_data (s_world s)"
proof -
  have ok: "mapping_ok (s_world s) (s_mapping s)" by (rule sys_okD(1) [OF assms(1)])
  have st: "mapping_store b d (s_mapping s, s_world s) = (s_mapping (store_at b d s), s_world (store_at b d s))"
    by (simp only: store_at_mapped)
  show "length (w_data (s_world (store_at b d s)) f) = length (w_data (s_world s) f)"
    by (rule mapping_store_lengths [OF st ok assms(2)])
  show "m_mem (s_mapping s) = Window f 0 \<Longrightarrow> m_mem (s_mapping (store_at b d s)) = Window f 0"
    "m_mem (s_mapping s) = Window f 0 \<Longrightarrow>
       w_data (s_world (store_at b d s)) = (w_data (s_world s))(f := splice_at (w_data (s_world s) f) b d)"
    using mapping_store_frame(2,3) [OF st] by simp_all
  show "is_private (m_kind (s_mapping s)) \<Longrightarrow> w_data (s_world (store_at b d s)) = w_data (s_world s)"
    by (rule mapping_store_private [OF st ok])
qed

lemma store_at_sys_ok:
  assumes "sys_ok s" "b + length d \<le> unat (m_len (s_mapping s))"
  shows "sys_ok (store_at b d s)"
proof -
  let ?s = "store_at b d s"
  have "variant_ok ?s"
  proof (cases "i_map (s_mm s)")
    case (Rw m)
    then have m: "m_mem (s_mapping s) = Window (i_file (s_mm s)) 0" "m_kind (s_mapping s) = Kind_Write"
      "m_len (s_mapping s) \<noteq> 0" "i_mode (s_mm s) = ReadWrite"
      "unat (m_len (s_mapping s)) = length (s_file_bytes s)"
      using sys_okD(2) [OF assms(1)] by (simp_all add: variant_ok_def)
    obtain m' where m': "i_map (s_mm ?s) = Rw m'"
      using Rw store_at_map [of b d s] by auto
    then show ?thesis
      using m store_at_ok(3,4) [OF assms] store_at_files(1,2) [OF assms] by (simp add: variant_ok_def)
  next
    case (Ro m)
    then show ?thesis using sys_okD(2) [OF assms(1)] by (simp add: variant_ok_def store_at_def split: prod.splits)
  next
    case (Cow m)
    obtain m' where "i_map (s_mm ?s) = Cow m'"
      using Cow store_at_map [of b d s] by auto
    with Cow show ?thesis
      using sys_okD(2) [OF assms(1)] store_at_ok(4) [OF assms] by (simp add: variant_ok_def)
  qed
  then show ?thesis
    using assms(1) store_at_ok [OF assms] store_at_files(1) [OF assms] by (simp add: sys_ok_def)
qed

text \<open>The managed mapping provides the byte-store interface, on the states where it is writable.\<close>

interpretation managed: byte_store s_bytes store_at sys_ok
proof
  fix s :: sys and off and d :: "byte list"
  assume a: "sys_ok s" "off + length d \<le> length (s_bytes s)"
  then have "off + length d \<le> unat (m_len (s_mapping s))" by (simp add: sys_okD(5))
  from store_at_sys_ok [OF a(1) this] store_at_ok(1) [OF a(1) this]
  show "sys_ok (store_at off d s)" and "s_bytes (store_at off d s) = splice_at (s_bytes s) off d" .
qed

section \<open>Changes outside the mapped bytes\<close>

text \<open>A state that differs only in its counters, its lock and the trace of the world.\<close>

lemma sys_ok_cong:
  assumes "sys_ok s" "same_files (s_world s) (s_world s')" "i_map (s_mm s') = i_map (s_mm s)"
    and "i_mode (s_mm s') = i_mode (s_mm s)" "i_file (s_mm s') = i_file (s_mm s)"
    and "i_cached_len (s_mm s') = i_cached_len (s_mm s)" "registry_ok (i_views (s_mm s'))"
    and "i_writer (s_mm s') \<longrightarrow> i_readers (s_mm s') = 0"
  shows "sys_ok s'"
  using assms mapping_ok_cong [of "s_world s'" "s_world s"]
  by (auto simp: sys_ok_def variant_ok_def same_files_def split: map_variant.splits)

lemma flush_mapped_cases:
  obtains (ok) w' where "flush_mapped env s = Some (Inr (),
      s\<lparr>s_mm := (s_mm s)\<lparr>i_written := 0, i_writes := 0\<rparr>, s_world := w'\<rparr>)"
      "raw_flush env (s_mapping s) (s_world s) = (Inr (), w')" "same_files (s_world s) w'"
  | (failed) e w' where "flush_mapped env s = Some (Inl (FlushFailed (io_text e)), s\<lparr>s_world := w'\<rparr>)"
      "raw_flush env (s_mapping s) (s_world s) = (Inl e, w')" "same_files (s_world s) w'"
proof -
  obtain r w' where f: "raw_flush env (s_mapping s) (s_world s) = (r, w')"
    by (cases "raw_flush env (s_mapping s) (s_world s)")
  then have q: "same_files (s_world s) w'"
    using quietD [OF quiet_ranged(1)] by (simp add: raw_flush_def)
  show ?thesis
  proof (cases r)
    case (Inl e)
    with f q failed [of e w'] show ?thesis by (simp add: flush_mapped_def Let_def)
  next
    case (Inr u)
    with f q ok [of w'] show ?thesis by (simp add: flush_mapped_def Let_def)
  qed
qed

definition quiet_sys :: "sys \<Rightarrow> sys \<Rightarrow> bool" where
  "quiet_sys s s' \<longleftrightarrow> same_files (s_world s) (s_world s') \<and> i_map (s_mm s') = i_map (s_mm s)
     \<and> i_mode (s_mm s') = i_mode (s_mm s) \<and> i_file (s_mm s') = i_file (s_mm s)
     \<and> i_cached_len (s_mm s') = i_cached_len (s_mm s) \<and> i_views (s_mm s') = i_views (s_mm s)
     \<and> i_readers (s_mm s') = i_readers (s_mm s) \<and> i_writer (s_mm s') = i_writer (s_mm s)
     \<and> i_policy (s_mm s') = i_policy (s_mm s)"

lemma quiet_sys_refl [simp]: "quiet_sys s s"
  by (simp add: quiet_sys_def)

lemma quiet_sys_trans: "quiet_sys s s' \<Longrightarrow> quiet_sys s' s'' \<Longrightarrow> quiet_sys s s''"
  using same_files_trans by (auto simp: quiet_sys_def)

lemma quiet_sys_ok: "quiet_sys s s' \<Longrightarrow> sys_ok s \<Longrightarrow> sys_ok s'"
  by (rule sys_ok_cong [of s]) (auto simp: quiet_sys_def sys_ok_def)

lemma quiet_sys_bytes: "quiet_sys s s' \<Longrightarrow> s_bytes s' = s_bytes s \<and> w_data (s_world s') = w_data (s_world s)"
  using mapping_bytes_cong [of "s_world s'" "s_world s" "s_mapping s"]
  by (simp add: quiet_sys_def same_files_def)

lemma flush_mapped_quiet: "flush_mapped env s = Some (r, s') \<Longrightarrow> quiet_sys s s'"
  by (cases rule: flush_mapped_cases [of env s]) (auto simp: quiet_sys_def)

lemma count_update_quiet: "count_update n s = (b, s') \<Longrightarrow> quiet_sys s s'"
  by (auto simp: count_update_def quiet_sys_def Let_def split: if_splits flush_policy.splits)

lemma mmap_flush_quiet: "mmap_flush env s = Some (r, s') \<Longrightarrow> quiet_sys s s'"
  by (auto simp: mmap_flush_def map_read_def dest: flush_mapped_quiet split: map_variant.splits if_splits)

lemma apply_flush_policy_quiet: "apply_flush_policy env n s = Some (r, s') \<Longrightarrow> quiet_sys s s'"
  by (auto simp: apply_flush_policy_def dest!: count_update_quiet mmap_flush_quiet split: prod.splits bool.splits
      intro: quiet_sys_trans)

lemma apply_flush_policy_returns: "write_free s \<Longrightarrow> \<exists>r s'. apply_flush_policy env n s = Some (r, s')"
proof -
  assume w: "write_free s"
  obtain b s1 where c: "count_update n s = (b, s1)" by (cases "count_update n s")
  have "\<not> i_writer (s_mm s1)" using count_update_quiet [OF c] w by (simp add: quiet_sys_def write_free_def)
  moreover have "\<exists>r s'. flush_mapped env s1 = Some (r, s')"
    by (cases rule: flush_mapped_cases [of env s1]) auto
  ultimately show ?thesis
    by (auto simp: apply_flush_policy_def c mmap_flush_def map_read_def read_free_def
        split: bool.splits map_variant.splits)
qed

section \<open>Writes\<close>

lemma unat_max: "unat (max a b) = max (unat a) (unat (b::'a::len word))"
  by (simp add: max_def word_le_unat)

lemma update_region_within_ok:
  assumes "sys_ok s" "locked (i_map (s_mm s))" "write_free s" "length data < 2 ^ 63"
    and "unat off + max (unat span) (length data) \<le> unat (m_len (s_mapping s))"
  shows "update_region_within env off data span s =
           apply_flush_policy env (of_nat (length data)) (store_at (unat off) data s)"
proof -
  have "unat off + unat (max span (of_nat (length data))) \<le> unat (m_len (s_mapping s))"
    using assms(4,5) by (simp add: unat_max unat_of_length)
  then show ?thesis
    using assms(2,3) by (simp add: update_region_within_def write_lock_def slice_range64_eq Let_def)
qed

lemma update_region_within_refused:
  assumes "length data < 2 ^ 63"
  shows "\<not> locked (i_map (s_mm s)) \<Longrightarrow> update_region_within env off data span s =
      Some (Inl (InvalidMode (if i_mode (s_mm s) = CopyOnWrite then ERR_COW_READ_ONLY
                  else ''Update region requires ReadWrite or CopyOnWrite mode.'')), s)"
    and "locked (i_map (s_mm s)) \<Longrightarrow> \<not> write_free s \<Longrightarrow> update_region_within env off data span s = None"
    and "locked (i_map (s_mm s)) \<Longrightarrow> write_free s \<Longrightarrow>
      unat (m_len (s_mapping s)) < unat off + max (unat span) (length data) \<Longrightarrow>
      update_region_within env off data span s =
        Some (Inl (OutOfBounds off (max span (of_nat (length data))) (m_len (s_mapping s))), s)"
proof -
  show "\<not> locked (i_map (s_mm s)) \<Longrightarrow> update_region_within env off data span s =
      Some (Inl (InvalidMode (if i_mode (s_mm s) = CopyOnWrite then ERR_COW_READ_ONLY
                  else ''Update region requires ReadWrite or CopyOnWrite mode.'')), s)"
    by (simp add: update_region_within_def write_lock_def)
  show "locked (i_map (s_mm s)) \<Longrightarrow> \<not> write_free s \<Longrightarrow> update_region_within env off data span s = None"
    by (simp add: update_region_within_def write_lock_def)
  assume a: "locked (i_map (s_mm s))" "write_free s"
    "unat (m_len (s_mapping s)) < unat off + max (unat span) (length data)"
  then have "\<not> unat off + unat (max span (of_nat (length data))) \<le> unat (m_len (s_mapping s))"
    using assms by (simp add: unat_max unat_of_length)
  with a(1,2) show "update_region_within env off data span s =
        Some (Inl (OutOfBounds off (max span (of_nat (length data))) (m_len (s_mapping s))), s)"
    by (simp add: update_region_within_def write_lock_def slice_range64_eq Let_def)
qed

lemma store_at_free [simp]: "write_free (store_at b d s) = write_free s"
  by (simp add: write_free_def)

text \<open>What a write of \<open>data\<close> at \<open>off\<close> may leave behind, whatever the flush policy then does.\<close>

definition wrote :: "nat \<Rightarrow> byte list \<Rightarrow> sys \<Rightarrow> sys \<Rightarrow> bool" where
  "wrote off d s s' \<longleftrightarrow> sys_ok s' \<and> s_bytes s' = splice_at (s_bytes s) off d
     \<and> m_len (s_mapping s') = m_len (s_mapping s)
     \<and> i_mode (s_mm s') = i_mode (s_mm s) \<and> i_views (s_mm s') = i_views (s_mm s)
     \<and> locked (i_map (s_mm s')) = locked (i_map (s_mm s))
     \<and> i_readers (s_mm s') = i_readers (s_mm s) \<and> i_writer (s_mm s') = i_writer (s_mm s)
     \<and> (\<forall>f. length (w_data (s_world s') f) = length (w_data (s_world s) f))
     \<and> (case i_map (s_mm s) of
          Rw _ \<Rightarrow> w_data (s_world s') =
             (w_data (s_world s))(i_file (s_mm s) := splice_at (s_file_bytes s) off d)
        | _ \<Rightarrow> w_data (s_world s') = w_data (s_world s))"

lemma store_at_wrote:
  assumes "sys_ok s" "locked (i_map (s_mm s))" "off + length d \<le> unat (m_len (s_mapping s))"
    and "quiet_sys (store_at off d s) s'"
  shows "wrote off d s s'"
proof -
  let ?s = "store_at off d s"
  have ok: "sys_ok ?s" by (rule store_at_sys_ok [OF assms(1,3)])
  note Q = quiet_sys_bytes [OF assms(4)] quiet_sys_ok [OF assms(4) ok]
  have data: "case i_map (s_mm s) of
          Rw _ \<Rightarrow> w_data (s_world ?s) =
             (w_data (s_world s))(i_file (s_mm s) := splice_at (s_file_bytes s) off d)
        | _ \<Rightarrow> w_data (s_world ?s) = w_data (s_world s)"
  proof (cases "i_map (s_mm s)")
    case (Rw m)
    then have "m_mem (s_mapping s) = Window (i_file (s_mm s)) 0"
      using sys_okD(2) [OF assms(1)] by (simp add: variant_ok_def)
    with store_at_files(3) [OF assms(1,3) this] Rw show ?thesis by simp
  next
    case (Cow m)
    then have "is_private (m_kind (s_mapping s))"
      using sys_okD(2) [OF assms(1)] by (simp add: variant_ok_def)
    with store_at_files(4) [OF assms(1,3) this] Cow show ?thesis by simp
  next
    case (Ro m)
    with assms(2) show ?thesis by simp
  qed
  have "m_len (s_mapping s') = m_len (s_mapping s)" "locked (i_map (s_mm s')) = locked (i_map (s_mm s))"
    using assms(4) store_at_ok(3) [OF assms(1,3)] by (auto simp: quiet_sys_def)
  with Q data assms(4) store_at_ok(1) [OF assms(1,3)] store_at_files(1) [OF assms(1,3)] show ?thesis
    by (auto simp: wrote_def quiet_sys_def split: map_variant.splits)
qed

lemma mmap_flush_result:
  assumes "mmap_flush env s = Some (r, s')"
  shows "r = Inr () \<or> (\<exists>msg. r = Inl (FlushFailed msg))"
  using assms
  by (cases rule: flush_mapped_cases [of env s])
    (auto simp: mmap_flush_def map_read_def split: map_variant.splits if_splits)

lemma apply_flush_policy_result:
  "apply_flush_policy env n s = Some (r, s') \<Longrightarrow> r = Inr () \<or> (\<exists>msg. r = Inl (FlushFailed msg))"
  by (auto simp: apply_flush_policy_def dest: mmap_flush_result split: prod.splits bool.splits)

text \<open>An update that is in range and finds the lock free always returns, and the bytes are written even
  when the policy's flush then fails.\<close>

lemma update_region_within_wrote:
  assumes "sys_ok s" "locked (i_map (s_mm s))" "write_free s" "length data < 2 ^ 63"
    and "unat off + max (unat span) (length data) \<le> unat (m_len (s_mapping s))"
  obtains r s' where "update_region_within env off data span s = Some (r, s')" "wrote (unat off) data s s'"
    "r = Inr () \<or> (\<exists>msg. r = Inl (FlushFailed msg))"
proof -
  obtain r s' where a: "apply_flush_policy env (of_nat (length data)) (store_at (unat off) data s) = Some (r, s')"
    using apply_flush_policy_returns [of "store_at (unat off) data s" env "of_nat (length data)"] assms(3)
    by auto
  have fit: "unat off + length data \<le> unat (m_len (s_mapping s))" using assms(5) by simp
  show ?thesis
    using that [of r s'] update_region_within_ok [OF assms] a apply_flush_policy_result [OF a]
      store_at_wrote [OF assms(1,2) fit apply_flush_policy_quiet [OF a]] by simp
qed

section \<open>Reads\<close>

text \<open>Every live atomic view consists of aligned elements inside the mapping.\<close>

definition atomics_fit :: "sys \<Rightarrow> bool" where
  "atomics_fit s \<longleftrightarrow>
     (\<forall>a \<in> set (as_entries (vr_atomics (i_views (s_mm s)))). entry_fits (unat (m_len (s_mapping s))) a)"

lemma copy_to_ok:
  assumes "sys_ok s" "atomics_fit s" "b + length dst \<le> unat (m_len (s_mapping s))"
  shows "copy_to env s b dst = sub_slice (s_bytes s) b (b + length dst)"
  using copy_out_ok(1) [of "vr_atomics (i_views (s_mm s))" "s_bytes s" b dst] assms
  by (simp add: copy_to_def Let_def atomics_fit_def sys_okD(5))

lemma map_read_eq: "map_read k s = (if read_free s then k (s_mapping s) s else None)"
  by (simp add: map_read_def)

lemma read_into_eq:
  assumes "sys_ok s" "atomics_fit s" "length buf < 2 ^ 63" "buf \<noteq> []"
  shows "read_into env off buf s =
    (if \<not> read_free s then None
     else if unat off + length buf \<le> unat (m_len (s_mapping s))
     then Some (Inr (sub_slice (s_bytes s) (unat off) (unat off + length buf)), s)
     else Some (Inl (OutOfBounds off (of_nat (length buf)) (m_len (s_mapping s))), s))"
  using assms copy_to_ok [OF assms(1,2), of "unat off" buf env]
  by (simp add: read_into_def map_read_eq op_bind_def op_lift_def slice_range64_eq unat_of_length)

lemma into_view_owned: "\<not> locked (i_map (s_mm s)) \<Longrightarrow> into_view env sh b e s = Some (Inr (Slice_Owned b e), s)"
  by (simp add: into_view_def)

lemma into_view_cases:
  assumes "into_view env sh b e s = Some (r, s')" "locked (i_map (s_mm s))"
  obtains (conflict) c v where "r = Inl (from_conflict c)" "s' = mm_upd (\<lambda>mm. mm\<lparr>i_views := v\<rparr>) s"
      "view_register env sh b e (i_views (s_mm s)) = (Inl c, v)"
  | (view) reg v where "r = Inr (Slice_Guarded reg b e)"
      "s' = mm_upd (\<lambda>mm. mm\<lparr>i_views := v, i_readers := Suc (i_readers mm)\<rparr>) s"
      "view_register env sh b e (i_views (s_mm s)) = (Inr reg, v)"
  using assms by (auto simp: into_view_def split: prod.splits sum.splits)

lemma view_register_ok:
  assumes "view_register env sh b e v = (r, v')" "registry_ok v" "sh < SHARDS"
  shows "registry_ok v'" and "vr_atomics v' = vr_atomics v"
proof -
  have "registry_ok v' \<and> vr_atomics v' = vr_atomics v"
  proof (cases "e_atomic env")
    case False
    with assms show ?thesis by (simp add: view_register_def register_plain_untracked_def)
  next
    case True
    with assms(1) have reg: "register_plain sh b e v = (r, v')" by (simp add: view_register_def)
    show ?thesis
    proof (cases r)
      case (Inl c)
      from register_plain_refused [OF assms(2,3) reg [unfolded Inl]] show ?thesis by simp
    next
      case (Inr h)
      from register_plain_ok [OF assms(2,3) reg [unfolded Inr]] show ?thesis by simp
    qed
  qed
  then show "registry_ok v'" "vr_atomics v' = vr_atomics v" by simp_all
qed

lemma into_view_keeps:
  assumes "into_view env sh b e s = Some (r, s')" "sys_ok s" "sh < SHARDS" "read_free s"
  shows "sys_ok s'" and "s_bytes s' = s_bytes s" and "s_world s' = s_world s"
    and "i_map (s_mm s') = i_map (s_mm s)"
    and "vr_atomics (i_views (s_mm s')) = vr_atomics (i_views (s_mm s))"
proof -
  have "s_world s' = s_world s \<and> i_map (s_mm s') = i_map (s_mm s) \<and> sys_ok s'
      \<and> vr_atomics (i_views (s_mm s')) = vr_atomics (i_views (s_mm s))"
  proof (cases "locked (i_map (s_mm s))")
    case False
    with assms(1,2) show ?thesis by (simp add: into_view_owned)
  next
    case True
    with assms(4) have w: "\<not> i_writer (s_mm s)" by (simp add: read_free_def)
    from assms(1) True show ?thesis
    proof (cases rule: into_view_cases)
      case (conflict c v)
      note V = view_register_ok [OF conflict(3) sys_okD(4) [OF assms(2)] assms(3)]
      have "sys_ok s'" by (rule sys_ok_cong [OF assms(2)]) (use conflict V w in simp_all)
      with conflict V show ?thesis by simp
    next
      case (view reg v)
      note V = view_register_ok [OF view(3) sys_okD(4) [OF assms(2)] assms(3)]
      have "sys_ok s'" by (rule sys_ok_cong [OF assms(2)]) (use view V w in simp_all)
      with view V show ?thesis by simp
    qed
  qed
  then show "sys_ok s'" "s_bytes s' = s_bytes s" "s_world s' = s_world s" "i_map (s_mm s') = i_map (s_mm s)"
    "vr_atomics (i_views (s_mm s')) = vr_atomics (i_views (s_mm s))"
    by simp_all
qed

lemma as_slice_eq:
  assumes "len \<noteq> 0"
  shows "as_slice env sh off len s =
    (if \<not> read_free s then None
     else if unat off + unat len \<le> unat (m_len (s_mapping s))
     then into_view env sh (unat off) (unat off + unat len) s
     else Some (Inl (OutOfBounds off len (m_len (s_mapping s))), s))"
proof -
  have "unat (off + len) = unat off + unat len" if "unat off + unat len \<le> unat (m_len (s_mapping s))"
  proof -
    have "unat (m_len (s_mapping s)) < 2 ^ LENGTH(64)" by (rule unat_bound)
    with that have "unat off + unat len < 2 ^ LENGTH(64)" by linarith
    then show ?thesis by (rule unat_add_exact)
  qed
  with assms show ?thesis
    by (simp add: as_slice_def map_read_eq op_bind_def op_lift_def slice_range64_eq)
qed

section \<open>The non-blocking variants\<close>

lemma count_update_flushes_rw: "count_update n s = (fl, s') \<Longrightarrow> fl \<Longrightarrow> \<exists>m. i_map (s_mm s') = Rw m"
  by (auto simp: count_update_def tracks_writes_def Let_def split: if_splits map_variant.splits flush_policy.splits)

lemma try_update_region_eq:
  "try_update_region env off data s =
     (case update_region env off data s of
        None \<Rightarrow> Some (Inr False, s)
      | Some (Inl e, s') \<Rightarrow> Some (Inl e, s')
      | Some (Inr _, s') \<Rightarrow> Some (Inr True, s'))"
proof (cases "data = [] \<or> \<not> locked (i_map (s_mm s)) \<or> \<not> write_free s")
  case True
  then show ?thesis
    by (auto simp: try_update_region_def update_region_def update_region_within_def write_lock_def)
next
  case False
  let ?len = "of_nat (length data) :: u64"
  show ?thesis
  proof (cases "slice_range64 off ?len (m_len (s_mapping s))")
    case (Inl e)
    with False show ?thesis
      by (simp add: try_update_region_def update_region_def update_region_within_def write_lock_def Let_def)
  next
    case (Inr be)
    obtain b e where be: "be = (b, e)" by (cases be)
    let ?s = "store_at (unat b) data s"
    obtain fl s1 where c: "count_update ?len ?s = (fl, s1)" by (cases "count_update ?len ?s")
    have free: "read_free s1"
      using count_update_quiet [OF c] False by (simp add: quiet_sys_def read_free_def write_free_def)
    have "(if fl then op_bind (flush_mapped env) (\<lambda>_. op_return True) s1 else Some (Inr True, s1)) =
      (case apply_flush_policy env ?len ?s of
        None \<Rightarrow> Some (Inr False, s)
      | Some (Inl e, s') \<Rightarrow> Some (Inl e, s')
      | Some (Inr _, s') \<Rightarrow> Some (Inr True, s'))"
    proof (cases fl)
      case True
      then obtain m where "i_map (s_mm s1) = Rw m" using count_update_flushes_rw [OF c] by blast
      with True c free have "apply_flush_policy env ?len ?s = flush_mapped env s1"
        by (simp add: apply_flush_policy_def mmap_flush_def map_read_def)
      with True show ?thesis
        by (cases rule: flush_mapped_cases [of env s1]) (simp_all add: op_bind_def op_return_def)
    next
      case fl: False
      with c show ?thesis by (simp add: apply_flush_policy_def)
    qed
    with False Inr be c show ?thesis
      by (cases fl)
        (simp_all add: try_update_region_def update_region_def update_region_within_def write_lock_def Let_def)
  qed
qed

lemma try_as_slice_eq:
  "try_as_slice env sh off len s =
     (case as_slice env sh off len s of
        None \<Rightarrow> Some (Inr None, s)
      | Some (Inl e, s') \<Rightarrow> Some (Inl e, s')
      | Some (Inr v, s') \<Rightarrow> Some (Inr (Some v), s'))"
  by (auto simp: try_as_slice_def as_slice_def map_read_def op_bind_def op_lift_def op_return_def into_view_def
      split: prod.splits sum.splits option.splits)

lemma try_as_slice_mut_eq:
  "try_as_slice_mut off len s =
     (case as_slice_mut off len s of
        None \<Rightarrow> Some (Inr None, s)
      | Some (Inl e, s') \<Rightarrow> Some (Inl e, s')
      | Some (Inr v, s') \<Rightarrow> Some (Inr (Some v), s'))"
  by (auto simp: try_as_slice_mut_def as_slice_mut_def split: sum.splits prod.splits)

section \<open>Flush accounting\<close>

text \<open>What the policy promises between operations: nothing pending under \<open>Always\<close>, fewer than \<open>n\<close> bytes or
  updates pending under the threshold policies.\<close>

definition policy_kept :: "sys \<Rightarrow> bool" where
  "policy_kept s \<longleftrightarrow>
     (case i_policy (s_mm s) of
        Always \<Rightarrow> i_written (s_mm s) = 0 \<and> i_writes (s_mm s) = 0
      | EveryBytes n \<Rightarrow> n \<noteq> 0 \<longrightarrow> unat (i_written (s_mm s)) < unat n
      | EveryWrites n \<Rightarrow> n \<noteq> 0 \<longrightarrow> unat (i_writes (s_mm s)) < unat n
      | _ \<Rightarrow> True)"

lemma not_saturated:
  fixes n :: "'a::len word"
  assumes "\<not> n \<le> saturating_add a b"
  shows "unat (a + b) < unat n"
proof (cases "unat a + unat b < 2 ^ LENGTH('a)")
  case True
  then have "saturating_add a b = a + b" by (simp add: saturating_add_def checked_add_def)
  with assms show ?thesis by (simp add: word_le_unat not_le)
next
  case False
  then have "saturating_add a b = word_max" by (simp add: saturating_add_def checked_add_def)
  moreover have "n \<le> word_max"
    using unat_bound [of n] by (simp add: word_le_unat unat_word_max Suc_leI le_diff_conv2 del: unat_bound unsigned_less)
  ultimately show ?thesis using assms by simp
qed

lemma flush_mapped_Inr:
  "flush_mapped env s = Some (Inr (), s') \<Longrightarrow> i_written (s_mm s') = 0 \<and> i_writes (s_mm s') = 0"
  by (auto simp: flush_mapped_def Let_def split: prod.splits sum.splits)

lemma apply_flush_policy_kept:
  assumes "apply_flush_policy env n s = Some (Inr (), s')" "tracks_writes (s_mm s)" "policy_kept s"
  shows "policy_kept s'"
proof -
  obtain fl s1 where c: "count_update n s = (fl, s1)" by (cases "count_update n s")
  show ?thesis
  proof (cases fl)
    case True
    then obtain m where "i_map (s_mm s1) = Rw m" using count_update_flushes_rw [OF c] by blast
    with assms(1) True c have "flush_mapped env s1 = Some (Inr (), s')"
      by (simp add: apply_flush_policy_def mmap_flush_def map_read_def split: if_splits)
    from flush_mapped_Inr [OF this] show ?thesis by (simp add: policy_kept_def unat_gt_0 split: flush_policy.splits)
  next
    case False
    with assms(1) c have "s' = s1" by (simp add: apply_flush_policy_def)
    with False c assms(2) show ?thesis
      using not_saturated
      by (auto simp: count_update_def policy_kept_def Let_def word_neq_0_conv split: flush_policy.splits)
  qed
qed

section \<open>Resizing\<close>

lemma advise_huge_files: "same_files w (advise_huge_pages env m w)"
  by (simp add: advise_huge_pages_def os_call_def same_files_def)

lemma map_file_rw_files: "map_file_rw env f len huge w = (r, w') \<Longrightarrow> same_files w w'"
proof -
  assume a: "map_file_rw env f len huge w = (r, w')"
  obtain r1 w1 where m: "raw_map_mut env (options_len len options_new) f w = (r1, w1)"
    by (cases "raw_map_mut env (options_len len options_new) f w")
  have "same_files w w1"
    using map_impl_data [of env "options_len len options_new" f Access_Write w r1 w1] m
    by (simp add: raw_map_mut_def same_files_def)
  with a m same_files_trans advise_huge_files show ?thesis
    by (auto simp: map_file_rw_def split: sum.splits)
qed

lemma map_file_rw_ok:
  assumes "map_file_rw env f len huge w = (Inr m, w')" "length (w_data w f) < 2 ^ 63" "len \<noteq> 0"
  shows "mapping_ok w' m" "m_len m = len" "m_kind m = Kind_Write" "m_mem m = Window f 0"
    "unat len \<le> length (w_data w f)"
proof -
  obtain w1 where mi: "map_impl env (options_len len options_new) f Access_Write w = (Inr m, w1)"
    using assms(1) by (auto simp: map_file_rw_def raw_map_mut_def split: sum.splits prod.splits)
  note M = map_impl_ok [OF mi assms(2)]
  have len: "m_len m = len"
    using M(3) by (simp add: window_len_def options_len_def word_unat_eq_iff)
  have "w_data w1 = w_data w" using map_impl_data [OF mi] by simp
  moreover have "w_data w' = w_data w" using map_file_rw_files [OF assms(1)] by (simp add: same_files_def)
  ultimately show "mapping_ok w' m" using M(1) mapping_ok_cong [of w' w1 m] by simp
  show "m_len m = len" by (rule len)
  show "m_kind m = Kind_Write" using M(2) by simp
  show "m_mem m = Window f 0"
    using M(6) len assms(3) by (simp add: access_mem_def options_len_def options_new_def)
  show "unat len \<le> length (w_data w f)" using M(4) len by (simp add: options_len_def options_new_def)
qed

lemma replace_map_simps [simp]:
  "i_mode (s_mm (replace_map env m s)) = i_mode (s_mm s)" "i_file (s_mm (replace_map env m s)) = i_file (s_mm s)"
  "i_views (s_mm (replace_map env m s)) = i_views (s_mm s)" "i_readers (s_mm (replace_map env m s)) = i_readers (s_mm s)"
  "i_writer (s_mm (replace_map env m s)) = i_writer (s_mm s)" "s_mapping (replace_map env m s) = m"
  "i_map (s_mm (replace_map env m s)) = set_variant m (i_map (s_mm s))"
  "w_data (s_world (replace_map env m s)) = w_data (s_world s)"
  "i_huge (s_mm (replace_map env m s)) = i_huge (s_mm s)"
  using mapping_drop_files [of "s_world s" env "s_mapping s"]
  by (simp_all add: replace_map_def same_files_def)

lemma store_cached_len_simps [simp]:
  "s_world (store_cached_len s) = s_world s" "i_map (s_mm (store_cached_len s)) = i_map (s_mm s)"
  "i_mode (s_mm (store_cached_len s)) = i_mode (s_mm s)" "i_file (s_mm (store_cached_len s)) = i_file (s_mm s)"
  "i_views (s_mm (store_cached_len s)) = i_views (s_mm s)" "i_readers (s_mm (store_cached_len s)) = i_readers (s_mm s)"
  "i_writer (s_mm (store_cached_len s)) = i_writer (s_mm s)"
  "i_cached_len (s_mm (store_cached_len s)) = m_len (s_mapping s)"
  by (simp_all add: store_cached_len_def)

text \<open>The state after the mapping has been replaced by one of the first \<open>n\<close> bytes of a file of that length.\<close>

definition resized :: "nat \<Rightarrow> sys \<Rightarrow> sys \<Rightarrow> bool" where
  "resized n s s' \<longleftrightarrow> sys_ok s' \<and> unat (m_len (s_mapping s')) = n \<and> unat (mmap_len s') = n
     \<and> s_file_bytes s' = resize_bytes n (s_file_bytes s)
     \<and> s_bytes s' = resize_bytes n (s_bytes s)
     \<and> (\<forall>f. f \<noteq> i_file (s_mm s) \<longrightarrow> w_data (s_world s') f = w_data (s_world s) f)
     \<and> i_file (s_mm s') = i_file (s_mm s) \<and> i_views (s_mm s') = i_views (s_mm s)"

lemma rw_facts:
  assumes "sys_ok s" "i_map (s_mm s) = Rw m"
  shows "m_mem m = Window (i_file (s_mm s)) 0" "unat (m_len m) = length (s_file_bytes s)" "m_len m \<noteq> 0"
    "s_bytes s = s_file_bytes s" "i_mode (s_mm s) = ReadWrite" "m_kind m = Kind_Write"
  using sys_okD(2) [OF assms(1)] assms(2) by (auto simp: variant_ok_def mapping_bytes_def)

lemma resizedI:
  assumes "sys_ok s" "i_map (s_mm s) = Rw m0" "n \<noteq> 0" "unat n < 2 ^ 63"
    and "i_map (s_mm s') = Rw m" "m_len m = n" "m_kind m = Kind_Write" "m_mem m = Window (i_file (s_mm s)) 0"
    and "mapping_ok (s_world s') m" "i_cached_len (s_mm s') = n"
    and "w_data (s_world s') = (w_data (s_world s))(i_file (s_mm s) := resize_bytes (unat n) (s_file_bytes s))"
    and "i_mode (s_mm s') = i_mode (s_mm s)" "i_file (s_mm s') = i_file (s_mm s)" "i_views (s_mm s') = i_views (s_mm s)"
    and "i_readers (s_mm s') = i_readers (s_mm s)" "i_writer (s_mm s') = i_writer (s_mm s)"
  shows "resized (unat n) s s'"
proof -
  note R = rw_facts [OF assms(1,2)]
  have "sys_ok s'"
    using assms R by (auto simp: sys_ok_def variant_ok_def)
  moreover have "s_bytes s' = resize_bytes (unat n) (s_bytes s)"
    using assms R(4) by (simp add: mapping_bytes_def)
  ultimately show ?thesis using assms by (simp add: resized_def mmap_len_def)
qed

lemma MAX_MMAP_SIZE_bound: "\<not> n > MAX_MMAP_SIZE \<Longrightarrow> unat n < 2 ^ 63"
  by (simp add: MAX_MMAP_SIZE_def not_less word_le_unat)

lemma fs_set_len_length:
  assumes "fs_set_len env f n w = (Inr u, w')" "unat n < 2 ^ 63" "\<forall>g. length (w_data w g) < 2 ^ 63"
  shows "w_data w' = (w_data w)(f := resize_bytes (unat n) (w_data w f))" "\<forall>g. length (w_data w' g) < 2 ^ 63"
  using assms by (auto simp: fs_set_len_Inr)

lemma sys_ok_lengths: "sys_ok s \<Longrightarrow> length (w_data (s_world s) f) < 2 ^ 63"
  by (simp add: sys_ok_def)

lemma grow_locked_ok:
  assumes "sys_ok s" "i_map (s_mm s) = Rw m0" "n \<noteq> 0" "unat n < 2 ^ 63"
    and "grow_locked env c n n s = Some (Inr (), s')"
  shows "resized (unat n) s (store_cached_len s')"
proof -
  let ?f = "i_file (s_mm s)"
  from assms(5) obtain w1 m w2 where sl: "fs_set_len env ?f n (s_world s) = (Inr (), w1)"
    and mf: "map_file_rw env ?f n (huge_pages env s) w1 = (Inr m, w2)"
    and s': "s' = replace_map env m (s\<lparr>s_world := w2\<rparr>)"
    by (auto simp: grow_locked_def split: prod.splits sum.splits)
  have w1: "w_data w1 = (w_data (s_world s))(?f := resize_bytes (unat n) (s_file_bytes s))"
    using sl by (simp add: fs_set_len_Inr)
  have "length (w_data w1 ?f) < 2 ^ 63" using assms(4) by (simp add: w1)
  note M = map_file_rw_ok [OF mf this assms(3)]
  have w2: "w_data w2 = w_data w1" using map_file_rw_files [OF mf] by (simp add: same_files_def)
  show ?thesis
    by (rule resizedI [OF assms(1-4)])
      (use assms(2) M w1 w2 mapping_ok_cong [of "s_world s'" w2 m] in \<open>simp_all add: s'\<close>)
qed

lemma shrink_unix_ok:
  assumes "sys_ok s" "i_map (s_mm s) = Rw m0" "n \<noteq> 0" "unat n < 2 ^ 63"
    and "shrink_locked_unix env n n s = Some (Inr (), s')"
  shows "resized (unat n) s (store_cached_len s')"
proof -
  let ?f = "i_file (s_mm s)"
  from assms(5) obtain m w1 w2 where
    mf: "map_file_rw env ?f n (huge_pages env s) (s_world s) = (Inr m, w1)"
    and sl: "fs_set_len env ?f n w1 = (Inr (), w2)"
    and s': "s' = replace_map env m (s\<lparr>s_world := w2\<rparr>)"
    by (auto simp: shrink_locked_unix_def split: prod.splits sum.splits)
  note M = map_file_rw_ok [OF mf sys_ok_lengths [OF assms(1)] assms(3)]
  have w1: "w_data w1 = w_data (s_world s)" using map_file_rw_files [OF mf] by (simp add: same_files_def)
  have w2: "w_data w2 = (w_data (s_world s))(?f := resize_bytes (unat n) (s_file_bytes s))"
    using sl by (simp add: fs_set_len_Inr w1)
  have "mapping_ok (s_world (store_cached_len s')) m"
    using M assms(3) by (auto simp: mapping_ok_def s' w2)
  then show ?thesis
    by - (rule resizedI [OF assms(1-4)], use assms(2) M w2 in \<open>simp_all add: s'\<close>)
qed

lemma map_anon_files: "rawmmapmut_map_anon env n w = (r, w') \<Longrightarrow> same_files w w'"
  using os_map_anon_data
  by (auto simp: rawmmapmut_map_anon_def raw_map_anon_def bind_se_def same_files_def
      split: sum.splits prod.splits if_splits)

lemma shrink_windows_ok:
  assumes "sys_ok s" "i_map (s_mm s) = Rw m0" "n \<noteq> 0" "unat n < 2 ^ 63"
    and "shrink_locked_windows env c n n s = Some (Inr (), s')"
  shows "resized (unat n) s (store_cached_len s')"
proof -
  let ?f = "i_file (s_mm s)"
  from assms(5) obtain p w1 s1 w2 m w3 where
    an: "rawmmapmut_map_anon env 0 (s_world s) = (Inr p, w1)"
    and s1: "s1 = replace_map env p (s\<lparr>s_world := w1\<rparr>)"
    and sl: "fs_set_len env ?f n (s_world s1) = (Inr (), w2)"
    and mf: "map_file_rw env ?f n (huge_pages env s) w2 = (Inr m, w3)"
    and s': "s' = replace_map env m (s1\<lparr>s_world := w3\<rparr>)"
    by (auto simp: shrink_locked_windows_def Let_def split: prod.splits sum.splits)
  have "w_data w1 = w_data (s_world s)" using map_anon_files [OF an] by (simp add: same_files_def)
  then have w2: "w_data w2 = (w_data (s_world s))(?f := resize_bytes (unat n) (s_file_bytes s))"
    using sl by (simp add: fs_set_len_Inr s1)
  have "length (w_data w2 ?f) < 2 ^ 63" using assms(4) by (simp add: w2)
  note M = map_file_rw_ok [OF mf this assms(3)]
  have w3: "w_data w3 = w_data w2" using map_file_rw_files [OF mf] by (simp add: same_files_def)
  show ?thesis
    by (rule resizedI [OF assms(1-4)])
      (use assms(2) M w2 w3 mapping_ok_cong [of "s_world s'" w3 m] in \<open>simp_all add: s' s1\<close>)
qed

lemma resized_same:
  assumes "sys_ok s" "i_map (s_mm s) = Rw m"
  shows "resized (unat (m_len m)) s (store_cached_len s)"
proof -
  note R = rw_facts [OF assms]
  have "unat (m_len m) < 2 ^ 63" using sys_okD(6) [OF assms(1)] assms(2) by simp
  then show ?thesis
    by - (rule resizedI [OF assms R(3)], use assms R sys_okD(1) [OF assms(1)] in \<open>simp_all add: fun_upd_idem\<close>)
qed

lemma resize_ok:
  assumes "sys_ok s" "resize env n s = Some (Inr (), s')"
  shows "resized (unat n) s s'"
proof -
  obtain m where m: "i_map (s_mm s) = Rw m" and n: "n \<noteq> 0" "\<not> n > MAX_MMAP_SIZE"
    and r: "map_option (\<lambda>(r, s'). (r, store_cached_len s'))
       (if n = m_len m then Some (Inr (), s)
        else if n > m_len m then grow_locked env (ucast (m_len m)) n n s
        else shrink_locked env (m_len m) n n s) = Some (Inr (), s')"
    using assms(2) by (auto simp: resize_def Let_def split: if_splits map_variant.splits)
  from r obtain s1 where s1: "(if n = m_len m then Some (Inr (), s)
        else if n > m_len m then grow_locked env (ucast (m_len m)) n n s
        else shrink_locked env (m_len m) n n s) = Some (Inr (), s1)" and s': "s' = store_cached_len s1"
    by auto
  note b = MAX_MMAP_SIZE_bound [OF n(2)]
  show ?thesis
    using s1 resized_same [OF assms(1) m] grow_locked_ok [OF assms(1) m n(1) b]
      shrink_unix_ok [OF assms(1) m n(1) b] shrink_windows_ok [OF assms(1) m n(1) b]
    by (auto simp: s' shrink_locked_def split: if_splits)
qed

text \<open>A failed resize: the same mapping shows the same bytes; the file still starts with them, and no other
  file changed.\<close>

definition unresized :: "sys \<Rightarrow> sys \<Rightarrow> bool" where
  "unresized s s' \<longleftrightarrow> i_map (s_mm s') = i_map (s_mm s) \<and> i_cached_len (s_mm s') = i_cached_len (s_mm s)
     \<and> s_bytes s' = s_bytes s \<and> take (length (s_file_bytes s)) (s_file_bytes s') = s_file_bytes s
     \<and> i_file (s_mm s') = i_file (s_mm s)
     \<and> (\<forall>f. f \<noteq> i_file (s_mm s) \<longrightarrow> w_data (s_world s') f = w_data (s_world s) f)"

lemma unresizedI:
  assumes "sys_ok s" "i_map (s_mm s) = Rw m" "i_map (s_mm s') = Rw m" "i_cached_len (s_mm s') = m_len m"
    and "i_file (s_mm s') = i_file (s_mm s)"
    and "w_data (s_world s') = (w_data (s_world s))(i_file (s_mm s) := bs)"
    and "take (length (s_file_bytes s)) bs = s_file_bytes s"
  shows "unresized s s'"
proof -
  note R = rw_facts [OF assms(1,2)]
  have "s_bytes s' = s_bytes s"
    using assms R by (simp add: mapping_bytes_def sub_slice_def)
  with assms sys_okD(3) [OF assms(1)] show ?thesis by (simp add: unresized_def)
qed

lemma unresized_refl: "unresized s s"
  by (simp add: unresized_def)

lemma grow_locked_failed:
  assumes "sys_ok s" "i_map (s_mm s) = Rw m" "m_len m < n"
    and "grow_locked env (ucast (m_len m)) n n s = Some (Inl e, s')"
  shows "unresized s (store_cached_len s')"
proof -
  let ?f = "i_file (s_mm s)" and ?bs = "s_file_bytes s"
  note R = rw_facts [OF assms(1,2)]
  have le: "length ?bs \<le> unat n" using assms(3) R(2) by (simp add: word_less_unat)
  have grown: "take (length ?bs) (resize_bytes (unat n) ?bs) = ?bs" using le by (simp add: take_resize_bytes)
  obtain r1 w1 where sl: "fs_set_len env ?f n (s_world s) = (r1, w1)" by (cases "fs_set_len env ?f n (s_world s)")
  show ?thesis
  proof (cases r1)
    case (Inl e1)
    with sl assms(4) have s': "s' = s\<lparr>s_world := w1\<rparr>" by (simp add: grow_locked_def)
    have "w_data w1 = w_data (s_world s)" using sl Inl by (simp add: fs_set_len_Inl)
    then show ?thesis
      by - (rule unresizedI [OF assms(1,2), of _ ?bs], use assms(2) in \<open>simp_all add: s'\<close>)
  next
    case (Inr u)
    have w1: "w_data w1 = (w_data (s_world s))(?f := resize_bytes (unat n) ?bs)"
      using sl Inr by (simp add: fs_set_len_Inr)
    from assms(4) sl Inr obtain e2 w2 where mf: "map_file_rw env ?f n (huge_pages env s) w1 = (Inl e2, w2)"
      and s': "s' = s\<lparr>s_world := snd (fs_set_len env ?f (ucast (m_len m)) w2)\<rparr>"
      by (auto simp: grow_locked_def split: prod.splits sum.splits)
    have w2: "w_data w2 = w_data w1" using map_file_rw_files [OF mf] by (simp add: same_files_def)
    obtain r3 w3 where bk: "fs_set_len env ?f (ucast (m_len m)) w2 = (r3, w3)"
      by (cases "fs_set_len env ?f (ucast (m_len m)) w2")
    obtain bs' where bs': "w_data w3 = (w_data (s_world s))(?f := bs')" "take (length ?bs) bs' = ?bs"
    proof (cases r3)
      case (Inl e3)
      with bk have "w_data w3 = w_data w2" by (simp add: fs_set_len_Inl)
      with that w1 w2 grown show ?thesis by simp
    next
      case Inr3: (Inr v)
      with bk have "w_data w3 = (w_data w2)(?f := resize_bytes (unat (m_len m)) (w_data w2 ?f))"
        by (simp add: fs_set_len_Inr)
      then show ?thesis
        using that [of ?bs] w1 w2 R(2) le grown by (simp add: resize_bytes_shorter)
    qed
    then show ?thesis
      by - (rule unresizedI [OF assms(1,2), of _ bs'], use assms(2) bk in \<open>simp_all add: s'\<close>)
  qed
qed

lemma shrink_unix_failed:
  assumes "sys_ok s" "i_map (s_mm s) = Rw m" "shrink_locked_unix env n n s = Some (Inl e, s')"
  shows "unresized s (store_cached_len s')"
proof -
  let ?f = "i_file (s_mm s)"
  have "w_data (s_world s') = w_data (s_world s) \<and> s_mm s' = s_mm s"
    using assms(3) map_file_rw_files [of env ?f n "huge_pages env s" "s_world s"]
    by (auto simp: shrink_locked_unix_def same_files_def fs_set_len_Inl
        mapping_drop_files [unfolded same_files_def] split: prod.splits sum.splits)
  then show ?thesis
    by - (rule unresizedI [OF assms(1,2), of _ "s_file_bytes s"], use assms(2) in simp_all)
qed

lemma resize_failed:
  assumes "sys_ok s" "e_target env \<noteq> Windows" "resize env n s = Some (Inl e, s')"
  shows "unresized s s'"
proof (cases "s' = s")
  case True
  then show ?thesis by (simp add: unresized_refl)
next
  case False
  then obtain m where m: "i_map (s_mm s) = Rw m"
    and r: "map_option (\<lambda>(r, s'). (r, store_cached_len s'))
       (if n = m_len m then Some (Inr (), s)
        else if n > m_len m then grow_locked env (ucast (m_len m)) n n s
        else shrink_locked env (m_len m) n n s) = Some (Inl e, s')"
    using assms(3) by (auto simp: resize_def Let_def split: if_splits map_variant.splits)
  then obtain s1 where s1: "(if n > m_len m then grow_locked env (ucast (m_len m)) n n s
        else shrink_locked env (m_len m) n n s) = Some (Inl e, s1)" and s': "s' = store_cached_len s1"
    by (auto split: if_splits)
  show ?thesis
    using s1 grow_locked_failed [OF assms(1) m, of n] shrink_unix_failed [OF assms(1) m] assms(2)
    by (auto simp: s' shrink_locked_def split: if_splits)
qed

lemma update_region_returns:
  assumes "sys_ok s" "locked (i_map (s_mm s))" "write_free s" "length data < 2 ^ 63"
    and "unat off + length data \<le> unat (m_len (s_mapping s))"
  shows "\<exists>r s'. update_region env off data s = Some (r, s')"
proof (cases "data = []")
  case True
  then show ?thesis by (simp add: update_region_def)
next
  case False
  have "unat off + max (unat (of_nat (length data) :: u64)) (length data) \<le> unat (m_len (s_mapping s))"
    using assms(4,5) by (simp add: unat_of_length)
  from update_region_within_wrote [OF assms(1-4) this] False show ?thesis
    by (metis update_region_def)
qed

end
