(* ===== verification/Mmap_Props.thy ===== *)
theory Mmap_Props
  imports Mmap_Facts
begin

text \<open>
  The properties of the managed mapping, over the facts of \<open>Mmap_Facts\<close>, and the sample mapping on which
  their hypotheses hold.
\<close>

section \<open>A sample mapping\<close>

definition sample_inner :: "map_variant \<Rightarrow> mmap_mode \<Rightarrow> flush_policy \<Rightarrow> inner" where
  "sample_inner v md pol =
     \<lparr>i_path = ''f'', i_file = 0, i_mode = md, i_cached_len = 8, i_map = v, i_policy = pol, i_written = 0,
      i_writes = 0, i_flusher = None, i_views = registry_new, i_huge = False, i_readers = 0, i_writer = False\<rparr>"

definition sample_sys :: "flush_policy \<Rightarrow> sys" where
  "sample_sys pol = \<lparr>s_mm = sample_inner (Rw sample_mapping) ReadWrite pol, s_world = sample_world\<rparr>"

definition sample_private :: mapping where
  "sample_private = sample_mapping\<lparr>m_backing := Backing_Private, m_kind := Kind_Copy, m_mem := Private_Bytes sample_bytes\<rparr>"

definition sample_cow :: sys where
  "sample_cow = \<lparr>s_mm = sample_inner (Cow sample_private) CopyOnWrite Never, s_world = sample_world\<rparr>"

lemma sample_world_lengths: "length (w_data sample_world f) < 2 ^ 63"
  by (simp add: sample_world_def sample_bytes_def)

lemma sample_sys_ok [simp]: "sys_ok (sample_sys pol)"
  using sample_mapping_ok(1) sample_world_lengths registry_ok_new
  by (simp add: sys_ok_def variant_ok_def sample_sys_def sample_inner_def)
    (simp add: sample_mapping_def)

lemma sample_cow_ok [simp]: "sys_ok sample_cow"
  using sample_world_lengths registry_ok_new
  by (simp add: sys_ok_def variant_ok_def sample_cow_def sample_inner_def mapping_ok_def sample_private_def
      sample_mapping_def unat_MAX_LEN)

lemma sample_free [simp]:
  "write_free (sample_sys pol)" "locked (i_map (s_mm (sample_sys pol)))" "atomics_fit (sample_sys pol)"
  "m_len (s_mapping (sample_sys pol)) = 8" "s_world (sample_sys pol) = sample_world"
  "write_free sample_cow" "locked (i_map (s_mm sample_cow))" "m_len (s_mapping sample_cow) = 8"
  "i_map (s_mm sample_cow) = Cow sample_private" "i_map (s_mm (sample_sys pol)) = Rw sample_mapping"
  "m_len sample_private = 8" "m_len sample_mapping = 8" "read_free (sample_sys pol)" "i_views (s_mm (sample_sys pol)) = registry_new"
  "i_policy (s_mm (sample_sys pol)) = pol" "i_written (s_mm (sample_sys pol)) = 0"
  "i_writes (s_mm (sample_sys pol)) = 0" "i_mode (s_mm (sample_sys pol)) = ReadWrite"
  by (simp_all add: sample_sys_def sample_cow_def sample_inner_def write_free_def read_free_def atomics_fit_def
      registry_new_def atomic_empty_def sample_mapping_def sample_private_def)

section \<open>Properties\<close>

text \<open>C1. The contract of \<open>update_region\<close> on every branch: empty data succeeds at any offset in any mode;
  a mapping that is not writable is refused; while any guard is held the call waits; a range
  outside the mapping is refused; none of these changes anything. Otherwise the call returns, exactly
  the range is overwritten (in the file for a read-write mapping, in private memory for a
  copy-on-write one), and the only possible error is that of the policy's flush.\<close>

theorem update_region_contract:
  assumes "sys_ok s" "length data < 2 ^ 63"
  shows "case update_region env off data s of
      None \<Rightarrow> data \<noteq> [] \<and> locked (i_map (s_mm s)) \<and> \<not> write_free s
    | Some (r, s') \<Rightarrow>
        if data = [] then r = Inr () \<and> s' = s
        else if \<not> locked (i_map (s_mm s)) then (\<exists>msg. r = Inl (InvalidMode msg)) \<and> s' = s
        else write_free s \<and>
          (if unat off + length data \<le> unat (m_len (s_mapping s))
           then wrote (unat off) data s s' \<and> (r = Inr () \<or> (\<exists>msg. r = Inl (FlushFailed msg)))
           else r = Inl (OutOfBounds off (of_nat (length data)) (m_len (s_mapping s))) \<and> s' = s)"
proof -
  consider (empty) "data = []" | (unwritable) "data \<noteq> []" "\<not> locked (i_map (s_mm s))"
    | (busy) "data \<noteq> []" "locked (i_map (s_mm s))" "\<not> write_free s"
    | (free) "data \<noteq> []" "locked (i_map (s_mm s))" "write_free s"
    by blast
  then show ?thesis
  proof cases
    case empty
    then show ?thesis by (simp add: update_region_def)
  next
    case unwritable
    then show ?thesis
      using update_region_within_refused(1) [OF assms(2) unwritable(2)] by (simp add: update_region_def)
  next
    case busy
    then show ?thesis
      using update_region_within_refused(2) [OF assms(2) busy(2,3)] by (simp add: update_region_def)
  next
    case free
  then have d: "update_region env off data s = update_region_within env off data (of_nat (length data)) s"
    by (simp add: update_region_def)
  show ?thesis
  proof (cases "unat off + length data \<le> unat (m_len (s_mapping s))")
    case True
    then obtain r s' where "update_region_within env off data (of_nat (length data)) s = Some (r, s')"
      "wrote (unat off) data s s'" "r = Inr () \<or> (\<exists>msg. r = Inl (FlushFailed msg))"
      using update_region_within_wrote [OF assms(1) free(2,3) assms(2), where env = env and off = off
          and span = "of_nat (length data)"] assms(2)
      by (auto simp: unat_of_length)
    with True free d show ?thesis by simp
  next
    case out: False
    then show ?thesis
      using update_region_within_refused(3) [OF assms(2) free(2,3), where env = env and off = off
          and span = "of_nat (length data)"] free d assms(2)
      by (simp add: unat_of_length)
  qed
  qed
qed

theorem update_region_contract_witness:
  "sys_ok (sample_sys Always) \<and> (\<exists>r s'. update_region sample_env 2 [1, 2, 3] (sample_sys Always) = Some (r, s')
     \<and> wrote 2 [1, 2, 3] (sample_sys Always) s')"
  using update_region_contract [of "sample_sys Always" "[1, 2, 3]", where env = sample_env and off = 2]
  by (auto split: option.splits prod.splits)

text \<open>Reads return what was written: after an update in range, whatever the flush policy does,
  \<open>read_into\<close> of the same range returns exactly the data, every range disjoint from it reads as before, and
  the length is unchanged; and the read returns (it does not wait).\<close>

lemma read_after_update:
  assumes "sys_ok s" "atomics_fit s" "locked (i_map (s_mm s))" "write_free s" "data \<noteq> []"
    and "length data < 2 ^ 63" "unat off + length data \<le> unat (m_len (s_mapping s))"
  shows "\<exists>r s'. update_region env off data s = Some (r, s')
    \<and> read_into env off (replicate (length data) 0) s' = Some (Inr data, s')
    \<and> mmap_len s' = mmap_len s
    \<and> (\<forall>a b. b \<le> unat off \<or> unat off + length data \<le> a \<longrightarrow>
         sub_slice (s_bytes s') a b = sub_slice (s_bytes s) a b)"
proof -
  have span: "unat off + max (unat (of_nat (length data) :: u64)) (length data) \<le> unat (m_len (s_mapping s))"
    using assms(6,7) by (simp add: unat_of_length)
  obtain r s' where u: "update_region_within env off data (of_nat (length data)) s = Some (r, s')"
    and w: "wrote (unat off) data s s'"
    using update_region_within_wrote [OF assms(1,3,4,6) span] by blast
  have ok: "sys_ok s'" and bytes: "s_bytes s' = splice_at (s_bytes s) (unat off) data"
    and len: "m_len (s_mapping s') = m_len (s_mapping s)" and fit: "atomics_fit s'"
    and free: "read_free s'"
    using w assms(2,4) by (simp_all add: wrote_def atomics_fit_def read_free_def write_free_def)
  have in_range: "unat off + length data \<le> length (s_bytes s)" using assms(7) sys_okD(5) [OF assms(1)] by simp
  have "read_into env off (replicate (length data) 0) s' = Some (Inr data, s')"
    using read_into_eq [OF ok fit, of "replicate (length data) 0" env off] assms(5-7) len free
    by (simp add: bytes slice_splice_same [OF in_range])
  moreover have "mmap_len s' = mmap_len s"
    using sys_okD(3) [OF ok] sys_okD(3) [OF assms(1)] len by (simp add: mmap_len_def)
  ultimately show ?thesis
    using u assms(5) slice_splice_disjoint [OF in_range] by (auto simp: update_region_def bytes)
qed

lemma read_after_update_witness:
  "\<exists>r s'. update_region sample_env 2 [1, 2, 3] (sample_sys (EveryWrites 1)) = Some (r, s')
    \<and> read_into sample_env 2 (replicate (length [1 :: byte, 2, 3]) 0) s' = Some (Inr [1, 2, 3], s')"
proof -
  have "unat (2 :: u64) + length [1 :: byte, 2, 3] \<le> unat (m_len (s_mapping (sample_sys (EveryWrites 1))))"
    by simp
  moreover have "[1 :: byte, 2, 3] \<noteq> []" "length [1 :: byte, 2, 3] < 2 ^ 63" by simp_all
  ultimately show ?thesis
    using read_after_update [OF sample_sys_ok sample_free(3,2,1)] by blast
qed



text \<open>C23. The non-blocking variants are the blocking ones: \<open>try_update_region\<close>, \<open>try_as_slice\<close> and
  \<open>try_as_slice_mut\<close> report "would block", changing nothing, exactly in the states where the blocking call
  waits, and in every other state do exactly what it does, errors included.\<close>

theorem try_variants_agree:
  "try_update_region env off data s =
     (case update_region env off data s of
        None \<Rightarrow> Some (Inr False, s) | Some (Inl e, s') \<Rightarrow> Some (Inl e, s') | Some (Inr _, s') \<Rightarrow> Some (Inr True, s'))
   \<and> try_as_slice env sh off len s =
     (case as_slice env sh off len s of
        None \<Rightarrow> Some (Inr None, s) | Some (Inl e, s') \<Rightarrow> Some (Inl e, s') | Some (Inr v, s') \<Rightarrow> Some (Inr (Some v), s'))
   \<and> try_as_slice_mut off len s =
     (case as_slice_mut off len s of
        None \<Rightarrow> Some (Inr None, s) | Some (Inl e, s') \<Rightarrow> Some (Inl e, s') | Some (Inr v, s') \<Rightarrow> Some (Inr (Some v), s'))"
  using try_update_region_eq try_as_slice_eq try_as_slice_mut_eq by blast

text \<open>C20. The flush policy is kept: on a read-write mapping every successful update leaves nothing pending
  under \<open>Always\<close>, fewer than \<open>n\<close> pending bytes under \<open>EveryBytes n\<close> and fewer than \<open>n\<close> pending updates under
  \<open>EveryWrites n\<close> (with \<open>n\<close> not 0), also when the 64-bit sum of pending and written bytes would overflow.\<close>

theorem update_keeps_policy:
  assumes "sys_ok s" "i_map (s_mm s) = Rw m" "policy_kept s" "update_region env off data s = Some (Inr (), s')"
  shows "policy_kept s'"
proof (cases "s' = s")
  case True
  with assms(3) show ?thesis by simp
next
  case False
  then obtain b where b: "apply_flush_policy env (of_nat (length data)) (store_at b data s) = Some (Inr (), s')"
    using assms(4)
    by (auto simp: update_region_def update_region_within_def Let_def split: if_splits sum.splits prod.splits)
  have "tracks_writes (s_mm s)" using assms(2) by (simp add: tracks_writes_def)
  moreover have "policy_kept (store_at b data s)"
    using assms(3) by (auto simp: policy_kept_def split: flush_policy.splits)
  ultimately show ?thesis using apply_flush_policy_kept [OF b] by simp
qed

theorem update_keeps_policy_witness:
  "\<exists>r s'. update_region sample_env 2 [1, 2, 3] (sample_sys (EveryBytes 4)) = Some (r, s')
    \<and> (case r of Inl _ \<Rightarrow> True | Inr _ \<Rightarrow> policy_kept s')"
proof -
  obtain r s' where u: "update_region sample_env 2 [1, 2, 3] (sample_sys (EveryBytes 4)) = Some (r, s')"
    using update_region_returns [of "sample_sys (EveryBytes 4)" "[1, 2, 3]" 2 sample_env] by auto
  have k: "policy_kept (sample_sys (EveryBytes 4))" by (simp add: policy_kept_def)
  have "policy_kept s'" if "r = Inr ()"
    using update_keeps_policy [OF sample_sys_ok _ k] u that by simp
  with u show ?thesis by (auto split: sum.splits)
qed

text \<open>C21. Flush accounting: a flush of a read-write mapping asks for write-back of the whole mapping; when it
  succeeds nothing is pending any more; when it fails the error is reported, and both counters are what
  they were, so no pending byte is forgotten; on read-only and copy-on-write mappings it does nothing.\<close>

theorem flush_accounts:
  assumes "read_free s"
  shows "case mmap_flush env s of
      None \<Rightarrow> False
    | Some (r, s') \<Rightarrow>
        (case i_map (s_mm s) of
           Rw m \<Rightarrow>
             s_world s' = snd (mapping_flush env m 0 (m_len m) Flush_Sync (s_world s))
             \<and> (case fst (mapping_flush env m 0 (m_len m) Flush_Sync (s_world s)) of
                  Inr _ \<Rightarrow> r = Inr () \<and> i_written (s_mm s') = 0 \<and> i_writes (s_mm s') = 0
                | Inl e \<Rightarrow> r = Inl (FlushFailed (io_text e)) \<and> s_mm s' = s_mm s)
         | _ \<Rightarrow> r = Inr () \<and> s' = s)"
proof (cases "i_map (s_mm s)")
  case (Rw m)
  show ?thesis
  proof (cases rule: flush_mapped_cases [of env s])
    case (ok w')
    with assms Rw show ?thesis by (simp add: mmap_flush_def map_read_def raw_flush_def)
  next
    case (failed e w')
    with assms Rw show ?thesis by (simp add: mmap_flush_def map_read_def raw_flush_def)
  qed
qed (simp_all add: mmap_flush_def)

theorem flush_accounts_witness:
  "\<exists>r s'. read_free (sample_sys Never) \<and> mmap_flush sample_env (sample_sys Never) = Some (r, s')"
  using flush_accounts [of "sample_sys Never" sample_env] by (auto split: option.splits)

text \<open>C5. A successful resize: the file has exactly the new length, the mapping covers all of it and
  \<open>len()\<close> reports it; every byte of the common prefix is kept and new bytes are zero; no other file
  changed; and the resized mapping satisfies the invariant.\<close>

theorem resize_succeeds_exactly:
  assumes "sys_ok s" "resize env n s = Some (Inr (), s')"
  shows "sys_ok s' \<and> length (s_file_bytes s') = unat n \<and> length (s_bytes s') = unat n \<and> mmap_len s' = n
    \<and> take (min (unat n) (length (s_bytes s))) (s_bytes s') = take (min (unat n) (length (s_bytes s))) (s_bytes s)
    \<and> (\<forall>i. length (s_bytes s) \<le> i \<and> i < unat n \<longrightarrow> s_bytes s' ! i = 0)
    \<and> s_bytes s' = s_file_bytes s'
    \<and> (\<forall>f. f \<noteq> i_file (s_mm s) \<longrightarrow> w_data (s_world s') f = w_data (s_world s) f)"
proof -
  have R: "resized (unat n) s s'" by (rule resize_ok [OF assms])
  obtain m where "i_map (s_mm s) = Rw m"
    using assms(2) by (auto simp: resize_def split: if_splits map_variant.splits)
  then have same: "s_bytes s = s_file_bytes s" by (rule rw_facts(4) [OF assms(1)])
  have bytes: "s_bytes s' = resize_bytes (unat n) (s_bytes s)" and fb: "s_file_bytes s' = resize_bytes (unat n) (s_bytes s)"
    and len: "mmap_len s' = n" and ok: "sys_ok s'"
    using R unfolding resized_def same [symmetric] word_unat_eq_iff by blast+
  have "s_bytes s' ! i = 0" if "length (s_bytes s) \<le> i" "i < unat n" for i
    using that by (simp add: bytes nth_resize_bytes)
  moreover have "take (min (unat n) (length (s_bytes s))) (s_bytes s') = take (min (unat n) (length (s_bytes s))) (s_bytes s)"
    unfolding bytes by (rule take_resize_bytes) simp_all
  moreover have "\<forall>f. f \<noteq> i_file (s_mm s) \<longrightarrow> w_data (s_world s') f = w_data (s_world s) f"
    using R unfolding resized_def by (elim conjE)
  ultimately show ?thesis using bytes fb len ok by simp
qed

theorem resize_succeeds_exactly_witness:
  "\<exists>s'. resize sample_env 8 (sample_sys Never) = Some (Inr (), s') \<and> mmap_len s' = 8 \<and> sys_ok s'"
proof -
  have r: "resize sample_env 8 (sample_sys Never) = Some (Inr (), store_cached_len (sample_sys Never))"
    by (simp add: resize_def MAX_MMAP_SIZE_def Let_def)
  from resize_succeeds_exactly [OF sample_sys_ok r] r show ?thesis by auto
qed

text \<open>C19. A failed resize loses nothing (on every target but Windows, where the view has to be unmapped
  before the file can shrink): the mapping, the bytes it shows and \<open>len()\<close> are as before, the file still
  starts with those bytes, and no other file changed, also when restoring the file's length fails in
  turn.\<close>

theorem failed_resize_keeps_bytes:
  assumes "sys_ok s" "e_target env \<noteq> Windows" "resize env n s = Some (Inl e, s')"
  shows "i_map (s_mm s') = i_map (s_mm s) \<and> s_bytes s' = s_bytes s \<and> mmap_len s' = mmap_len s
    \<and> take (length (s_file_bytes s)) (s_file_bytes s') = s_file_bytes s
    \<and> (\<forall>f. f \<noteq> i_file (s_mm s) \<longrightarrow> w_data (s_world s') f = w_data (s_world s) f)"
  using resize_failed [OF assms] unfolding unresized_def mmap_len_def by (elim conjE) (intro conjI)

theorem failed_resize_keeps_bytes_witness:
  "\<exists>e s'. resize sample_env 0 (sample_sys Never) = Some (Inl e, s') \<and> s_bytes s' = s_bytes (sample_sys Never)"
proof -
  have r: "resize sample_env 0 (sample_sys Never) =
      Some (Inl (ResizeFailed ''New size must be greater than zero''), sample_sys Never)"
    by (simp add: resize_def)
  from failed_resize_keeps_bytes [OF sample_sys_ok _ r] r show ?thesis by auto
qed

text \<open>A slice of a writable mapping pins it: when \<open>as_slice\<close> succeeds, the slice shows exactly the
  requested bytes; while it lives every non-empty update, mutable slice and in-range resize waits, so the
  bytes cannot change under it; and dropping it releases exactly that guard and registration.\<close>

lemma slice_pins_mapping:
  assumes "sys_ok s" "sh < SHARDS" "locked (i_map (s_mm s))" "len \<noteq> 0" "as_slice env sh off len s = Some (Inr v, s')"
  shows "slice_bytes s' v = take (unat len) (drop (unat off) (s_bytes s)) \<and> slice_len s' v = unat len
    \<and> s_bytes s' = s_bytes s \<and> sys_ok s'
    \<and> (data \<noteq> [] \<longrightarrow> update_region env o2 data s' = None) \<and> as_slice_mut o2 n2 s' = None
    \<and> (i_mode (s_mm s) = ReadWrite \<and> n2 \<noteq> 0 \<and> \<not> n2 > MAX_MMAP_SIZE \<longrightarrow> resize env n2 s' = None)
    \<and> i_readers (s_mm (drop_slice v s')) = i_readers (s_mm s)
    \<and> plain_lookup (i_views (s_mm (drop_slice v s'))) = plain_lookup (i_views (s_mm s))"
proof -
  have rf: "read_free s" and rng: "unat off + unat len \<le> unat (m_len (s_mapping s))"
    and iv: "into_view env sh (unat off) (unat off + unat len) s = Some (Inr v, s')"
    using assms(5) by (auto simp: as_slice_eq [OF assms(4)] split: if_splits)
  note K = into_view_keeps [OF iv assms(1,2) rf]
  from iv assms(3) obtain reg w where v: "v = Slice_Guarded reg (unat off) (unat off + unat len)"
    and s': "s' = mm_upd (\<lambda>mm. mm\<lparr>i_views := w, i_readers := Suc (i_readers mm)\<rparr>) s"
    and reg: "view_register env sh (unat off) (unat off + unat len) (i_views (s_mm s)) = (Inr reg, w)"
    by (cases rule: into_view_cases) auto
  have lk: "locked (i_map (s_mm s'))" and busy: "\<not> write_free s'"
    using assms(3) by (simp_all add: s' write_free_def)
  have sl: "slice_bytes s' v = take (unat len) (drop (unat off) (s_bytes s))"
    using K(2) by (simp add: slice_bytes_def v sub_slice_def)
  have ln: "slice_len s' v = unat len"
    using rng sys_okD(5) [OF assms(1)] by (simp add: slice_len_def sl)
  have "resize env n2 s' = None" if "i_mode (s_mm s) = ReadWrite" "n2 \<noteq> 0" "\<not> n2 > MAX_MMAP_SIZE"
  proof -
    obtain m where "i_map (s_mm s) = Rw m"
      using sys_okD(2) [OF assms(1)] assms(3) \<open>i_mode (s_mm s) = ReadWrite\<close>
      unfolding variant_ok_def by (cases "i_map (s_mm s)") simp_all
    with that busy K(4) show ?thesis by (simp add: resize_def s')
  qed
  moreover have "update_region env o2 data s' = None" if "data \<noteq> []"
    using that lk busy by (simp add: update_region_def update_region_within_def write_lock_def)
  moreover have "as_slice_mut o2 n2 s' = None"
    using lk busy by (simp add: as_slice_mut_def write_lock_def)
  moreover have "plain_lookup (i_views (s_mm (drop_slice v s'))) = plain_lookup (i_views (s_mm s))"
  proof (cases "e_atomic env")
    case True
    with reg have r: "register_plain sh (unat off) (unat off + unat len) (i_views (s_mm s)) = (Inr reg, w)"
      by (simp add: view_register_def)
    note P = register_plain_ok [OF sys_okD(4) [OF assms(1)] assms(2) r]
    show ?thesis
      using P(1-3) drop_plain_ok(2) [of w reg] by (auto simp: drop_slice_def v s' registry_ok_def fun_eq_iff)
  next
    case False
    with reg show ?thesis by (simp add: view_register_def register_plain_untracked_def drop_slice_def v s')
  qed
  moreover have "i_readers (s_mm (drop_slice v s')) = i_readers (s_mm s)"
    by (simp add: drop_slice_def v s')
  ultimately show ?thesis using sl ln K(1,2) by blast
qed

lemma slice_pins_mapping_witness:
  "\<exists>v s'. as_slice sample_env 0 2 3 (sample_sys Never) = Some (Inr v, s')
    \<and> slice_bytes s' v = [12, 13, 14] \<and> update_region sample_env 0 [1] s' = None"
proof -
  obtain h w where reg: "register_plain 0 2 5 registry_new = (Inr h, w)"
    using register_plain_succeeds [OF registry_ok_new, of 0 2 5]
    by (auto simp: atomic_hit_def registry_new_def atomic_empty_def SHARDS_def)
  obtain v s' where a: "as_slice sample_env 0 2 3 (sample_sys Never) = Some (Inr v, s')"
    by (simp add: as_slice_eq into_view_def view_register_def reg)
  have bytes: "mapping_bytes sample_world sample_mapping = sample_bytes"
    by (simp add: mapping_bytes_def) (simp add: sample_mapping_def sub_slice_def)
  from slice_pins_mapping [OF sample_sys_ok _ _ _ a, of "[1]" 0 0] a show ?thesis
    by (auto simp: SHARDS_def bytes sample_bytes_def)
qed

end
