(* ===== verification/Views_Protocol.thy ===== *)
theory Views_Protocol
  imports Views
begin

text \<open>
  The registration protocol of \<open>src/views.rs\<close> under interference. Any number of activities (one per
  registration) run concurrently; each step is one atomic action of the source: a critical section
  of a shard mutex, a load or update of \<open>atomic_live\<close> (all \<open>SeqCst\<close>), or acquiring and releasing the
  lock of the atomic set. Steps of different activities interleave arbitrarily. A read lock of the
  set is taken only while no activity holds it for writing, and the check under it is one step,
  since no writer can run meanwhile.
\<close>

datatype activity =
    Idle
  | P_Inserted plain_reg brange
  | P_Checking plain_reg brange
  | P_Undoing plain_reg brange
  | P_Live plain_reg brange
  | A_Locked nat nat nat
  | A_Scanning nat nat nat nat
  | A_Failing nat nat nat
  | A_Live u64 nat nat nat
  | A_Dropping

record proto =
  p_reg :: view_registry
  p_writer :: "nat option"
  p_pc :: "nat \<Rightarrow> activity"

definition proto_init :: proto where
  "proto_init = \<lparr>p_reg = registry_new, p_writer = None, p_pc = (\<lambda>_. Idle)\<rparr>"

text \<open>\<open>go t a s\<close>: activity \<open>t\<close> moves to \<open>a\<close>.\<close>

definition go :: "nat \<Rightarrow> activity \<Rightarrow> proto \<Rightarrow> proto" where
  "go t a s = s\<lparr>p_pc := (p_pc s)(t := a)\<rparr>"

definition set_reg :: "view_registry \<Rightarrow> proto \<Rightarrow> proto" where
  "set_reg v s = s\<lparr>p_reg := v\<rparr>"

definition set_writer :: "nat option \<Rightarrow> proto \<Rightarrow> proto" where
  "set_writer wr s = s\<lparr>p_writer := wr\<rparr>"

lemma proto_simps [simp]:
  "p_reg (go t a s) = p_reg s" "p_writer (go t a s) = p_writer s" "p_pc (go t a s) = (p_pc s)(t := a)"
  "p_reg (set_reg v s) = v" "p_writer (set_reg v s) = p_writer s" "p_pc (set_reg v s) = p_pc s"
  "p_reg (set_writer wr s) = p_reg s" "p_writer (set_writer wr s) = wr" "p_pc (set_writer wr s) = p_pc s"
  by (simp_all add: go_def set_reg_def set_writer_def)

section \<open>Steps\<close>

definition announce :: "view_registry \<Rightarrow> view_registry" where
  "announce v = v\<lparr>vr_atomic_live := vr_atomic_live v + 1\<rparr>"

definition retract :: "view_registry \<Rightarrow> view_registry" where
  "retract v = v\<lparr>vr_atomic_live := vr_atomic_live v - 1\<rparr>"

definition publish :: "nat \<Rightarrow> nat \<Rightarrow> nat \<Rightarrow> view_registry \<Rightarrow> u64 \<times> view_registry" where
  "publish b e sz v = (case atomic_push (b, e, sz) (vr_atomics v) of (i, s) \<Rightarrow> (i, v\<lparr>vr_atomics := s\<rparr>))"

definition withdraw :: "u64 \<Rightarrow> view_registry \<Rightarrow> view_registry" where
  "withdraw i v = v\<lparr>vr_atomics := atomic_remove i (vr_atomics v)\<rparr>"

inductive proto_step :: "proto \<Rightarrow> proto \<Rightarrow> bool" where
  plain_insert_step:
    "p_pc s t = Idle \<Longrightarrow> shard < SHARDS \<Longrightarrow> plain_insert shard (b, e) (p_reg s) = (h, v) \<Longrightarrow>
       proto_step s (go t (P_Inserted h (b, e)) (set_reg v s))"
| plain_load_zero:
    "p_pc s t = P_Inserted h r \<Longrightarrow> vr_atomic_live (p_reg s) = 0 \<Longrightarrow> proto_step s (go t (P_Live h r) s)"
| plain_load_nonzero:
    "p_pc s t = P_Inserted h r \<Longrightarrow> vr_atomic_live (p_reg s) \<noteq> 0 \<Longrightarrow> proto_step s (go t (P_Checking h r) s)"
| plain_check_clear:
    "p_pc s t = P_Checking h r \<Longrightarrow> p_writer s = None \<Longrightarrow> \<not> atomic_hit (p_reg s) (fst r) (snd r) \<Longrightarrow>
       proto_step s (go t (P_Live h r) s)"
| plain_check_hit:
    "p_pc s t = P_Checking h r \<Longrightarrow> p_writer s = None \<Longrightarrow> atomic_hit (p_reg s) (fst r) (snd r) \<Longrightarrow>
       proto_step s (go t (P_Undoing h r) s)"
| plain_remove:
    "p_pc s t = P_Undoing h r \<or> p_pc s t = P_Live h r \<Longrightarrow>
       proto_step s (go t Idle (set_reg (drop_plain h (p_reg s)) s))"
| atomic_lock:
    "p_pc s t = Idle \<Longrightarrow> b \<noteq> e \<Longrightarrow> p_writer s = None \<Longrightarrow>
       proto_step s (go t (A_Locked b e sz) (set_writer (Some t) s))"
| atomic_mixed:
    "p_pc s t = A_Locked b e sz \<Longrightarrow> mixed_hit (p_reg s) b e sz \<Longrightarrow>
       proto_step s (go t Idle (set_writer None s))"
| atomic_announce:
    "p_pc s t = A_Locked b e sz \<Longrightarrow> \<not> mixed_hit (p_reg s) b e sz \<Longrightarrow>
       proto_step s (go t (A_Scanning b e sz 0) (set_reg (announce (p_reg s)) s))"
| atomic_scan_clear:
    "p_pc s t = A_Scanning b e sz k \<Longrightarrow> k < SHARDS \<Longrightarrow> \<not> slab_overlaps (vr_plain (p_reg s) ! k) b e \<Longrightarrow>
       proto_step s (go t (A_Scanning b e sz (Suc k)) s)"
| atomic_scan_hit:
    "p_pc s t = A_Scanning b e sz k \<Longrightarrow> k < SHARDS \<Longrightarrow> slab_overlaps (vr_plain (p_reg s) ! k) b e \<Longrightarrow>
       proto_step s (go t (A_Failing b e sz) s)"
| atomic_retract:
    "p_pc s t = A_Failing b e sz \<Longrightarrow>
       proto_step s (go t Idle (set_writer None (set_reg (retract (p_reg s)) s)))"
| atomic_publish:
    "p_pc s t = A_Scanning b e sz SHARDS \<Longrightarrow> publish b e sz (p_reg s) = (i, v) \<Longrightarrow>
       proto_step s (go t (A_Live i b e sz) (set_writer None (set_reg v s)))"
| atomic_withdraw:
    "p_pc s t = A_Live i b e sz \<Longrightarrow> p_writer s = None \<Longrightarrow>
       proto_step s (go t A_Dropping (set_writer (Some t) (set_reg (withdraw i (p_reg s)) s)))"
| atomic_drop_done:
    "p_pc s t = A_Dropping \<Longrightarrow>
       proto_step s (go t Idle (set_writer None (set_reg (retract (p_reg s)) s)))"

text \<open>Reachable states; \<open>n\<close> bounds the number of published atomic views by the value of the id counter.\<close>

inductive proto_reach :: "proto \<Rightarrow> bool" where
  reach_init: "proto_reach proto_init"
| reach_step: "proto_reach s \<Longrightarrow> as_next_id (vr_atomics (p_reg s)) \<noteq> word_max \<Longrightarrow> proto_step s s' \<Longrightarrow> proto_reach s'"

section \<open>The invariant\<close>

fun writing :: "activity \<Rightarrow> bool" where
  "writing (A_Locked _ _ _) = True"
| "writing (A_Scanning _ _ _ _) = True"
| "writing (A_Failing _ _ _) = True"
| "writing A_Dropping = True"
| "writing _ = False"

fun announced :: "activity \<Rightarrow> nat" where
  "announced (A_Scanning _ _ _ _) = 1"
| "announced (A_Failing _ _ _) = 1"
| "announced A_Dropping = 1"
| "announced _ = 0"

fun held_plain :: "activity \<Rightarrow> (plain_reg \<times> brange) option" where
  "held_plain (P_Inserted h r) = Some (h, r)"
| "held_plain (P_Checking h r) = Some (h, r)"
| "held_plain (P_Undoing h r) = Some (h, r)"
| "held_plain (P_Live h r) = Some (h, r)"
| "held_plain _ = None"

definition inv_struct :: "proto \<Rightarrow> bool" where
  "inv_struct s \<longleftrightarrow> slabs_wf (p_reg s)
     \<and> atomic_wf (vr_atomics (p_reg s))"

definition inv_lock :: "proto \<Rightarrow> bool" where
  "inv_lock s \<longleftrightarrow> (\<forall>t. writing (p_pc s t) \<longleftrightarrow> p_writer s = Some t)"

definition inv_count :: "proto \<Rightarrow> bool" where
  "inv_count s \<longleftrightarrow> unat (vr_atomic_live (p_reg s)) = length (as_entries (vr_atomics (p_reg s)))
     + (case p_writer s of Some t \<Rightarrow> announced (p_pc s t) | None \<Rightarrow> 0)"

definition inv_plain :: "proto \<Rightarrow> bool" where
  "inv_plain s \<longleftrightarrow>
     (\<forall>t h r. held_plain (p_pc s t) = Some (h, r) \<longrightarrow>
        plain_lookup (p_reg s) h = Some r \<and> (\<exists>shard slot. h = Plain_Reg shard slot \<and> shard < SHARDS)
        \<and> (\<forall>u h' r'. held_plain (p_pc s u) = Some (h', r') \<longrightarrow> h = h' \<longrightarrow> t = u))"

definition inv_live :: "proto \<Rightarrow> bool" where
  "inv_live s \<longleftrightarrow>
     (\<forall>u i b e sz. p_pc s u = A_Live i b e sz \<longrightarrow> entry_of (b, e, sz) i \<in> set (as_entries (vr_atomics (p_reg s)))
        \<and> (\<forall>x j b' e' sz'. p_pc s x = A_Live j b' e' sz' \<longrightarrow> i = j \<longrightarrow> u = x))"

definition inv_excl :: "proto \<Rightarrow> bool" where
  "inv_excl s \<longleftrightarrow>
     (\<forall>t h r. p_pc s t = P_Live h r \<longrightarrow>
        (\<forall>a \<in> set (as_entries (vr_atomics (p_reg s))). \<not> overlaps (a_start a) (a_end a) (fst r) (snd r))
        \<and> (\<forall>u b e sz k. p_pc s u = A_Scanning b e sz k \<longrightarrow> overlaps b e (fst r) (snd r) \<longrightarrow> k \<le> pr_shard h))"

definition inv_sizes :: "proto \<Rightarrow> bool" where
  "inv_sizes s \<longleftrightarrow> sizes_agree (vr_atomics (p_reg s))
     \<and> (\<forall>u b e sz k. p_pc s u = A_Scanning b e sz k \<longrightarrow>
          (\<forall>a \<in> set (as_entries (vr_atomics (p_reg s))). overlaps (a_start a) (a_end a) b e \<longrightarrow> a_size a = sz))"

definition proto_inv :: "proto \<Rightarrow> bool" where
  "proto_inv s \<longleftrightarrow> inv_struct s \<and> inv_lock s \<and> inv_count s \<and> inv_plain s \<and> inv_live s \<and> inv_excl s \<and> inv_sizes s"

section \<open>Every step keeps it\<close>

lemma shared_simps [simp]:
  "vr_plain (announce v) = vr_plain v" "vr_atomics (announce v) = vr_atomics v"
  "vr_plain (retract v) = vr_plain v" "vr_atomics (retract v) = vr_atomics v"
  "vr_plain (withdraw i v) = vr_plain v" "vr_atomic_live (withdraw i v) = vr_atomic_live v"
  "vr_atomics (withdraw i v) = atomic_remove i (vr_atomics v)"
  "vr_atomic_live (announce v) = vr_atomic_live v + 1" "vr_atomic_live (retract v) = vr_atomic_live v - 1"
  by (simp_all add: announce_def retract_def withdraw_def)

lemma slabs_wf_cong: "vr_plain v = vr_plain v' \<Longrightarrow> slabs_wf v = slabs_wf v'"
  by (simp add: slabs_wf_def)

lemma plain_lookup_cong: "vr_plain v = vr_plain v' \<Longrightarrow> plain_lookup v = plain_lookup v'"
  by (rule ext) (case_tac x; simp)

lemma plain_lookup_shared [simp]:
  "plain_lookup (announce v) = plain_lookup v" "plain_lookup (retract v) = plain_lookup v"
  "plain_lookup (withdraw i v) = plain_lookup v"
  by (rule plain_lookup_cong, simp)+

lemma slabs_wf_shared [simp]:
  "slabs_wf (announce v) = slabs_wf v" "slabs_wf (retract v) = slabs_wf v"
  "slabs_wf (withdraw i v) = slabs_wf v"
  by (rule slabs_wf_cong, simp)+

lemma publish_facts:
  assumes "publish b e sz v = (i, v')" "atomic_wf (vr_atomics v)" "as_next_id (vr_atomics v) \<noteq> word_max"
  shows "vr_plain v' = vr_plain v" "vr_atomic_live v' = vr_atomic_live v"
    and "as_entries (vr_atomics v') = as_entries (vr_atomics v) @ [entry_of (b, e, sz) i]"
    and "atomic_wf (vr_atomics v')" and "i \<notin> a_id ` set (as_entries (vr_atomics v))"
    and "plain_lookup v' = plain_lookup v" and "slabs_wf v' = slabs_wf v"
proof -
  obtain j s where p: "atomic_push (b, e, sz) (vr_atomics v) = (j, s)"
    by (cases "atomic_push (b, e, sz) (vr_atomics v)")
  have room: "atomic_room (vr_atomics v)" using assms(3) by (simp add: atomic_room_def)
  have v': "j = i" "v' = v\<lparr>vr_atomics := s\<rparr>" using assms(1) p by (simp_all add: publish_def)
  then show pl: "vr_plain v' = vr_plain v" "vr_atomic_live v' = vr_atomic_live v" by simp_all
  show "as_entries (vr_atomics v') = as_entries (vr_atomics v) @ [entry_of (b, e, sz) i]"
    "atomic_wf (vr_atomics v')" "i \<notin> a_id ` set (as_entries (vr_atomics v))"
    using atomic_push_wf [OF assms(2) room p] v' by simp_all
  show "plain_lookup v' = plain_lookup v" "slabs_wf v' = slabs_wf v"
    using plain_lookup_cong slabs_wf_cong pl(1) by blast+
qed

lemma inv_struct_step:
  assumes "inv_struct s" "as_next_id (vr_atomics (p_reg s)) \<noteq> word_max" "proto_step s s'"
  shows "inv_struct s'"
  using assms(3,1,2)
proof cases
  case (plain_insert_step t shard b e h v)
  with assms(1) plain_insert_slabs [of "p_reg s" shard "(b, e)" h v] show ?thesis
    by (simp add: inv_struct_def)
next
  case (plain_remove t h r)
  with assms(1) drop_plain_slabs(1) [of "p_reg s" h] show ?thesis by (simp add: inv_struct_def)
next
  case (atomic_publish t b e sz i v)
  with assms publish_facts [of b e sz "p_reg s" i v] show ?thesis by (simp add: inv_struct_def)
next
  case (atomic_withdraw t i b e sz)
  with assms atomic_remove_facts(1) [of "vr_atomics (p_reg s)" i] show ?thesis by (simp add: inv_struct_def)
qed (simp_all add: inv_struct_def)

lemma inv_lock_keep:
  "inv_lock s \<Longrightarrow> writing a = writing (p_pc s t) \<Longrightarrow> p_writer s' = p_writer s \<Longrightarrow> p_pc s' = p_pc s \<Longrightarrow>
     inv_lock (go t a s')"
  by (simp add: inv_lock_def)

lemma inv_lock_acquire:
  "inv_lock s \<Longrightarrow> p_writer s = None \<Longrightarrow> writing a \<Longrightarrow> p_writer s' = Some t \<Longrightarrow> p_pc s' = p_pc s \<Longrightarrow>
     inv_lock (go t a s')"
  by (auto simp: inv_lock_def)

lemma inv_lock_release:
  "inv_lock s \<Longrightarrow> writing (p_pc s t) \<Longrightarrow> \<not> writing a \<Longrightarrow> p_writer s' = None \<Longrightarrow> p_pc s' = p_pc s \<Longrightarrow>
     inv_lock (go t a s')"
  by (simp add: inv_lock_def)

lemma inv_lock_step:
  assumes "inv_lock s" "proto_step s s'"
  shows "inv_lock s'"
  using assms(2)
proof cases
  case (atomic_lock t b e sz)
  with assms(1) inv_lock_acquire [of s] show ?thesis by simp
next
  case (atomic_withdraw t i b e sz)
  with assms(1) inv_lock_acquire [of s] show ?thesis by simp
next
  case (atomic_mixed t b e sz)
  with assms(1) inv_lock_release [of s t] show ?thesis by simp
next
  case (atomic_retract t b e sz)
  with assms(1) inv_lock_release [of s t] show ?thesis by simp
next
  case (atomic_publish t b e sz i v)
  with assms(1) inv_lock_release [of s t] show ?thesis by simp
next
  case (atomic_drop_done t)
  with assms(1) inv_lock_release [of s t] show ?thesis by simp
qed (use assms(1) inv_lock_keep [of s] in auto)

lemma lock_holder: "inv_lock s \<Longrightarrow> writing (p_pc s t) \<Longrightarrow> p_writer s = Some t"
  by (simp add: inv_lock_def)

lemma no_writer: "inv_lock s \<Longrightarrow> p_writer s = None \<Longrightarrow> \<not> writing (p_pc s t)"
  by (simp add: inv_lock_def)

lemma writer_unique: "inv_lock s \<Longrightarrow> writing (p_pc s t) \<Longrightarrow> writing (p_pc s u) \<Longrightarrow> t = u"
  by (simp add: inv_lock_def)

text \<open>The counter: what the writer has announced and not yet published or retracted is counted too.\<close>

lemma unat_dec: "unat (x::usize) = Suc n \<Longrightarrow> unat (x - 1) = n"
proof -
  assume x: "unat x = Suc n"
  then have "(1::usize) \<le> x" by (simp add: word_le_unat)
  with x show ?thesis by (simp add: unat_sub_exact)
qed

lemma inv_count_keep:
  assumes "inv_lock s" "inv_count s" "announced a = announced (p_pc s t)" "p_writer s' = p_writer s"
    and "p_pc s' = p_pc s" "vr_atomic_live (p_reg s') = vr_atomic_live (p_reg s)"
    and "length (as_entries (vr_atomics (p_reg s'))) = length (as_entries (vr_atomics (p_reg s)))"
  shows "inv_count (go t a s')"
  using assms by (auto simp: inv_count_def split: option.splits)

lemma inv_count_step:
  assumes "inv_struct s" "inv_lock s" "inv_live s" "inv_count s" "as_next_id (vr_atomics (p_reg s)) \<noteq> word_max"
    and "proto_step s s'"
  shows "inv_count s'"
  using assms(6)
proof cases
  case (plain_insert_step t shard b e h v)
  with assms plain_insert_slabs(4,5) [of "p_reg s" shard "(b, e)" h v] show ?thesis
    by (auto intro!: inv_count_keep [of s] simp: inv_struct_def)
next
  case (atomic_lock t b e sz)
  with assms show ?thesis by (simp add: inv_count_def)
next
  case (atomic_mixed t b e sz)
  with assms lock_holder [of s t] show ?thesis by (simp add: inv_count_def)
next
  case (atomic_announce t b e sz)
  then have w: "p_writer s = Some t" using assms(2) lock_holder [of s t] by simp
  have len: "length (as_entries (vr_atomics (p_reg s))) \<le> unat (as_next_id (vr_atomics (p_reg s)))"
    using assms(1) atomic_wf_length by (simp add: inv_struct_def)
  have "unat (as_next_id (vr_atomics (p_reg s))) < 2 ^ 64 - 1"
    using assms(5) unat_bound [of "as_next_id (vr_atomics (p_reg s))"]
    by (auto simp: word_unat_eq_iff unat_word_max simp del: unat_bound unsigned_less)
  then have "unat (vr_atomic_live (p_reg s)) + unat (1::usize) < 2 ^ LENGTH(64)"
    using assms(4) len w atomic_announce by (simp add: inv_count_def)
  then show ?thesis
    using assms(4) w atomic_announce by (simp add: inv_count_def unat_add_exact)
next
  case (atomic_retract t b e sz)
  with assms lock_holder [of s t] show ?thesis by (simp add: inv_count_def unat_dec)
next
  case (atomic_publish t b e sz i v)
  with assms lock_holder [of s t] publish_facts [of b e sz "p_reg s" i v] show ?thesis
    by (simp add: inv_count_def inv_struct_def)
next
  case (atomic_withdraw t i b e sz)
  let ?a = "vr_atomics (p_reg s)"
  have wf: "atomic_wf ?a" using assms(1) by (simp add: inv_struct_def)
  have "entry_of (b, e, sz) i \<in> set (as_entries ?a)"
    using assms(3) atomic_withdraw by (simp add: inv_live_def)
  then obtain k where k: "position (\<lambda>a. a_id a = i) (as_entries ?a) = Some k"
    using position_None [of "\<lambda>a. a_id a = i" "as_entries ?a"]
    by (cases "position (\<lambda>a. a_id a = i) (as_entries ?a)") auto
  then have "length (as_entries ?a) = Suc (length (as_entries (atomic_remove i ?a)))"
    using swap_remove_facts(3) [OF _ k] wf by (simp add: atomic_remove_def atomic_wf_def)
  with assms(4) atomic_withdraw show ?thesis by (simp add: inv_count_def)
next
  case (atomic_drop_done t)
  with assms lock_holder [of s t] show ?thesis by (simp add: inv_count_def unat_dec)
qed (use assms inv_count_keep [of s] in auto)

lemma inv_plainD:
  assumes "inv_plain s" "held_plain (p_pc s t) = Some (h, r)"
  shows "plain_lookup (p_reg s) h = Some r" and "\<exists>shard slot. h = Plain_Reg shard slot \<and> shard < SHARDS"
    and "held_plain (p_pc s u) = Some (h, r') \<Longrightarrow> t = u"
  using assms unfolding inv_plain_def by blast+

lemma inv_plain_keep:
  assumes "inv_plain s" "held_plain a = held_plain (p_pc s t) \<or> held_plain a = None"
    and "p_pc s' = p_pc s" "plain_lookup (p_reg s') = plain_lookup (p_reg s)"
  shows "inv_plain (go t a s')"
proof -
  have held: "held_plain (p_pc s u) = Some x" if "held_plain (p_pc (go t a s') u) = Some x" for u x
    using that assms(2,3) by (auto split: if_splits)
  show ?thesis
    using assms(1,4) held unfolding inv_plain_def proto_simps(1) by metis
qed

lemma inv_plain_step:
  assumes "inv_struct s" "inv_plain s" "as_next_id (vr_atomics (p_reg s)) \<noteq> word_max" "proto_step s s'"
  shows "inv_plain s'"
  using assms(4)
proof cases
  case (plain_insert_step t shard b e h v)
  note I = plain_insert_slabs [OF _ plain_insert_step(3,4)]
  have wf: "slabs_wf (p_reg s)" using assms(1) by (simp add: inv_struct_def)
  have other: "h' \<noteq> h" if "held_plain (p_pc s u) = Some (h', r')" for u h' r'
    using inv_plainD(1) [OF assms(2) that] I(2) [OF wf] by auto
  show ?thesis
    unfolding inv_plain_def
  proof (intro allI impI)
    fix x k r assume x: "held_plain (p_pc s' x) = Some (k, r)"
    show "plain_lookup (p_reg s') k = Some r \<and> (\<exists>shard slot. k = Plain_Reg shard slot \<and> shard < SHARDS)
        \<and> (\<forall>u h' r'. held_plain (p_pc s' u) = Some (h', r') \<longrightarrow> k = h' \<longrightarrow> x = u)"
    proof (cases "x = t")
      case True
      then have "k = h" "r = (b, e)" using x plain_insert_step by simp_all
      then show ?thesis
        using I(3,6) [OF wf] plain_insert_step(1,3) other True by (auto split: if_splits)
    next
      case False
      then have old: "held_plain (p_pc s x) = Some (k, r)" using x plain_insert_step by simp
      note D = inv_plainD [OF assms(2) old] and o = other [OF old]
      have "plain_lookup (p_reg s') k = Some r"
        using D(1) o I(3) [OF wf] plain_insert_step(1) by simp
      moreover have "x = u" if "held_plain (p_pc s' u) = Some (k, r')" for u r'
        using that o D(3) [of u r'] plain_insert_step(1) by (cases "u = t") simp_all
      ultimately show ?thesis using D(2) by blast
    qed
  qed
next
  case (plain_remove t h r)
  have wf: "slabs_wf (p_reg s)" using assms(1) by (simp add: inv_struct_def)
  have t: "held_plain (p_pc s t) = Some (h, r)" using plain_remove by auto
  have old: "held_plain (p_pc s x) = Some (k, r') \<and> k \<noteq> h" if "held_plain (p_pc s' x) = Some (k, r')" for x k r'
    using that plain_remove inv_plainD(3) [OF assms(2) t, of x] by (auto split: if_splits)
  have look: "plain_lookup (p_reg s') = (plain_lookup (p_reg s))(h := None)"
    using drop_plain_slabs(2) [OF wf, of h] plain_remove(1) by simp
  show ?thesis
    unfolding inv_plain_def look
  proof (intro allI impI)
    fix x k r' assume "held_plain (p_pc s' x) = Some (k, r')"
    note D = old [OF this]
    note E = inv_plainD [OF assms(2) conjunct1 [OF D]]
    have "x = u" if "held_plain (p_pc s' u) = Some (k, q)" for u q
      using old [OF that] E(3) by blast
    with D E(1,2) show "((plain_lookup (p_reg s))(h := None)) k = Some r'
        \<and> (\<exists>shard slot. k = Plain_Reg shard slot \<and> shard < SHARDS)
        \<and> (\<forall>u h' q. held_plain (p_pc s' u) = Some (h', q) \<longrightarrow> k = h' \<longrightarrow> x = u)"
      by simp
  qed
next
  case (atomic_publish t b e sz i v)
  with assms publish_facts(6) [of b e sz "p_reg s" i v] inv_plain_keep [of s] show ?thesis
    by (simp add: inv_struct_def)
qed (use assms inv_plain_keep [of s] in \<open>auto simp: inv_struct_def\<close>)

lemma inv_live_keep:
  assumes "inv_live s" "\<forall>i b e sz. a \<noteq> A_Live i b e sz" "p_pc s' = p_pc s"
    and "vr_atomics (p_reg s') = vr_atomics (p_reg s)"
  shows "inv_live (go t a s')"
  using assms unfolding inv_live_def by (simp add: fun_upd_apply) metis

lemma inv_live_step:
  assumes "inv_struct s" "inv_live s" "as_next_id (vr_atomics (p_reg s)) \<noteq> word_max" "proto_step s s'"
  shows "inv_live s'"
  using assms(4)
proof cases
  case (plain_insert_step t shard b e h v)
  with assms plain_insert_slabs(4) [of "p_reg s" shard "(b, e)" h v] show ?thesis
    by (auto intro!: inv_live_keep [of s] simp: inv_struct_def)
next
  case (atomic_publish t b e sz i v)
  have wf: "atomic_wf (vr_atomics (p_reg s))" using assms(1) by (simp add: inv_struct_def)
  note P = publish_facts [OF atomic_publish(3) wf assms(3)]
  have fresh: "j \<noteq> i" if "p_pc s u = A_Live j b' e' sz'" for u j b' e' sz'
  proof
    assume "j = i"
    with assms(2) that have "a_id (entry_of (b', e', sz') i) \<in> a_id ` set (as_entries (vr_atomics (p_reg s)))"
      by (intro imageI) (simp add: inv_live_def)
    with P(5) show False by simp
  qed
  with assms(2) P(3) atomic_publish show ?thesis
    unfolding inv_live_def by (auto split: if_splits dest: fresh)
next
  case (atomic_withdraw t i b e sz)
  have wf: "atomic_wf (vr_atomics (p_reg s))" using assms(1) by (simp add: inv_struct_def)
  have other: "j \<noteq> i" if "p_pc s u = A_Live j b' e' sz'" "u \<noteq> t" for u j b' e' sz'
    using assms(2) that atomic_withdraw unfolding inv_live_def by blast
  with assms(2) atomic_remove_facts(2) [OF wf, of i] atomic_withdraw show ?thesis
    unfolding inv_live_def by (auto split: if_splits)
qed (use assms inv_live_keep [of s] in auto)

text \<open>A live plain view is clear of every published atomic view, and of every announced one whose scan
  has passed its shard.\<close>

definition clear_of :: "proto \<Rightarrow> plain_reg \<Rightarrow> brange \<Rightarrow> bool" where
  "clear_of s h r \<longleftrightarrow>
     (\<forall>a \<in> set (as_entries (vr_atomics (p_reg s))). \<not> overlaps (a_start a) (a_end a) (fst r) (snd r))
     \<and> (\<forall>u b e sz k. p_pc s u = A_Scanning b e sz k \<longrightarrow> overlaps b e (fst r) (snd r) \<longrightarrow> k \<le> pr_shard h)"

lemma inv_excl_iff: "inv_excl s \<longleftrightarrow> (\<forall>t h r. p_pc s t = P_Live h r \<longrightarrow> clear_of s h r)"
  by (simp add: inv_excl_def clear_of_def)

lemma inv_exclD: "inv_excl s \<Longrightarrow> p_pc s t = P_Live h r \<Longrightarrow> clear_of s h r"
  unfolding inv_excl_iff by blast

lemma inv_exclI: "(\<And>t h r. p_pc s t = P_Live h r \<Longrightarrow> clear_of s h r) \<Longrightarrow> inv_excl s"
  unfolding inv_excl_iff by blast

lemma inv_excl_keep:
  assumes "inv_excl s" "\<forall>b e sz k. a \<noteq> A_Scanning b e sz k" "\<forall>h r. a \<noteq> P_Live h r" "p_pc s' = p_pc s"
    and "set (as_entries (vr_atomics (p_reg s'))) \<subseteq> set (as_entries (vr_atomics (p_reg s)))"
  shows "inv_excl (go t a s')"
  using assms unfolding inv_excl_iff clear_of_def by (simp add: fun_upd_apply) blast

lemma clear_of_mono:
  assumes "clear_of s h r"
    and "set (as_entries (vr_atomics (p_reg s'))) \<subseteq> set (as_entries (vr_atomics (p_reg s)))"
    and "\<And>u b e sz k. p_pc s' u = A_Scanning b e sz k \<Longrightarrow> overlaps b e (fst r) (snd r) \<Longrightarrow>
           p_pc s u = A_Scanning b e sz k \<or> k \<le> pr_shard h"
  shows "clear_of s' h r"
  using assms unfolding clear_of_def by blast

lemma no_scan_when_unannounced:
  assumes "inv_lock s" "inv_count s" "vr_atomic_live (p_reg s) = 0"
  shows "p_pc s u \<noteq> A_Scanning b e sz k" and "as_entries (vr_atomics (p_reg s)) = []"
proof -
  show "as_entries (vr_atomics (p_reg s)) = []" using assms(2,3) by (simp add: inv_count_def)
  show "p_pc s u \<noteq> A_Scanning b e sz k"
  proof
    assume u: "p_pc s u = A_Scanning b e sz k"
    then have "p_writer s = Some u" using lock_holder [OF assms(1), of u] by simp
    with u assms(2,3) show False by (simp add: inv_count_def)
  qed
qed

lemma inv_excl_new_live:
  assumes "inv_excl s" "clear_of s h r" "\<forall>b e sz k. p_pc s t \<noteq> A_Scanning b e sz k"
  shows "inv_excl (go t (P_Live h r) s)"
proof -
  have "clear_of (go t (P_Live h r) s) h' r'" if "clear_of s h' r'" for h' r'
    using that by (rule clear_of_mono) (auto split: if_splits)
  with assms(2) inv_exclD [OF assms(1)] show ?thesis
    by (intro inv_exclI) (auto split: if_splits)
qed

lemma live_in_slab:
  assumes "inv_plain s" "p_pc s t = P_Live h r" "overlaps b e (fst r) (snd r)"
  shows "pr_shard h < SHARDS" and "slab_overlaps (vr_plain (p_reg s) ! pr_shard h) b e"
proof -
  have held: "held_plain (p_pc s t) = Some (h, r)" using assms(2) by simp
  from inv_plainD(1,2) [OF assms(1) held] obtain shard slot where h: "h = Plain_Reg shard slot" "shard < SHARDS"
    and l: "plain_lookup (p_reg s) h = Some r" by auto
  then show "pr_shard h < SHARDS" by simp
  from l h have "slab_lookup (vr_plain (p_reg s) ! shard) slot = Some r" by (simp split: if_splits)
  with assms(3) h show "slab_overlaps (vr_plain (p_reg s) ! pr_shard h) b e"
    unfolding slab_overlaps_iff overlaps_sym [of _ _ b e] by (intro exI [of _ slot] exI [of _ r]) simp
qed

lemma inv_excl_step:
  assumes "inv_struct s" "inv_lock s" "inv_count s" "inv_plain s" "inv_excl s"
    and "as_next_id (vr_atomics (p_reg s)) \<noteq> word_max" "proto_step s s'"
  shows "inv_excl s'"
  using assms(7)
proof cases
  case (plain_insert_step t shard b e h v)
  with assms plain_insert_slabs(4) [of "p_reg s" shard "(b, e)" h v] show ?thesis
    by (auto intro!: inv_excl_keep [of s] simp: inv_struct_def)
next
  case (plain_load_zero t h r)
  have "clear_of s h r"
    using no_scan_when_unannounced [OF assms(2,3) plain_load_zero(3)] by (simp add: clear_of_def)
  with assms(5) plain_load_zero inv_excl_new_live [of s h r t] show ?thesis by simp
next
  case (plain_check_clear t h r)
  have "\<not> (\<exists>u b e sz k. p_pc s u = A_Scanning b e sz k)"
    using no_writer [OF assms(2) plain_check_clear(3)] by (metis writing.simps(2))
  with plain_check_clear(4) have "clear_of s h r"
    by (auto simp: clear_of_def atomic_hit_iff)
  with assms(5) plain_check_clear inv_excl_new_live [of s h r t] show ?thesis by simp
next
  case (atomic_announce t b e sz)
  have "clear_of s' h r" if "clear_of s h r" for h r
    using that by (rule clear_of_mono) (auto simp: atomic_announce(1) split: if_splits)
  with inv_exclD [OF assms(5)] show ?thesis
    by (intro inv_exclI) (auto simp: atomic_announce(1) split: if_splits)
next
  case (atomic_scan_clear t b e sz k)
  show ?thesis
    unfolding inv_excl_iff
  proof (intro allI impI)
    fix x h r assume "p_pc s' x = P_Live h r"
    then have x: "p_pc s x = P_Live h r" by (auto simp: atomic_scan_clear(1) split: if_splits)
    then have c: "clear_of s h r" by (rule inv_exclD [OF assms(5)])
    have "Suc k \<le> pr_shard h" if "overlaps b e (fst r) (snd r)"
    proof -
      have "k \<le> pr_shard h" using c that atomic_scan_clear(2) unfolding clear_of_def by blast
      moreover have "k \<noteq> pr_shard h"
        using live_in_slab(2) [OF assms(4) x that] atomic_scan_clear(4) by auto
      ultimately show ?thesis by simp
    qed
    then show "clear_of s' h r"
      using c by (rule_tac clear_of_mono [OF c]) (auto simp: atomic_scan_clear(1) split: if_splits)
  qed
next
  case (atomic_publish t b e sz i v)
  have wf: "atomic_wf (vr_atomics (p_reg s))" using assms(1) by (simp add: inv_struct_def)
  note P = publish_facts [OF atomic_publish(3) wf assms(6)]
  show ?thesis
    unfolding inv_excl_iff
  proof (intro allI impI)
    fix x h r assume "p_pc s' x = P_Live h r"
    then have x: "p_pc s x = P_Live h r" by (auto simp: atomic_publish(1) split: if_splits)
    then have c: "clear_of s h r" by (rule inv_exclD [OF assms(5)])
    have "\<not> overlaps b e (fst r) (snd r)"
    proof
      assume o: "overlaps b e (fst r) (snd r)"
      then have "SHARDS \<le> pr_shard h" using c atomic_publish(2) unfolding clear_of_def by blast
      with live_in_slab(1) [OF assms(4) x o] show False by simp
    qed
    with c P(3) show "clear_of s' h r"
      by (auto simp: clear_of_def atomic_publish(1) entry_of_def split: if_splits)
  qed
next
  case (atomic_withdraw t i b e sz)
  with assms atomic_remove_facts(2) [of "vr_atomics (p_reg s)" i] inv_excl_keep [of s] show ?thesis
    by (auto simp: inv_struct_def)
qed (use assms inv_excl_keep [of s] in auto)

definition size_clear :: "proto \<Rightarrow> nat \<Rightarrow> nat \<Rightarrow> nat \<Rightarrow> bool" where
  "size_clear s b e sz \<longleftrightarrow>
     (\<forall>a \<in> set (as_entries (vr_atomics (p_reg s))). overlaps (a_start a) (a_end a) b e \<longrightarrow> a_size a = sz)"

lemma inv_sizes_iff:
  "inv_sizes s \<longleftrightarrow> sizes_agree (vr_atomics (p_reg s))
     \<and> (\<forall>u b e sz k. p_pc s u = A_Scanning b e sz k \<longrightarrow> size_clear s b e sz)"
  by (simp add: inv_sizes_def size_clear_def)

lemma inv_sizes_keep:
  assumes "inv_sizes s" "\<forall>b e sz k. a = A_Scanning b e sz k \<longrightarrow> size_clear s b e sz" "p_pc s' = p_pc s"
    and "set (as_entries (vr_atomics (p_reg s'))) \<subseteq> set (as_entries (vr_atomics (p_reg s)))"
  shows "inv_sizes (go t a s')"
proof -
  have "sizes_agree (vr_atomics (p_reg s'))"
    using assms(1,4) unfolding inv_sizes_iff sizes_agree_def by blast
  moreover have "size_clear (go t a s') b e sz" if "size_clear s b e sz" for b e sz
    using that assms(4) unfolding size_clear_def proto_simps by blast
  moreover have "size_clear s b e sz" if "p_pc (go t a s') u = A_Scanning b e sz k" for u b e sz k
  proof (cases "u = t")
    case True
    with that assms(2) show ?thesis by auto
  next
    case False
    with that assms(3) have "p_pc s u = A_Scanning b e sz k" by simp
    with assms(1) show ?thesis unfolding inv_sizes_iff by blast
  qed
  ultimately show ?thesis by (auto simp: inv_sizes_iff)
qed

lemma inv_sizes_step:
  assumes "inv_struct s" "inv_lock s" "inv_sizes s"
    and "as_next_id (vr_atomics (p_reg s)) \<noteq> word_max" "proto_step s s'"
  shows "inv_sizes s'"
  using assms(5)
proof cases
  case (plain_insert_step t shard b e h v)
  with assms plain_insert_slabs(4) [of "p_reg s" shard "(b, e)" h v] show ?thesis
    by (auto intro!: inv_sizes_keep [of s] simp: inv_struct_def)
next
  case (atomic_announce t b e sz)
  then have "size_clear s b e sz"
    by (auto simp: size_clear_def mixed_hit_def list_ex_iff)
  with assms(3) atomic_announce inv_sizes_keep [of s] show ?thesis by simp
next
  case (atomic_scan_clear t b e sz k)
  then have "size_clear s b e sz" using assms(3) unfolding inv_sizes_iff by blast
  with assms(3) atomic_scan_clear inv_sizes_keep [of s] show ?thesis by simp
next
  case (atomic_publish t b e sz i v)
  have wf: "atomic_wf (vr_atomics (p_reg s))" using assms(1) by (simp add: inv_struct_def)
  note P = publish_facts [OF atomic_publish(3) wf assms(4)]
  have c: "size_clear s b e sz" using assms(3) atomic_publish(2) unfolding inv_sizes_iff by blast
  have alone: "p_pc s u \<noteq> A_Scanning b' e' sz' k" if "u \<noteq> t" for u b' e' sz' k
    using writer_unique [OF assms(2), of u t] that atomic_publish(2) by auto
  have "sizes_agree (vr_atomics v)"
    unfolding sizes_agree_def P(3)
  proof (intro ballI impI)
    fix x y
    assume xy: "x \<in> set (as_entries (vr_atomics (p_reg s)) @ [entry_of (b, e, sz) i])"
      "y \<in> set (as_entries (vr_atomics (p_reg s)) @ [entry_of (b, e, sz) i])"
      and o: "overlaps (a_start x) (a_end x) (a_start y) (a_end y)"
    have o': "overlaps (a_start y) (a_end y) (a_start x) (a_end x)" using o by (simp add: overlaps_sym)
    from xy o o' c assms(3) show "a_size x = a_size y"
      unfolding inv_sizes_iff sizes_agree_def size_clear_def by (auto simp: entry_of_def)
  qed
  with alone show ?thesis by (auto simp: inv_sizes_iff atomic_publish(1) split: if_splits)
next
  case (atomic_withdraw t i b e sz)
  with assms atomic_remove_facts(2) [of "vr_atomics (p_reg s)" i] inv_sizes_keep [of s] show ?thesis
    by (auto simp: inv_struct_def)
qed (use assms inv_sizes_keep [of s] in auto)

lemma proto_inv_init: "proto_inv proto_init"
  using registry_ok_new
  by (simp add: proto_inv_def inv_struct_def inv_lock_def inv_count_def inv_plain_def inv_live_def inv_excl_def
      inv_sizes_def proto_init_def registry_ok_def registry_wf_def)

lemma proto_inv_step:
  "proto_inv s \<Longrightarrow> as_next_id (vr_atomics (p_reg s)) \<noteq> word_max \<Longrightarrow> proto_step s s' \<Longrightarrow> proto_inv s'"
  unfolding proto_inv_def
  by (blast intro: inv_struct_step inv_lock_step inv_count_step inv_plain_step inv_live_step inv_excl_step
      inv_sizes_step)

lemma proto_reach_inv: "proto_reach s \<Longrightarrow> proto_inv s"
  by (induction rule: proto_reach.induct) (auto intro: proto_inv_init proto_inv_step)

section \<open>The methods run alone\<close>

text \<open>Without interference the steps of one activity compute exactly the method of the registry.\<close>

inductive proto_steps :: "proto \<Rightarrow> proto \<Rightarrow> bool" where
  steps_refl: "proto_steps s s"
| steps_step: "proto_steps s s' \<Longrightarrow> proto_step s' s'' \<Longrightarrow> proto_steps s s''"

lemma proto_eqI: "p_reg s = p_reg s' \<Longrightarrow> p_writer s = p_writer s' \<Longrightarrow> p_pc s = p_pc s' \<Longrightarrow> s = (s' :: proto)"
  by simp

lemma register_plain_alone:
  assumes "p_pc s t = Idle" "p_writer s = None" "shard < SHARDS" "register_plain shard b e (p_reg s) = (res, v)"
  shows "proto_steps s (go t (case res of Inr h \<Rightarrow> P_Live h (b, e) | Inl _ \<Rightarrow> Idle) (set_reg v s))"
proof -
  obtain h v1 where ins: "plain_insert shard (b, e) (p_reg s) = (h, v1)"
    by (cases "plain_insert shard (b, e) (p_reg s)")
  define s1 where "s1 = go t (P_Inserted h (b, e)) (set_reg v1 s)"
  have st1: "proto_steps s s1"
    unfolding s1_def by (rule steps_step [OF steps_refl]) (rule plain_insert_step [OF assms(1,3) ins])
  show ?thesis
  proof (cases "vr_atomic_live v1 = 0")
    case True
    then have "res = Inr h" "v = v1" using assms(4) ins by (auto simp: register_plain_def)
    moreover have "proto_step s1 (go t (P_Live h (b, e)) s1)"
      by (rule plain_load_zero) (use True in \<open>simp_all add: s1_def\<close>)
    moreover have "go t (P_Live h (b, e)) s1 = go t (P_Live h (b, e)) (set_reg v1 s)"
      by (rule proto_eqI) (simp_all add: s1_def)
    ultimately show ?thesis using st1 steps_step by (metis sum.case(2))
  next
    case False
    define s2 where "s2 = go t (P_Checking h (b, e)) s1"
    have st2: "proto_steps s s2"
      unfolding s2_def by (rule steps_step [OF st1]) (rule plain_load_nonzero, use False in \<open>simp_all add: s1_def\<close>)
    show ?thesis
    proof (cases "atomic_hit v1 b e")
      case True
      then have r: "res = Inl AtomicLive" "v = drop_plain h v1"
        using assms(4) ins False by (auto simp: register_plain_def)
      define s3 where "s3 = go t (P_Undoing h (b, e)) s2"
      have st3: "proto_steps s s3"
        unfolding s3_def
        by (rule steps_step [OF st2]) (rule plain_check_hit, use True assms(2) in \<open>simp_all add: s1_def s2_def\<close>)
      have "proto_step s3 (go t Idle (set_reg (drop_plain h (p_reg s3)) s3))"
        by (rule plain_remove [of _ _ _ "(b, e)"]) (simp add: s3_def)
      moreover have "go t Idle (set_reg (drop_plain h (p_reg s3)) s3) = go t Idle (set_reg v s)"
        by (rule proto_eqI) (simp_all add: s3_def s2_def s1_def r)
      ultimately show ?thesis using st3 steps_step r by (metis sum.case(1))
    next
      case hit: False
      then have r: "res = Inr h" "v = v1" using assms(4) ins False by (auto simp: register_plain_def)
      have "proto_step s2 (go t (P_Live h (b, e)) s2)"
        by (rule plain_check_clear) (use hit assms(2) in \<open>simp_all add: s1_def s2_def\<close>)
      moreover have "go t (P_Live h (b, e)) s2 = go t (P_Live h (b, e)) (set_reg v s)"
        by (rule proto_eqI) (simp_all add: s2_def s1_def r)
      ultimately show ?thesis using st2 steps_step r by (metis sum.case(2))
    qed
  qed
qed

lemma go_go: "go t a (go t b s) = go t a s"
  by (simp add: go_def)

lemma reach_scan:
  assumes "proto_reach s" "p_pc s t = A_Scanning b e sz 0" "as_next_id (vr_atomics (p_reg s)) \<noteq> word_max"
    and "\<forall>k < SHARDS. \<not> slab_overlaps (vr_plain (p_reg s) ! k) b e"
  shows "proto_reach (go t (A_Scanning b e sz SHARDS) s)"
proof -
  have "n \<le> SHARDS \<Longrightarrow> proto_reach (go t (A_Scanning b e sz n) s)" for n
  proof (induction n)
    case 0
    have "go t (A_Scanning b e sz 0) s = s" using assms(2) by (intro proto_eqI) auto
    with assms(1) show ?case by simp
  next
    case (Suc n)
    then have "proto_reach (go t (A_Scanning b e sz n) s)" by simp
    moreover have "proto_step (go t (A_Scanning b e sz n) s)
        (go t (A_Scanning b e sz (Suc n)) (go t (A_Scanning b e sz n) s))"
      by (rule atomic_scan_clear) (use Suc.prems assms(4) in auto)
    ultimately have "proto_reach (go t (A_Scanning b e sz (Suc n)) (go t (A_Scanning b e sz n) s))"
      using assms(3) by (auto intro: reach_step)
    then show ?case by (simp add: go_go)
  qed
  then show ?thesis by simp
qed

section \<open>Properties\<close>

text \<open>C4. The registration protocol is safe under every interleaving: however the steps of any number of
  concurrent registrations, failed attempts and drops interleave (as long as the 64-bit id counter has
  not come round), a plain view and an atomic view whose ranges overlap are never both live, and two
  overlapping live atomic views always have the same element size.\<close>

theorem protocol_excludes:
  assumes "proto_reach s"
  shows "(p_pc s t = P_Live h r \<and> p_pc s u = A_Live i b e sz \<longrightarrow> \<not> overlaps b e (fst r) (snd r))
    \<and> (p_pc s u = A_Live i b e sz \<and> p_pc s x = A_Live j b' e' sz' \<and> overlaps b e b' e' \<longrightarrow> sz = sz')"
proof -
  have inv: "proto_inv s" using assms by (rule proto_reach_inv)
  have ent: "entry_of (b, e, sz) i \<in> set (as_entries (vr_atomics (p_reg s)))"
    if "p_pc s u = A_Live i b e sz" for u i b e sz
    using inv that unfolding proto_inv_def inv_live_def by blast
  have ex: "\<not> overlaps b e (fst r) (snd r)" if "p_pc s t = P_Live h r" "p_pc s u = A_Live i b e sz"
  proof -
    have "clear_of s h r" using inv that(1) inv_exclD unfolding proto_inv_def by blast
    with ent [OF that(2)] show ?thesis by (auto simp: clear_of_def entry_of_def)
  qed
  have "sz = sz'" if "p_pc s u = A_Live i b e sz" "p_pc s x = A_Live j b' e' sz'" "overlaps b e b' e'"
  proof -
    have "sizes_agree (vr_atomics (p_reg s))" using inv unfolding proto_inv_def inv_sizes_iff by blast
    with ent [OF that(1)] ent [OF that(2)] that(3) show ?thesis
      unfolding sizes_agree_def by (force simp: entry_of_def)
  qed
  with ex show ?thesis by blast
qed

theorem protocol_excludes_witness:
  "\<exists>s h i. proto_reach s \<and> p_pc s 0 = P_Live h (0, 8) \<and> p_pc s 1 = A_Live i 8 16 4
     \<and> \<not> overlaps 8 16 (fst (0::nat, 8::nat)) (snd (0::nat, 8::nat))"
proof -
  obtain h v where ins: "plain_insert 0 (0, 8) registry_new = (h, v)"
    by (cases "plain_insert 0 (0, 8) registry_new")
  define s1 where "s1 = go 0 (P_Inserted h (0, 8)) (set_reg v proto_init)"
  define s2 where "s2 = go 0 (P_Live h (0, 8)) s1"
  define s3 where "s3 = go 1 (A_Locked 8 16 4) (set_writer (Some 1) s2)"
  define s4 where "s4 = go 1 (A_Scanning 8 16 4 0) (set_reg (announce v) s3)"
  define s5 where "s5 = go 1 (A_Scanning 8 16 4 SHARDS) s4"
  obtain i v' where pub: "publish 8 16 4 (announce v) = (i, v')"
    by (cases "publish 8 16 4 (announce v)")
  have v: "vr_atomics v = atomic_empty" "vr_atomic_live v = 0"
    using ins by (auto simp: plain_insert_def registry_new_def split: prod.splits)
  have plain: "vr_plain v = (replicate SHARDS slab_empty)[0 := \<lparr>sl_entries = [Some (0, 8)], sl_free = []\<rparr>]"
    using ins by (auto simp: plain_insert_def registry_new_def slab_insert_def slab_empty_def SHARDS_def)
  have room: "as_next_id (vr_atomics v) \<noteq> word_max" by (simp add: v atomic_empty_def word_max_def)
  have "proto_reach s1"
    unfolding s1_def
    by (rule reach_step [OF reach_init], simp add: proto_init_def registry_new_def atomic_empty_def word_max_def,
        rule plain_insert_step [of _ _ 0]) (simp_all add: proto_init_def ins SHARDS_def)
  moreover have "proto_step s1 s2"
    unfolding s2_def by (rule plain_load_zero) (simp_all add: s1_def v)
  ultimately have "proto_reach s2" using room reach_step by (simp add: s1_def)
  then have "proto_reach s3"
    unfolding s3_def
    by (rule reach_step) (use room in \<open>auto intro!: atomic_lock simp: s1_def s2_def proto_init_def\<close>)
  then have "proto_reach s4"
    unfolding s4_def
    by (rule reach_step)
      (use room atomic_announce [of s3 1 8 16 4] in \<open>auto simp: s1_def s2_def s3_def mixed_hit_def v atomic_empty_def\<close>)
  then have r5: "proto_reach s5"
    unfolding s5_def
    by (rule reach_scan) (use room in \<open>auto simp: s1_def s2_def s3_def s4_def plain nth_update
        slab_overlaps_def slab_empty_def overlaps_def SHARDS_def\<close>)
  have "proto_reach (go 1 (A_Live i 8 16 4) (set_writer None (set_reg v' s5)))" (is "proto_reach ?s")
    by (rule reach_step [OF r5])
      (use room pub in \<open>auto intro!: atomic_publish simp: s1_def s2_def s3_def s4_def s5_def\<close>)
  moreover have "p_pc ?s 0 = P_Live h (0, 8)" "p_pc ?s 1 = A_Live i 8 16 4"
    by (simp_all add: s2_def s3_def s4_def s5_def)
  ultimately show ?thesis
    using protocol_excludes [of ?s 0 h "(0, 8)" 1 i 8 16 4] by blast
qed

text \<open>The protocol refines the method: an activity that runs the steps of \<open>register_plain\<close> without
  interference ends with exactly the result and registry the method computes, live on success and
  with nothing left behind on a conflict.\<close>

lemma protocol_runs_register_plain:
  assumes "p_pc s t = Idle" "p_writer s = None" "shard < SHARDS"
  shows "case register_plain shard b e (p_reg s) of
      (Inr h, v) \<Rightarrow> proto_steps s (go t (P_Live h (b, e)) (set_reg v s))
    | (Inl c, v) \<Rightarrow> proto_steps s (go t Idle (set_reg v s))"
  using register_plain_alone [OF assms, of b e] by (auto split: prod.splits sum.splits)

lemma protocol_runs_register_plain_witness:
  "case register_plain 2 0 8 (p_reg proto_init) of
      (Inr h, v) \<Rightarrow> proto_steps proto_init (go 5 (P_Live h (0, 8)) (set_reg v proto_init))
    | (Inl c, v) \<Rightarrow> proto_steps proto_init (go 5 Idle (set_reg v proto_init))"
  by (rule protocol_runs_register_plain) (simp_all add: proto_init_def SHARDS_def)

end
