(* ===== verification/Mmap_Open.thy ===== *)
theory Mmap_Open
  imports Mmap_Facts
begin

text \<open>
  \<open>src/mmap.rs\<close>, how a managed mapping comes to be: the constructors of \<open>MemoryMappedFile\<close>, the
  builder and its terminal methods, and the background flusher's callback. A constructor is a
  computation on the world that returns the state \<open>Inner\<close> of the new mapping, or an error. The
  builder's read-write paths also return the reads an eager touch made. Whether the operating
  system starts the flusher's thread is the argument \<open>spawned\<close>.
\<close>

section \<open>Opening files\<close>

type_synonym 'a open_io = "world \<Rightarrow> (mmap_io_error + 'a) \<times> world"

text \<open>\<open>?\<close> on an \<open>io::Result\<close>.\<close>

definition io_try :: "(world \<Rightarrow> (io_error + 'a) \<times> world) \<Rightarrow> 'a open_io" where
  "io_try m = map_err_se from_io_error m"

definition opts_ro :: open_opts where
  "opts_ro = \<lparr>o_read = True, o_write = False, o_create = False, o_truncate = False, o_create_new = False\<rparr>"

definition opts_rw :: open_opts where
  "opts_rw = opts_ro\<lparr>o_write := True\<rparr>"

definition opts_truncate :: open_opts where
  "opts_truncate = opts_rw\<lparr>o_create := True, o_truncate := True\<rparr>"

definition opts_create_new :: open_opts where
  "opts_create_new = opts_rw\<lparr>o_create_new := True\<rparr>"

text \<open>The \<open>Inner\<close> literal of the constructors: nothing pending, no flusher, no view, lock free.\<close>

definition inner_new :: "path \<Rightarrow> fid \<Rightarrow> mmap_mode \<Rightarrow> u64 \<Rightarrow> map_variant \<Rightarrow> flush_policy \<Rightarrow> bool \<Rightarrow> inner" where
  "inner_new pth f mode len v pol huge =
     \<lparr>i_path = pth, i_file = f, i_mode = mode, i_cached_len = len, i_map = v, i_policy = pol,
      i_written = 0, i_writes = 0, i_flusher = None, i_views = registry_new, i_huge = huge,
      i_readers = 0, i_writer = False\<rparr>"

definition size_too_large :: "u64 \<Rightarrow> mmap_io_error" where
  "size_too_large req =
     ResizeFailed (''Size '' @ show_word req @ '' exceeds maximum safe limit of ''
       @ show_word MAX_MMAP_SIZE @ '' bytes'')"

definition file_too_large :: "u64 \<Rightarrow> mmap_io_error" where
  "file_too_large len = ResizeFailed (''File length '' @ show_word len @ '' does not fit in usize'')"

section \<open>Constructors\<close>

text \<open>The closure \<open>undo\<close> of \<open>create_rw\<close>: a file that was there is left empty, a new one is removed.\<close>

definition create_undo :: "env \<Rightarrow> bool \<Rightarrow> path \<Rightarrow> fid \<Rightarrow> world \<Rightarrow> world" where
  "create_undo env existed pth f w =
     (if existed then snd (fs_set_len env f 0 w) else snd (fs_remove_file env pth w))"

definition create_rw :: "env \<Rightarrow> path \<Rightarrow> u64 \<Rightarrow> inner open_io" where
  "create_rw env pth req w =
     (if req = 0 then (Inl (ResizeFailed ERR_ZERO_SIZE), w)
      else if req > MAX_MMAP_SIZE then (Inl (size_too_large req), w)
      else
        let existed = path_exists w pth
        in bind_se (io_try (fs_open env pth opts_truncate)) (\<lambda>f w1.
             case fs_set_len env f req w1 of
               (Inl e, w2) \<Rightarrow> (Inl (from_io_error e), create_undo env existed pth f w2)
             | (Inr _, w2) \<Rightarrow>
                 (case rawmmapmut_map_mut env f w2 of
                    (Inl e, w3) \<Rightarrow> (Inl (from_io_error e), create_undo env existed pth f w3)
                  | (Inr m, w3) \<Rightarrow> (Inr (inner_new pth f ReadWrite req (Rw m) Never False), w3))) w)"

definition open_ro :: "env \<Rightarrow> path \<Rightarrow> inner open_io" where
  "open_ro env pth =
     bind_se (io_try (fs_open env pth opts_ro)) (\<lambda>f.
     bind_se (io_try (fs_metadata_len env f)) (\<lambda>len.
     bind_se (io_try (rawmmap_map env f)) (\<lambda>m.
       return_se (inner_new pth f ReadOnly len (Ro m) Never False))))"

definition open_rw :: "env \<Rightarrow> path \<Rightarrow> inner open_io" where
  "open_rw env pth =
     bind_se (io_try (fs_open env pth opts_rw)) (\<lambda>f.
     bind_se (io_try (fs_metadata_len env f)) (\<lambda>len.
       if len = 0 then fail_se (ResizeFailed ERR_ZERO_LENGTH_FILE)
       else bind_se (io_try (rawmmapmut_map_mut env f)) (\<lambda>m.
              return_se (inner_new pth f ReadWrite len (Rw m) Never False))))"

definition cow_inner :: "env \<Rightarrow> path \<Rightarrow> fid \<Rightarrow> bool \<Rightarrow> inner open_io" where
  "cow_inner env pth f writable =
     bind_se (io_try (fs_metadata_len env f)) (\<lambda>len.
       if len = 0 then fail_se (ResizeFailed ERR_ZERO_LENGTH_FILE)
       else bind_se (lift_se (ok_or (file_too_large len) (word_try_from len))) (\<lambda>map_len.
         let opts = options_len map_len options_new
         in bind_se (if writable
                     then bind_se (io_try (raw_map_copy env opts f)) (\<lambda>m. return_se (Cow m))
                     else bind_se (io_try (raw_map env opts f)) (\<lambda>m. return_se (Ro m)))
              (\<lambda>v. return_se (inner_new pth f CopyOnWrite len v Never False))))"

definition open_cow :: "env \<Rightarrow> path \<Rightarrow> inner open_io" where
  "open_cow env pth = bind_se (io_try (fs_open env pth opts_ro)) (\<lambda>f. cow_inner env pth f False)"

definition open_cow_writable :: "env \<Rightarrow> path \<Rightarrow> inner open_io" where
  "open_cow_writable env pth = bind_se (io_try (fs_open env pth opts_ro)) (\<lambda>f. cow_inner env pth f True)"

definition from_file :: "env \<Rightarrow> fid \<Rightarrow> mmap_mode \<Rightarrow> path \<Rightarrow> inner open_io" where
  "from_file env f mode pth =
     bind_se (io_try (fs_metadata_len env f)) (\<lambda>len.
       case mode of
         ReadOnly \<Rightarrow>
           bind_se (io_try (rawmmap_map env f)) (\<lambda>m. return_se (inner_new pth f mode len (Ro m) Never False))
       | ReadWrite \<Rightarrow>
           if len = 0 then fail_se (ResizeFailed ERR_ZERO_LENGTH_FILE)
           else bind_se (io_try (rawmmapmut_map_mut env f)) (\<lambda>m.
                  return_se (inner_new pth f mode len (Rw m) Never False))
       | CopyOnWrite \<Rightarrow>
           if e_cow env then cow_inner env pth f False
           else fail_se (InvalidMode ''CopyOnWrite mode requires 'cow' feature''))"

section \<open>The builder\<close>

record builder =
  b_path :: path
  b_size :: "u64 option"
  b_mode :: "mmap_mode option"
  b_policy :: flush_policy
  b_touch :: touch_hint
  b_huge :: bool
  b_cow_writable :: bool

definition builder_new :: "path \<Rightarrow> builder" where
  "builder_new pth =
     \<lparr>b_path = pth, b_size = None, b_mode = None, b_policy = Never, b_touch = Hint_Never,
      b_huge = False, b_cow_writable = False\<rparr>"

definition builder_size :: "u64 \<Rightarrow> builder \<Rightarrow> builder" where
  "builder_size n b = b\<lparr>b_size := Some n\<rparr>"

definition builder_mode :: "mmap_mode \<Rightarrow> builder \<Rightarrow> builder" where
  "builder_mode m b = b\<lparr>b_mode := Some m\<rparr>"

definition builder_flush_policy :: "flush_policy \<Rightarrow> builder \<Rightarrow> builder" where
  "builder_flush_policy pol b = b\<lparr>b_policy := pol\<rparr>"

definition builder_touch_hint :: "touch_hint \<Rightarrow> builder \<Rightarrow> builder" where
  "builder_touch_hint h b = b\<lparr>b_touch := h\<rparr>"

definition builder_set_huge_pages :: "bool \<Rightarrow> builder \<Rightarrow> builder" where
  "builder_set_huge_pages h b = b\<lparr>b_huge := h\<rparr>"

definition builder_cow_writable :: "bool \<Rightarrow> builder \<Rightarrow> builder" where
  "builder_cow_writable c b = b\<lparr>b_cow_writable := c\<rparr>"

definition builder_huge_pages :: "env \<Rightarrow> builder \<Rightarrow> bool" where
  "builder_huge_pages env b \<longleftrightarrow> e_hugepages env \<and> b_huge b"

definition validated_create_size :: "u64 option \<Rightarrow> mmap_io_error + u64" where
  "validated_create_size req =
     result_bind (ok_or (ResizeFailed ''Size must be set for create() in ReadWrite mode'') req)
       (\<lambda>n. if n = 0 then Inl (ResizeFailed ERR_ZERO_SIZE)
             else if n > MAX_MMAP_SIZE then Inl (size_too_large n)
             else Inr n)"

text \<open>\<open>start_time_based_flusher\<close> stores the flusher, when there is one; its callback flushes when
  something is pending and reports whether the flush succeeded.\<close>

definition start_time_based_flusher :: "bool \<Rightarrow> u64 \<Rightarrow> inner \<Rightarrow> inner" where
  "start_time_based_flusher spawned ms mm = mm\<lparr>i_flusher := flusher_new ms spawned\<rparr>"

definition flusher_callback :: "env \<Rightarrow> sys \<Rightarrow> (bool \<times> sys) option" where
  "flusher_callback env s =
     (if i_written (s_mm s) = 0 then Some (False, s)
      else map_option (\<lambda>(r, s'). (is_ok r, s')) (mmap_flush env s))"

text \<open>The reads of an eager touch; its failure is only logged.\<close>

definition eager_touch :: "env \<Rightarrow> touch_hint \<Rightarrow> sys \<Rightarrow> mem_access list" where
  "eager_touch env hint s =
     (if hint = Hint_Eager
      then (case touch_pages env s of Some (Inr acc, _) \<Rightarrow> acc | _ \<Rightarrow> [])
      else [])"

definition finish_rw :: "env \<Rightarrow> bool \<Rightarrow> builder \<Rightarrow> fid \<Rightarrow> u64 \<Rightarrow> (inner \<times> mem_access list) open_io" where
  "finish_rw env spawned b f len =
     bind_se (lift_se (ok_or (file_too_large len) (word_try_from len))) (\<lambda>map_len.
       let huge = builder_huge_pages env b
       in bind_se (io_try (map_file_rw env f map_len huge)) (\<lambda>m w.
            let mm = inner_new (b_path b) f ReadWrite len (Rw m) (b_policy b) huge;
                mm' = (case b_policy b of EveryMillis ms \<Rightarrow> start_time_based_flusher spawned ms mm | _ \<Rightarrow> mm)
            in (Inr (mm', eager_touch env (b_touch b) \<lparr>s_mm = mm', s_world = w\<rparr>), w)))"

definition open_existing :: "env \<Rightarrow> bool \<Rightarrow> builder \<Rightarrow> mmap_mode \<Rightarrow> (inner \<times> mem_access list) open_io" where
  "open_existing env spawned b mode =
     (case mode of
        ReadOnly \<Rightarrow>
          bind_se (io_try (fs_open env (b_path b) opts_ro)) (\<lambda>f.
          bind_se (io_try (fs_metadata_len env f)) (\<lambda>len.
          bind_se (io_try (rawmmap_map env f)) (\<lambda>m.
            return_se (inner_new (b_path b) f mode len (Ro m) Never False, []))))
      | ReadWrite \<Rightarrow>
          bind_se (io_try (fs_open env (b_path b) opts_rw)) (\<lambda>f.
          bind_se (io_try (fs_metadata_len env f)) (\<lambda>len.
            if len = 0 then fail_se (ResizeFailed ERR_ZERO_LENGTH_FILE)
            else finish_rw env spawned b f len))
      | CopyOnWrite \<Rightarrow>
          if e_cow env
          then bind_se (io_try (fs_open env (b_path b) opts_ro)) (\<lambda>f.
                 bind_se (cow_inner env (b_path b) f (b_cow_writable b)) (\<lambda>mm. return_se (mm, [])))
          else fail_se (InvalidMode ''CopyOnWrite mode requires 'cow' feature''))"

definition builder_create :: "env \<Rightarrow> bool \<Rightarrow> builder \<Rightarrow> (inner \<times> mem_access list) open_io" where
  "builder_create env spawned b =
     (let mode = (case b_mode b of Some m \<Rightarrow> m | None \<Rightarrow> ReadWrite)
      in if mode = ReadWrite
         then bind_se (lift_se (validated_create_size (b_size b))) (\<lambda>req.
              bind_se (io_try (fs_open env (b_path b) opts_truncate)) (\<lambda>f.
              bind_se (io_try (fs_set_len env f req)) (\<lambda>_.
                finish_rw env spawned b f req)))
         else open_existing env spawned b mode)"

definition builder_create_new :: "env \<Rightarrow> bool \<Rightarrow> builder \<Rightarrow> (inner \<times> mem_access list) open_io" where
  "builder_create_new env spawned b =
     (let mode = (case b_mode b of Some m \<Rightarrow> m | None \<Rightarrow> ReadWrite)
      in if mode \<noteq> ReadWrite
         then fail_se (InvalidMode ''create_new creates a new ReadWrite mapping; open existing files with open()'')
         else bind_se (lift_se (validated_create_size (b_size b))) (\<lambda>req.
              bind_se (io_try (fs_open env (b_path b) opts_create_new)) (\<lambda>f w1.
                case bind_se (io_try (fs_set_len env f req)) (\<lambda>_. finish_rw env spawned b f req) w1 of
                  (Inr r, w2) \<Rightarrow> (Inr r, w2)
                | (Inl e, w2) \<Rightarrow> (Inl e, snd (fs_remove_file env (b_path b) w2)))))"

definition builder_open :: "env \<Rightarrow> bool \<Rightarrow> builder \<Rightarrow> (inner \<times> mem_access list) open_io" where
  "builder_open env spawned b =
     open_existing env spawned b (case b_mode b of Some m \<Rightarrow> m | None \<Rightarrow> ReadOnly)"

text \<open>The loop of \<open>open_or_create_rw_file\<close>, over the passes that are left.\<close>

fun open_or_create_loop :: "nat \<Rightarrow> env \<Rightarrow> path \<Rightarrow> u64 option \<Rightarrow> (fid \<times> u64) open_io" where
  "open_or_create_loop 0 env pth req =
     fail_se (Io (io_other ''file was concurrently created and removed''))"
| "open_or_create_loop (Suc n) env pth req = (\<lambda>w.
     case fs_open env pth opts_rw w of
       (Inr f, w1) \<Rightarrow>
         bind_se (io_try (fs_metadata_len env f)) (\<lambda>len.
           if len > 0 then return_se (f, len)
           else bind_se (lift_se (validated_create_size req)) (\<lambda>sz.
                bind_se (io_try (fs_set_len env f sz)) (\<lambda>_. return_se (f, sz)))) w1
     | (Inl e, w1) \<Rightarrow>
         if io_kind e = NotFound
         then bind_se (lift_se (validated_create_size req)) (\<lambda>sz w2.
                case fs_open env pth opts_create_new w2 of
                  (Inr f, w3) \<Rightarrow> bind_se (io_try (fs_set_len env f sz)) (\<lambda>_. return_se (f, sz)) w3
                | (Inl e', w3) \<Rightarrow>
                    if io_kind e' = AlreadyExists then open_or_create_loop n env pth req w3
                    else (Inl (from_io_error e'), w3)) w1
         else (Inl (from_io_error e), w1))"

definition open_or_create_rw_file :: "env \<Rightarrow> path \<Rightarrow> u64 option \<Rightarrow> (fid \<times> u64) open_io" where
  "open_or_create_rw_file env pth req = open_or_create_loop 2 env pth req"

definition builder_open_or_create :: "env \<Rightarrow> bool \<Rightarrow> builder \<Rightarrow> (inner \<times> mem_access list) open_io" where
  "builder_open_or_create env spawned b =
     (let mode = (case b_mode b of Some m \<Rightarrow> m | None \<Rightarrow> ReadWrite)
      in if mode \<noteq> ReadWrite then open_existing env spawned b mode
         else bind_se (open_or_create_rw_file env (b_path b) (b_size b)) (\<lambda>(f, len).
                finish_rw env spawned b f len))"

definition open_or_create :: "env \<Rightarrow> bool \<Rightarrow> path \<Rightarrow> u64 \<Rightarrow> (inner \<times> mem_access list) open_io" where
  "open_or_create env spawned pth req =
     builder_open_or_create env spawned (builder_size req (builder_mode ReadWrite (builder_new pth)))"

end
