(* ===== verification/Mmap_Open_Props.thy ===== *)
theory Mmap_Open_Props
  imports Mmap_Open
begin

text \<open>
  What the constructors establish and what they leave behind when they fail.
\<close>

section \<open>File system facts\<close>

lemma io_try_Inr [simp]: "io_try m w = (Inr x, w') \<longleftrightarrow> m w = (Inr x, w')"
  by (simp add: io_try_def)

lemma io_try_Inl: "io_try m w = (Inl e, w') \<longleftrightarrow> (\<exists>e'. m w = (Inl e', w') \<and> e = Io e')"
  by (simp add: io_try_def map_err_se_Inl from_io_error_def)

lemma world_ok_same: "same_files w w' \<Longrightarrow> world_ok w' = world_ok w"
  by (simp add: same_files_def world_ok_def)

lemma world_ok_set_len: "fs_set_len env f n w = (r, w') \<Longrightarrow> world_ok w \<Longrightarrow> unat n < 2 ^ 63 \<Longrightarrow> world_ok w'"
  by (cases r) (auto simp: fs_set_len_Inl fs_set_len_Inr world_ok_def)

lemma fs_open_plain:
  assumes "fs_open env pth opts w = (r, w')" "\<not> o_create opts" "\<not> o_truncate opts" "\<not> o_create_new opts"
  shows "same_files w w'" "r = Inr f \<Longrightarrow> w_dir w pth = Some f"
  using assms
  by (auto simp: fs_open_def bind_se_def os_call_def same_files_def split: sum.splits option.splits prod.splits)

lemma fs_open_exclusive:
  assumes "fs_open env pth opts w = (r, w')" "o_create_new opts"
  shows "r = Inl e \<Longrightarrow> same_files w w'"
    and "r = Inr f \<Longrightarrow> w_dir w pth = None \<and> f = w_next w \<and> w_dir w' = (w_dir w)(pth \<mapsto> f)
      \<and> w_data w' = (w_data w)(f := []) \<and> w_next w' = Suc f"
  using assms
  by (auto simp: fs_open_def bind_se_def os_call_def same_files_def create_file_def
      split: sum.splits option.splits prod.splits)

lemma fs_open_truncating:
  assumes "fs_open env pth opts w = (r, w')" "o_create opts" "o_truncate opts" "\<not> o_create_new opts"
  shows "r = Inl e \<Longrightarrow> same_files w w'"
    and "r = Inr f \<Longrightarrow> w_dir w' pth = Some f \<and> w_data w' = (w_data w)(f := [])
      \<and> w_dir w' = (w_dir w)(pth \<mapsto> f)
      \<and> (if path_exists w pth then w_dir w pth = Some f \<and> w_next w' = w_next w
         else f = w_next w \<and> w_next w' = Suc f)"
  using assms
  by (auto simp: fs_open_def bind_se_def os_call_def same_files_def create_file_def path_exists_def
      split: sum.splits option.splits prod.splits if_splits)

lemma fs_metadata_quiet: "fs_metadata_len env f w = (r, w') \<Longrightarrow> same_files w w'"
  by (cases r) (auto simp: fs_metadata_len_Inl fs_metadata_len_Inr same_files_def)

lemma opts_simps [simp]:
  "\<not> o_create opts_ro" "\<not> o_truncate opts_ro" "\<not> o_create_new opts_ro"
  "\<not> o_create opts_rw" "\<not> o_truncate opts_rw" "\<not> o_create_new opts_rw"
  "o_create opts_truncate" "o_truncate opts_truncate" "\<not> o_create_new opts_truncate"
  "o_create_new opts_create_new"
  by (simp_all add: opts_ro_def opts_rw_def opts_truncate_def opts_create_new_def)

lemma world_ok_open:
  assumes "fs_open env pth opts w = (r, w')" "world_ok w"
    and "opts \<in> {opts_ro, opts_rw, opts_truncate, opts_create_new}"
  shows "world_ok w'"
  using assms
  by (auto simp: fs_open_def bind_se_def os_call_def world_ok_def create_file_def less_Suc_eq
      split: sum.splits option.splits prod.splits if_splits)

section \<open>New mappings\<close>

text \<open>What every constructor promises of the mapping it returns: the invariant, a free lock, no live
  atomic view, nothing pending, and that it shows the whole file.\<close>

definition opened_ok :: "sys \<Rightarrow> bool" where
  "opened_ok s \<longleftrightarrow> sys_ok s \<and> write_free s \<and> atomics_fit s \<and> policy_kept s \<and> pending_bytes s = 0
     \<and> s_bytes s = s_file_bytes s \<and> world_ok (s_world s)"

definition establishes :: "('a \<Rightarrow> inner) \<Rightarrow> 'a open_io \<Rightarrow> bool" where
  "establishes inn c \<longleftrightarrow>
     (\<forall>w r w'. world_ok w \<and> c w = (Inr r, w') \<longrightarrow> opened_ok \<lparr>s_mm = inn r, s_world = w'\<rparr>)"

lemma whole_map:
  assumes "map_impl env ro f acc w = (Inr m, w')" "world_ok w"
    and "ro = options_new \<or> ro = options_len (file_len w f) options_new"
  shows "mapping_ok w' m" "m_len m = file_len w f" "m_kind m = access_kind acc"
    "mapping_bytes w' m = w_data w' f" "same_files w w'" "world_ok w'"
    "m_len m \<noteq> 0 \<Longrightarrow> acc \<noteq> Access_Copy \<Longrightarrow> m_mem m = Window f 0"
proof -
  have l: "length (w_data w f) < 2 ^ 63" using assms(2) by (simp add: world_ok_def)
  note M = map_impl_ok [OF assms(1) l]
  show sf: "same_files w w'" using map_impl_data [OF assms(1)] by (simp add: same_files_def)
  then show "world_ok w'" using world_ok_same assms(2) by blast
  show "mapping_ok w' m" "m_kind m = access_kind acc" by (rule M(1), rule M(2))
  have n: "unat (m_len m) = length (w_data w f)" and o0: "ro_offset ro = 0"
    using M(3) assms(3) l by (auto simp: window_len_def options_len_def options_new_def unat_file_len)
  then show "m_len m = file_len w f" by (simp add: word_unat_eq_iff unat_file_len [OF l])
  show "mapping_bytes w' m = w_data w' f" using M(5) n o0 sf by (simp add: same_files_def)
  show "m_len m \<noteq> 0 \<Longrightarrow> acc \<noteq> Access_Copy \<Longrightarrow> m_mem m = Window f 0"
    using M(6) o0 by (simp add: access_mem_def)
qed

lemma inner_new_ok:
  assumes "world_ok w" "mapping_ok w m" "m_len m = len" "mapping_bytes w m = w_data w f" "variant_mapping v = m"
    and "case v of Ro _ \<Rightarrow> mode \<in> {ReadOnly, CopyOnWrite}
      | Rw _ \<Rightarrow> mode = ReadWrite \<and> m_kind m = Kind_Write \<and> len \<noteq> 0 \<and> m_mem m = Window f 0
      | Cow _ \<Rightarrow> mode = CopyOnWrite \<and> is_private (m_kind m)"
  shows "opened_ok \<lparr>s_mm = (inner_new pth f mode len v pol huge)\<lparr>i_flusher := fl\<rparr>, s_world = w\<rparr>"
proof -
  let ?s = "\<lparr>s_mm = (inner_new pth f mode len v pol huge)\<lparr>i_flusher := fl\<rparr>, s_world = w\<rparr>"
  have "unat (m_len m) = length (w_data w f)"
    using length_mapping_bytes [OF assms(2)] assms(4) by simp
  then have "variant_ok ?s" using assms(5,6) by (auto simp: variant_ok_def inner_new_def assms(3) split: map_variant.splits)
  then have "sys_ok ?s"
    using assms registry_ok_new by (simp add: sys_ok_def inner_new_def world_ok_def)
  moreover have "policy_kept ?s"
    by (simp add: policy_kept_def inner_new_def unat_gt_0 split: flush_policy.splits)
  ultimately show ?thesis
    using assms
    by (simp add: opened_ok_def write_free_def atomics_fit_def registry_new_def atomic_empty_def pending_bytes_def
        inner_new_def)
qed

lemma inner_new_ok_plain:
  assumes "world_ok w" "mapping_ok w m" "m_len m = len" "mapping_bytes w m = w_data w f" "variant_mapping v = m"
    and "case v of Ro _ \<Rightarrow> mode \<in> {ReadOnly, CopyOnWrite}
      | Rw _ \<Rightarrow> mode = ReadWrite \<and> m_kind m = Kind_Write \<and> len \<noteq> 0 \<and> m_mem m = Window f 0
      | Cow _ \<Rightarrow> mode = CopyOnWrite \<and> is_private (m_kind m)"
  shows "opened_ok \<lparr>s_mm = inner_new pth f mode len v pol huge, s_world = w\<rparr>"
proof -
  have "inner_new pth f mode len v pol huge = (inner_new pth f mode len v pol huge)\<lparr>i_flusher := None\<rparr>"
    by (simp add: inner_new_def)
  then show ?thesis using inner_new_ok [OF assms] by metis
qed

section \<open>Every constructor establishes the invariant\<close>

lemma try_from_u64 [simp]: "word_try_from (x :: u64) = Some (x :: usize)"
  by (simp add: word_try_from_def)

lemma establishesI:
  assumes "\<And>w r w'. world_ok w \<Longrightarrow> c w = (Inr r, w') \<Longrightarrow> opened_ok \<lparr>s_mm = inn r, s_world = w'\<rparr>"
  shows "establishes inn c"
  using assms unfolding establishes_def by blast

text \<open>The four shapes of mapping a whole file: read-only, read-write, and the two copy-on-write kinds.\<close>

lemma opened_ro:
  assumes "world_ok w" "rawmmap_map env f w = (Inr m, w')" "mode \<in> {ReadOnly, CopyOnWrite}"
  shows "opened_ok \<lparr>s_mm = inner_new pth f mode (file_len w f) (Ro m) pol huge, s_world = w'\<rparr>"
proof -
  have "map_impl env options_new f Access_Read w = (Inr m, w')"
    using assms(2) by (simp add: rawmmap_map_def raw_map_def)
  from whole_map [OF this assms(1)] assms(3) show ?thesis by (intro inner_new_ok_plain) simp_all
qed

lemma opened_rw:
  assumes "world_ok w" "rawmmapmut_map_mut env f w = (Inr m, w')" "file_len w f \<noteq> 0"
  shows "opened_ok \<lparr>s_mm = inner_new pth f ReadWrite (file_len w f) (Rw m) pol huge, s_world = w'\<rparr>"
proof -
  have "map_impl env options_new f Access_Write w = (Inr m, w')"
    using assms(2) by (simp add: rawmmapmut_map_mut_def raw_map_mut_def)
  from whole_map [OF this assms(1)] assms(3) show ?thesis by (intro inner_new_ok_plain) simp_all
qed

lemma opened_cow:
  assumes "world_ok w" "cow_inner env pth f c w = (Inr mm, w')"
  shows "opened_ok \<lparr>s_mm = mm, s_world = w'\<rparr>"
proof -
  from assms(2) obtain w1 where w1: "w1 = w\<lparr>w_trace := w_trace w @ [Fs_metadata f]\<rparr>"
    and ne: "file_len w f \<noteq> 0"
    and rest: "bind_se (if c
                     then bind_se (io_try (raw_map_copy env (options_len (file_len w f) options_new) f)) (\<lambda>m. return_se (Cow m))
                     else bind_se (io_try (raw_map env (options_len (file_len w f) options_new) f)) (\<lambda>m. return_se (Ro m)))
              (\<lambda>v. return_se (inner_new pth f CopyOnWrite (file_len w f) v Never False)) w1 = (Inr mm, w')"
    by (auto simp: cow_inner_def bind_se_Inr fs_metadata_len_Inr Let_def split: if_splits)
  have fl: "file_len w1 f = file_len w f" and ok: "world_ok w1"
    using assms(1) by (simp_all add: w1 file_len_def world_ok_def)
  from rest obtain m acc v where
    m: "map_impl env (options_len (file_len w1 f) options_new) f acc w1 = (Inr m, w')"
    and v: "v = (if c then Cow m else Ro m)" "acc = (if c then Access_Copy else Access_Read)"
    and mm: "mm = inner_new pth f CopyOnWrite (file_len w f) v Never False"
    by (auto simp: bind_se_Inr raw_map_def raw_map_copy_def fl split: if_splits)
  from whole_map [OF m ok] show ?thesis
    unfolding mm fl v by (cases c; intro inner_new_ok_plain [where m = m]) simp_all
qed

lemma opened_finish:
  assumes "world_ok w" "finish_rw env sp b f len w = (Inr (mm, acc), w')" "len = file_len w f" "len \<noteq> 0"
  shows "opened_ok \<lparr>s_mm = mm, s_world = w'\<rparr>" "same_files w w'"
    "i_map mm = Rw (variant_mapping (i_map mm))" "i_file mm = f" "i_policy mm = b_policy b"
    "i_flusher mm = (case b_policy b of EveryMillis ms \<Rightarrow> flusher_new ms sp | _ \<Rightarrow> None)"
proof -
  let ?huge = "builder_huge_pages env b"
  from assms(2) obtain m where m: "map_file_rw env f len ?huge w = (Inr m, w')"
    and mm: "mm = (inner_new (b_path b) f ReadWrite len (Rw m) (b_policy b) ?huge)
        \<lparr>i_flusher := (case b_policy b of EveryMillis ms \<Rightarrow> flusher_new ms sp | _ \<Rightarrow> None)\<rparr>"
    by (cases "b_policy b")
      (auto simp: finish_rw_def bind_se_Inr Let_def start_time_based_flusher_def inner_new_def)
  have l: "length (w_data w f) < 2 ^ 63" using assms(1) by (simp add: world_ok_def)
  note M = map_file_rw_ok [OF m l assms(4)]
  show sf: "same_files w w'" by (rule map_file_rw_files [OF m])
  have ok: "world_ok w'" using world_ok_same [OF sf] assms(1) by simp
  have "mapping_bytes w' m = w_data w' f"
    using M(2,4) sf by (simp add: mapping_bytes_def assms(3) unat_file_len [OF l] same_files_def)
  then show "opened_ok \<lparr>s_mm = mm, s_world = w'\<rparr>"
    unfolding mm using M assms(4) ok by (intro inner_new_ok) simp_all
  show "i_map mm = Rw (variant_mapping (i_map mm))" "i_file mm = f" "i_policy mm = b_policy b"
    "i_flusher mm = (case b_policy b of EveryMillis ms \<Rightarrow> flusher_new ms sp | _ \<Rightarrow> None)"
    by (simp_all add: mm inner_new_def)
qed

lemma world_ok_metadata: "fs_metadata_len env f w = (Inr n, w') \<Longrightarrow> world_ok w \<Longrightarrow> world_ok w' \<and> n = file_len w' f"
  by (auto simp: fs_metadata_len_Inr world_ok_def file_len_def)

lemma world_ok_create:
  assumes "world_ok w" "fs_open env pth opts w = (Inr f, w1)" "opts \<in> {opts_truncate, opts_create_new}"
    and "fs_set_len env f n w1 = (Inr u, w2)" "n \<noteq> 0" "\<not> n > MAX_MMAP_SIZE"
  shows "world_ok w2" "file_len w2 f = n"
proof -
  have ok: "world_ok w1" using world_ok_open [OF assms(2,1)] assms(3) by auto
  show "world_ok w2" using world_ok_set_len [OF assms(4) ok] MAX_MMAP_SIZE_bound [OF assms(6)] by simp
  show "file_len w2 f = n" using assms(4) by (simp add: fs_set_len_Inr file_len_def)
qed

lemma validated_create_size_Inr:
  "validated_create_size req = Inr n \<longleftrightarrow> req = Some n \<and> n \<noteq> 0 \<and> \<not> n > MAX_MMAP_SIZE"
  by (auto simp: validated_create_size_def result_bind_Inr ok_or_Inr split: if_splits)

lemma establishes_direct:
  "establishes id (open_ro env pth)" "establishes id (open_rw env pth)"
  "establishes id (open_cow env pth)" "establishes id (open_cow_writable env pth)"
  "establishes id (from_file env f mode pth)"
proof -
  show "establishes id (open_ro env pth)"
    by (rule establishesI)
      (auto simp: open_ro_def bind_se_Inr dest!: world_ok_open world_ok_metadata intro: opened_ro)
  show "establishes id (open_rw env pth)"
    by (rule establishesI)
      (auto simp: open_rw_def bind_se_Inr dest!: world_ok_open world_ok_metadata intro: opened_rw split: if_splits)
  show "establishes id (open_cow env pth)" "establishes id (open_cow_writable env pth)"
    by (rule establishesI,
        auto simp: open_cow_def open_cow_writable_def bind_se_Inr dest!: world_ok_open intro: opened_cow)+
  show "establishes id (from_file env f mode pth)"
    by (rule establishesI, cases mode)
      (auto simp: from_file_def bind_se_Inr dest!: world_ok_metadata intro: opened_ro opened_rw opened_cow
        split: if_splits)
qed

lemma create_rw_created:
  assumes "create_rw env pth n w = (Inr mm, w')"
  obtains f w1 w2 m where "fs_open env pth opts_truncate w = (Inr f, w1)" "fs_set_len env f n w1 = (Inr (), w2)"
    "rawmmapmut_map_mut env f w2 = (Inr m, w')" "mm = inner_new pth f ReadWrite n (Rw m) Never False"
    "n \<noteq> 0" "\<not> n > MAX_MMAP_SIZE"
proof -
  have n: "n \<noteq> 0" "\<not> n > MAX_MMAP_SIZE" using assms by (auto simp: create_rw_def split: if_splits)
  from assms n obtain f w1 where o: "fs_open env pth opts_truncate w = (Inr f, w1)"
    and rest: "(case fs_set_len env f n w1 of
        (Inl e, w2) \<Rightarrow> (Inl (from_io_error e), create_undo env (path_exists w pth) pth f w2)
      | (Inr _, w2) \<Rightarrow>
          (case rawmmapmut_map_mut env f w2 of
             (Inl e, w3) \<Rightarrow> (Inl (from_io_error e), create_undo env (path_exists w pth) pth f w3)
           | (Inr m, w3) \<Rightarrow> (Inr (inner_new pth f ReadWrite n (Rw m) Never False), w3))) = (Inr mm, w')"
    by (auto simp: create_rw_def Let_def bind_se_Inr)
  from rest that [OF o] n show thesis by (auto split: sum.split_asm prod.split_asm)
qed

lemma establishes_create_rw: "establishes id (create_rw env pth n)"
proof (rule establishesI)
  fix w r w' assume w: "world_ok w" and "create_rw env pth n w = (Inr r, w')"
  then obtain f w1 w2 m where o: "fs_open env pth opts_truncate w = (Inr f, w1)" and sl: "fs_set_len env f n w1 = (Inr (), w2)"
    and m: "rawmmapmut_map_mut env f w2 = (Inr m, w')" and r: "r = inner_new pth f ReadWrite n (Rw m) Never False"
    and n: "n \<noteq> 0" "\<not> n > MAX_MMAP_SIZE"
    by (blast elim: create_rw_created)
  note W = world_ok_create [OF w o _ sl n]
  show "opened_ok \<lparr>s_mm = id r, s_world = w'\<rparr>"
    using opened_rw [OF W(1) m] W(2) n by (simp add: r)
qed

lemma establishes_open_existing: "establishes fst (open_existing env sp b mode)"
  by (rule establishesI, cases mode)
    (auto simp: open_existing_def bind_se_Inr dest!: world_ok_open world_ok_metadata
      intro: opened_ro opened_cow opened_finish(1) split: if_splits)

lemma establishes_builder_create: "establishes fst (builder_create env sp b)"
proof (rule establishesI)
  fix w r w' assume w: "world_ok w" and c: "builder_create env sp b w = (Inr r, w')"
  let ?mode = "case b_mode b of Some m \<Rightarrow> m | None \<Rightarrow> ReadWrite"
  show "opened_ok \<lparr>s_mm = fst r, s_world = w'\<rparr>"
  proof (cases "?mode = ReadWrite")
    case False
    with c have "open_existing env sp b ?mode w = (Inr r, w')" by (simp add: builder_create_def Let_def)
    with establishes_open_existing [of env sp b ?mode] w show ?thesis unfolding establishes_def by blast
  next
    case True
    with c obtain n f w1 w2 where n: "n \<noteq> 0" "\<not> n > MAX_MMAP_SIZE"
      and o: "fs_open env (b_path b) opts_truncate w = (Inr f, w1)" "fs_set_len env f n w1 = (Inr (), w2)"
      and fin: "finish_rw env sp b f n w2 = (Inr r, w')"
      by (auto simp: builder_create_def Let_def bind_se_Inr validated_create_size_Inr)
    note W = world_ok_create [OF w o(1) _ o(2) n]
    obtain mm acc where r: "r = (mm, acc)" by (cases r)
    show ?thesis using opened_finish(1) [OF W(1) fin [unfolded r]] W(2) n(1) by (simp add: r)
  qed
qed

text \<open>What \<open>create_new\<close> did when it returned: created a new file, or failed and tried to remove it.\<close>

lemma create_new_cases:
  assumes "builder_create_new env sp b w = (r, w')"
  obtains (refused) e where "r = Inl e" "same_files w w'"
  | (created) f w1 n w2 mm acc where "fs_open env (b_path b) opts_create_new w = (Inr f, w1)"
      "fs_set_len env f n w1 = (Inr (), w2)" "finish_rw env sp b f n w2 = (Inr (mm, acc), w')" "r = Inr (mm, acc)"
      "b_size b = Some n" "n \<noteq> 0" "\<not> n > MAX_MMAP_SIZE"
  | (undone) f w1 n w2 e where "fs_open env (b_path b) opts_create_new w = (Inr f, w1)" "r = Inl e"
      "bind_se (io_try (fs_set_len env f n)) (\<lambda>_. finish_rw env sp b f n) w1 = (Inl e, w2)"
      "w' = snd (fs_remove_file env (b_path b) w2)"
proof -
  let ?mode = "case b_mode b of Some m \<Rightarrow> m | None \<Rightarrow> ReadWrite"
  show thesis
  proof (cases "?mode = ReadWrite \<and> (\<exists>n. validated_create_size (b_size b) = Inr n)")
    case False
    then obtain e where "r = Inl e" "w' = w"
      using assms by (cases "validated_create_size (b_size b)")
        (auto simp: builder_create_new_def Let_def bind_se_def split: if_splits)
    then show thesis using refused by simp
  next
    case True
    then obtain n where n: "?mode = ReadWrite" "validated_create_size (b_size b) = Inr n" by blast
    obtain ro w1 where o: "fs_open env (b_path b) opts_create_new w = (ro, w1)"
      by (cases "fs_open env (b_path b) opts_create_new w")
    show thesis
    proof (cases ro)
      case (Inl e)
      with assms n o have "r = Inl (Io e)" "w' = w1"
        by (auto simp: builder_create_new_def Let_def bind_se_def io_try_def map_err_se_def from_io_error_def)
      with refused fs_open_exclusive(1) [OF o _ Inl] show thesis by simp
    next
      case (Inr f)
      obtain rf w2 where fin: "bind_se (io_try (fs_set_len env f n)) (\<lambda>_. finish_rw env sp b f n) w1 = (rf, w2)"
        by (cases "bind_se (io_try (fs_set_len env f n)) (\<lambda>_. finish_rw env sp b f n) w1")
      have o': "io_try (fs_open env (b_path b) opts_create_new) w = (Inr f, w1)" using o Inr by simp
      have res: "(r, w') = (case rf of Inr x \<Rightarrow> (Inr x, w2) | Inl e \<Rightarrow> (Inl e, snd (fs_remove_file env (b_path b) w2)))"
        using assms n o' fin by (auto simp: builder_create_new_def Let_def split: sum.splits)
      show thesis
      proof (cases rf)
        case inl: (Inl e)
        with undone [of f w1 e n w2] o Inr fin res show thesis by simp
      next
        case inr: (Inr x)
        obtain mm acc where x: "x = (mm, acc)" by (cases x)
        from fin inr x obtain w1' where "fs_set_len env f n w1 = (Inr (), w1')" "finish_rw env sp b f n w1' = (Inr (mm, acc), w2)"
          by (auto simp: bind_se_Inr)
        with created [of f w1 n w1' mm acc] o Inr inr res n x show thesis by (auto simp: validated_create_size_Inr)
      qed
    qed
  qed
qed

lemma finish_rw_quiet: "finish_rw env sp b f n w = (r, w') \<Longrightarrow> same_files w w'"
  using map_file_rw_files [of env f n "builder_huge_pages env b" w]
  by (auto simp: finish_rw_def bind_se_def io_try_def map_err_se_def Let_def split: sum.splits prod.splits)

lemma establishes_create_new: "establishes fst (builder_create_new env sp b)"
proof (rule establishesI)
  fix w r w' assume w: "world_ok w" and c: "builder_create_new env sp b w = (Inr r, w')"
  from c show "opened_ok \<lparr>s_mm = fst r, s_world = w'\<rparr>"
  proof (cases rule: create_new_cases)
    case (created f w1 n w2 mm acc)
    note W = world_ok_create [OF w created(1) _ created(2,6,7)]
    show ?thesis using opened_finish(1) [OF W(1) created(3)] W(2) created(4,6) by simp
  qed simp_all
qed

text \<open>What a pass of \<open>open_or_create_rw_file\<close> did when it returned a file.\<close>

definition grown_only :: "world \<Rightarrow> world \<Rightarrow> bool" where
  "grown_only w w' \<longleftrightarrow>
     (\<forall>f. w_data w f \<noteq> [] \<and> f < w_next w \<longrightarrow> w_data w' f = w_data w f) \<and> w_next w \<le> w_next w'
     \<and> (\<forall>p f. w_dir w p = Some f \<longrightarrow> w_dir w' p = Some f)"

lemma grown_only_same: "same_files w w' \<Longrightarrow> grown_only w w'"
  by (simp add: grown_only_def same_files_def)

lemma grown_only_trans: "grown_only w w' \<Longrightarrow> grown_only w' w'' \<Longrightarrow> grown_only w w''"
  by (force simp: grown_only_def)

lemma grown_only_extend:
  assumes "fs_set_len env f n w = (r, w')" "w_data w f = [] \<or> w_next w \<le> f"
  shows "grown_only w w'"
  using assms by (cases r) (auto simp: grown_only_def fs_set_len_Inl fs_set_len_Inr)

lemma grown_only_create:
  assumes "fs_open env pth opts_create_new w = (r, w')"
  shows "grown_only w w'"
  using fs_open_exclusive [OF assms] by (cases r) (auto simp: grown_only_def same_files_def)

lemma set_len_new_file:
  assumes "fs_set_len env f n w = (Inr (), w')" "w_data w f = []" "unat n < 2 ^ 63" "world_ok w"
  shows "w_data w' f = replicate (unat n) 0" "world_ok w'" "w_dir w' = w_dir w" "file_len w' f = n"
  using assms by (auto simp: fs_set_len_Inr resize_bytes_def world_ok_def file_len_def)

text \<open>The result of a successful \<open>open_or_create_rw_file\<close>.\<close>

definition opened_or_created :: "path \<Rightarrow> u64 option \<Rightarrow> world \<Rightarrow> fid \<Rightarrow> u64 \<Rightarrow> world \<Rightarrow> bool" where
  "opened_or_created pth req w f len w' \<longleftrightarrow>
     w_dir w' pth = Some f \<and> len \<noteq> 0 \<and> len = file_len w' f \<and> world_ok w' \<and> grown_only w w'
     \<and> (w_data w' f = w_data w f \<and> w_dir w pth = Some f
        \<or> validated_create_size req = Inr len \<and> w_data w' f = replicate (unat len) 0
          \<and> (w_dir w pth = None \<or> w_dir w pth = Some f \<and> w_data w f = []))"

lemma open_or_create_extend:
  assumes "bind_se (lift_se (validated_create_size req)) (\<lambda>sz.
      bind_se (io_try (fs_set_len env f sz)) (\<lambda>_. return_se (f, sz))) w = (Inr (g, len), w')"
    and "world_ok w" "w_data w f = []" "w_dir w pth = Some f"
  shows "g = f" "w_dir w' pth = Some f" "len \<noteq> 0" "len = file_len w' f" "world_ok w'" "grown_only w w'"
    "validated_create_size req = Inr len" "w_data w' f = replicate (unat len) 0"
proof -
  from assms(1) have v: "validated_create_size req = Inr len" and g: "g = f"
    and sl: "fs_set_len env f len w = (Inr (), w')"
    by (auto simp: bind_se_Inr)
  have n: "len \<noteq> 0" "unat len < 2 ^ 63" using v MAX_MMAP_SIZE_bound by (auto simp: validated_create_size_Inr)
  note S = set_len_new_file [OF sl assms(3) n(2) assms(2)]
  show "g = f" "validated_create_size req = Inr len" "len \<noteq> 0" by (fact g v n(1))+
  show "w_dir w' pth = Some f" "len = file_len w' f" "world_ok w'" "w_data w' f = replicate (unat len) 0"
    using S assms(4) by simp_all
  show "grown_only w w'" using grown_only_extend [OF sl] assms(3) by simp
qed

lemma extend_grown:
  assumes "bind_se (lift_se v) (\<lambda>sz. bind_se (io_try (fs_set_len env f sz)) (\<lambda>_. return_se (f, sz))) w = (r, w')"
    and "w_data w f = []"
  shows "grown_only w w'"
proof (cases v)
  case (Inl e)
  with assms(1) show ?thesis by (simp add: bind_se_def grown_only_same)
next
  case (Inr sz)
  obtain r1 w1 where "fs_set_len env f sz w = (r1, w1)" by (cases "fs_set_len env f sz w")
  with assms Inr grown_only_extend [OF this] show ?thesis
    by (auto simp: bind_se_def io_try_def map_err_se_def map_err_def split: sum.splits)
qed

lemma set_len_bind_grown:
  assumes "bind_se (io_try (fs_set_len env f sz)) (\<lambda>_. return_se (f, sz)) w = (r, w')" "w_data w f = []"
  shows "grown_only w w'"
  using extend_grown [of "Inr sz"] assms by simp

lemma opened_or_created_same:
  assumes "same_files w0 w" "opened_or_created pth req w f len w'"
  shows "opened_or_created pth req w0 f len w'"
  using assms grown_only_trans [OF grown_only_same [OF assms(1)]]
  unfolding opened_or_created_def same_files_def by (elim conjE) simp

lemma open_existing_pass:
  assumes "bind_se (io_try (fs_metadata_len env f)) (\<lambda>len.
           if len > 0 then return_se (f, len)
           else bind_se (lift_se (validated_create_size req)) (\<lambda>sz.
                bind_se (io_try (fs_set_len env f sz)) (\<lambda>_. return_se (f, sz)))) w = (r, w')"
    and "world_ok w" "w_dir w pth = Some f"
  shows "grown_only w w' \<and> (\<forall>g len. r = Inr (g, len) \<longrightarrow> opened_or_created pth req w g len w')"
proof -
  obtain rm w1 where m: "fs_metadata_len env f w = (rm, w1)" by (cases "fs_metadata_len env f w")
  have sf: "same_files w w1" by (rule fs_metadata_quiet [OF m])
  show ?thesis
  proof (cases rm)
    case (Inl e)
    with m assms(1) have "r = Inl (Io e)" "w' = w1" by (auto simp: bind_se_def io_try_def map_err_se_def from_io_error_def)
    with sf show ?thesis by (simp add: grown_only_same)
  next
    case (Inr n)
    have n: "n = file_len w1 f" and ok: "world_ok w1" using world_ok_metadata m Inr assms(2) by auto
    have dir: "w_dir w1 pth = Some f" using sf assms(3) by (simp add: same_files_def)
    from assms(1) m Inr have rest: "(if n > 0 then return_se (f, n)
           else bind_se (lift_se (validated_create_size req)) (\<lambda>sz.
                bind_se (io_try (fs_set_len env f sz)) (\<lambda>_. return_se (f, sz)))) w1 = (r, w')"
      by (simp add: bind_se_def io_try_def map_err_se_def)
    show ?thesis
    proof (cases "n > 0")
      case True
      with rest have "r = Inr (f, n)" "w' = w1" by auto
      with True n ok dir sf assms(3) show ?thesis
        by (auto simp: opened_or_created_def grown_only_same same_files_def word_gt_0)
    next
      case False
      have "unat (file_len w1 f) = length (w_data w1 f)"
        by (rule unat_file_len) (use ok in \<open>simp add: world_ok_def\<close>)
      with False n have e: "w_data w1 f = []" by (simp add: word_gt_0)
      from rest False have ext: "bind_se (lift_se (validated_create_size req)) (\<lambda>sz.
          bind_se (io_try (fs_set_len env f sz)) (\<lambda>_. return_se (f, sz))) w1 = (r, w')" by simp
      have "grown_only w w'" using extend_grown [OF ext e] grown_only_trans grown_only_same [OF sf] by blast
      moreover have "opened_or_created pth req w g len w'" if "r = Inr (g, len)" for g len
        using open_or_create_extend [OF ext [unfolded that] ok e dir] e assms(3) dir
        by (intro opened_or_created_same [OF sf]) (simp add: opened_or_created_def)
      ultimately show ?thesis by blast
    qed
  qed
qed

lemma create_pass:
  assumes "bind_se (io_try (fs_set_len env f sz)) (\<lambda>_. return_se (f, sz)) w1 = (r, w')"
    and "fs_open env pth opts_create_new w = (Inr f, w1)" "world_ok w" "validated_create_size req = Inr sz"
  shows "grown_only w w' \<and> (\<forall>g len. r = Inr (g, len) \<longrightarrow> opened_or_created pth req w g len w')"
proof -
  have E: "w_dir w pth = None" "f = w_next w" "w_dir w1 pth = Some f" "w_data w1 f = []"
    using fs_open_exclusive(2) [OF assms(2)] by auto
  have ok: "world_ok w1" using world_ok_open [OF assms(2,3)] by simp
  have g: "grown_only w w1" by (rule grown_only_create [OF assms(2)])
  have ext: "bind_se (lift_se (validated_create_size req)) (\<lambda>sz.
      bind_se (io_try (fs_set_len env f sz)) (\<lambda>_. return_se (f, sz))) w1 = (r, w')"
    using assms(1,4) by simp
  have "grown_only w w'" using extend_grown [OF ext E(4)] g grown_only_trans by blast
  moreover have "opened_or_created pth req w h len w'" if "r = Inr (h, len)" for h len
    using open_or_create_extend [OF ext [unfolded that] ok E(4,3)] E(1) \<open>grown_only w w'\<close>
    by (simp add: opened_or_created_def)
  ultimately show ?thesis by blast
qed

lemma open_or_create_loop_ok:
  "open_or_create_loop n env pth req w = (r, w') \<Longrightarrow> world_ok w \<Longrightarrow>
     grown_only w w' \<and> (\<forall>f len. r = Inr (f, len) \<longrightarrow> opened_or_created pth req w f len w')"
proof (induction n arbitrary: w)
  case 0
  then show ?case by (auto simp: grown_only_same)
next
  case (Suc n)
  obtain ro w1 where o: "fs_open env pth opts_rw w = (ro, w1)" by (cases "fs_open env pth opts_rw w")
  have sf: "same_files w w1" using fs_open_plain(1) [OF o] by simp
  have ok: "world_ok w1" using world_ok_same [OF sf] Suc.prems(2) by simp
  have lift: "grown_only w w' \<and> (\<forall>f len. r = Inr (f, len) \<longrightarrow> opened_or_created pth req w f len w')"
    if "same_files w v" "grown_only v w' \<and> (\<forall>f len. r = Inr (f, len) \<longrightarrow> opened_or_created pth req v f len w')" for v
    using that opened_or_created_same grown_only_same grown_only_trans by blast
  show ?case
  proof (cases ro)
    case (Inr f)
    have "w_dir w1 pth = Some f" using fs_open_plain(2) [OF o _ _ _ Inr] sf by (simp add: same_files_def)
    moreover have "bind_se (io_try (fs_metadata_len env f)) (\<lambda>len.
           if len > 0 then return_se (f, len)
           else bind_se (lift_se (validated_create_size req)) (\<lambda>sz.
                bind_se (io_try (fs_set_len env f sz)) (\<lambda>_. return_se (f, sz)))) w1 = (r, w')"
      using Suc.prems(1) o Inr by simp
    ultimately show ?thesis using lift [OF sf] open_existing_pass ok by blast
  next
    case (Inl e)
    show ?thesis
    proof (cases "io_kind e = NotFound \<and> (\<exists>sz. validated_create_size req = Inr sz)")
      case False
      then have "w' = w1 \<and> (\<exists>e. r = Inl e)"
        using Suc.prems(1) o Inl by (cases "validated_create_size req") (auto simp: bind_se_def split: if_splits)
      with sf show ?thesis by (auto simp: grown_only_same)
    next
      case True
      then obtain sz where sz: "validated_create_size req = Inr sz" by blast
      obtain rc w2 where c: "fs_open env pth opts_create_new w1 = (rc, w2)"
        by (cases "fs_open env pth opts_create_new w1")
      show ?thesis
      proof (cases rc)
        case inr: (Inr f)
        have "bind_se (io_try (fs_set_len env f sz)) (\<lambda>_. return_se (f, sz)) w2 = (r, w')"
          using Suc.prems(1) o Inl True sz c inr by simp
        from create_pass [OF this c [unfolded inr] ok sz] show ?thesis by (rule lift [OF sf])
      next
        case inl: (Inl e')
        have sf2: "same_files w w2"
          using fs_open_exclusive(1) [OF c _ inl] sf same_files_trans by auto
        have ok2: "world_ok w2" using world_ok_same [OF sf2] Suc.prems(2) by simp
        have "io_kind e' = AlreadyExists \<and> open_or_create_loop n env pth req w2 = (r, w')
            \<or> w' = w2 \<and> (\<exists>e. r = Inl e)"
          using Suc.prems(1) o Inl True sz c inl by (auto split: if_splits)
        with Suc.IH [OF _ ok2] lift [OF sf2] sf2 grown_only_same show ?thesis by blast
      qed
    qed
  qed
qed

lemma open_or_create_cases:
  assumes "builder_open_or_create env sp b w = (Inr (mm, acc), w')" "b_mode b = None \<or> b_mode b = Some ReadWrite"
  obtains f len w1 where "open_or_create_rw_file env (b_path b) (b_size b) w = (Inr (f, len), w1)"
    "finish_rw env sp b f len w1 = (Inr (mm, acc), w')"
  using assms by (auto simp: builder_open_or_create_def Let_def bind_se_Inr split: prod.splits)

lemma establishes_open_or_create: "establishes fst (builder_open_or_create env sp b)"
proof (rule establishesI)
  fix w r w' assume w: "world_ok w" and c: "builder_open_or_create env sp b w = (Inr r, w')"
  obtain mm acc where r: "r = (mm, acc)" by (cases r)
  let ?mode = "case b_mode b of Some m \<Rightarrow> m | None \<Rightarrow> ReadWrite"
  show "opened_ok \<lparr>s_mm = fst r, s_world = w'\<rparr>"
  proof (cases "?mode = ReadWrite")
    case False
    with c have "open_existing env sp b ?mode w = (Inr r, w')" by (simp add: builder_open_or_create_def Let_def)
    with establishes_open_existing [of env sp b ?mode] w show ?thesis unfolding establishes_def by blast
  next
    case True
    then have "b_mode b = None \<or> b_mode b = Some ReadWrite" by (auto split: option.splits)
    with c [unfolded r] show ?thesis
    proof (cases rule: open_or_create_cases)
      case (1 f len w1)
      have "opened_or_created (b_path b) (b_size b) w f len w1"
        using open_or_create_loop_ok [OF _ w] 1(1) unfolding open_or_create_rw_file_def by blast
      then have "world_ok w1" "len = file_len w1 f" "len \<noteq> 0" unfolding opened_or_created_def by blast+
      from opened_finish(1) [OF this(1) 1(2) this(2,3)] show ?thesis by (simp add: r)
    qed
  qed
qed

section \<open>Failed creations\<close>

definition removal_granted :: "env \<Rightarrow> bool" where
  "removal_granted env \<longleftrightarrow> (\<forall>tr p. \<exists>v. e_kern env tr (Fs_remove_file p) = Inr v)"

lemma removed_file:
  assumes "removal_granted env"
  shows "w_dir (snd (fs_remove_file env p w)) = (w_dir w)(p := None)"
    "w_data (snd (fs_remove_file env p w)) = w_data w"
proof -
  obtain v where "e_kern env (w_trace w) (Fs_remove_file p) = Inr v"
    using assms by (auto simp: removal_granted_def)
  then show "w_dir (snd (fs_remove_file env p w)) = (w_dir w)(p := None)"
    "w_data (snd (fs_remove_file env p w)) = w_data w"
    by (auto simp: fs_remove_file_def bind_se_def os_call_def fun_eq_iff split: option.splits)
qed

lemma set_len_elsewhere: "fs_set_len env f n w = (r, w') \<Longrightarrow> w_dir w' = w_dir w \<and> (\<forall>g. g \<noteq> f \<longrightarrow> w_data w' g = w_data w g)"
  by (cases r) (auto simp: fs_set_len_Inl fs_set_len_Inr)

lemma create_undo_ok:
  assumes "removal_granted env" "w_dir v = (w_dir w)(pth \<mapsto> f)" "\<forall>g. g \<noteq> f \<longrightarrow> w_data v g = w_data w g"
    and "if path_exists w pth then w_dir w pth = Some f else w_dir w pth = None"
  shows "w_dir (create_undo env (path_exists w pth) pth f v) = w_dir w
    \<and> (\<forall>g. g \<noteq> f \<longrightarrow> w_data (create_undo env (path_exists w pth) pth f v) g = w_data w g)"
  using assms removed_file [OF assms(1), of pth v] set_len_elsewhere [of env f 0 v "fst (fs_set_len env f 0 v)"]
  by (auto simp: create_undo_def fun_eq_iff)

lemma create_rw_failed:
  assumes "removal_granted env" "create_rw env pth n w = (Inl e, w')"
  shows "w_dir w' = w_dir w" and "f < w_next w \<Longrightarrow> w_dir w pth \<noteq> Some f \<Longrightarrow> w_data w' f = w_data w f"
proof -
  have "same_files w w' \<or> (\<exists>g. w_dir w' = w_dir w \<and> (\<forall>h. h \<noteq> g \<longrightarrow> w_data w' h = w_data w h)
      \<and> (w_dir w pth = Some g \<or> g = w_next w))"
  proof (cases "n = 0 \<or> n > MAX_MMAP_SIZE")
    case True
    then show ?thesis using assms(2) by (auto simp: create_rw_def split: if_splits)
  next
    case False
    obtain ro w1 where o: "fs_open env pth opts_truncate w = (ro, w1)" by (cases "fs_open env pth opts_truncate w")
    show ?thesis
    proof (cases ro)
      case (Inl e')
      then have "w' = w1" using assms(2) False o
        by (auto simp: create_rw_def Let_def bind_se_def io_try_def map_err_se_def)
      with fs_open_truncating(1) [OF o _ _ _ Inl] show ?thesis by simp
    next
      case (Inr f)
      note T = fs_open_truncating(2) [OF o _ _ _ Inr, simplified]
      have ex: "if path_exists w pth then w_dir w pth = Some f else w_dir w pth = None"
        using T by (auto simp: path_exists_def)
      obtain r2 w2 where sl: "fs_set_len env f n w1 = (r2, w2)" by (cases "fs_set_len env f n w1")
      obtain r3 w3 where m: "rawmmapmut_map_mut env f w2 = (r3, w3)" by (cases "rawmmapmut_map_mut env f w2")
      have sf: "same_files w2 w3"
        using map_impl_data [of env options_new f Access_Write w2 r3 w3] m
        by (simp add: rawmmapmut_map_mut_def raw_map_mut_def same_files_def)
      have "w' = create_undo env (path_exists w pth) pth f w2 \<or> w' = create_undo env (path_exists w pth) pth f w3"
        using assms(2) False o Inr sl m
        by (auto simp: create_rw_def Let_def bind_se_def io_try_def map_err_se_def split: sum.splits)
      moreover have "w_dir w2 = (w_dir w)(pth \<mapsto> f)" "\<forall>g. g \<noteq> f \<longrightarrow> w_data w2 g = w_data w g"
        using set_len_elsewhere [OF sl] T by auto
      moreover from this sf have "w_dir w3 = (w_dir w)(pth \<mapsto> f)" "\<forall>g. g \<noteq> f \<longrightarrow> w_data w3 g = w_data w g"
        by (simp_all add: same_files_def)
      ultimately have "w_dir w' = w_dir w \<and> (\<forall>g. g \<noteq> f \<longrightarrow> w_data w' g = w_data w g)"
        using create_undo_ok [OF assms(1) _ _ ex] by blast
      moreover have "w_dir w pth = Some f \<or> f = w_next w" using T by (auto split: if_splits)
      ultimately show ?thesis by blast
    qed
  qed
  then show "w_dir w' = w_dir w" and "f < w_next w \<Longrightarrow> w_dir w pth \<noteq> Some f \<Longrightarrow> w_data w' f = w_data w f"
    by (auto simp: same_files_def)
qed

lemma create_new_result:
  assumes "removal_granted env" "builder_create_new env sp b w = (r, w')"
  shows "f < w_next w \<Longrightarrow> w_data w' f = w_data w f" and "p \<noteq> b_path b \<Longrightarrow> w_dir w' p = w_dir w p"
    and "r = Inl e \<Longrightarrow> w_dir w' = w_dir w"
    and "r = Inr (mm, acc) \<Longrightarrow> w_dir w (b_path b) = None \<and> w_dir w' (b_path b) = Some (i_file mm)
       \<and> (\<exists>n. b_size b = Some n \<and> w_data w' (i_file mm) = replicate (unat n) 0 \<and> i_cached_len mm = n)"
proof -
  have "(\<forall>f. f < w_next w \<longrightarrow> w_data w' f = w_data w f) \<and> (\<forall>p. p \<noteq> b_path b \<longrightarrow> w_dir w' p = w_dir w p)
      \<and> (\<forall>e. r = Inl e \<longrightarrow> w_dir w' = w_dir w)
      \<and> (\<forall>mm acc. r = Inr (mm, acc) \<longrightarrow> w_dir w (b_path b) = None \<and> w_dir w' (b_path b) = Some (i_file mm)
          \<and> (\<exists>n. b_size b = Some n \<and> w_data w' (i_file mm) = replicate (unat n) 0 \<and> i_cached_len mm = n))"
    using assms(2)
  proof (cases rule: create_new_cases)
    case (refused e)
    then show ?thesis by (simp add: same_files_def)
  next
    case (undone f w1 k w2 e)
    note F = fs_open_exclusive(2) [OF undone(1)]
    obtain rs ws where sl: "fs_set_len env f k w1 = (rs, ws)" by (cases "fs_set_len env f k w1")
    have "same_files ws w2"
      using sl undone(3) finish_rw_quiet [of env sp b f k ws]
      by (cases rs) (auto simp: bind_se_def io_try_def map_err_se_def)
    then have D: "w_dir w2 = (w_dir w)(b_path b \<mapsto> f)" "\<forall>g. g \<noteq> f \<longrightarrow> w_data w2 g = w_data w g"
      using set_len_elsewhere [OF sl] F by (auto simp: same_files_def)
    have "w_dir w' = w_dir w" "w_data w' = w_data w2" "w_dir w (b_path b) = None"
      unfolding undone(4) using removed_file [OF assms(1), of "b_path b" w2] D(1) F by (auto simp: fun_eq_iff)
    with D(2) F undone(2) show ?thesis by simp
  next
    case (created f w1 k w2 mm acc)
    note F = fs_open_exclusive(2) [OF created(1)]
    have "i_file mm = f \<and> i_cached_len mm = k"
      using created(3) by (cases "b_policy b")
        (auto simp: finish_rw_def bind_se_Inr Let_def inner_new_def start_time_based_flusher_def)
    moreover have "same_files w2 w'" by (rule finish_rw_quiet [OF created(3)])
    ultimately show ?thesis
      using F created(2,4,5) by (auto simp: same_files_def fs_set_len_Inr resize_bytes_def)
  qed
  then show "f < w_next w \<Longrightarrow> w_data w' f = w_data w f" and "p \<noteq> b_path b \<Longrightarrow> w_dir w' p = w_dir w p"
    and "r = Inl e \<Longrightarrow> w_dir w' = w_dir w"
    and "r = Inr (mm, acc) \<Longrightarrow> w_dir w (b_path b) = None \<and> w_dir w' (b_path b) = Some (i_file mm)
       \<and> (\<exists>n. b_size b = Some n \<and> w_data w' (i_file mm) = replicate (unat n) 0 \<and> i_cached_len mm = n)"
    by blast+
qed

section \<open>Properties\<close>

text \<open>C7. Every constructor establishes the invariant: from any well-formed file system, whatever calls the
  kernel refuses, a mapping returned by \<open>create_rw\<close>, \<open>open_ro\<close>, \<open>open_rw\<close>, \<open>open_cow\<close>,
  \<open>open_cow_writable\<close>, \<open>from_file\<close> or a terminal method of the builder satisfies the invariant of its
  mode, shows exactly the bytes of its file with \<open>len()\<close> of their number, has a free lock, no view and
  nothing pending.\<close>

theorem constructors_establish:
  "establishes id (create_rw env pth n) \<and> establishes id (open_ro env pth) \<and> establishes id (open_rw env pth)
   \<and> establishes id (open_cow env pth) \<and> establishes id (open_cow_writable env pth)
   \<and> establishes id (from_file env f mode pth) \<and> establishes fst (builder_create env sp b)
   \<and> establishes fst (builder_create_new env sp b) \<and> establishes fst (builder_open env sp b)
   \<and> establishes fst (builder_open_or_create env sp b) \<and> establishes fst (open_or_create env sp pth n)"
  using establishes_create_rw establishes_direct establishes_builder_create establishes_create_new
    establishes_open_existing establishes_open_or_create
  by (simp add: builder_open_def open_or_create_def)



text \<open>C27. \<open>open_or_create\<close> never truncates: whatever the result, no byte of a non-empty file changes and no
  path is lost. When it succeeds on a non-empty file the mapping shows that file unchanged, at its own
  length; when the path was missing or its file empty, the file now has \<open>size\<close> zero bytes.\<close>

theorem open_or_create_never_truncates:
  assumes "world_ok w" "b_mode b = None \<or> b_mode b = Some ReadWrite"
  shows "case builder_open_or_create env sp b w of (r, w') \<Rightarrow>
      (\<forall>f. w_data w f \<noteq> [] \<and> f < w_next w \<longrightarrow> w_data w' f = w_data w f)
      \<and> (\<forall>p f. w_dir w p = Some f \<longrightarrow> w_dir w' p = Some f)
      \<and> (case r of
           Inl _ \<Rightarrow> True
         | Inr (mm, _) \<Rightarrow> w_dir w' (b_path b) = Some (i_file mm)
             \<and> (if \<exists>f. w_dir w (b_path b) = Some f \<and> w_data w f \<noteq> []
                then w_dir w (b_path b) = Some (i_file mm) \<and> w_data w' (i_file mm) = w_data w (i_file mm)
                else \<exists>n. b_size b = Some n \<and> w_data w' (i_file mm) = replicate (unat n) 0))"
proof -
  obtain r w' where r: "builder_open_or_create env sp b w = (r, w')" by (cases "builder_open_or_create env sp b w")
  obtain ro w1 where o: "open_or_create_rw_file env (b_path b) (b_size b) w = (ro, w1)"
    by (cases "open_or_create_rw_file env (b_path b) (b_size b) w")
  have L: "grown_only w w1" "ro = Inr (f, len) \<Longrightarrow> opened_or_created (b_path b) (b_size b) w f len w1" for f len
    using open_or_create_loop_ok [OF o [unfolded open_or_create_rw_file_def] assms(1)] by blast+
  have q: "same_files w1 w'"
    using r o assms(2) finish_rw_quiet [of env sp b]
    by (cases ro) (auto simp: builder_open_or_create_def Let_def bind_se_def)
  have g: "grown_only w w'" using L(1) q grown_only_same grown_only_trans by blast
  have "w_dir w' (b_path b) = Some (i_file mm)
      \<and> (if \<exists>f. w_dir w (b_path b) = Some f \<and> w_data w f \<noteq> []
         then w_dir w (b_path b) = Some (i_file mm) \<and> w_data w' (i_file mm) = w_data w (i_file mm)
         else \<exists>n. b_size b = Some n \<and> w_data w' (i_file mm) = replicate (unat n) 0)" if "r = Inr (mm, acc)" for mm acc
  proof -
    from r [unfolded that] assms(2) show ?thesis
    proof (cases rule: open_or_create_cases)
      case (1 f len v1)
      with o have "ro = Inr (f, len)" "v1 = w1" by auto
      from L(2) [OF this(1)] have O: "w_dir w1 (b_path b) = Some f" "world_ok w1" "len = file_len w1 f" "len \<noteq> 0"
        "w_data w1 f = w_data w f \<and> w_dir w (b_path b) = Some f
          \<or> validated_create_size (b_size b) = Inr len \<and> w_data w1 f = replicate (unat len) 0
            \<and> (w_dir w (b_path b) = None \<or> w_dir w (b_path b) = Some f \<and> w_data w f = [])"
        unfolding opened_or_created_def by blast+
      have f: "i_file mm = f" using opened_finish(4) [OF O(2)] 1(2) \<open>v1 = w1\<close> O(3,4) by blast
      have "w_data w1 f \<noteq> []" using O(3,4) by (auto simp: file_len_def)
      with O(1,5) f q show ?thesis by (auto simp: same_files_def validated_create_size_Inr)
    qed
  qed
  with g r show ?thesis by (auto simp: grown_only_def split: sum.splits)
qed

theorem open_or_create_never_truncates_witness:
  "world_ok sample_world \<and> (case builder_open_or_create sample_env True (builder_size 99 (builder_new ''f'')) sample_world of
     (r, w') \<Rightarrow> w_data w' 0 = sample_bytes)"
proof -
  have "b_mode (builder_size 99 (builder_new ''f'')) = None" by (simp add: builder_size_def builder_new_def)
  from open_or_create_never_truncates [OF sample_world_ok disjI1 [OF this], of sample_env True]
  show ?thesis by (auto simp: sample_bytes_def split: prod.splits)
qed

end
