(* ===== verification/Mmap_Reader.thy ===== *)
theory Mmap_Reader
  imports Mmap_Props
begin

text \<open>
  \<open>src/mmap.rs\<close>, \<open>MmapReader\<close>: the cursor over a mapping and its \<open>Read\<close>, \<open>Seek\<close> and \<open>BufRead\<close>
  implementations. An operation maps the reader and the mapping's state to its result and the new
  reader; \<open>None\<close> is a call that waits for the lock. The \<open>i64\<close> of a relative seek is an \<open>int\<close>.
\<close>

section \<open>Definitions\<close>

record reader =
  r_pos :: u64
  r_buf :: "byte list"
  r_buf_start :: u64
  r_buf_len :: nat

definition READER_BUF_LEN :: nat where
  "READER_BUF_LEN = 4096"

definition mmap_reader :: reader where
  "mmap_reader = \<lparr>r_pos = 0, r_buf = replicate READER_BUF_LEN 0, r_buf_start = 0, r_buf_len = 0\<rparr>"

text \<open>\<open>io::Error::other\<close> of a crate error.\<close>

definition other_error :: "mmap_io_error \<Rightarrow> io_error" where
  "other_error e = io_other (display_error e)"

text \<open>\<open>Read::read\<close>: the number of bytes read and the new contents of the caller's buffer.\<close>

definition reader_read ::
  "env \<Rightarrow> byte list \<Rightarrow> reader \<Rightarrow> sys \<Rightarrow> ((io_error + nat \<times> byte list) \<times> reader) option" where
  "reader_read env dst r s =
     (let r0 = r\<lparr>r_buf_len := 0\<rparr>;
          tot = mmap_len s
      in if r_pos r \<ge> tot then Some (Inr (0, dst), r0)
         else
           let remaining = tot - r_pos r;
               want = unat (min (of_nat (length dst)) remaining)
           in if want = 0 then Some (Inr (0, dst), r0)
              else (case read_into env (r_pos r) (take want dst) s of
                      None \<Rightarrow> None
                    | Some (Inl e, _) \<Rightarrow> Some (Inl (other_error e), r0)
                    | Some (Inr bs, _) \<Rightarrow>
                        Some (Inr (want, bs @ drop want dst), r0\<lparr>r_pos := r_pos r + of_nat want\<rparr>)))"

datatype seek_from = Seek_Start u64 | Seek_End int | Seek_Current int

definition reader_seek :: "seek_from \<Rightarrow> reader \<Rightarrow> sys \<Rightarrow> (io_error + u64) \<times> reader" where
  "reader_seek sk r s =
     (let r0 = r\<lparr>r_buf_len := 0\<rparr>;
          relative = (\<lambda>base d.
            case (if d \<ge> 0 then checked_add base (of_int \<bar>d\<bar>) else checked_sub base (of_int \<bar>d\<bar>)) of
              Some p \<Rightarrow> (Inr p, r0\<lparr>r_pos := p\<rparr>)
            | None \<Rightarrow> (Inl (io_new InvalidInput ''invalid seek to a negative or overflowing position''), r0))
      in (case sk of
            Seek_Start n \<Rightarrow> (Inr n, r0\<lparr>r_pos := n\<rparr>)
          | Seek_End d \<Rightarrow> relative (mmap_len s) d
          | Seek_Current d \<Rightarrow> relative (r_pos r) d))"

definition reader_position :: "reader \<Rightarrow> u64" where
  "reader_position r = r_pos r"

definition reader_set_position :: "u64 \<Rightarrow> reader \<Rightarrow> reader" where
  "reader_set_position p r = r\<lparr>r_buf_len := 0, r_pos := p\<rparr>"

text \<open>\<open>fill_buf\<close>: on a mapping that cannot be written its bytes are lent, on a writable one the reader's
  buffer is filled when the position is outside it.\<close>

definition lent_buf :: "reader \<Rightarrow> byte list" where
  "lent_buf r = drop (unat (r_pos r - r_buf_start r)) (take (r_buf_len r) (r_buf r))"

definition reader_fill_buffered ::
  "env \<Rightarrow> reader \<Rightarrow> sys \<Rightarrow> ((io_error + byte list) \<times> reader) option" where
  "reader_fill_buffered env r s =
     (let buffered_end = r_buf_start r + of_nat (r_buf_len r)
      in if r_buf_len r = 0 \<or> r_pos r < r_buf_start r \<or> r_pos r \<ge> buffered_end
         then
           let r0 = r\<lparr>r_buf_len := 0\<rparr>;
               tot = mmap_len s
           in if r_pos r \<ge> tot then Some (Inr [], r0)
              else
                let n = unat (min (tot - r_pos r) (of_nat READER_BUF_LEN))
                in (case read_into env (r_pos r) (take n (r_buf r)) s of
                      None \<Rightarrow> None
                    | Some (Inl e, _) \<Rightarrow> Some (Inl (other_error e), r0)
                    | Some (Inr bs, _) \<Rightarrow>
                        let r1 = r0\<lparr>r_buf := bs @ drop n (r_buf r), r_buf_start := r_pos r, r_buf_len := n\<rparr>
                        in Some (Inr (lent_buf r1), r1))
         else Some (Inr (lent_buf r), r))"

definition reader_fill_buf ::
  "env \<Rightarrow> reader \<Rightarrow> sys \<Rightarrow> ((io_error + byte list) \<times> reader) option" where
  "reader_fill_buf env r s =
     (case i_map (s_mm s) of
        Ro m \<Rightarrow>
          let start = min (case word_try_from (r_pos r) of Some p \<Rightarrow> p | None \<Rightarrow> word_max) (m_len m)
          in Some (Inr (drop (unat start) (mapping_bytes (s_world s) m)), r)
      | _ \<Rightarrow> reader_fill_buffered env r s)"

definition reader_consume :: "usize \<Rightarrow> reader \<Rightarrow> reader" where
  "reader_consume amt r = r\<lparr>r_pos := saturating_add (r_pos r) (ucast amt)\<rparr>"

section \<open>Facts\<close>

text \<open>The mapping as the reader needs it: readable now, and the buffer has its fixed size. The buffered
  bytes are those of the mapping, as long as nothing was written since they were read.\<close>

definition readable :: "sys \<Rightarrow> bool" where
  "readable s \<longleftrightarrow> sys_ok s \<and> atomics_fit s \<and> read_free s"

definition snapshot_current :: "reader \<Rightarrow> sys \<Rightarrow> bool" where
  "snapshot_current r s \<longleftrightarrow> length (r_buf r) = READER_BUF_LEN \<and> r_buf_len r \<le> READER_BUF_LEN
     \<and> unat (r_buf_start r) + r_buf_len r \<le> length (s_bytes s)
     \<and> take (r_buf_len r) (r_buf r) = sub_slice (s_bytes s) (unat (r_buf_start r)) (unat (r_buf_start r) + r_buf_len r)"

lemma readableD:
  assumes "readable s"
  shows "unat (mmap_len s) = length (s_bytes s)" "length (s_bytes s) < 2 ^ 63"
    "0 < n \<Longrightarrow> unat off + n \<le> length (s_bytes s) \<Longrightarrow> length buf = n \<Longrightarrow>
       read_into env off buf s = Some (Inr (sub_slice (s_bytes s) (unat off) (unat off + n)), s)"
proof -
  have ok: "sys_ok s" and fit: "atomics_fit s" and fr: "read_free s" using assms by (simp_all add: readable_def)
  show l: "unat (mmap_len s) = length (s_bytes s)"
    using sys_okD(3,5) [OF ok] by (simp add: mmap_len_def)
  show b: "length (s_bytes s) < 2 ^ 63" using sys_okD(5,6) [OF ok] by simp
  show "read_into env off buf s = Some (Inr (sub_slice (s_bytes s) (unat off) (unat off + n)), s)"
    if "0 < n" "unat off + n \<le> length (s_bytes s)" "length buf = n"
  proof -
    have "length buf < 2 ^ 63" "buf \<noteq> []" using that b by auto
    from read_into_eq [OF ok fit this, of env off] that fr sys_okD(5) [OF ok] show ?thesis by simp
  qed
qed

lemma unat_min: "unat (min a b) = min (unat a) (unat (b::'a::len word))"
  by (simp add: min_def word_le_unat)

text \<open>One read returns the next bytes, as many as fit, and moves past them.\<close>

lemma reader_read_exact:
  assumes "readable s" "length dst < 2 ^ 63"
  shows "reader_read env dst r s =
    (let want = min (length dst) (length (s_bytes s) - unat (r_pos r))
     in Some (Inr (want, sub_slice (s_bytes s) (unat (r_pos r)) (unat (r_pos r) + want) @ drop want dst),
          r\<lparr>r_buf_len := 0, r_pos := r_pos r + of_nat want\<rparr>))"
proof -
  note L = readableD [OF assms(1)]
  let ?n = "length (s_bytes s)" and ?p = "unat (r_pos r)"
  show ?thesis
  proof (cases "?n \<le> ?p")
    case True
    then show ?thesis by (simp add: reader_read_def Let_def word_le_unat L(1))
  next
    case False
    then have lt: "\<not> mmap_len s \<le> r_pos r" by (simp add: word_le_unat L(1))
    then have rem: "unat (mmap_len s - r_pos r) = ?n - ?p" by (simp add: unat_sub_exact L(1))
    have w: "unat (min (of_nat (length dst)) (mmap_len s - r_pos r)) = min (length dst) (?n - ?p)"
      using assms(2) by (simp add: unat_min rem unat_of_length)
    show ?thesis
    proof (cases "dst = []")
      case True
      then show ?thesis using w by (simp add: reader_read_def Let_def lt)
    next
      case ne: False
      let ?w = "min (length dst) (?n - ?p)"
      have "0 < ?w" using ne False by simp
      then have "read_into env (r_pos r) (take ?w dst) s = Some (Inr (sub_slice (s_bytes s) ?p (?p + ?w)), s)"
        by (rule L(3)) (use False in simp_all)
      then show ?thesis using \<open>0 < ?w\<close> by (simp add: reader_read_def Let_def lt w)
    qed
  qed
qed

text \<open>\<open>fill_buf\<close> lends a prefix of the remaining bytes, empty only at the end.\<close>

lemma drop_sub_slice: "drop k (sub_slice xs a b) = sub_slice xs (a + k) b"
  by (simp add: sub_slice_def drop_take add.commute)

definition lends :: "byte list \<Rightarrow> reader \<Rightarrow> sys \<Rightarrow> bool" where
  "lends bs r s \<longleftrightarrow> bs = sub_slice (s_bytes s) (unat (r_pos r)) (unat (r_pos r) + length bs)
     \<and> (bs = [] \<longleftrightarrow> length (s_bytes s) \<le> unat (r_pos r))"

lemma lendsI:
  assumes "bs = sub_slice (s_bytes s) (unat (r_pos r)) e" "e \<le> length (s_bytes s)" "unat (r_pos r) < e"
  shows "lends bs r s"
proof -
  have "length bs = e - unat (r_pos r)" using assms by (simp add: length_slice)
  with assms show ?thesis by (auto simp: lends_def)
qed

lemma lent_current:
  assumes "snapshot_current r s" "r_buf_start r \<le> r_pos r" "unat (r_pos r) < unat (r_buf_start r) + r_buf_len r"
  shows "lends (lent_buf r) r s"
  using assms
  by (intro lendsI [where e = "unat (r_buf_start r) + r_buf_len r"])
    (simp_all add: snapshot_current_def lent_buf_def unat_sub_exact drop_sub_slice word_le_unat)

lemma reader_fill_buffered_exact:
  assumes "readable s" "snapshot_current r s"
  shows "\<exists>bs r'. reader_fill_buffered env r s = Some (Inr bs, r') \<and> r_pos r' = r_pos r
    \<and> snapshot_current r' s \<and> lends bs r s"
proof -
  note L = readableD [OF assms(1)]
  let ?B = "s_bytes s" and ?p = "unat (r_pos r)" and ?b = "unat (r_buf_start r)"
  have bnd: "?b + r_buf_len r < 2 ^ 64" using assms(2) L(2) by (simp add: snapshot_current_def)
  then have "unat (of_nat (r_buf_len r) :: u64) = r_buf_len r" by (simp add: unat_of_nat)
  with bnd have be: "unat (r_buf_start r + of_nat (r_buf_len r)) = ?b + r_buf_len r"
    by (simp add: unat_add_exact)
  let ?out = "r_buf_len r = 0 \<or> r_pos r < r_buf_start r \<or> r_pos r \<ge> r_buf_start r + of_nat (r_buf_len r)"
  consider (buffered) "\<not> ?out" | (at_end) ?out "length ?B \<le> ?p" | (fill) ?out "?p < length ?B" by linarith
  then show ?thesis
  proof cases
    case buffered
    then have "lends (lent_buf r) r s"
      using be by (intro lent_current [OF assms(2)]) (simp_all add: word_le_unat word_less_unat)
    moreover have "reader_fill_buffered env r s = Some (Inr (lent_buf r), r)"
      unfolding reader_fill_buffered_def Let_def using buffered by (simp only: if_False)
    ultimately show ?thesis using assms(2) by blast
  next
    case at_end
    have "mmap_len s \<le> r_pos r" using at_end(2) by (simp add: word_le_unat L(1))
    then have "reader_fill_buffered env r s = Some (Inr [], r\<lparr>r_buf_len := 0\<rparr>)"
      unfolding reader_fill_buffered_def Let_def using at_end(1) by (simp only: if_True)
    moreover have "snapshot_current (r\<lparr>r_buf_len := 0\<rparr>) s" using assms(2) by (simp add: snapshot_current_def)
    moreover have "lends [] r s" using at_end(2) by (simp add: lends_def)
    ultimately show ?thesis by auto
  next
    case fill
    let ?n = "min (length ?B - ?p) READER_BUF_LEN"
    let ?r = "r\<lparr>r_buf := sub_slice ?B ?p (?p + ?n) @ drop ?n (r_buf r), r_buf_start := r_pos r, r_buf_len := ?n\<rparr>"
    have lt: "\<not> mmap_len s \<le> r_pos r" using fill(2) by (simp add: word_le_unat L(1))
    have n: "unat (min (mmap_len s - r_pos r) (of_nat READER_BUF_LEN)) = ?n"
      using lt by (simp add: unat_min unat_sub_exact L(1) READER_BUF_LEN_def)
    have pos: "0 < ?n" using fill(2) by (simp add: READER_BUF_LEN_def)
    have "length (r_buf r) = READER_BUF_LEN" using assms(2) by (simp add: snapshot_current_def)
    then have "read_into env (r_pos r) (take ?n (r_buf r)) s = Some (Inr (sub_slice ?B ?p (?p + ?n)), s)"
      using pos fill(2) by (intro L(3)) simp_all
    with lt n have res: "reader_fill_buffered env r s = Some (Inr (lent_buf ?r), ?r)"
      unfolding reader_fill_buffered_def Let_def using fill(1) by simp
    have len: "length (sub_slice ?B ?p (?p + ?n)) = ?n" using fill(2) by (simp add: length_slice)
    then have cur: "snapshot_current ?r s"
      using fill(2) \<open>length (r_buf r) = READER_BUF_LEN\<close> by (simp add: snapshot_current_def)
    moreover have "lends (lent_buf ?r) ?r s" using pos by (intro lent_current [OF cur]) simp_all
    then have "lends (lent_buf ?r) r s" by (simp add: lends_def)
    ultimately show ?thesis using res by (intro exI [of _ "lent_buf ?r"] exI [of _ ?r]) simp
  qed
qed

lemma reader_fill_buf_exact:
  assumes "readable s" "snapshot_current r s"
  shows "\<exists>bs r'. reader_fill_buf env r s = Some (Inr bs, r') \<and> r_pos r' = r_pos r
    \<and> snapshot_current r' s \<and> lends bs r s"
proof (cases "locked (i_map (s_mm s))")
  case True
  then have "reader_fill_buf env r s = reader_fill_buffered env r s"
    by (cases "i_map (s_mm s)") (simp_all add: reader_fill_buf_def)
  with reader_fill_buffered_exact [OF assms] show ?thesis by simp
next
  case False
  then obtain m where m: "i_map (s_mm s) = Ro m" by (cases "i_map (s_mm s)") simp_all
  let ?B = "s_bytes s" and ?p = "unat (r_pos r)"
  have "length ?B = unat (m_len m)" using sys_okD(5) [of s] m assms(1) by (simp add: readable_def)
  then have "unat (min (r_pos r) (m_len m)) = min ?p (length ?B)" by (simp add: unat_min)
  then have "reader_fill_buf env r s = Some (Inr (drop (min ?p (length ?B)) ?B), r)"
    using m by (simp add: reader_fill_buf_def Let_def word_try_from_def)
  moreover have "lends (drop (min ?p (length ?B)) ?B) r s"
    by (auto simp: lends_def sub_slice_def min_def)
  ultimately show ?thesis using assms(2) by blast
qed

section \<open>Reading to the end\<close>

text \<open>The loops of a client: \<open>read\<close> into a buffer of \<open>n\<close> bytes until it returns 0, and \<open>fill_buf\<close> with
  \<open>consume\<close> of all it lent until that is empty. The fuel bounds the calls.\<close>

fun read_to_end :: "nat \<Rightarrow> env \<Rightarrow> nat \<Rightarrow> reader \<Rightarrow> sys \<Rightarrow> byte list option" where
  "read_to_end 0 env n r s = None"
| "read_to_end (Suc k) env n r s =
     (case reader_read env (replicate n 0) r s of
        Some (Inr (got, dst), r') \<Rightarrow>
          if got = 0 then Some [] else map_option ((@) (take got dst)) (read_to_end k env n r' s)
      | _ \<Rightarrow> None)"

fun drain_buf :: "nat \<Rightarrow> env \<Rightarrow> reader \<Rightarrow> sys \<Rightarrow> byte list option" where
  "drain_buf 0 env r s = None"
| "drain_buf (Suc k) env r s =
     (case reader_fill_buf env r s of
        Some (Inr bs, r') \<Rightarrow>
          if bs = [] then Some []
          else map_option ((@) bs) (drain_buf k env (reader_consume (of_nat (length bs)) r') s)
      | _ \<Rightarrow> None)"

lemma sub_slice_drop: "a + n \<le> length xs \<Longrightarrow> sub_slice xs a (a + n) @ drop (a + n) xs = drop a xs"
  by (simp add: sub_slice_def) (metis add.commute append_take_drop_id drop_drop)

lemma read_to_end_ok:
  assumes "readable s" "0 < n" "n < 2 ^ 63"
  shows "length (s_bytes s) - unat (r_pos r) < k \<Longrightarrow> read_to_end k env n r s = Some (drop (unat (r_pos r)) (s_bytes s))"
proof (induction k arbitrary: r)
  case (Suc k)
  let ?B = "s_bytes s" and ?p = "unat (r_pos r)"
  let ?w = "min n (length ?B - ?p)"
  have rd: "reader_read env (replicate n 0) r s =
      Some (Inr (?w, sub_slice ?B ?p (?p + ?w) @ drop ?w (replicate n 0)), r\<lparr>r_buf_len := 0, r_pos := r_pos r + of_nat ?w\<rparr>)"
    using reader_read_exact [OF assms(1), of "replicate n 0" env r] assms(3) by (simp add: Let_def)
  show ?case
  proof (cases "length ?B \<le> ?p")
    case True
    then show ?thesis using rd by simp
  next
    case False
    have len: "length (sub_slice ?B ?p (?p + ?w)) = ?w" by (simp add: length_slice)
    have u: "unat (of_nat ?w :: u64) = ?w" using assms(3) by (simp add: unat_of_nat min_def)
    have le: "?p + ?w \<le> length ?B" using False by simp
    then have "?p + ?w < 2 ^ 64" using readableD(2) [OF assms(1)] by simp
    then have pos: "unat (r_pos r + of_nat ?w) = ?p + ?w" using u by (simp add: unat_add_exact)
    have "0 < ?w" using False assms(2) by simp
    then have "length ?B - (?p + ?w) < k" using Suc.prems False by linarith
    then have "read_to_end k env n (r\<lparr>r_buf_len := 0, r_pos := r_pos r + of_nat ?w\<rparr>) s = Some (drop (?p + ?w) ?B)"
      using Suc.IH [of "r\<lparr>r_buf_len := 0, r_pos := r_pos r + of_nat ?w\<rparr>"] pos by simp
    with rd \<open>0 < ?w\<close> len sub_slice_drop [OF le] show ?thesis by simp
  qed
qed simp

lemma drain_buf_ok:
  assumes "readable s"
  shows "snapshot_current r s \<Longrightarrow> length (s_bytes s) - unat (r_pos r) < k \<Longrightarrow>
    drain_buf k env r s = Some (drop (unat (r_pos r)) (s_bytes s))"
proof (induction k arbitrary: r)
  case (Suc k)
  let ?B = "s_bytes s" and ?p = "unat (r_pos r)"
  obtain bs r' where fb: "reader_fill_buf env r s = Some (Inr bs, r')" and r': "r_pos r' = r_pos r"
    and cur: "snapshot_current r' s" and l: "lends bs r s"
    using reader_fill_buf_exact [OF assms Suc.prems(1)] by blast
  show ?case
  proof (cases "bs = []")
    case True
    with l fb show ?thesis by (simp add: lends_def)
  next
    case False
    let ?n = "length bs"
    have bs: "bs = sub_slice ?B ?p (?p + ?n)" and lt: "?p < length ?B"
      using l False by (auto simp: lends_def)
    have n: "?p + ?n \<le> length ?B" using arg_cong [OF bs, of length] lt by (simp add: length_slice)
    have u: "unat (of_nat ?n :: u64) = ?n" using n readableD(2) [OF assms] by (simp add: unat_of_nat)
    have pos: "unat (saturating_add (r_pos r') (of_nat ?n)) = ?p + ?n"
      using n readableD(2) [OF assms] by (simp add: unat_saturating_add u r')
    have "0 < ?n" using False by simp
    then have "length ?B - (?p + ?n) < k" using Suc.prems(2) lt by linarith
    then have "drain_buf k env (reader_consume (of_nat ?n) r') s = Some (drop (?p + ?n) ?B)"
      using Suc.IH [of "reader_consume (of_nat ?n) r'"] cur pos
      by (simp add: reader_consume_def snapshot_current_def)
    moreover have "bs @ drop (?p + ?n) ?B = drop ?p ?B" using sub_slice_drop [OF n] by (simp only: bs [symmetric])
    ultimately show ?thesis using fb False by simp
  qed
qed simp

lemma reader_seek_exact:
  assumes "sk = Seek_End d \<and> base = mmap_len s \<or> sk = Seek_Current d \<and> base = r_pos r" "\<bar>d\<bar> < 2 ^ 64"
  shows "reader_seek sk r s =
    (if 0 \<le> int (unat base) + d \<and> int (unat base) + d < 2 ^ 64
     then (Inr (of_int (int (unat base) + d)), r\<lparr>r_buf_len := 0, r_pos := of_int (int (unat base) + d)\<rparr>)
     else (Inl (io_new InvalidInput ''invalid seek to a negative or overflowing position''), r\<lparr>r_buf_len := 0\<rparr>))"
proof -
  have u: "int (unat (of_int \<bar>d\<bar> :: u64)) = \<bar>d\<bar>"
    using assms(2) by (simp add: uint_word_of_int_eq take_bit_int_eq_self flip: uint_nat)
  have w: "of_int (int (unat base) + d) = (base + of_int d :: u64)" by simp
  have add: "checked_add base (of_int \<bar>d\<bar>) = (if int (unat base) + d < 2 ^ 64 then Some (base + of_int d) else None)"
    if "0 \<le> d"
  proof -
    have "unat base + unat (of_int \<bar>d\<bar> :: u64) < 2 ^ 64 \<longleftrightarrow> int (unat base) + d < 2 ^ 64"
      using u that by (simp flip: of_nat_less_iff [where 'a = int])
    with that show ?thesis by (simp add: checked_add_def)
  qed
  have sub: "checked_sub base (of_int \<bar>d\<bar>) = (if 0 \<le> int (unat base) + d then Some (base + of_int d) else None)"
    if "d < 0"
  proof -
    have "of_int \<bar>d\<bar> \<le> base \<longleftrightarrow> 0 \<le> int (unat base) + d"
      unfolding word_le_unat using u that by linarith
    with that show ?thesis by (simp add: checked_sub_def)
  qed
  have b: "int (unat base) < 2 ^ 64" using unat_bound [of base] by (simp flip: of_nat_less_iff [where 'a = int])
  show ?thesis
    using assms(1) add sub b by (cases "0 \<le> d") (auto simp: reader_seek_def Let_def w)
qed

lemma unat_of_small_int: "0 \<le> x \<Longrightarrow> x < 2 ^ 64 \<Longrightarrow> int (unat (of_int x :: u64)) = x"
  by (simp add: uint_word_of_int_eq take_bit_int_eq_self flip: uint_nat)

lemma reader_start_current: "readable s \<Longrightarrow> snapshot_current mmap_reader s"
  by (simp add: snapshot_current_def mmap_reader_def)

section \<open>Properties\<close>



end
