(* ===== verification/Mmap_Smaps.thy ===== *)
theory Mmap_Smaps
  imports Mmap_Props
begin

text \<open>
  \<open>src/mmap.rs\<close>, the huge-page status: the parser of \<open>/proc/self/smaps\<close> and \<open>is_hugepage_backed\<close>. The
  file is the environment's, line by line; a line that cannot be read is \<open>None\<close>. The parser is checked
  against the format the kernel writes.
\<close>

section \<open>Definitions\<close>

definition parse_smaps_range :: "string \<Rightarrow> (usize \<times> usize) option" where
  "parse_smaps_range line =
     Option.bind (first_token line) (\<lambda>t.
     Option.bind (split_once (CHR ''-'') t) (\<lambda>(lo_s, hi_s).
     Option.bind (parse_radix 16 lo_s) (\<lambda>lo.
     Option.bind (parse_radix 16 hi_s) (\<lambda>hi. Some (lo, hi)))))"

fun parse_smaps_kb_field :: "string \<Rightarrow> string list \<Rightarrow> u64 option" where
  "parse_smaps_kb_field line [] = None"
| "parse_smaps_kb_field line (p # ps) =
     (case strip_prefix p line of
        Some rest \<Rightarrow> Option.bind (first_token rest) (parse_radix 10)
      | None \<Rightarrow> parse_smaps_kb_field line ps)"

definition hugepage_fields :: "string list" where
  "hugepage_fields = [''AnonHugePages:'', ''Private_Hugetlb:'', ''Shared_Hugetlb:'']"

text \<open>The loop over the lines, with \<open>in_range\<close>, \<open>found_any_hugepage\<close> and \<open>matched_at_least_once\<close>.\<close>

fun smaps_loop :: "usize \<Rightarrow> bool \<Rightarrow> bool \<Rightarrow> bool \<Rightarrow> string option list \<Rightarrow> bool option" where
  "smaps_loop base in_range found matched [] = (if matched then Some found else None)"
| "smaps_loop base in_range found matched (None # ls) = None"
| "smaps_loop base in_range found matched (Some line # ls) =
     (case parse_smaps_range line of
        Some (lo, hi) \<Rightarrow>
          if in_range then Some found
          else if base \<ge> lo \<and> base < hi then smaps_loop base True False True ls
          else smaps_loop base in_range found matched ls
      | None \<Rightarrow>
          if in_range
          then (case parse_smaps_kb_field line hugepage_fields of
                  Some kb \<Rightarrow> smaps_loop base in_range (if kb > 0 then True else found) matched ls
                | None \<Rightarrow> smaps_loop base in_range found matched ls)
          else smaps_loop base in_range found matched ls)"

definition smaps_hugepage_lookup :: "env \<Rightarrow> usize \<Rightarrow> bool option" where
  "smaps_hugepage_lookup env base =
     Option.bind (e_smaps env) (\<lambda>ls. smaps_loop base False False False ls)"

text \<open>\<open>base_addr\<close> waits while a writer holds the lock (the outer option).\<close>

definition base_addr :: "sys \<Rightarrow> usize option" where
  "base_addr s = (if read_free s then Some (raw_as_ptr (s_mapping s)) else None)"

definition is_hugepage_backed :: "env \<Rightarrow> sys \<Rightarrow> bool option option" where
  "is_hugepage_backed env s =
     (if e_target env = Linux then map_option (smaps_hugepage_lookup env) (base_addr s) else Some None)"

section \<open>The loop as a search\<close>

definition covers :: "usize \<Rightarrow> string \<Rightarrow> bool" where
  "covers base line = (case parse_smaps_range line of Some (lo, hi) \<Rightarrow> lo \<le> base \<and> base < hi | None \<Rightarrow> False)"

definition huge_line :: "string \<Rightarrow> bool" where
  "huge_line line = (case parse_smaps_kb_field line hugepage_fields of Some kb \<Rightarrow> kb > 0 | None \<Rightarrow> False)"

definition entry_lines :: "string list \<Rightarrow> string list" where
  "entry_lines ls = takeWhile (\<lambda>l. parse_smaps_range l = None) ls"

lemma smaps_loop_inside:
  "smaps_loop base True found True (map Some ls) = Some (found \<or> list_ex huge_line (entry_lines ls))"
  by (induction ls arbitrary: found) (auto simp: entry_lines_def huge_line_def split: option.splits prod.splits)

lemma smaps_loop_search:
  "smaps_loop base False False False (map Some ls) =
     (case dropWhile (\<lambda>l. \<not> covers base l) ls of
        [] \<Rightarrow> None
      | _ # rest \<Rightarrow> Some (list_ex huge_line (entry_lines rest)))"
  by (induction ls) (auto simp: covers_def smaps_loop_inside split: option.splits prod.splits)

section \<open>The format of the kernel\<close>

definition hex_char :: "nat \<Rightarrow> char" where
  "hex_char d = (if d < 10 then char_of (48 + d) else char_of (87 + d))"

fun show_hex :: "nat \<Rightarrow> string" where
  "show_hex n = (if n < 16 then [hex_char n] else show_hex (n div 16) @ [hex_char (n mod 16)])"

declare show_hex.simps [simp del]

record smaps_entry =
  se_lo :: usize
  se_hi :: usize
  se_perms :: string
  se_stats :: "(string \<times> u64) list"

definition header_line :: "smaps_entry \<Rightarrow> string" where
  "header_line e = show_hex (unat (se_lo e)) @ ''-'' @ show_hex (unat (se_hi e)) @ '' '' @ se_perms e"

definition stat_line :: "string \<times> u64 \<Rightarrow> string" where
  "stat_line = (\<lambda>(name, kb). name @ '':  '' @ show_word kb @ '' kB'')"

definition smaps_lines :: "smaps_entry list \<Rightarrow> string list" where
  "smaps_lines es = concat (map (\<lambda>e. header_line e # map stat_line (se_stats e)) es)"

text \<open>A statistic's name is one word of letters and underscores.\<close>

definition name_ok :: "string \<Rightarrow> bool" where
  "name_ok s \<longleftrightarrow> s \<noteq> [] \<and> (\<forall>c \<in> set s. \<not> is_ws c \<and> c \<noteq> CHR ''-'' \<and> c \<noteq> CHR '':'')"

definition is_huge_name :: "string \<Rightarrow> bool" where
  "is_huge_name s \<longleftrightarrow> s \<in> {''AnonHugePages'', ''Private_Hugetlb'', ''Shared_Hugetlb''}"

lemma hex_char_props:
  assumes "d < 16"
  shows "digit_value 16 (hex_char d) = Some d" "\<not> is_ws (hex_char d)" "hex_char d \<noteq> CHR ''-''" "hex_char d \<noteq> CHR ''+''"
proof -
  have "d \<in> {0, 1, 2, 3, 4, 5, 6, 7, 8, 9, 10, 11, 12, 13, 14, 15}"
    using assms unfolding insert_iff empty_iff by presburger
  then show dv: "digit_value 16 (hex_char d) = Some d" and "\<not> is_ws (hex_char d)"
    by (auto simp: hex_char_def digit_value_def option_filter_def is_ws_def)
  have "digit_value 16 (CHR ''-'') = None" "digit_value 16 (CHR ''+'') = None"
    by (simp_all add: digit_value_def option_filter_def)
  with dv show "hex_char d \<noteq> CHR ''-''" "hex_char d \<noteq> CHR ''+''" by fastforce+
qed

lemma show_hex_nonempty: "show_hex n \<noteq> []"
  by (subst show_hex.simps) simp

lemma show_hex_chars: "c \<in> set (show_hex n) \<Longrightarrow> \<not> is_ws c \<and> c \<noteq> CHR ''-'' \<and> c \<noteq> CHR ''+''"
proof (induction n rule: show_hex.induct)
  case (1 n)
  show ?case
    using "1.IH" "1.prems" hex_char_props by (subst (asm) show_hex.simps) (auto split: if_splits)
qed

lemma digits_value_show_hex: "digits_value 16 0 (show_hex n) = Some n"
proof (induction n rule: show_hex.induct)
  case (1 n)
  show ?case
  proof (cases "n < 16")
    case True
    then show ?thesis by (subst show_hex.simps) (simp add: hex_char_props)
  next
    case False
    with "1.IH" show ?thesis by (subst show_hex.simps) (simp add: digits_value_append hex_char_props)
  qed
qed

lemma parse_show_hex: "parse_radix 16 (show_hex (unat x)) = Some (x :: 'a::len word)"
proof -
  obtain c s where cs: "show_hex (unat x) = c # s"
    using show_hex_nonempty by (cases "show_hex (unat x)") auto
  have "c \<noteq> CHR ''+''" using show_hex_chars [of c "unat x"] by (auto simp: cs)
  then show ?thesis
    using digits_value_show_hex [of "unat x"] by (simp add: parse_radix_def cs Let_def)
qed

lemma first_token_prefix:
  assumes "t \<noteq> []" "\<forall>c \<in> set t. \<not> is_ws c" "rest = [] \<or> is_ws (hd rest)"
  shows "first_token (t @ rest) = Some t"
proof -
  have d: "dropWhile is_ws (t @ rest) = t @ rest" using assms(1,2) by (cases t) simp_all
  have "takeWhile (\<lambda>c. \<not> is_ws c) (t @ rest) = t @ takeWhile (\<lambda>c. \<not> is_ws c) rest"
    using assms(2) by (simp add: takeWhile_append2)
  also have "takeWhile (\<lambda>c. \<not> is_ws c) rest = []" using assms(3) by (cases rest) auto
  finally show ?thesis using assms(1) by (simp add: first_token_def d)
qed

lemma is_ws_space [simp]: "is_ws (CHR '' '')"
  by (simp add: is_ws_def)

lemma parse_header: "parse_smaps_range (header_line e) = Some (se_lo e, se_hi e)"
proof -
  let ?lo = "show_hex (unat (se_lo e))" and ?hi = "show_hex (unat (se_hi e))"
  let ?t = "?lo @ CHR ''-'' # ?hi"
  have "\<forall>c \<in> set ?t. \<not> is_ws c" using show_hex_chars by (auto simp: is_ws_def)
  then have "first_token (?t @ CHR '' '' # se_perms e) = Some ?t" by (intro first_token_prefix) simp_all
  moreover have "split_once (CHR ''-'') ?t = Some (?lo, ?hi)"
    using show_hex_chars by (auto simp: split_once_Some)
  ultimately show ?thesis by (simp add: parse_smaps_range_def header_line_def parse_show_hex)
qed

lemma first_token_stat: "name_ok name \<Longrightarrow> first_token (stat_line (name, kb)) = Some (name @ '':'')"
  using first_token_prefix [of "name @ '':''" "''  '' @ show_word kb @ '' kB''"]
  by (auto simp: name_ok_def stat_line_def is_ws_def)

lemma parse_stat_none: "name_ok name \<Longrightarrow> parse_smaps_range (stat_line (name, kb)) = None"
proof -
  assume n: "name_ok name"
  then have "split_once (CHR ''-'') (name @ '':'') = None" by (auto simp: split_once_None name_ok_def)
  with first_token_stat [OF n] show ?thesis by (simp add: parse_smaps_range_def)
qed

lemma strip_field:
  assumes "\<forall>c \<in> set p. c \<noteq> CHR '':''" "\<forall>c \<in> set name. c \<noteq> CHR '':''"
  shows "strip_prefix (p @ '':'') (name @ CHR '':'' # rest) = (if name = p then Some rest else None)"
  using assms by (induction p arbitrary: name) (case_tac name; auto)+

lemma kb_value: "Option.bind (first_token (CHR '' '' # CHR '' '' # show_word (kb::u64) @ '' kB'')) (parse_radix 10) = Some kb"
proof -
  have "\<forall>c \<in> set (show_word kb). \<not> is_ws c"
    using show_nat_chars [of "unat kb"] by (auto simp: show_word_def is_ws_def)
  then have "first_token (show_word kb @ '' kB'') = Some (show_word kb)"
    by (intro first_token_prefix) (simp_all add: show_word_def show_nat_nonempty)
  moreover have "first_token (CHR '' '' # CHR '' '' # x) = first_token x" for x by (simp add: first_token_def)
  ultimately show ?thesis by (simp add: parse_show_word)
qed

lemma huge_stat: "name_ok name \<Longrightarrow> huge_line (stat_line (name, kb)) \<longleftrightarrow> is_huge_name name \<and> kb > 0"
proof -
  assume n: "name_ok name"
  have nc: "\<forall>c \<in> set name. c \<noteq> CHR '':''" using n by (auto simp: name_ok_def)
  have line: "stat_line (name, kb) = name @ CHR '':'' # (CHR '' '' # CHR '' '' # show_word kb @ '' kB'')"
    by (simp add: stat_line_def)
  have f: "strip_prefix ''AnonHugePages:'' (name @ CHR '':'' # rest) = (if name = ''AnonHugePages'' then Some rest else None)"
    "strip_prefix ''Private_Hugetlb:'' (name @ CHR '':'' # rest) = (if name = ''Private_Hugetlb'' then Some rest else None)"
    "strip_prefix ''Shared_Hugetlb:'' (name @ CHR '':'' # rest) = (if name = ''Shared_Hugetlb'' then Some rest else None)" for rest
    using strip_field [of "''AnonHugePages''" name rest] strip_field [of "''Private_Hugetlb''" name rest]
      strip_field [of "''Shared_Hugetlb''" name rest] nc by simp_all
  have "parse_smaps_kb_field (stat_line (name, kb)) hugepage_fields = (if is_huge_name name then Some kb else None)"
    using kb_value [of kb] unfolding line hugepage_fields_def parse_smaps_kb_field.simps f
    by (auto simp: is_huge_name_def)
  then show ?thesis by (simp add: huge_line_def)
qed

text \<open>On rendered entries the search finds the first entry that contains the address.\<close>

definition entry_covers :: "usize \<Rightarrow> smaps_entry \<Rightarrow> bool" where
  "entry_covers base e \<longleftrightarrow> se_lo e \<le> base \<and> base < se_hi e"

definition entry_huge :: "smaps_entry \<Rightarrow> bool" where
  "entry_huge e \<longleftrightarrow> (\<exists>(name, kb) \<in> set (se_stats e). is_huge_name name \<and> kb > 0)"

definition stats_ok :: "smaps_entry list \<Rightarrow> bool" where
  "stats_ok es \<longleftrightarrow> (\<forall>e \<in> set es. \<forall>(name, kb) \<in> set (se_stats e). name_ok name)"

lemma covers_simps:
  "covers base (header_line e) = entry_covers base e"
  "name_ok name \<Longrightarrow> \<not> covers base (stat_line (name, kb))"
  by (simp_all add: covers_def parse_header parse_stat_none entry_covers_def)

lemma dropWhile_stats:
  "\<forall>(name, kb) \<in> set st. name_ok name \<Longrightarrow>
     dropWhile (\<lambda>l. \<not> covers base l) (map stat_line st @ ls) = dropWhile (\<lambda>l. \<not> covers base l) ls"
  by (induction st) (auto simp: covers_simps)

lemma entry_lines_stats:
  "\<forall>(name, kb) \<in> set st. name_ok name \<Longrightarrow> stats_ok es \<Longrightarrow>
     entry_lines (map stat_line st @ smaps_lines es) = map stat_line st"
  by (induction st; cases es) (auto simp: entry_lines_def parse_stat_none smaps_lines_def parse_header)

lemma huge_stats:
  "\<forall>(name, kb) \<in> set st. name_ok name \<Longrightarrow>
     list_ex huge_line (map stat_line st) \<longleftrightarrow> (\<exists>(name, kb) \<in> set st. is_huge_name name \<and> kb > 0)"
  by (induction st) (auto simp: huge_stat)

lemma smaps_search_entries:
  "stats_ok es \<Longrightarrow>
     (case dropWhile (\<lambda>l. \<not> covers base l) (smaps_lines es) of
        [] \<Rightarrow> None
      | _ # rest \<Rightarrow> Some (list_ex huge_line (entry_lines rest))) = map_option entry_huge (find (entry_covers base) es)"
proof (induction es)
  case Nil
  show ?case by (simp add: smaps_lines_def)
next
  case (Cons e es)
  have st: "\<forall>(name, kb) \<in> set (se_stats e). name_ok name" and ok: "stats_ok es"
    using Cons.prems by (auto simp: stats_ok_def)
  have l: "smaps_lines (e # es) = header_line e # map stat_line (se_stats e) @ smaps_lines es"
    by (simp add: smaps_lines_def)
  show ?case
  proof (cases "entry_covers base e")
    case True
    then show ?thesis
      by (simp add: l covers_simps entry_lines_stats [OF st ok] huge_stats [OF st] entry_huge_def)
  next
    case False
    then show ?thesis using Cons.IH [OF ok] by (simp add: l covers_simps dropWhile_stats [OF st])
  qed
qed

section \<open>Properties\<close>


definition sample_entries :: "smaps_entry list" where
  "sample_entries =
     [\<lparr>se_lo = 0x1000, se_hi = 0x2000, se_perms = ''rw-p'', se_stats = [(''AnonHugePages'', 0)]\<rparr>,
      \<lparr>se_lo = 0x10000, se_hi = 0x20000, se_perms = ''rw-s'', se_stats = [(''Rss'', 4), (''AnonHugePages'', 2048)]\<rparr>]"


end
