(* ===== verification/Segment.thy ===== *)
theory Segment
  imports Mmap_Props
begin

text \<open>
  \<open>src/segment.rs\<close>: \<open>Segment\<close> and \<open>SegmentMut\<close>, an offset and a length within a parent mapping. The parent
  is the state the operations run on; every access checks the range against it again.
\<close>

section \<open>Definitions\<close>

record segment =
  seg_offset :: u64
  seg_len :: u64

definition validate_segment :: "u64 \<Rightarrow> u64 \<Rightarrow> sys \<Rightarrow> mmap_io_error + unit" where
  "validate_segment off len s =
     (if len = 0 then Inr ()
      else result_bind (slice_range64 off len (mmap_len s)) (\<lambda>_. Inr ()))"

definition segment_new :: "u64 \<Rightarrow> u64 \<Rightarrow> sys \<Rightarrow> mmap_io_error + segment" where
  "segment_new off len s =
     result_bind (validate_segment off len s) (\<lambda>_. Inr \<lparr>seg_offset = off, seg_len = len\<rparr>)"

definition segment_as_slice :: "env \<Rightarrow> nat \<Rightarrow> segment \<Rightarrow> mapped_slice op" where
  "segment_as_slice env sh g = as_slice env sh (seg_offset g) (seg_len g)"

definition segment_len :: "segment \<Rightarrow> u64" where
  "segment_len g = seg_len g"

definition segment_is_empty :: "segment \<Rightarrow> bool" where
  "segment_is_empty g \<longleftrightarrow> seg_len g = 0"

definition segment_offset :: "segment \<Rightarrow> u64" where
  "segment_offset g = seg_offset g"

definition segment_is_valid :: "segment \<Rightarrow> sys \<Rightarrow> bool" where
  "segment_is_valid g s = is_ok (validate_segment (seg_offset g) (seg_len g) s)"

text \<open>\<open>SegmentMut\<close> has the same fields and constructor.\<close>

definition segment_mut_new :: "u64 \<Rightarrow> u64 \<Rightarrow> sys \<Rightarrow> mmap_io_error + segment" where
  "segment_mut_new off len s =
     result_bind (validate_segment off len s) (\<lambda>_. Inr \<lparr>seg_offset = off, seg_len = len\<rparr>)"

definition segment_as_slice_mut :: "segment \<Rightarrow> mapped_slice_mut op" where
  "segment_as_slice_mut g = as_slice_mut (seg_offset g) (seg_len g)"

definition segment_write :: "env \<Rightarrow> segment \<Rightarrow> byte list \<Rightarrow> unit op" where
  "segment_write env g data s =
     (let len = of_nat (length data)
      in if len > seg_len g then Some (Inl (OutOfBounds 0 len (seg_len g)), s)
         else if data = [] then Some (Inr (), s)
         else update_region_within env (seg_offset g) data (seg_len g) s)"

section \<open>Facts\<close>

text \<open>The segment's range is inside the parent.\<close>

definition segment_fits :: "segment \<Rightarrow> sys \<Rightarrow> bool" where
  "segment_fits g s \<longleftrightarrow> seg_len g = 0 \<or> unat (seg_offset g) + unat (seg_len g) \<le> length (s_bytes s)"

lemma segment_is_valid_iff: "sys_ok s \<Longrightarrow> segment_is_valid g s \<longleftrightarrow> segment_fits g s"
  using sys_okD(3,5) [of s]
  by (simp add: segment_is_valid_def validate_segment_def segment_fits_def slice_range64_eq mmap_len_def)

lemma segment_new_iff:
  "sys_ok s \<Longrightarrow> is_ok (segment_new off len s) \<longleftrightarrow> segment_fits \<lparr>seg_offset = off, seg_len = len\<rparr> s"
  using segment_is_valid_iff [of s "\<lparr>seg_offset = off, seg_len = len\<rparr>"]
  by (cases "validate_segment off len s") (simp_all add: segment_new_def segment_is_valid_def)

lemma segment_write_fits:
  assumes "sys_ok s" "locked (i_map (s_mm s))" "write_free s" "segment_fits g s" "data \<noteq> []"
    and "length data < 2 ^ 63" "length data \<le> unat (seg_len g)"
  obtains r s' where "segment_write env g data s = Some (r, s')" "wrote (unat (seg_offset g)) data s s'"
    "r = Inr () \<or> (\<exists>msg. r = Inl (FlushFailed msg))"
proof -
  have "unat (seg_offset g) + max (unat (seg_len g)) (length data) \<le> unat (m_len (s_mapping s))"
    using assms(4,5,7) sys_okD(5) [OF assms(1)] by (auto simp: segment_fits_def max_absorb1)
  from update_region_within_wrote [OF assms(1-3,6) this] obtain r s'
    where "update_region_within env (seg_offset g) data (seg_len g) s = Some (r, s')"
      "wrote (unat (seg_offset g)) data s s'" "r = Inr () \<or> (\<exists>msg. r = Inl (FlushFailed msg))" by blast
  moreover have "\<not> of_nat (length data) > seg_len g"
    using assms(6,7) by (simp add: word_less_unat unat_of_length)
  ultimately show thesis using that assms(5) by (simp add: segment_write_def)
qed

lemma splice_outside:
  assumes "b + length d \<le> length xs" "i < b \<or> b + length d \<le> i" "i < length xs"
  shows "splice_at xs b d ! i = xs ! i"
  using assms by (auto simp: nth_splice_at)

section \<open>Properties\<close>

text \<open>C30. A segment write stays inside its segment, on every branch: longer data is refused with
  segment-relative fields; empty data does nothing; a mapping nothing can write is refused; while a guard
  is held the call waits; a segment that no longer fits the parent (after a shrinking resize) is refused
  as a whole even where the data would fit, and \<open>is_valid\<close> reports exactly that; otherwise the data is at
  the start of the segment and every other byte of the mapping is unchanged.\<close>

theorem segment_write_confined:
  assumes "sys_ok s" "length data < 2 ^ 63"
  shows "(segment_is_valid g s \<longleftrightarrow> seg_len g = 0 \<or> unat (seg_offset g) + unat (seg_len g) \<le> length (s_bytes s))
   \<and> (case segment_write env g data s of
      None \<Rightarrow> data \<noteq> [] \<and> length data \<le> unat (seg_len g) \<and> locked (i_map (s_mm s)) \<and> \<not> write_free s
    | Some (r, s') \<Rightarrow>
        if unat (seg_len g) < length data then r = Inl (OutOfBounds 0 (of_nat (length data)) (seg_len g)) \<and> s' = s
        else if data = [] then r = Inr () \<and> s' = s
        else if \<not> locked (i_map (s_mm s)) then (\<exists>msg. r = Inl (InvalidMode msg)) \<and> s' = s
        else if \<not> segment_is_valid g s
        then r = Inl (OutOfBounds (seg_offset g) (seg_len g) (m_len (s_mapping s))) \<and> s' = s
        else take (length data) (drop (unat (seg_offset g)) (s_bytes s')) = data
          \<and> length (s_bytes s') = length (s_bytes s)
          \<and> (\<forall>i. i < length (s_bytes s) \<and> (i < unat (seg_offset g) \<or> unat (seg_offset g) + length data \<le> i) \<longrightarrow>
                s_bytes s' ! i = s_bytes s ! i)
          \<and> (r = Inr () \<or> (\<exists>msg. r = Inl (FlushFailed msg))))"
proof -
  have lt: "of_nat (length data) > seg_len g \<longleftrightarrow> unat (seg_len g) < length data"
    using assms(2) by (simp add: word_less_unat unat_of_length)
  have valid: "segment_is_valid g s \<longleftrightarrow> segment_fits g s" by (rule segment_is_valid_iff [OF assms(1)])
  consider (long) "unat (seg_len g) < length data" | (empty) "data = []"
    | (ro) "data \<noteq> []" "length data \<le> unat (seg_len g)" "\<not> locked (i_map (s_mm s))"
    | (busy) "data \<noteq> []" "length data \<le> unat (seg_len g)" "locked (i_map (s_mm s))" "\<not> write_free s"
    | (cut) "data \<noteq> []" "length data \<le> unat (seg_len g)" "locked (i_map (s_mm s))" "write_free s" "\<not> segment_fits g s"
    | (ok) "data \<noteq> []" "length data \<le> unat (seg_len g)" "locked (i_map (s_mm s))" "write_free s" "segment_fits g s"
    by fastforce
  then show ?thesis
  proof cases
    case long
    then show ?thesis using lt valid by (simp add: segment_write_def Let_def segment_fits_def)
  next
    case empty
    then show ?thesis using lt valid by (simp add: segment_write_def Let_def segment_fits_def)
  next
    case ro
    with lt valid update_region_within_refused(1) [OF assms(2) ro(3)] show ?thesis
      by (simp add: segment_write_def Let_def segment_fits_def)
  next
    case busy
    with lt valid update_region_within_refused(2) [OF assms(2) busy(3,4)] show ?thesis
      by (simp add: segment_write_def Let_def segment_fits_def)
  next
    case cut
    have "max (unat (seg_len g)) (length data) = unat (seg_len g)" "max (seg_len g) (of_nat (length data)) = seg_len g"
      using cut(2) lt by (simp_all add: max_absorb1 not_less)
    with cut(5) have "update_region_within env (seg_offset g) data (seg_len g) s =
        Some (Inl (OutOfBounds (seg_offset g) (seg_len g) (m_len (s_mapping s))), s)"
      using update_region_within_refused(3) [OF assms(2) cut(3,4), of "seg_offset g" "seg_len g" env] sys_okD(5) [OF assms(1)]
      by (simp add: segment_fits_def not_le)
    with cut lt valid show ?thesis by (simp add: segment_write_def Let_def segment_fits_def)
  next
    case ok
    obtain r s' where w: "segment_write env g data s = Some (r, s')" "wrote (unat (seg_offset g)) data s s'"
      "r = Inr () \<or> (\<exists>msg. r = Inl (FlushFailed msg))"
      using segment_write_fits [OF assms(1) ok(3,4,5,1) assms(2) ok(2)] by blast
    have b: "s_bytes s' = splice_at (s_bytes s) (unat (seg_offset g)) data" using w(2) by (simp add: wrote_def)
    have in_range: "unat (seg_offset g) + length data \<le> length (s_bytes s)"
      using ok(1,2,5) by (auto simp: segment_fits_def)
    have "take (length data) (drop (unat (seg_offset g)) (s_bytes s')) = data"
      using slice_splice_same [OF in_range] by (simp add: b sub_slice_def)
    with ok w(1,3) valid b length_splice_at [OF in_range] splice_outside [OF in_range] show ?thesis
      by (auto simp: segment_fits_def)
  qed
qed

theorem segment_write_confined_witness:
  "\<exists>r s'. segment_write sample_env \<lparr>seg_offset = 2, seg_len = 4\<rparr> [1, 2, 3] (sample_sys Never) = Some (r, s')
    \<and> take 3 (drop 2 (s_bytes s')) = [1, 2, 3]"
proof -
  let ?g = "\<lparr>seg_offset = 2, seg_len = 4\<rparr>"
  have len: "length (mapping_bytes sample_world sample_mapping) = 8"
    using sys_okD(5) [OF sample_sys_ok, of Never] by simp
  from segment_write_confined [OF sample_sys_ok [of Never], where data = "[1, 2, 3]" and g = ?g and env = sample_env]
  show ?thesis by (auto simp: len numeral_3_eq_3 split: option.splits)
qed

end
