(* ===== verification/Iterator.thy ===== *)
theory Iterator
  imports Mmap_Props
begin

text \<open>
  \<open>src/iterator.rs\<close>: the chunk and page iterators with the read guards and registrations of their items,
  the owned variants, and the mutable iteration under one write guard. \<open>next\<close> is a state transition
  of the iterator and the mapping; the shard of the calling thread is an argument.
\<close>

section \<open>Read iterators\<close>

record chunk_iterator =
  ci_locked :: bool
  ci_total_len :: usize
  ci_chunk_size :: usize
  ci_offset :: usize

definition chunk_iterator_new :: "usize \<Rightarrow> sys \<Rightarrow> (chunk_iterator \<times> sys) option" where
  "chunk_iterator_new n s =
     (case i_map (s_mm s) of
        Ro m \<Rightarrow> Some (\<lparr>ci_locked = False, ci_total_len = m_len m, ci_chunk_size = n, ci_offset = 0\<rparr>, s)
      | _ \<Rightarrow>
          if \<not> read_free s then None
          else Some (\<lparr>ci_locked = True, ci_total_len = m_len (s_mapping s), ci_chunk_size = n, ci_offset = 0\<rparr>,
                     mm_upd (\<lambda>mm. mm\<lparr>i_readers := Suc (i_readers mm)\<rparr>) s))"

text \<open>The item of a lockable mapping: guarded and registered, or an owned copy when it overlaps a live
  atomic view.\<close>

definition chunk_item :: "env \<Rightarrow> nat \<Rightarrow> nat \<Rightarrow> nat \<Rightarrow> sys \<Rightarrow> mapped_slice \<times> sys" where
  "chunk_item env sh b e s =
     (case view_register env sh b e (i_views (s_mm s)) of
        (Inr reg, v) \<Rightarrow>
          (Slice_Guarded reg b e, mm_upd (\<lambda>mm. mm\<lparr>i_views := v, i_readers := Suc (i_readers mm)\<rparr>) s)
      | (Inl _, v) \<Rightarrow>
          (Slice_Snapshot (cs_dst (copy_out (vr_atomics v) (mapping_bytes (s_world s) (s_mapping s)) b
                             (replicate (e - b) 0))),
           mm_upd (\<lambda>mm. mm\<lparr>i_views := v\<rparr>) s))"

definition chunk_next ::
  "env \<Rightarrow> nat \<Rightarrow> chunk_iterator \<Rightarrow> sys \<Rightarrow> (mapped_slice option \<times> chunk_iterator \<times> sys) option" where
  "chunk_next env sh it s =
     (if ci_chunk_size it = 0 \<or> ci_offset it \<ge> ci_total_len it then Some (None, it, s)
      else
        let start = ci_offset it;
            fin = start + min (ci_total_len it - start) (ci_chunk_size it);
            it' = it\<lparr>ci_offset := fin\<rparr>
        in if \<not> ci_locked it then Some (Some (Slice_Owned (unat start) (unat fin)), it', s)
           else if \<not> read_free s then None
           else (case chunk_item env sh (unat start) (unat fin) s of
                   (v, s') \<Rightarrow> Some (Some v, it', s')))"

definition chunk_size_hint :: "chunk_iterator \<Rightarrow> usize \<times> usize option" where
  "chunk_size_hint it =
     (if ci_chunk_size it = 0 then (0, Some 0)
      else
        let remaining = saturating_sub (ci_total_len it) (ci_offset it);
            n = div_ceil remaining (ci_chunk_size it)
        in (n, Some n))"

text \<open>Dropping the iterator releases its pin.\<close>

definition chunk_iterator_drop :: "chunk_iterator \<Rightarrow> sys \<Rightarrow> sys" where
  "chunk_iterator_drop it s =
     (if ci_locked it then mm_upd (\<lambda>mm. mm\<lparr>i_readers := i_readers mm - 1\<rparr>) s else s)"

definition page_iterator_new :: "env \<Rightarrow> sys \<Rightarrow> (chunk_iterator \<times> sys) option" where
  "page_iterator_new env = chunk_iterator_new (page_size (e_plat env))"

definition page_next ::
  "env \<Rightarrow> nat \<Rightarrow> chunk_iterator \<Rightarrow> sys \<Rightarrow> (mapped_slice option \<times> chunk_iterator \<times> sys) option" where
  "page_next env sh it s = chunk_next env sh it s"

text \<open>The owned variants copy the item out and drop it.\<close>

definition chunk_owned_next ::
  "env \<Rightarrow> nat \<Rightarrow> chunk_iterator \<Rightarrow> sys \<Rightarrow> (byte list option \<times> chunk_iterator \<times> sys) option" where
  "chunk_owned_next env sh it s =
     (case chunk_next env sh it s of
        None \<Rightarrow> None
      | Some (None, it', s') \<Rightarrow> Some (None, it', s')
      | Some (Some v, it', s') \<Rightarrow> Some (Some (slice_bytes s' v), it', drop_slice v s'))"

definition page_owned_next ::
  "env \<Rightarrow> nat \<Rightarrow> chunk_iterator \<Rightarrow> sys \<Rightarrow> (byte list option \<times> chunk_iterator \<times> sys) option" where
  "page_owned_next env sh it s =
     (case page_next env sh it s of
        None \<Rightarrow> None
      | Some (None, it', s') \<Rightarrow> Some (None, it', s')
      | Some (Some v, it', s') \<Rightarrow> Some (Some (slice_bytes s' v), it', drop_slice v s'))"

section \<open>Mutable iteration\<close>

text \<open>The closure: from its own state, the offset and the chunk, its result, the chunk's new contents and
  its new state.\<close>

type_synonym ('st, 'e) chunk_closure = "'st \<Rightarrow> u64 \<Rightarrow> byte list \<Rightarrow> ('e + unit) \<times> byte list \<times> 'st"

text \<open>The loop of \<open>drive\<close> under the write guard: the result, the offset reached, the closure's state and
  the mapping.\<close>

function drive_loop ::
  "('st, 'e) chunk_closure \<Rightarrow> nat \<Rightarrow> nat \<Rightarrow> nat \<Rightarrow> 'st \<Rightarrow> sys \<Rightarrow> ('e + unit) \<times> nat \<times> 'st \<times> sys" where
  "drive_loop f n tot off st s =
     (if n = 0 \<or> tot \<le> off then (Inr (), off, st, s)
      else
        let fin = off + min (tot - off) n
        in case f st (of_nat off) (sub_slice (mapping_bytes (s_world s) (s_mapping s)) off fin) of
             (Inl e, d, st') \<Rightarrow> (Inl e, fin, st', store_at off d s)
           | (Inr _, d, st') \<Rightarrow> drive_loop f n tot fin st' (store_at off d s))"
  by pat_completeness auto
termination by (relation "measure (\<lambda>(f, n, tot, off, st, s). tot - off)") auto

declare drive_loop.simps [simp del]

definition chunks_drive ::
  "('st, 'e) chunk_closure \<Rightarrow> usize \<Rightarrow> 'st \<Rightarrow> sys \<Rightarrow> ((mmap_io_error + ('e + unit)) \<times> 'st \<times> sys) option" where
  "chunks_drive f n st s =
     (case write_lock ''chunks_mut requires a ReadWrite or writable CopyOnWrite mapping'' s of
        Inl e \<Rightarrow> Some (Inl e, st, s)
      | Inr _ \<Rightarrow>
          if n = 0 then Some (Inr (Inr ()), st, s)
          else if \<not> write_free s then None
          else (case drive_loop f (unat n) (unat (m_len (s_mapping s))) 0 st s of
                  (r, off, st', s') \<Rightarrow> Some (Inr r, st', mm_upd (record_write (of_nat off)) s')))"

definition for_each_mut ::
  "('st, mmap_io_error) chunk_closure \<Rightarrow> usize \<Rightarrow> 'st \<Rightarrow> sys \<Rightarrow> ((mmap_io_error + unit) \<times> 'st \<times> sys) option" where
  "for_each_mut f n st s =
     map_option (\<lambda>(r, rest). (result_bind r (\<lambda>x. x), rest)) (chunks_drive f n st s)"

definition for_each_mut_legacy ::
  "('st, 'e) chunk_closure \<Rightarrow> usize \<Rightarrow> 'st \<Rightarrow> sys \<Rightarrow> ((mmap_io_error + ('e + unit)) \<times> 'st \<times> sys) option" where
  "for_each_mut_legacy f n st s = chunks_drive f n st s"

end
