(* ===== verification/Iterator_Props.thy ===== *)
theory Iterator_Props
  imports Iterator
begin

text \<open>
  Iteration against reference definitions on lists: the chunks of the contents, and the map of a closure
  over them.
\<close>

section \<open>Chunks of a list\<close>

function chunks_of :: "nat \<Rightarrow> 'a list \<Rightarrow> 'a list list" where
  "chunks_of n xs = (if n = 0 \<or> xs = [] then [] else take n xs # chunks_of n (drop n xs))"
  by pat_completeness auto
termination by (relation "measure (\<lambda>(n, xs). length xs)") (auto simp: diff_less)

declare chunks_of.simps [simp del]

lemma chunks_of_Nil [simp]: "chunks_of n [] = []"
  by (simp add: chunks_of.simps)

lemma concat_chunks_of: "0 < n \<Longrightarrow> concat (chunks_of n xs) = xs"
proof (induction n xs rule: chunks_of.induct)
  case (1 n xs)
  then show ?case by (subst chunks_of.simps) auto
qed

lemma length_chunks_of:
  "0 < n \<Longrightarrow> length (chunks_of n xs) = length xs div n + (if length xs mod n > 0 then 1 else 0)"
proof (induction n xs rule: chunks_of.induct)
  case (1 n xs)
  show ?case
  proof (cases "xs = [] \<or> length xs \<le> n")
    case True
    then show ?thesis
    proof (cases "xs = [] \<or> length xs = n")
      case False
      with True have "length xs < n" "xs \<noteq> []" by auto
      then show ?thesis using "1.prems" by (subst chunks_of.simps) simp
    next
      case True
      then show ?thesis using "1.prems" by (subst chunks_of.simps) auto
    qed
  next
    case False
    then have "length (chunks_of n xs) = Suc (length (chunks_of n (drop n xs)))"
      using "1.prems" by (subst chunks_of.simps) simp
    also have "length (chunks_of n (drop n xs)) = (length xs - n) div n + (if (length xs - n) mod n > 0 then 1 else 0)"
      using "1.IH" "1.prems" False by simp
    also have "Suc \<dots> = length xs div n + (if length xs mod n > 0 then 1 else 0)"
      using False "1.prems" by (simp add: le_div_geq le_mod_geq)
    finally show ?thesis .
  qed
qed

lemma unat_div_ceil_mod:
  "0 < unat b \<Longrightarrow> unat (div_ceil a b) = unat a div unat b + (if unat a mod unat b > 0 then 1 else 0)"
  for a :: "'a::len word"
proof -
  assume b: "0 < unat b"
  have m: "a mod b > 0 \<longleftrightarrow> unat a mod unat b > 0" by (simp add: word_less_unat unat_mod_distrib)
  have "unat (a div b + 1) = unat a div unat b + 1" if "unat a mod unat b > 0"
  proof -
    have "unat b \<noteq> 1" using that by auto
    then have "2 \<le> unat b" using b by linarith
    have "unat a \<noteq> 0" using that mod_less_eq_dividend [of "unat a" "unat b"] by linarith
    then have "unat a div unat b < unat a" using \<open>2 \<le> unat b\<close> by simp
    then have "unat a div unat b + 1 < 2 ^ LENGTH('a)" using unat_bound [of a] by linarith
    then show ?thesis using unat_add_exact [of "a div b" 1] by (cases "LENGTH('a) = 0") (simp_all add: unat_div_distrib)
  qed
  with m show ?thesis by (simp add: div_ceil_def unat_div_distrib)
qed

section \<open>Items\<close>

text \<open>What stays the same while items are produced.\<close>

definition same_mapping :: "sys \<Rightarrow> sys \<Rightarrow> bool" where
  "same_mapping s s' \<longleftrightarrow> s_world s' = s_world s \<and> i_map (s_mm s') = i_map (s_mm s)
     \<and> i_readers (s_mm s) \<le> i_readers (s_mm s') \<and> i_writer (s_mm s') = i_writer (s_mm s)
     \<and> vr_atomics (i_views (s_mm s')) = vr_atomics (i_views (s_mm s))"

lemma same_mapping_refl [simp]: "same_mapping s s"
  by (simp add: same_mapping_def)

lemma same_mapping_trans: "same_mapping s s' \<Longrightarrow> same_mapping s' s'' \<Longrightarrow> same_mapping s s''"
  by (simp add: same_mapping_def)

lemma slice_bytes_same: "same_mapping s s' \<Longrightarrow> slice_bytes s' v = slice_bytes s v"
  by (simp add: same_mapping_def slice_bytes_def split: mapped_slice.splits)

lemma chunk_item_ok:
  assumes "sys_ok s" "atomics_fit s" "read_free s" "locked (i_map (s_mm s))" "sh < SHARDS" "b \<le> e" "e \<le> length (s_bytes s)"
    and "chunk_item env sh b e s = (v, s')"
  shows "sys_ok s' \<and> atomics_fit s' \<and> same_mapping s s' \<and> slice_bytes s' v = sub_slice (s_bytes s) b e"
proof -
  obtain r w where reg: "view_register env sh b e (i_views (s_mm s)) = (r, w)"
    by (cases "view_register env sh b e (i_views (s_mm s))")
  note V = view_register_ok [OF reg sys_okD(4) [OF assms(1)] assms(5)]
  have nw: "\<not> i_writer (s_mm s)" using assms(3,4) by (simp add: read_free_def)
  have ok: "sys_ok (mm_upd (\<lambda>mm. mm\<lparr>i_views := w, i_readers := k\<rparr>) s)" for k
    by (rule sys_ok_cong [OF assms(1)]) (simp_all add: V(1) nw)
  show ?thesis
  proof (cases r)
    case (Inr h)
    with assms(8) reg have v: "v = Slice_Guarded h b e"
      and s': "s' = mm_upd (\<lambda>mm. mm\<lparr>i_views := w, i_readers := Suc (i_readers mm)\<rparr>) s"
      by (simp_all add: chunk_item_def)
    then show ?thesis
      using ok assms(2) V(2) by (simp add: same_mapping_def slice_bytes_def atomics_fit_def)
  next
    case (Inl c)
    let ?cp = "cs_dst (copy_out (vr_atomics w) (s_bytes s) b (replicate (e - b) 0))"
    from Inl assms(8) reg have v: "v = Slice_Snapshot ?cp" and s': "s' = mm_upd (\<lambda>mm. mm\<lparr>i_views := w\<rparr>) s"
      by (simp_all add: chunk_item_def)
    have "?cp = sub_slice (s_bytes s) b e"
      using copy_out_ok(1) [of "vr_atomics (i_views (s_mm s))" "s_bytes s" b "replicate (e - b) 0"] assms V(2)
      by (simp add: atomics_fit_def sys_okD(5))
    moreover have "sys_ok s'"
      unfolding s' by (rule sys_ok_cong [OF assms(1)]) (simp_all add: V(1) nw)
    ultimately show ?thesis
      using assms(2) V(2) by (simp add: same_mapping_def slice_bytes_def atomics_fit_def v s')
  qed
qed

section \<open>Iterating to the end\<close>

text \<open>A client that keeps every item; the fuel bounds the calls of \<open>next\<close>.\<close>

fun chunk_collect ::
  "nat \<Rightarrow> env \<Rightarrow> nat \<Rightarrow> chunk_iterator \<Rightarrow> sys \<Rightarrow> (mapped_slice list \<times> chunk_iterator \<times> sys) option" where
  "chunk_collect 0 env sh it s = None"
| "chunk_collect (Suc k) env sh it s =
     (case chunk_next env sh it s of
        None \<Rightarrow> None
      | Some (None, it', s') \<Rightarrow> Some ([], it', s')
      | Some (Some v, it', s') \<Rightarrow> map_option (\<lambda>(vs, r). (v # vs, r)) (chunk_collect k env sh it' s'))"

text \<open>The iterator of a mapping: it knows the length, which cannot change while it is pinned.\<close>

definition iterator_ok :: "chunk_iterator \<Rightarrow> sys \<Rightarrow> bool" where
  "iterator_ok it s \<longleftrightarrow> sys_ok s \<and> atomics_fit s \<and> read_free s \<and> unat (ci_total_len it) = length (s_bytes s)
     \<and> ci_locked it = locked (i_map (s_mm s)) \<and> ci_chunk_size it \<noteq> 0"

lemma chunk_next_ok:
  assumes "iterator_ok it s" "sh < SHARDS" "unat (ci_offset it) < length (s_bytes s)"
  obtains v it' s' where "chunk_next env sh it s = Some (Some v, it', s')" "iterator_ok it' s'" "same_mapping s s'"
    "unat (ci_offset it') = unat (ci_offset it) + min (length (s_bytes s) - unat (ci_offset it)) (unat (ci_chunk_size it))"
    "ci_chunk_size it' = ci_chunk_size it" "ci_total_len it' = ci_total_len it"
    "slice_bytes s' v = sub_slice (s_bytes s) (unat (ci_offset it)) (unat (ci_offset it'))"
proof -
  let ?B = "s_bytes s" and ?b = "unat (ci_offset it)"
  let ?fin = "ci_offset it + min (ci_total_len it - ci_offset it) (ci_chunk_size it)"
  let ?it = "it\<lparr>ci_offset := ?fin\<rparr>"
  have tot: "unat (ci_total_len it) = length ?B" and ne: "ci_chunk_size it \<noteq> 0"
    using assms(1) by (simp_all add: iterator_ok_def)
  have lt: "\<not> ci_total_len it \<le> ci_offset it" using assms(3) by (simp add: word_le_unat tot)
  have step: "unat (min (ci_total_len it - ci_offset it) (ci_chunk_size it)) = min (length ?B - ?b) (unat (ci_chunk_size it))"
    using lt by (simp add: min_def word_le_unat unat_sub_exact tot)
  have "?b + min (length ?B - ?b) (unat (ci_chunk_size it)) \<le> unat (ci_total_len it)" using assms(3) tot by simp
  then have "?b + min (length ?B - ?b) (unat (ci_chunk_size it)) < 2 ^ LENGTH(64)"
    using unat_bound [of "ci_total_len it"] by linarith
  then have fin: "unat ?fin = ?b + min (length ?B - ?b) (unat (ci_chunk_size it))"
    by (simp add: unat_add_exact step)
  have fin_le: "unat ?fin \<le> length ?B" "?b \<le> unat ?fin" using fin assms(3) by simp_all
  show thesis
  proof (cases "ci_locked it")
    case False
    then have "chunk_next env sh it s = Some (Some (Slice_Owned ?b (unat ?fin)), ?it, s)"
      using lt ne by (simp add: chunk_next_def Let_def)
    then show thesis
      using that [of "Slice_Owned ?b (unat ?fin)" ?it s] assms(1) fin
      by (simp add: iterator_ok_def slice_bytes_def)
  next
    case True
    obtain v s' where ci: "chunk_item env sh ?b (unat ?fin) s = (v, s')" by (cases "chunk_item env sh ?b (unat ?fin) s")
    have I: "sys_ok s'" "atomics_fit s'" "same_mapping s s'" "slice_bytes s' v = sub_slice ?B ?b (unat ?fin)"
      using chunk_item_ok [OF _ _ _ _ assms(2) fin_le(2,1) ci] True assms(1) by (simp_all add: iterator_ok_def)
    have "chunk_next env sh it s = Some (Some v, ?it, s')"
      using lt ne True ci assms(1) by (simp add: chunk_next_def Let_def iterator_ok_def)
    moreover have "iterator_ok ?it s'"
      using I assms(1) by (simp add: iterator_ok_def same_mapping_def read_free_def)
    ultimately show thesis using that [of v ?it s'] I fin by simp
  qed
qed

lemma chunks_of_drop:
  assumes "a < length xs" "0 < n"
  shows "chunks_of n (drop a xs) = sub_slice xs a (a + min (length xs - a) n) # chunks_of n (drop (a + min (length xs - a) n) xs)"
proof -
  have "take n (drop a xs) = sub_slice xs a (a + min (length xs - a) n)"
    by (simp add: sub_slice_def min_def)
  moreover have "drop n (drop a xs) = drop (a + min (length xs - a) n) xs"
    by (simp add: min_def add.commute)
  ultimately show ?thesis using assms by (subst chunks_of.simps) simp
qed

lemma chunk_collect_ok:
  assumes "sh < SHARDS"
  shows "iterator_ok it s \<Longrightarrow> length (s_bytes s) - unat (ci_offset it) < k \<Longrightarrow>
    \<exists>vs it' s'. chunk_collect k env sh it s = Some (vs, it', s') \<and> same_mapping s s' \<and> iterator_ok it' s'
      \<and> map (slice_bytes s') vs = chunks_of (unat (ci_chunk_size it)) (drop (unat (ci_offset it)) (s_bytes s))
      \<and> chunk_next env sh it' s' = Some (None, it', s')"
proof (induction k arbitrary: it s)
  case (Suc k)
  show ?case
  proof (cases "unat (ci_offset it) < length (s_bytes s)")
    case False
    then have "chunk_next env sh it s = Some (None, it, s)"
      using Suc.prems(1) by (simp add: chunk_next_def iterator_ok_def word_le_unat)
    then show ?thesis using False Suc.prems(1) by simp
  next
    case True
    from chunk_next_ok [OF Suc.prems(1) assms True] obtain v it1 s1 where
      n: "chunk_next env sh it s = Some (Some v, it1, s1)" "iterator_ok it1 s1" "same_mapping s s1"
      "unat (ci_offset it1) = unat (ci_offset it) + min (length (s_bytes s) - unat (ci_offset it)) (unat (ci_chunk_size it))"
      "ci_chunk_size it1 = ci_chunk_size it"
      "slice_bytes s1 v = sub_slice (s_bytes s) (unat (ci_offset it)) (unat (ci_offset it1))" by metis
    have pos: "0 < unat (ci_chunk_size it)" using Suc.prems(1) by (simp add: iterator_ok_def unat_gt_0)
    have b: "s_bytes s1 = s_bytes s" using n(3) by (simp add: same_mapping_def)
    have "0 < min (length (s_bytes s) - unat (ci_offset it)) (unat (ci_chunk_size it))" using True pos by simp
    then have "length (s_bytes s1) - unat (ci_offset it1) < k" unfolding b using Suc.prems(2) n(4) True by linarith
    from Suc.IH [OF n(2) this] obtain vs it' s' where
      c: "chunk_collect k env sh it1 s1 = Some (vs, it', s')" "same_mapping s1 s'" "iterator_ok it' s'"
      "map (slice_bytes s') vs = chunks_of (unat (ci_chunk_size it1)) (drop (unat (ci_offset it1)) (s_bytes s1))"
      "chunk_next env sh it' s' = Some (None, it', s')" by blast
    have "map (slice_bytes s') (v # vs) = chunks_of (unat (ci_chunk_size it)) (drop (unat (ci_offset it)) (s_bytes s))"
      using c(4) n(4-6) b slice_bytes_same [OF c(2), of v] chunks_of_drop [OF True pos] by simp
    moreover have "same_mapping s s'" using n(3) c(2) same_mapping_trans by blast
    ultimately show ?thesis using n(1) c by auto
  qed
qed simp

lemma chunk_iterator_new_ok:
  assumes "sys_ok s" "atomics_fit s" "read_free s" "n \<noteq> 0"
  obtains it s0 where "chunk_iterator_new n s = Some (it, s0)" "iterator_ok it s0" "same_mapping s s0"
    "ci_offset it = 0" "ci_chunk_size it = n" "locked (i_map (s_mm s)) \<Longrightarrow> 0 < i_readers (s_mm s0)"
proof (cases "locked (i_map (s_mm s))")
  case False
  then obtain m where m: "i_map (s_mm s) = Ro m" by (cases "i_map (s_mm s)") simp_all
  then show thesis
    using that [of "\<lparr>ci_locked = False, ci_total_len = m_len m, ci_chunk_size = n, ci_offset = 0\<rparr>" s] assms sys_okD(5) [OF assms(1)]
    by (simp add: chunk_iterator_new_def iterator_ok_def)
next
  case True
  let ?s = "mm_upd (\<lambda>mm. mm\<lparr>i_readers := Suc (i_readers mm)\<rparr>) s"
  let ?it = "\<lparr>ci_locked = True, ci_total_len = m_len (s_mapping s), ci_chunk_size = n, ci_offset = 0\<rparr>"
  have nw: "\<not> i_writer (s_mm s)" using assms(3) True by (simp add: read_free_def)
  have "sys_ok ?s" by (rule sys_ok_cong [OF assms(1)]) (simp_all add: nw sys_okD(4) [OF assms(1)])
  moreover have "chunk_iterator_new n s = Some (?it, ?s)"
    using True assms(3) by (cases "i_map (s_mm s)") (simp_all add: chunk_iterator_new_def)
  ultimately show thesis
    using that [of ?it ?s] True assms sys_okD(5) [OF assms(1)]
    by (simp add: iterator_ok_def same_mapping_def atomics_fit_def read_free_def nw)
qed

section \<open>Mutable iteration\<close>

text \<open>The closure applied to the chunks of a list in order, up to its first error; the chunks not reached
  stay as they are.\<close>

function chunk_map ::
  "('st, 'e) chunk_closure \<Rightarrow> nat \<Rightarrow> nat \<Rightarrow> 'st \<Rightarrow> byte list \<Rightarrow> ('e + unit) \<times> nat \<times> 'st \<times> byte list" where
  "chunk_map f n off st xs =
     (if n = 0 \<or> xs = [] then (Inr (), off, st, xs)
      else case f st (of_nat off) (take n xs) of
        (Inl e, d, st') \<Rightarrow> (Inl e, off + length (take n xs), st', d @ drop n xs)
      | (Inr _, d, st') \<Rightarrow>
          (case chunk_map f n (off + length (take n xs)) st' (drop n xs) of
             (r, off', st'', ys) \<Rightarrow> (r, off', st'', d @ ys)))"
  by pat_completeness auto
termination by (relation "measure (\<lambda>(f, n, off, st, xs). length xs)") (auto simp: diff_less)

declare chunk_map.simps [simp del]

text \<open>A \<open>&mut [u8]\<close> keeps its length.\<close>

definition keeps_length :: "('st, 'e) chunk_closure \<Rightarrow> bool" where
  "keeps_length f \<longleftrightarrow> (\<forall>st off xs. length (fst (snd (f st off xs))) = length xs)"

lemma store_at_take_drop:
  assumes "sys_ok s" "off + length d \<le> length (s_bytes s)"
  shows "sys_ok (store_at off d s)" "length (s_bytes (store_at off d s)) = length (s_bytes s)"
    "take (off + length d) (s_bytes (store_at off d s)) = take off (s_bytes s) @ d"
    "drop (off + length d) (s_bytes (store_at off d s)) = drop (off + length d) (s_bytes s)"
proof -
  show "sys_ok (store_at off d s)" by (rule managed.store_valid [OF assms])
  have b: "s_bytes (store_at off d s) = splice_at (s_bytes s) off d" by (rule managed.contents_store [OF assms])
  show "length (s_bytes (store_at off d s)) = length (s_bytes s)" by (rule managed.store_length [OF assms])
  show "take (off + length d) (s_bytes (store_at off d s)) = take off (s_bytes s) @ d"
    "drop (off + length d) (s_bytes (store_at off d s)) = drop (off + length d) (s_bytes s)"
    using assms(2) by (simp_all add: b splice_at_def min_absorb2)
qed

text \<open>Stores do not touch counters, lock, views and mode.\<close>

definition same_control :: "sys \<Rightarrow> sys \<Rightarrow> bool" where
  "same_control s s' \<longleftrightarrow> i_written (s_mm s') = i_written (s_mm s) \<and> i_views (s_mm s') = i_views (s_mm s)
     \<and> i_readers (s_mm s') = i_readers (s_mm s) \<and> i_writer (s_mm s') = i_writer (s_mm s)
     \<and> tracks_writes (s_mm s') = tracks_writes (s_mm s)"

lemma same_control_store: "same_control s s' \<Longrightarrow> same_control s (store_at b d s')"
  by (simp add: same_control_def)

lemma drive_loop_map:
  assumes "keeps_length f" "0 < n"
  shows "sys_ok s \<Longrightarrow> tot = length (s_bytes s) \<Longrightarrow> off \<le> tot \<Longrightarrow> same_control s0 s \<Longrightarrow>
    drive_loop f n tot off st s = (r, off', st', s') \<Longrightarrow>
    \<exists>ys. chunk_map f n off st (drop off (s_bytes s)) = (r, off', st', ys)
      \<and> s_bytes s' = take off (s_bytes s) @ ys \<and> sys_ok s' \<and> same_control s0 s' \<and> off' \<le> tot"
proof (induction "tot - off" arbitrary: off st s rule: less_induct)
  case less
  let ?B = "s_bytes s"
  show ?case
  proof (cases "tot \<le> off")
    case True
    with less.prems(5) have "r = Inr ()" "off' = off" "st' = st" "s' = s" by (subst (asm) drive_loop.simps; simp)+
    with True less.prems show ?thesis by (simp add: chunk_map.simps)
  next
    case False
    let ?fin = "off + min (tot - off) n"
    have ck: "take n (drop off ?B) = sub_slice ?B off ?fin" "length (take n (drop off ?B)) = min (tot - off) n"
      "drop n (drop off ?B) = drop ?fin ?B"
      using False less.prems(2) by (simp_all add: sub_slice_def min_def add.commute)
    obtain r1 d st1 where f: "f st (of_nat off) (sub_slice ?B off ?fin) = (r1, d, st1)"
      by (metis surj_pair)
    have d: "length d = min (tot - off) n"
      using assms(1) f ck(1,2) unfolding keeps_length_def by (metis fst_conv snd_conv)
    then have in_range: "off + length d \<le> length ?B" and fin: "?fin = off + length d"
      using False less.prems(2) by simp_all
    note S = store_at_take_drop [OF less.prems(1) in_range]
    have ne: "drop off ?B \<noteq> []" using False less.prems(2) by simp
    show ?thesis
    proof (cases r1)
      case (Inl e)
      then have res: "r = Inl e" "off' = ?fin" "st' = st1" "s' = store_at off d s"
        using False assms(2) f less.prems(5) by (subst (asm) drive_loop.simps; simp add: Let_def)+
      moreover have "chunk_map f n off st (drop off ?B) = (Inl e, ?fin, st1, d @ drop ?fin ?B)"
        using ne assms(2) f Inl ck by (simp add: chunk_map.simps [of f n off])
      moreover have "s_bytes (store_at off d s) = take off ?B @ d @ drop ?fin ?B"
        using append_take_drop_id [of ?fin "s_bytes (store_at off d s)"] S(3,4) unfolding fin by simp
      ultimately show ?thesis using S(1) same_control_store [OF less.prems(4)] False by simp
    next
      case (Inr u)
      have dl: "drive_loop f n tot ?fin st1 (store_at off d s) = (r, off', st', s')"
        using False assms(2) f Inr less.prems(5) by (subst (asm) drive_loop.simps) (simp add: Let_def)
      have cm: "chunk_map f n off st (drop off ?B) =
          (case chunk_map f n ?fin st1 (drop ?fin ?B) of (r, off', st'', ys) \<Rightarrow> (r, off', st'', d @ ys))"
        using ne assms(2) f Inr ck by (simp add: chunk_map.simps [of f n off])
      have "0 < min (tot - off) n" using False assms(2) by simp
      then have "tot - ?fin < tot - off" "?fin \<le> tot" using False by linarith+
      from less.hyps [OF this(1) S(1) _ this(2) same_control_store [OF less.prems(4)] dl] obtain ys where
        "chunk_map f n ?fin st1 (drop ?fin (s_bytes (store_at off d s))) = (r, off', st', ys)"
        "s_bytes s' = take ?fin (s_bytes (store_at off d s)) @ ys" "sys_ok s'" "same_control s0 s'" "off' \<le> tot"
        using S(2) less.prems(2) by auto
      with S(3,4) cm fin show ?thesis by simp
    qed
  qed
qed

section \<open>Properties\<close>

text \<open>C31. The chunk iterator partitions the mapping: for every kind of mapping, chunk size and set of live
  atomic views, iteration ends after exactly \<open>size_hint\<close> items, the items show the contents cut at the
  multiples of the chunk size, so their concatenation is the contents; and while the iterator and its
  items live on a writable mapping no write lock can be had.\<close>

theorem chunks_partition:
  assumes "sys_ok s" "atomics_fit s" "read_free s" "n \<noteq> 0" "sh < SHARDS"
  shows "\<exists>it s0 vs it' s'. chunk_iterator_new n s = Some (it, s0)
    \<and> chunk_collect (Suc (length (s_bytes s))) env sh it s0 = Some (vs, it', s')
    \<and> map (slice_bytes s') vs = chunks_of (unat n) (s_bytes s) \<and> concat (map (slice_bytes s') vs) = s_bytes s
    \<and> length vs = unat (fst (chunk_size_hint it)) \<and> s_bytes s' = s_bytes s
    \<and> (locked (i_map (s_mm s)) \<longrightarrow> \<not> write_free s')"
proof -
  obtain it s0 where new: "chunk_iterator_new n s = Some (it, s0)" "iterator_ok it s0" "same_mapping s s0"
    "ci_offset it = 0" "ci_chunk_size it = n" "locked (i_map (s_mm s)) \<Longrightarrow> 0 < i_readers (s_mm s0)"
    using chunk_iterator_new_ok [OF assms(1-4)] by blast
  have b: "s_bytes s0 = s_bytes s" using new(3) by (simp add: same_mapping_def)
  have pos: "0 < unat n" using assms(4) by (simp add: unat_gt_0)
  obtain vs it' s' where c: "chunk_collect (Suc (length (s_bytes s))) env sh it s0 = Some (vs, it', s')" "same_mapping s0 s'"
    "map (slice_bytes s') vs = chunks_of (unat n) (s_bytes s)"
    using chunk_collect_ok [OF assms(5) new(2), of "Suc (length (s_bytes s))" env] new(4,5) b by auto
  have "unat (ci_total_len it) = length (s_bytes s)" using new(2) b by (simp add: iterator_ok_def)
  then have "unat (fst (chunk_size_hint it)) = length vs"
    using arg_cong [OF c(3), of length] new(4,5) assms(4) pos
    by (simp add: chunk_size_hint_def Let_def unat_div_ceil_mod unat_saturating_sub length_chunks_of)
  moreover have "s_bytes s' = s_bytes s" using c(2) b by (simp add: same_mapping_def)
  moreover have "\<not> write_free s'" if "locked (i_map (s_mm s))"
    using new(6) [OF that] c(2) by (simp add: same_mapping_def write_free_def)
  ultimately show ?thesis using new(1) c(1,3) concat_chunks_of [OF pos] by auto
qed

theorem chunks_partition_witness:
  "\<exists>it s0 vs it' s'. chunk_iterator_new 3 (sample_sys Never) = Some (it, s0)
    \<and> chunk_collect 9 sample_env 0 it s0 = Some (vs, it', s')
    \<and> map (slice_bytes s') vs = [[10, 11, 12], [13, 14, 15], [16, 17]]"
proof -
  have bytes: "mapping_bytes sample_world sample_mapping = sample_bytes"
    by (simp add: mapping_bytes_def) (simp add: sample_mapping_def sub_slice_def)
  have "chunks_of 3 sample_bytes = [[10, 11, 12], [13, 14, 15], [16, 17]]"
    by (simp add: sample_bytes_def chunks_of.simps)
  with chunks_partition [of "sample_sys Never" 3 0 sample_env] show ?thesis
    by (auto simp: bytes SHARDS_def)
qed

text \<open>C32. Mutable iteration is a map over the chunks: \<open>drive\<close> (and so \<open>for_each_mut\<close>) refuses a mapping
  nothing can write, waits while a guard is held, and otherwise leaves exactly the contents of the
  reference \<open>chunk_map\<close>: every chunk up to and including the one where the closure failed is replaced by
  what the closure left in it, the rest is untouched, the closure's error is returned, and on a
  read-write mapping exactly the bytes handed out are added to the pending counter.\<close>

theorem chunks_mut_map:
  assumes "sys_ok s" "keeps_length f"
  shows "case chunks_drive f n st s of
      None \<Rightarrow> locked (i_map (s_mm s)) \<and> n \<noteq> 0 \<and> \<not> write_free s
    | Some (Inl e, st', s') \<Rightarrow> \<not> locked (i_map (s_mm s)) \<and> (\<exists>msg. e = InvalidMode msg) \<and> st' = st \<and> s' = s
    | Some (Inr r, st', s') \<Rightarrow> locked (i_map (s_mm s))
        \<and> (\<exists>off. chunk_map f (unat n) 0 st (s_bytes s) = (r, off, st', s_bytes s')
             \<and> i_written (s_mm s') = i_written (s_mm s) + (if tracks_writes (s_mm s) then of_nat off else 0)
             \<and> off \<le> length (s_bytes s))
        \<and> sys_ok s' \<and> write_free s' = write_free s"
proof -
  consider (ro) "\<not> locked (i_map (s_mm s))" | (zero) "locked (i_map (s_mm s))" "n = 0"
    | (busy) "locked (i_map (s_mm s))" "n \<noteq> 0" "\<not> write_free s"
    | (run) "locked (i_map (s_mm s))" "n \<noteq> 0" "write_free s" by blast
  then show ?thesis
  proof cases
    case run
    have pos: "0 < unat n" using run(2) by (simp add: unat_gt_0)
    obtain r off st' s1 where d: "drive_loop f (unat n) (unat (m_len (s_mapping s))) 0 st s = (r, off, st', s1)"
      by (metis surj_pair)
    have D: "\<exists>ys. chunk_map f (unat n) 0 st (drop 0 (s_bytes s)) = (r, off, st', ys)
      \<and> s_bytes s1 = take 0 (s_bytes s) @ ys \<and> sys_ok s1 \<and> same_control s s1 \<and> off \<le> unat (m_len (s_mapping s))"
      by (rule drive_loop_map [OF assms(2) pos assms(1) _ _ _ d]) (simp_all add: sys_okD(5) [OF assms(1)] same_control_def)
    let ?s = "mm_upd (record_write (of_nat off)) s1"
    have res: "chunks_drive f n st s = Some (Inr r, st', ?s)"
      using run d by (simp add: chunks_drive_def write_lock_def)
    have "sys_ok ?s"
      by (rule sys_ok_cong [of s1]) (use D sys_okD(4) [of s1] in \<open>auto simp: record_write_def sys_ok_def\<close>)
    with D res run(1) sys_okD(5) [OF assms(1)] show ?thesis
      by (auto simp: record_write_def same_control_def write_free_def)
  qed (auto simp: chunks_drive_def write_lock_def chunk_map.simps assms(1))
qed

theorem chunks_mut_map_witness:
  "case chunks_drive (\<lambda>st off xs. (Inr () :: unit + unit, map (\<lambda>x. x + 1) xs, st)) 3 () (sample_sys Never) of
     Some (Inr r, _, s') \<Rightarrow> s_bytes s' = [11, 12, 13, 14, 15, 16, 17, 18] | _ \<Rightarrow> False"
proof -
  let ?f = "\<lambda>st off xs. (Inr () :: unit + unit, map (\<lambda>x. x + 1) xs, st :: unit)"
  have k: "keeps_length ?f" by (simp add: keeps_length_def)
  have bytes: "mapping_bytes sample_world sample_mapping = sample_bytes"
    by (simp add: mapping_bytes_def) (simp add: sample_mapping_def sub_slice_def)
  have "chunk_map ?f 3 0 () sample_bytes = (Inr (), 8, (), [11, 12, 13, 14, 15, 16, 17, 18])"
    by (simp add: sample_bytes_def chunk_map.simps)
  with chunks_mut_map [OF sample_sys_ok [of Never] k, of 3 "()"] show ?thesis
    by (auto simp: bytes split: option.splits sum.splits)
qed

end
