(* ===== verification/Atomic.thy ===== *)
theory Atomic
  imports Mmap_Props
begin

text \<open>
  \<open>src/atomic.rs\<close>: views of atomic integers in a mapping. A view holds a registration, a read guard and a
  pointer; an element is reached through the pointer, as an offset from the mapping's base address.
  The value of an element is its bytes in memory order. Every view of a managed mapping is taken by
  \<open>atomic_parts\<close>; \<open>view_parts\<close>, which anonymous mappings share, is a function of the lock's state, the
  mapping and the registry.
\<close>

section \<open>Definitions\<close>

datatype atomic_cell = AtomicU32 | AtomicU64

text \<open>\<open>size_of\<close> and \<open>align_of\<close> of the two types.\<close>

fun cell_size :: "atomic_cell \<Rightarrow> u64" where
  "cell_size AtomicU32 = 4"
| "cell_size AtomicU64 = 8"

record atomic_view =
  av_cell :: atomic_cell
  av_reg :: atomic_reg
  av_ptr :: addr
  av_pending :: bool

record atomic_slice_view = atomic_view +
  av_len :: usize

type_synonym atomic_view_parts = "atomic_reg \<times> addr"

definition view_parts ::
  "atomic_cell \<Rightarrow> u64 \<Rightarrow> usize \<Rightarrow> bool \<Rightarrow> mapping \<Rightarrow> view_registry \<Rightarrow>
     ((mmap_io_error + atomic_view_parts) \<times> view_registry) option" where
  "view_parts c off n free m v =
     (let align = cell_size c; sz = cell_size c
      in if off mod align \<noteq> 0 then Some (Inl (Misaligned align off), v)
         else
           let len = saturating_mul sz n
           in if \<not> free then None
              else if saturating_add off len > m_len m then Some (Inl (OutOfBounds off len (m_len m)), v)
              else (case register_atomic (unat off) (unat (off + len)) (unat sz) v of
                      (Inl k, v') \<Rightarrow> Some (Inl (from_conflict k), v')
                    | (Inr reg, v') \<Rightarrow> Some (Inr (reg, raw_as_ptr m + off), v')))"

definition single :: "atomic_cell \<Rightarrow> atomic_view_parts \<Rightarrow> bool \<Rightarrow> atomic_view" where
  "single c parts pending =
     (case parts of (reg, p) \<Rightarrow> \<lparr>av_cell = c, av_reg = reg, av_ptr = p, av_pending = pending\<rparr>)"

definition slice_view :: "atomic_cell \<Rightarrow> atomic_view_parts \<Rightarrow> usize \<Rightarrow> bool \<Rightarrow> atomic_slice_view" where
  "slice_view c parts n pending =
     (case parts of (reg, p) \<Rightarrow>
        \<lparr>av_cell = c, av_reg = reg, av_ptr = p, av_pending = pending, av_len = n\<rparr>)"

definition atomic_parts :: "atomic_cell \<Rightarrow> u64 \<Rightarrow> usize \<Rightarrow> atomic_view_parts op" where
  "atomic_parts c off n s =
     (case write_lock ''atomic views require a ReadWrite or writable CopyOnWrite mapping'' s of
        Inl e \<Rightarrow> Some (Inl e, s)
      | Inr _ \<Rightarrow>
          (case view_parts c off n (read_free s) (s_mapping s) (i_views (s_mm s)) of
             None \<Rightarrow> None
           | Some (Inl e, v) \<Rightarrow> Some (Inl e, mm_upd (\<lambda>mm. mm\<lparr>i_views := v\<rparr>) s)
           | Some (Inr parts, v) \<Rightarrow>
               Some (Inr parts, mm_upd (\<lambda>mm. mm\<lparr>i_views := v, i_readers := Suc (i_readers mm)\<rparr>) s)))"

text \<open>The four accessors; \<open>pending_counter\<close> is there exactly when writes are tracked.\<close>

definition atomic_single :: "atomic_cell \<Rightarrow> u64 \<Rightarrow> atomic_view op" where
  "atomic_single c off =
     op_bind (atomic_parts c off 1) (\<lambda>parts s. Some (Inr (single c parts (tracks_writes (s_mm s))), s))"

definition atomic_slice :: "atomic_cell \<Rightarrow> u64 \<Rightarrow> usize \<Rightarrow> atomic_slice_view op" where
  "atomic_slice c off n =
     op_bind (atomic_parts c off n) (\<lambda>parts s. Some (Inr (slice_view c parts n (tracks_writes (s_mm s))), s))"

definition atomic_u64 :: "u64 \<Rightarrow> atomic_view op" where
  "atomic_u64 off = atomic_single AtomicU64 off"

definition atomic_u32 :: "u64 \<Rightarrow> atomic_view op" where
  "atomic_u32 off = atomic_single AtomicU32 off"

definition atomic_u64_slice :: "u64 \<Rightarrow> usize \<Rightarrow> atomic_slice_view op" where
  "atomic_u64_slice off n = atomic_slice AtomicU64 off n"

definition atomic_u32_slice :: "u64 \<Rightarrow> usize \<Rightarrow> atomic_slice_view op" where
  "atomic_u32_slice off n = atomic_slice AtomicU32 off n"

text \<open>\<open>Deref\<close>: the address of the value, and of an element of the slice (\<open>None\<close> where indexing panics);
  loads and stores at an address.\<close>

definition view_deref :: "atomic_view \<Rightarrow> addr" where
  "view_deref v = av_ptr v"

definition slice_deref :: "atomic_slice_view \<Rightarrow> nat \<Rightarrow> addr option" where
  "slice_deref v i = (if i < unat (av_len v) then Some (av_ptr v + of_nat i * cell_size (av_cell v)) else None)"

definition cell_offset :: "addr \<Rightarrow> sys \<Rightarrow> nat" where
  "cell_offset p s = unat (p - raw_as_ptr (s_mapping s))"

definition cell_load :: "atomic_cell \<Rightarrow> addr \<Rightarrow> sys \<Rightarrow> byte list" where
  "cell_load c p s = sub_slice (s_bytes s) (cell_offset p s) (cell_offset p s + unat (cell_size c))"

definition cell_store :: "addr \<Rightarrow> byte list \<Rightarrow> sys \<Rightarrow> sys" where
  "cell_store p bs s = store_at (cell_offset p s) bs s"

text \<open>\<open>Drop\<close>: the bytes count as written, then the fields go in order: registration, guard.\<close>

definition release_view :: "atomic_reg \<Rightarrow> bool \<Rightarrow> u64 \<Rightarrow> sys \<Rightarrow> sys" where
  "release_view reg pending n s =
     mm_upd (\<lambda>mm. mm\<lparr>i_written := (if pending then i_written mm + n else i_written mm),
                     i_views := drop_atomic reg (i_views mm), i_readers := i_readers mm - 1\<rparr>) s"

definition drop_atomic_view :: "atomic_view \<Rightarrow> sys \<Rightarrow> sys" where
  "drop_atomic_view v = release_view (av_reg v) (av_pending v) (cell_size (av_cell v))"

definition drop_atomic_slice :: "atomic_slice_view \<Rightarrow> sys \<Rightarrow> sys" where
  "drop_atomic_slice v =
     release_view (av_reg v) (av_pending v) (saturating_mul (cell_size (av_cell v)) (av_len v))"

section \<open>Facts\<close>

lemma cell_size_cases: "unat (cell_size c) = 4 \<or> unat (cell_size c) = 8"
  by (cases c) simp_all

lemma cell_size_pos [simp]: "0 < unat (cell_size c)"
  using cell_size_cases [of c] by auto

lemma cell_size_nonzero [simp]: "cell_size c \<noteq> 0"
  by (cases c) simp_all

lemma cell_aligned_iff: "off mod cell_size c = 0 \<longleftrightarrow> unat (cell_size c) dvd unat off"
  by (simp add: word_unat_eq_iff unat_mod_distrib dvd_eq_mod_eq_0)

text \<open>A request is in range when its last byte is, counted without overflow.\<close>

definition request_fits :: "atomic_cell \<Rightarrow> u64 \<Rightarrow> usize \<Rightarrow> usize \<Rightarrow> bool" where
  "request_fits c off n tot \<longleftrightarrow> unat off + unat (cell_size c) * unat n \<le> unat tot"

lemma request_fits_iff:
  assumes "unat tot < 2 ^ 63"
  shows "\<not> saturating_add off (saturating_mul (cell_size c) n) > tot \<longleftrightarrow> request_fits c off n tot"
    and "request_fits c off n tot \<Longrightarrow>
      unat (off + saturating_mul (cell_size c) n) = unat off + unat (cell_size c) * unat n"
proof -
  have e: "unat (saturating_mul (cell_size c) n) = min (unat (cell_size c) * unat n) (2 ^ 64 - 1)"
    by (simp add: unat_saturating_mul)
  show "\<not> saturating_add off (saturating_mul (cell_size c) n) > tot \<longleftrightarrow> request_fits c off n tot"
    using assms by (auto simp: word_less_unat unat_saturating_add e request_fits_def not_less)
  show "unat (off + saturating_mul (cell_size c) n) = unat off + unat (cell_size c) * unat n"
    if "request_fits c off n tot"
  proof -
    have "unat (saturating_mul (cell_size c) n) = unat (cell_size c) * unat n"
      using that assms by (simp add: e request_fits_def)
    then show ?thesis using that assms by (subst unat_add_exact) (simp_all add: request_fits_def)
  qed
qed

text \<open>The checks in their order, without wrap-around.\<close>

lemma view_parts_eq:
  assumes "unat (m_len m) < 2 ^ 63"
  shows "view_parts c off n free m v =
    (if \<not> unat (cell_size c) dvd unat off then Some (Inl (Misaligned (cell_size c) off), v)
     else if \<not> free then None
     else if \<not> request_fits c off n (m_len m)
     then Some (Inl (OutOfBounds off (saturating_mul (cell_size c) n) (m_len m)), v)
     else (case register_atomic (unat off) (unat off + unat (cell_size c) * unat n) (unat (cell_size c)) v of
             (Inl k, v') \<Rightarrow> Some (Inl (from_conflict k), v')
           | (Inr reg, v') \<Rightarrow> Some (Inr (reg, raw_as_ptr m + off), v')))"
  using request_fits_iff [where c = c and off = off and n = n, OF assms] cell_aligned_iff [of off c]
  by (auto simp: view_parts_def Let_def)

text \<open>What taking a view does to the registry: an empty view registers nothing, any other is one more
  live atomic view.\<close>

definition registered :: "nat \<Rightarrow> nat \<Rightarrow> nat \<Rightarrow> atomic_reg \<Rightarrow> view_registry \<Rightarrow> view_registry \<Rightarrow> bool" where
  "registered b e sz reg v v' \<longleftrightarrow>
     (if b = e then reg = Atomic_Reg None \<and> v' = v
      else \<exists>i. reg = Atomic_Reg (Some i) \<and> atomic_lookup (vr_atomics v) i = None
        \<and> atomic_lookup (vr_atomics v') = (atomic_lookup (vr_atomics v))(i \<mapsto> (b, e, sz))
        \<and> as_entries (vr_atomics v') = as_entries (vr_atomics v) @ [entry_of (b, e, sz) i])"

lemma register_atomic_registered:
  assumes "registry_ok v" "atomic_room (vr_atomics v)" "register_atomic b e sz v = (Inr reg, v')"
  shows "registry_ok v'" "plain_lookup v' = plain_lookup v" "registered b e sz reg v v'"
proof -
  show "registry_ok v'" "registered b e sz reg v v'" "plain_lookup v' = plain_lookup v"
    using register_atomic_ok [OF assms(1,2) _ assms(3)] assms(1,3)
    by (cases "b = e"; auto simp: registered_def register_atomic_empty)+
qed

lemma drop_registered:
  assumes "registry_ok v'" "registered b e sz reg v v'"
  shows "registry_ok (drop_atomic reg v')" "plain_lookup (drop_atomic reg v') = plain_lookup v'"
    "atomic_lookup (vr_atomics (drop_atomic reg v')) = atomic_lookup (vr_atomics v)"
  using drop_atomic_ok [OF assms(1), of reg] assms(2)
  by (auto simp: registered_def fun_eq_iff split: if_splits)

lemma sys_ok_views:
  assumes "sys_ok s" "registry_ok v" "\<not> i_writer (s_mm s) \<or> r = 0"
  shows "sys_ok (mm_upd (\<lambda>mm. mm\<lparr>i_written := p, i_views := v, i_readers := r\<rparr>) s)"
  using assms by (intro sys_ok_cong [OF assms(1)]) (auto simp: same_files_def)

lemma atomic_parts_eq:
  assumes "sys_ok s"
  shows "atomic_parts c off n s =
    (if \<not> locked (i_map (s_mm s))
     then Some (Inl (InvalidMode (if i_mode (s_mm s) = CopyOnWrite then ERR_COW_READ_ONLY
            else ''atomic views require a ReadWrite or writable CopyOnWrite mapping'')), s)
     else if \<not> unat (cell_size c) dvd unat off then Some (Inl (Misaligned (cell_size c) off), s)
     else if \<not> read_free s then None
     else if \<not> request_fits c off n (m_len (s_mapping s))
     then Some (Inl (OutOfBounds off (saturating_mul (cell_size c) n) (m_len (s_mapping s))), s)
     else (case register_atomic (unat off) (unat off + unat (cell_size c) * unat n) (unat (cell_size c))
                  (i_views (s_mm s)) of
             (Inl k, v) \<Rightarrow> Some (Inl (from_conflict k), s)
           | (Inr reg, v) \<Rightarrow> Some (Inr (reg, raw_as_ptr (s_mapping s) + off),
               mm_upd (\<lambda>mm. mm\<lparr>i_views := v, i_readers := Suc (i_readers mm)\<rparr>) s)))"
  using register_atomic_refused(1) [OF sys_okD(4) [OF assms]] sys_okD(6) [OF assms]
  by (auto simp: atomic_parts_def write_lock_def view_parts_eq split: prod.splits sum.splits)

text \<open>The elements of a view are aligned and inside the mapping.\<close>

lemma registered_fits:
  assumes "registered (unat off) (unat off + unat (cell_size c) * unat n) (unat (cell_size c)) reg v v'"
    and "\<forall>a \<in> set (as_entries (vr_atomics v)). entry_fits k a"
    and "unat (cell_size c) dvd unat off" "unat off + unat (cell_size c) * unat n \<le> k"
  shows "\<forall>a \<in> set (as_entries (vr_atomics v')). entry_fits k a"
  using assms cell_size_cases [of c]
  by (auto simp: registered_def entry_fits_def entry_of_def split: if_splits)

text \<open>A view that was granted.\<close>

definition granted :: "atomic_cell \<Rightarrow> u64 \<Rightarrow> usize \<Rightarrow> atomic_reg \<Rightarrow> sys \<Rightarrow> sys \<Rightarrow> bool" where
  "granted c off n reg s s' \<longleftrightarrow> sys_ok s' \<and> atomics_fit s' \<and> s_world s' = s_world s
     \<and> i_map (s_mm s') = i_map (s_mm s) \<and> i_readers (s_mm s') = Suc (i_readers (s_mm s))
     \<and> i_written (s_mm s') = i_written (s_mm s) \<and> \<not> i_writer (s_mm s')
     \<and> plain_lookup (i_views (s_mm s')) = plain_lookup (i_views (s_mm s))
     \<and> registered (unat off) (unat off + unat (cell_size c) * unat n) (unat (cell_size c)) reg
         (i_views (s_mm s)) (i_views (s_mm s'))"

lemma atomic_parts_granted:
  assumes "sys_ok s" "atomics_fit s" "atomic_room (vr_atomics (i_views (s_mm s)))"
    and "atomic_parts c off n s = Some (Inr (reg, p), s')"
  shows "granted c off n reg s s'" "p = raw_as_ptr (s_mapping s) + off" "locked (i_map (s_mm s))"
    "unat (cell_size c) dvd unat off" "request_fits c off n (m_len (s_mapping s))" "read_free s"
proof -
  from assms(4) show f: "p = raw_as_ptr (s_mapping s) + off" "locked (i_map (s_mm s))"
    "unat (cell_size c) dvd unat off" "request_fits c off n (m_len (s_mapping s))" "read_free s"
    by (auto simp: atomic_parts_eq [OF assms(1)] split: if_splits prod.splits sum.splits)
  obtain v where reg: "register_atomic (unat off) (unat off + unat (cell_size c) * unat n) (unat (cell_size c))
        (i_views (s_mm s)) = (Inr reg, v)"
    and s': "s' = mm_upd (\<lambda>mm. mm\<lparr>i_views := v, i_readers := Suc (i_readers mm)\<rparr>) s"
    using assms(4) by (auto simp: atomic_parts_eq [OF assms(1)] split: if_splits prod.splits sum.splits)
  note R = register_atomic_registered [OF sys_okD(4) [OF assms(1)] assms(3) reg]
  have "sys_ok s'"
    using sys_ok_views [OF assms(1) R(1), of "Suc (i_readers (s_mm s))" "i_written (s_mm s)"] f(2,5)
    by (simp add: s' read_free_def)
  moreover have "atomics_fit s'"
    using registered_fits [OF R(3) _ f(3)] assms(2) f(4) by (simp add: atomics_fit_def s' request_fits_def)
  ultimately show "granted c off n reg s s'" using R f(2,5) by (simp add: granted_def s' read_free_def)
qed

lemma element_offset:
  assumes "i < unat n" "request_fits c off n k" "unat k < 2 ^ 63"
  shows "unat (off + of_nat i * cell_size c) = unat off + i * unat (cell_size c)"
    "unat off + i * unat (cell_size c) + unat (cell_size c) \<le> unat k"
proof -
  have "i * unat (cell_size c) + unat (cell_size c) \<le> unat (cell_size c) * unat n"
    using mult_le_mono1 [of "Suc i" "unat n" "unat (cell_size c)"] assms(1) by (simp add: mult.commute)
  then show le: "unat off + i * unat (cell_size c) + unat (cell_size c) \<le> unat k"
    using assms(2) by (simp add: request_fits_def)
  have iw: "unat (of_nat i :: u64) = i" using assms(1) unat_bound [of n] by (simp add: unat_of_nat)
  have m: "unat (of_nat i * cell_size c) = i * unat (cell_size c)"
    using le assms(3) by (subst unat_mult_exact) (simp_all add: iw)
  show "unat (off + of_nat i * cell_size c) = unat off + i * unat (cell_size c)"
    using le assms(3) by (subst unat_add_exact) (simp_all add: m)
qed

lemma dvd_unat_add: "k dvd unat a \<Longrightarrow> k dvd unat b \<Longrightarrow> k dvd 2 ^ 64 \<Longrightarrow> k dvd unat (a + b :: u64)"
  by (simp add: unat_word_ariths dvd_mod)

lemma slice_deref_ok:
  assumes "i < unat n" "request_fits c off n (m_len (s_mapping s))" "unat (m_len (s_mapping s)) < 2 ^ 63"
    and "av_len v = n" "av_cell v = c" "av_ptr v = raw_as_ptr (s_mapping s) + off"
  shows "\<exists>p. slice_deref v i = Some p \<and> cell_offset p s = unat off + i * unat (cell_size c)
      \<and> cell_offset p s + unat (cell_size c) \<le> unat (m_len (s_mapping s))
      \<and> (unat (cell_size c) dvd unat off \<longrightarrow> unat (cell_size c) dvd unat (raw_as_ptr (s_mapping s)) \<longrightarrow>
           unat (cell_size c) dvd unat p)"
proof -
  note E = element_offset [OF assms(1-3)]
  have eq: "av_ptr v + of_nat i * cell_size c = raw_as_ptr (s_mapping s) + (off + of_nat i * cell_size c)"
    by (simp add: assms(6))
  have co: "cell_offset (raw_as_ptr (s_mapping s) + (off + of_nat i * cell_size c)) s = unat off + i * unat (cell_size c)"
    using E(1) by (simp add: cell_offset_def)
  have d: "unat (cell_size c) dvd 2 ^ 64" using cell_size_cases [of c] by auto
  have "unat (cell_size c) dvd unat (raw_as_ptr (s_mapping s) + (off + of_nat i * cell_size c))"
    if "unat (cell_size c) dvd unat off" "unat (cell_size c) dvd unat (raw_as_ptr (s_mapping s))"
    using that d by (intro dvd_unat_add [OF that(2)]) (simp_all only: E(1), simp)
  with co E(2) eq assms(1,4,5) show ?thesis
    by (intro exI [of _ "av_ptr v + of_nat i * cell_size c"]) (simp add: slice_deref_def add.assoc)
qed

lemma atomic_slice_Some:
  "atomic_slice c off n s = Some (Inr v, s') \<longleftrightarrow>
     (\<exists>reg p. atomic_parts c off n s = Some (Inr (reg, p), s') \<and>
        v = \<lparr>av_cell = c, av_reg = reg, av_ptr = p, av_pending = tracks_writes (s_mm s'), av_len = n\<rparr>)"
  by (auto simp: atomic_slice_def op_bind_def slice_view_def split: option.splits sum.splits prod.splits)

lemma atomic_slice_Inl: "atomic_slice c off n s = Some (Inl e, s') \<longleftrightarrow> atomic_parts c off n s = Some (Inl e, s')"
  by (auto simp: atomic_slice_def op_bind_def split: option.splits sum.splits prod.splits)

lemma atomic_slice_None: "atomic_slice c off n s = None \<longleftrightarrow> atomic_parts c off n s = None"
  by (auto simp: atomic_slice_def op_bind_def split: option.splits sum.splits prod.splits)

lemma granted_live:
  assumes "granted c off n reg s s'" "n \<noteq> 0"
  shows "\<exists>i. entry_of (unat off, unat off + unat (cell_size c) * unat n, unat (cell_size c)) i
      \<in> set (as_entries (vr_atomics (i_views (s_mm s'))))"
proof -
  have "unat off \<noteq> unat off + unat (cell_size c) * unat n"
    using assms(2) by (simp add: unat_eq_zero)
  with assms(1) show ?thesis unfolding granted_def registered_def by (auto simp: unat_eq_zero)
qed

lemma granted_excludes:
  assumes "granted c off n reg s s'" "n \<noteq> 0" "plain_lookup (i_views (s_mm s')) h = Some r"
  shows "\<not> overlaps (fst r) (snd r) (unat off) (unat off + unat (cell_size c) * unat n)"
proof -
  obtain i where "entry_of (unat off, unat off + unat (cell_size c) * unat n, unat (cell_size c)) i
      \<in> set (as_entries (vr_atomics (i_views (s_mm s'))))"
    using granted_live [OF assms(1,2)] by blast
  moreover have "plain_excluded (i_views (s_mm s'))"
    using assms(1) by (simp add: granted_def sys_ok_def registry_ok_def)
  ultimately have "\<not> overlaps (unat off) (unat off + unat (cell_size c) * unat n) (fst r) (snd r)"
    using assms(3) unfolding plain_excluded_def entry_of_def by fastforce
  then show ?thesis by (simp add: overlaps_sym)
qed

text \<open>While the view lives: a store through it is a write of the mapping's bytes that keeps the view, a
  slice of its bytes is refused, and writers wait.\<close>

lemma store_at_ptr [simp]: "m_ptr (s_mapping (store_at b d s)) = m_ptr (s_mapping s)"
  using store_at_mapped [of b d s] by (auto simp: mapping_store_def split: mem_ref.splits)

lemma cell_store_ok:
  assumes "sys_ok s" "atomics_fit s" "locked (i_map (s_mm s))" "length bs = unat (cell_size c)"
    and "cell_offset p s + unat (cell_size c) \<le> unat (m_len (s_mapping s))"
  shows "wrote (cell_offset p s) bs s (cell_store p bs s)" "atomics_fit (cell_store p bs s)"
    "cell_load c p (cell_store p bs s) = bs" "i_written (s_mm (cell_store p bs s)) = i_written (s_mm s)"
proof -
  have fit: "cell_offset p s + length bs \<le> unat (m_len (s_mapping s))" using assms(4,5) by simp
  show w: "wrote (cell_offset p s) bs s (cell_store p bs s)"
    using store_at_wrote [OF assms(1,3) fit quiet_sys_refl] by (simp add: cell_store_def)
  then show "atomics_fit (cell_store p bs s)" using assms(2) by (simp add: wrote_def atomics_fit_def)
  have "cell_offset p (cell_store p bs s) = cell_offset p s"
    by (simp add: cell_offset_def cell_store_def raw_as_ptr_def)
  moreover have "s_bytes (cell_store p bs s) = splice_at (s_bytes s) (cell_offset p s) bs" using w by (simp add: wrote_def)
  moreover have "sub_slice (splice_at (s_bytes s) (cell_offset p s) bs) (cell_offset p s) (cell_offset p s + length bs) = bs"
    using fit sys_okD(5) [OF assms(1)] by (intro slice_splice_same) simp
  ultimately show "cell_load c p (cell_store p bs s) = bs" using assms(4) by (simp only: cell_load_def)
  show "i_written (s_mm (cell_store p bs s)) = i_written (s_mm s)" by (simp add: cell_store_def)
qed

lemma slice_over_atomic_refused:
  assumes "sys_ok s" "locked (i_map (s_mm s))" "read_free s" "e_atomic env" "sh < SHARDS" "len \<noteq> 0"
    and "unat off + unat len \<le> unat (m_len (s_mapping s))"
    and "a \<in> set (as_entries (vr_atomics (i_views (s_mm s))))"
    and "overlaps (a_start a) (a_end a) (unat off) (unat off + unat len)"
  shows "\<exists>s'. as_slice env sh off len s = Some (Inl (from_conflict AtomicLive), s')"
proof -
  have hit: "atomic_hit (i_views (s_mm s)) (unat off) (unat off + unat len)"
    using assms(8,9) by (auto simp: atomic_hit_def list_ex_iff)
  obtain r v where reg: "register_plain sh (unat off) (unat off + unat len) (i_views (s_mm s)) = (r, v)"
    by (cases "register_plain sh (unat off) (unat off + unat len) (i_views (s_mm s))")
  have "r = Inl AtomicLive"
    using register_plain_ok(5) [OF sys_okD(4) [OF assms(1)] assms(5)] hit reg
      register_plain_refused(1) [OF sys_okD(4) [OF assms(1)] assms(5)] by (cases r) auto
  with reg assms(2-4,6,7) show ?thesis by (simp add: as_slice_eq into_view_def view_register_def)
qed

lemma release_view_ok:
  assumes "granted c off n reg s s1" "wrote b bs s1 s2" "i_written (s_mm s2) = i_written (s_mm s)"
  shows "sys_ok (release_view reg t k s2)" "s_bytes (release_view reg t k s2) = s_bytes s2"
    "i_readers (s_mm (release_view reg t k s2)) = i_readers (s_mm s)"
    "plain_lookup (i_views (s_mm (release_view reg t k s2))) = plain_lookup (i_views (s_mm s))"
    "atomic_lookup (vr_atomics (i_views (s_mm (release_view reg t k s2)))) = atomic_lookup (vr_atomics (i_views (s_mm s)))"
    "pending_bytes (release_view reg t k s2) = pending_bytes s + (if t then k else 0)"
proof -
  have g: "registry_ok (i_views (s_mm s1))" "i_views (s_mm s2) = i_views (s_mm s1)"
    "plain_lookup (i_views (s_mm s1)) = plain_lookup (i_views (s_mm s))"
    "registered (unat off) (unat off + unat (cell_size c) * unat n) (unat (cell_size c)) reg
       (i_views (s_mm s)) (i_views (s_mm s1))"
    and w: "sys_ok s2" "i_readers (s_mm s2) = Suc (i_readers (s_mm s))" "\<not> i_writer (s_mm s2)"
    using assms(1,2) sys_okD(4) [of s1] by (simp_all add: granted_def wrote_def)
  note D = drop_registered [OF g(1,4)]
  show "sys_ok (release_view reg t k s2)"
    using sys_ok_views [OF w(1) D(1)] w(3) g(2) by (simp add: release_view_def)
  show "plain_lookup (i_views (s_mm (release_view reg t k s2))) = plain_lookup (i_views (s_mm s))"
    "atomic_lookup (vr_atomics (i_views (s_mm (release_view reg t k s2)))) = atomic_lookup (vr_atomics (i_views (s_mm s)))"
    using D(2,3) g(2,3) by (simp_all add: release_view_def)
  show "s_bytes (release_view reg t k s2) = s_bytes s2"
    "i_readers (s_mm (release_view reg t k s2)) = i_readers (s_mm s)"
    "pending_bytes (release_view reg t k s2) = pending_bytes s + (if t then k else 0)"
    using w(2) assms(3) by (simp_all add: release_view_def pending_bytes_def)
qed

section \<open>Properties\<close>

text \<open>C8. A request for atomic views, on every branch: a mapping nothing can write, a misaligned offset and a
  range outside the mapping (counted without overflow) are refused with their errors, in that order; an
  overlap with a live slice or with atomic views of the other size is refused, all of them with no
  change; it waits only while a writer holds the lock. A granted view keeps the invariant, keeps
  writers out, overlaps no live slice, and every element's address is aligned for its type and lies
  within the mapping.\<close>

theorem atomic_view_contract:
  assumes "sys_ok s" "atomics_fit s" "atomic_room (vr_atomics (i_views (s_mm s)))"
    and "unat (cell_size c) dvd unat (raw_as_ptr (s_mapping s))"
  shows "case atomic_slice c off n s of
      None \<Rightarrow> locked (i_map (s_mm s)) \<and> i_writer (s_mm s)
    | Some (Inl e, s') \<Rightarrow> s' = s \<and>
        (if \<not> locked (i_map (s_mm s)) then \<exists>msg. e = InvalidMode msg
         else if \<not> unat (cell_size c) dvd unat off then e = Misaligned (cell_size c) off
         else if unat (m_len (s_mapping s)) < unat off + unat (cell_size c) * unat n
         then \<exists>len. e = OutOfBounds off len (m_len (s_mapping s))
         else e = from_conflict MixedSize
              \<and> mixed_hit (i_views (s_mm s)) (unat off) (unat off + unat (cell_size c) * unat n) (unat (cell_size c))
            \<or> e = from_conflict PlainLive
              \<and> (\<exists>h r. plain_lookup (i_views (s_mm s)) h = Some r
                    \<and> overlaps (fst r) (snd r) (unat off) (unat off + unat (cell_size c) * unat n)))
    | Some (Inr v, s') \<Rightarrow> sys_ok s' \<and> atomics_fit s' \<and> s_bytes s' = s_bytes s \<and> \<not> write_free s'
        \<and> (\<forall>h r. n \<noteq> 0 \<and> plain_lookup (i_views (s_mm s')) h = Some r \<longrightarrow>
             \<not> overlaps (fst r) (snd r) (unat off) (unat off + unat (cell_size c) * unat n))
        \<and> (\<forall>i < unat n. \<exists>p. slice_deref v i = Some p \<and> unat (cell_size c) dvd unat p
             \<and> cell_offset p s' = unat off + i * unat (cell_size c)
             \<and> cell_offset p s' + unat (cell_size c) \<le> length (s_bytes s'))"
proof (cases "atomic_slice c off n s")
  case None
  then have "atomic_parts c off n s = None" by (simp add: atomic_slice_None)
  then show ?thesis unfolding None
    by (auto simp: atomic_parts_eq [OF assms(1)] read_free_def split: if_splits prod.splits sum.splits)
next
  case (Some rs)
  obtain r s' where rs: "rs = (r, s')" by (cases rs)
  show ?thesis
  proof (cases r)
    case (Inl e)
    with Some rs have "atomic_parts c off n s = Some (Inl e, s')" by (simp add: atomic_slice_Inl)
    moreover from this have "s' = s"
      by (auto simp: atomic_parts_eq [OF assms(1)] split: if_splits prod.splits sum.splits)
    ultimately show ?thesis
      using register_atomic_refused(2) [OF sys_okD(4) [OF assms(1)], of "unat off"
          "unat off + unat (cell_size c) * unat n" "unat (cell_size c)"] unfolding Some rs Inl
      by (auto simp: atomic_parts_eq [OF assms(1)] request_fits_def split: if_splits prod.splits sum.splits)
  next
    case (Inr v)
    with Some rs obtain reg p where a: "atomic_parts c off n s = Some (Inr (reg, p), s')"
      and v: "v = \<lparr>av_cell = c, av_reg = reg, av_ptr = p, av_pending = tracks_writes (s_mm s'), av_len = n\<rparr>"
      by (auto simp: atomic_slice_Some)
    note G = atomic_parts_granted [OF assms(1-3) a]
    have same: "s_mapping s' = s_mapping s" "s_world s' = s_world s" "i_readers (s_mm s') = Suc (i_readers (s_mm s))"
      and ok: "sys_ok s'" "atomics_fit s'"
      using G(1) by (simp_all add: granted_def)
    have "\<exists>p. slice_deref v i = Some p \<and> unat (cell_size c) dvd unat p
        \<and> cell_offset p s' = unat off + i * unat (cell_size c)
        \<and> cell_offset p s' + unat (cell_size c) \<le> length (s_bytes s')" if "i < unat n" for i
      using slice_deref_ok [OF that, of c off s' v] G(2,4,5) assms(4) sys_okD(5,6) [OF ok(1)] v
      by (auto simp: same)
    with ok same granted_excludes [OF G(1)] show ?thesis
      unfolding Some rs Inr by (auto simp: write_free_def)
  qed
qed

lemma sample_atomic_room [simp]: "atomic_room (vr_atomics registry_new)"
  by (simp add: atomic_room_def registry_new_def atomic_empty_def word_max_def)

lemma sample_atomic_granted: "\<exists>v s'. atomic_slice AtomicU32 4 1 (sample_sys pol) = Some (Inr v, s')"
proof -
  have "is_ok (fst (register_atomic 4 8 4 registry_new))" by code_simp
  then obtain reg w where "register_atomic 4 8 4 registry_new = (Inr reg, w)"
    by (cases "register_atomic 4 8 4 registry_new") (auto simp: is_ok_iff)
  then show ?thesis
    by (simp add: atomic_slice_Some atomic_parts_eq [OF sample_sys_ok] request_fits_def)
qed

theorem atomic_view_contract_witness:
  "(case atomic_slice AtomicU32 4 1 (sample_sys Never) of
        Some (Inr v, s') \<Rightarrow> \<not> write_free s' \<and> (\<exists>p. slice_deref v 0 = Some p \<and> 4 dvd unat p)
      | _ \<Rightarrow> False)"
proof -
  obtain v s' where ok: "atomic_slice AtomicU32 4 1 (sample_sys Never) = Some (Inr v, s')"
    using sample_atomic_granted by blast
  have "unat (cell_size AtomicU32) dvd unat (raw_as_ptr (s_mapping (sample_sys Never)))"
    by (simp add: raw_as_ptr_def sample_mapping_def)
  from atomic_view_contract [OF sample_sys_ok sample_free(3) _ this, of 4 1] ok show ?thesis
    by auto
qed

text \<open>C9. The life of an atomic view. A store through any of its elements writes exactly that element's bytes
  of the mapping, and a load of the element and a copying read of its range return them. As long as it
  lives, a slice over any of its bytes is refused and every writer waits. Its drop returns the lock and
  the registry to what they were, keeps the stored bytes, and adds the view's bytes to the pending
  counter on a read-write mapping, and nothing on a copy-on-write one.\<close>

theorem atomic_view_lifecycle:
  assumes "sys_ok s" "atomics_fit s" "atomic_room (vr_atomics (i_views (s_mm s)))"
    and "atomic_slice c off n s = Some (Inr v, s1)" "slice_deref v i = Some p"
    and "length bs = unat (cell_size c)" "length buf = unat (cell_size c)" "e_atomic env" "sh < SHARDS"
    and "s2 = cell_store p bs s1" "s3 = drop_atomic_slice v s2" "at = unat off + i * unat (cell_size c)"
  shows "s_bytes s2 = splice_at (s_bytes s) at bs \<and> cell_load c p s2 = bs
    \<and> read_into env (of_nat at) buf s2 = Some (Inr bs, s2)
    \<and> (overlaps (unat off) (unat off + unat (cell_size c) * unat n) (unat o2) (unat o2 + unat l2)
         \<and> l2 \<noteq> 0 \<and> unat o2 + unat l2 \<le> length (s_bytes s) \<longrightarrow>
         (\<exists>s4. as_slice env sh o2 l2 s2 = Some (Inl (from_conflict AtomicLive), s4)))
    \<and> (data \<noteq> [] \<longrightarrow> update_region env o2 data s2 = None) \<and> as_slice_mut o2 l2 s2 = None
    \<and> sys_ok s3 \<and> s_bytes s3 = s_bytes s2 \<and> i_readers (s_mm s3) = i_readers (s_mm s)
    \<and> plain_lookup (i_views (s_mm s3)) = plain_lookup (i_views (s_mm s))
    \<and> atomic_lookup (vr_atomics (i_views (s_mm s3))) = atomic_lookup (vr_atomics (i_views (s_mm s)))
    \<and> pending_bytes s3 = pending_bytes s + (if tracks_writes (s_mm s) then cell_size c * n else 0)"
proof -
  obtain reg q where a: "atomic_parts c off n s = Some (Inr (reg, q), s1)"
    and v: "v = \<lparr>av_cell = c, av_reg = reg, av_ptr = q, av_pending = tracks_writes (s_mm s1), av_len = n\<rparr>"
    using assms(4) by (auto simp: atomic_slice_Some)
  note G = atomic_parts_granted [OF assms(1-3) a]
  have same: "s_mapping s1 = s_mapping s" "s_bytes s1 = s_bytes s" "tracks_writes (s_mm s1) = tracks_writes (s_mm s)"
    "locked (i_map (s_mm s1))" "i_written (s_mm s1) = i_written (s_mm s)"
    "i_readers (s_mm s1) \<noteq> 0" "\<not> i_writer (s_mm s1)" and ok: "sys_ok s1" "atomics_fit s1"
    using G(1,3) by (simp_all add: granted_def tracks_writes_def)
  have i: "i < unat n" using assms(5) v by (simp add: slice_deref_def split: if_splits)
  from slice_deref_ok [OF i, of c off s1 v] G(2,5) v assms(5) sys_okD(6) [OF ok(1)]
  have p: "cell_offset p s1 = at" "cell_offset p s1 + unat (cell_size c) \<le> unat (m_len (s_mapping s1))"
    by (simp_all add: same assms(12))
  note W = cell_store_ok [OF ok same(4) assms(6) p(2), folded assms(10)]
  have w: "sys_ok s2" "s_bytes s2 = splice_at (s_bytes s) at bs" "m_len (s_mapping s2) = m_len (s_mapping s)"
    "i_views (s_mm s2) = i_views (s_mm s1)" "locked (i_map (s_mm s2))" "read_free s2" "\<not> write_free s2"
    using W(1) same p(1) by (simp_all add: wrote_def read_free_def write_free_def)
  have "at < 2 ^ 64" using p sys_okD(6) [OF ok(1)] by simp
  then have at: "unat (of_nat at :: u64) = at" by (simp add: unat_of_nat)
  have "sub_slice (s_bytes s2) at (at + length buf) = bs"
    using W(3) p(1) assms(7) unfolding cell_load_def assms(10) by (simp add: cell_offset_def cell_store_def raw_as_ptr_def)
  moreover have "buf \<noteq> []" "length buf < 2 ^ 63" using assms(7) cell_size_cases [of c] by auto
  ultimately have rd: "read_into env (of_nat at) buf s2 = Some (Inr bs, s2)"
    using read_into_eq [OF w(1) W(2)] w(3,6) p assms(7) by (simp add: at same)
  have rf: "\<exists>s4. as_slice env sh o2 l2 s2 = Some (Inl (from_conflict AtomicLive), s4)"
    if "overlaps (unat off) (unat off + unat (cell_size c) * unat n) (unat o2) (unat o2 + unat l2)"
      "l2 \<noteq> 0" "unat o2 + unat l2 \<le> length (s_bytes s)"
  proof -
    have "n \<noteq> 0" using i by auto
    with granted_live [OF G(1)] obtain j where "entry_of (unat off, unat off + unat (cell_size c) * unat n,
        unat (cell_size c)) j \<in> set (as_entries (vr_atomics (i_views (s_mm s2))))" unfolding w(4) by blast
    from slice_over_atomic_refused [OF w(1,5,6) assms(8,9) that(2) _ this] that(1,3) w(3) sys_okD(5) [OF assms(1)]
    show ?thesis by (simp add: entry_of_def)
  qed
  have "saturating_mul (cell_size c) n = cell_size c * n"
    using G(5) sys_okD(6) [OF assms(1)] by (simp add: saturating_mul_def checked_mul_def request_fits_def)
  then have d: "s3 = release_view reg (tracks_writes (s_mm s)) (cell_size c * n) s2"
    by (simp add: assms(11) drop_atomic_slice_def v same(3))
  have "data \<noteq> [] \<longrightarrow> update_region env o2 data s2 = None" "as_slice_mut o2 l2 s2 = None"
    using w(5,7) by (simp_all add: update_region_def update_region_within_def as_slice_mut_def write_lock_def)
  moreover note release_view_ok [OF G(1) W(1) W(4) [unfolded same(5)],
      of "tracks_writes (s_mm s)" "cell_size c * n", folded d]
  ultimately show ?thesis using w(2) W(3) rd rf by blast
qed

theorem atomic_view_lifecycle_witness:
  "\<exists>v s1 p. atomic_slice AtomicU32 4 1 (sample_sys Never) = Some (Inr v, s1) \<and> slice_deref v 0 = Some p
    \<and> s_bytes (cell_store p [1, 2, 3, 4] s1) = [10, 11, 12, 13, 1, 2, 3, 4]
    \<and> pending_bytes (drop_atomic_slice v (cell_store p [1, 2, 3, 4] s1)) = 4
    \<and> update_region sample_env 0 [0] (cell_store p [1, 2, 3, 4] s1) = None"
proof -
  obtain v s1 where a: "atomic_slice AtomicU32 4 1 (sample_sys Never) = Some (Inr v, s1)"
    using sample_atomic_granted by blast
  then obtain p where p: "slice_deref v 0 = Some p"
    by (auto simp: atomic_slice_Some slice_deref_def)
  have b: "mapping_bytes sample_world sample_mapping = sample_bytes"
    by (simp add: mapping_bytes_def) (simp add: sample_mapping_def sub_slice_def)
  have "tracks_writes (s_mm (sample_sys Never))" by (simp add: tracks_writes_def)
  with atomic_view_lifecycle [where bs = "[1, 2, 3, 4]" and buf = "[0, 0, 0, 0]" and env = sample_env and sh = 0
      and data = "[0]" and ?o2.0 = 0 and ?l2.0 = 0, OF sample_sys_ok sample_free(3) _ a p _ _ _ _ refl refl refl] a p
  show ?thesis by (auto simp: b sample_bytes_def splice_at_def SHARDS_def pending_bytes_def)
qed

end
