(* ===== verification/Anonymous.thy ===== *)
theory Anonymous
  imports Atomic Mmap_Open Mmap_Smaps
begin

text \<open>
  \<open>src/anonymous.rs\<close> and the anonymous half of \<open>src/atomic.rs\<close>: \<open>AnonymousMmap\<close>, a private mapping without
  a file. Its state is the mapping, the fixed length, the registry and the lock; its operations have
  bodies of their own in the source and here. \<open>managed\<close> shows an anonymous mapping as a writable
  copy-on-write managed mapping of the same memory, and the operations agree with those of \<open>Mmap\<close>
  through it.
\<close>

section \<open>State\<close>

record anon =
  an_map :: mapping
  an_len :: u64
  an_views :: view_registry
  an_readers :: nat
  an_writer :: bool

record asys =
  a_mm :: anon
  a_world :: world

type_synonym 'a aop = "asys \<Rightarrow> ((mmap_io_error + 'a) \<times> asys) option"

abbreviation an_upd :: "(anon \<Rightarrow> anon) \<Rightarrow> asys \<Rightarrow> asys" where
  "an_upd f a \<equiv> a\<lparr>a_mm := f (a_mm a)\<rparr>"

abbreviation a_bytes :: "asys \<Rightarrow> byte list" where
  "a_bytes a \<equiv> mapping_bytes (a_world a) (an_map (a_mm a))"

definition an_read_free :: "asys \<Rightarrow> bool" where
  "an_read_free a \<longleftrightarrow> \<not> an_writer (a_mm a)"

definition an_write_free :: "asys \<Rightarrow> bool" where
  "an_write_free a \<longleftrightarrow> \<not> an_writer (a_mm a) \<and> an_readers (a_mm a) = 0"

section \<open>Constructors\<close>

text \<open>The module's own copies of the limits.\<close>

definition ANON_ERR_ZERO_SIZE :: string where
  "ANON_ERR_ZERO_SIZE = ''Size must be greater than zero''"

definition ANON_MAX_MMAP_SIZE :: u64 where
  "ANON_MAX_MMAP_SIZE = 128 * 2 ^ 40"

definition validated_len :: "u64 \<Rightarrow> mmap_io_error + usize" where
  "validated_len n =
     (if n = 0 then Inl (ResizeFailed ANON_ERR_ZERO_SIZE)
      else if n > ANON_MAX_MMAP_SIZE
      then Inl (ResizeFailed (''Size '' @ show_word n @ '' exceeds maximum safe limit of ''
                  @ show_word ANON_MAX_MMAP_SIZE @ '' bytes''))
      else ok_or (ResizeFailed (''Size '' @ show_word n @ '' does not fit in usize'')) (word_try_from n))"

definition anon_from_raw :: "mapping \<Rightarrow> u64 \<Rightarrow> anon" where
  "anon_from_raw m n = \<lparr>an_map = m, an_len = n, an_views = registry_new, an_readers = 0, an_writer = False\<rparr>"

definition anon_new :: "env \<Rightarrow> u64 \<Rightarrow> anon open_io" where
  "anon_new env n =
     bind_se (lift_se (validated_len n)) (\<lambda>len.
     bind_se (io_try (rawmmapmut_map_anon env len)) (\<lambda>m. return_se (anon_from_raw m n)))"

definition anon_with_huge_pages :: "env \<Rightarrow> u64 \<Rightarrow> anon open_io" where
  "anon_with_huge_pages env n =
     bind_se (lift_se (validated_len n)) (\<lambda>len w.
       case raw_map_anon env (options_huge (options_len len options_new)) w of
         (Inr m, w1) \<Rightarrow> (Inr (anon_from_raw m n), w1)
       | (Inl _, w1) \<Rightarrow>
           bind_se (io_try (rawmmapmut_map_anon env len))
             (\<lambda>m w2. (Inr (anon_from_raw m n), advise_huge_pages env m w2)) w1)"

section \<open>Operations\<close>

definition anon_is_hugepage_backed :: "env \<Rightarrow> asys \<Rightarrow> bool option option" where
  "anon_is_hugepage_backed env a =
     (if e_target env = Linux
      then (if an_read_free a then Some (smaps_hugepage_lookup env (raw_as_ptr (an_map (a_mm a)))) else None)
      else Some None)"

definition anon_len :: "asys \<Rightarrow> u64" where
  "anon_len a = an_len (a_mm a)"

definition anon_is_empty :: "asys \<Rightarrow> bool" where
  "anon_is_empty a \<longleftrightarrow> an_len (a_mm a) = 0"

definition anon_read_into :: "env \<Rightarrow> u64 \<Rightarrow> byte list \<Rightarrow> byte list aop" where
  "anon_read_into env off buf a =
     (if buf = [] then Some (Inr [], a)
      else (case slice_range64 off (of_nat (length buf)) (an_len (a_mm a)) of
              Inl e \<Rightarrow> Some (Inl e, a)
            | Inr (start, _) \<Rightarrow>
                if \<not> an_read_free a then None
                else Some (Inr (if e_atomic env
                                then cs_dst (copy_out (vr_atomics (an_views (a_mm a))) (a_bytes a) (unat start) buf)
                                else sub_slice (a_bytes a) (unat start) (unat start + length buf)), a)))"

text \<open>A copy into the mapping under the write guard.\<close>

definition anon_store :: "nat \<Rightarrow> byte list \<Rightarrow> asys \<Rightarrow> asys" where
  "anon_store start d a =
     (case mapping_store start d (an_map (a_mm a), a_world a) of
        (m, w) \<Rightarrow> \<lparr>a_mm = (a_mm a)\<lparr>an_map := m\<rparr>, a_world = w\<rparr>)"

definition anon_update_region :: "u64 \<Rightarrow> byte list \<Rightarrow> unit aop" where
  "anon_update_region off data a =
     (if data = [] then Some (Inr (), a)
      else (case slice_range64 off (of_nat (length data)) (an_len (a_mm a)) of
              Inl e \<Rightarrow> Some (Inl e, a)
            | Inr (start, _) \<Rightarrow>
                if \<not> an_write_free a then None else Some (Inr (), anon_store (unat start) data a)))"

definition anon_guarded :: "env \<Rightarrow> nat \<Rightarrow> nat \<Rightarrow> nat \<Rightarrow> asys \<Rightarrow> (mmap_io_error + mapped_slice) \<times> asys" where
  "anon_guarded env sh b e a =
     (case view_register env sh b e (an_views (a_mm a)) of
        (Inl c, v) \<Rightarrow> (Inl (from_conflict c), an_upd (\<lambda>mm. mm\<lparr>an_views := v\<rparr>) a)
      | (Inr reg, v) \<Rightarrow>
          (Inr (Slice_Guarded reg b e),
           an_upd (\<lambda>mm. mm\<lparr>an_views := v, an_readers := Suc (an_readers mm)\<rparr>) a))"

definition anon_as_slice :: "env \<Rightarrow> nat \<Rightarrow> u64 \<Rightarrow> u64 \<Rightarrow> mapped_slice aop" where
  "anon_as_slice env sh off len a =
     (if len = 0 then Some (Inr (Slice_Owned 0 0), a)
      else (case slice_range64 off len (an_len (a_mm a)) of
              Inl e \<Rightarrow> Some (Inl e, a)
            | Inr (b, e) \<Rightarrow>
                if \<not> an_read_free a then None else Some (anon_guarded env sh (unat b) (unat e) a)))"

definition anon_mut_range :: "u64 \<Rightarrow> u64 \<Rightarrow> asys \<Rightarrow> mmap_io_error + usize \<times> usize" where
  "anon_mut_range off len a = (if len = 0 then Inr (0, 0) else slice_range64 off len (an_len (a_mm a)))"

definition anon_as_mut_slice :: "u64 \<Rightarrow> u64 \<Rightarrow> mapped_slice_mut aop" where
  "anon_as_mut_slice off len a =
     (case anon_mut_range off len a of
        Inl e \<Rightarrow> Some (Inl e, a)
      | Inr (b, e) \<Rightarrow>
          if \<not> an_write_free a then None
          else Some (Inr (Slice_Mut (unat b) (unat e)), an_upd (\<lambda>mm. mm\<lparr>an_writer := True\<rparr>) a))"

definition anon_try_as_slice :: "env \<Rightarrow> nat \<Rightarrow> u64 \<Rightarrow> u64 \<Rightarrow> mapped_slice option aop" where
  "anon_try_as_slice env sh off len a =
     (if len = 0 then Some (Inr (Some (Slice_Owned 0 0)), a)
      else (case slice_range64 off len (an_len (a_mm a)) of
              Inl e \<Rightarrow> Some (Inl e, a)
            | Inr (b, e) \<Rightarrow>
                if \<not> an_read_free a then Some (Inr None, a)
                else (case anon_guarded env sh (unat b) (unat e) a of
                        (Inl x, a') \<Rightarrow> Some (Inl x, a')
                      | (Inr v, a') \<Rightarrow> Some (Inr (Some v), a'))))"

definition anon_try_as_mut_slice :: "u64 \<Rightarrow> u64 \<Rightarrow> mapped_slice_mut option aop" where
  "anon_try_as_mut_slice off len a =
     (case anon_mut_range off len a of
        Inl e \<Rightarrow> Some (Inl e, a)
      | Inr (b, e) \<Rightarrow>
          if \<not> an_write_free a then Some (Inr None, a)
          else Some (Inr (Some (Slice_Mut (unat b) (unat e))), an_upd (\<lambda>mm. mm\<lparr>an_writer := True\<rparr>) a))"

definition anon_try_update_region :: "u64 \<Rightarrow> byte list \<Rightarrow> bool aop" where
  "anon_try_update_region off data a =
     (if data = [] then Some (Inr True, a)
      else (case slice_range64 off (of_nat (length data)) (an_len (a_mm a)) of
              Inl e \<Rightarrow> Some (Inl e, a)
            | Inr (start, _) \<Rightarrow>
                if \<not> an_write_free a then Some (Inr False, a)
                else Some (Inr True, anon_store (unat start) data a)))"

definition anon_as_ptr :: "asys \<Rightarrow> addr option" where
  "anon_as_ptr a = (if an_read_free a then Some (raw_as_ptr (an_map (a_mm a))) else None)"

definition anon_as_mut_ptr :: "asys \<Rightarrow> addr option" where
  "anon_as_mut_ptr a = (if an_write_free a then Some (raw_as_ptr (an_map (a_mm a))) else None)"

text \<open>Atomic views: no mode check and no pending counter.\<close>

definition anon_atomic_parts :: "atomic_cell \<Rightarrow> u64 \<Rightarrow> usize \<Rightarrow> atomic_view_parts aop" where
  "anon_atomic_parts c off n a =
     (case view_parts c off n (an_read_free a) (an_map (a_mm a)) (an_views (a_mm a)) of
        None \<Rightarrow> None
      | Some (Inl e, v) \<Rightarrow> Some (Inl e, an_upd (\<lambda>mm. mm\<lparr>an_views := v\<rparr>) a)
      | Some (Inr parts, v) \<Rightarrow>
          Some (Inr parts, an_upd (\<lambda>mm. mm\<lparr>an_views := v, an_readers := Suc (an_readers mm)\<rparr>) a))"

definition view_map :: "('a \<Rightarrow> 'b) \<Rightarrow> 'a aop \<Rightarrow> 'b aop" where
  "view_map f m a =
     (case m a of
        None \<Rightarrow> None
      | Some (Inl e, a') \<Rightarrow> Some (Inl e, a')
      | Some (Inr x, a') \<Rightarrow> Some (Inr (f x), a'))"

definition anon_atomic_u64 :: "u64 \<Rightarrow> atomic_view aop" where
  "anon_atomic_u64 off = view_map (\<lambda>p. single AtomicU64 p False) (anon_atomic_parts AtomicU64 off 1)"

definition anon_atomic_u32 :: "u64 \<Rightarrow> atomic_view aop" where
  "anon_atomic_u32 off = view_map (\<lambda>p. single AtomicU32 p False) (anon_atomic_parts AtomicU32 off 1)"

definition anon_atomic_u64_slice :: "u64 \<Rightarrow> usize \<Rightarrow> atomic_slice_view aop" where
  "anon_atomic_u64_slice off n =
     view_map (\<lambda>p. slice_view AtomicU64 p n False) (anon_atomic_parts AtomicU64 off n)"

definition anon_atomic_u32_slice :: "u64 \<Rightarrow> usize \<Rightarrow> atomic_slice_view aop" where
  "anon_atomic_u32_slice off n =
     view_map (\<lambda>p. slice_view AtomicU32 p n False) (anon_atomic_parts AtomicU32 off n)"

section \<open>As a managed mapping\<close>

definition managed :: "asys \<Rightarrow> sys" where
  "managed a =
     \<lparr>s_mm = \<lparr>i_path = [], i_file = 0, i_mode = CopyOnWrite, i_cached_len = an_len (a_mm a),
              i_map = Cow (an_map (a_mm a)), i_policy = Never, i_written = 0, i_writes = 0, i_flusher = None,
              i_views = an_views (a_mm a), i_huge = False, i_readers = an_readers (a_mm a),
              i_writer = an_writer (a_mm a)\<rparr>,
      s_world = a_world a\<rparr>"

definition anon_ok :: "asys \<Rightarrow> bool" where
  "anon_ok a \<longleftrightarrow> sys_ok (managed a) \<and> m_kind (an_map (a_mm a)) = Kind_Anon \<and> an_len (a_mm a) \<noteq> 0"

definition same_result :: "((mmap_io_error + 'a) \<times> asys) option \<Rightarrow> ((mmap_io_error + 'a) \<times> sys) option \<Rightarrow> bool" where
  "same_result r q \<longleftrightarrow> map_option (\<lambda>(x, a). (x, managed a)) r = q"

lemma managed_simps [simp]:
  "i_map (s_mm (managed a)) = Cow (an_map (a_mm a))" "i_views (s_mm (managed a)) = an_views (a_mm a)"
  "i_readers (s_mm (managed a)) = an_readers (a_mm a)" "i_writer (s_mm (managed a)) = an_writer (a_mm a)"
  "s_world (managed a) = a_world a" "i_cached_len (s_mm (managed a)) = an_len (a_mm a)"
  "i_mode (s_mm (managed a)) = CopyOnWrite"
  "read_free (managed a) = an_read_free a" "write_free (managed a) = an_write_free a"
  "\<not> tracks_writes (s_mm (managed a))"
  by (simp_all add: managed_def read_free_def write_free_def an_read_free_def an_write_free_def tracks_writes_def)

lemma managed_store: "managed (anon_store b d a) = store_at b d (managed a)"
  by (simp add: anon_store_def store_at_def managed_def split: prod.splits)

lemma managed_upd:
  "managed (an_upd (\<lambda>mm. mm\<lparr>an_views := v, an_readers := Suc (an_readers mm)\<rparr>) a) =
     mm_upd (\<lambda>mm. mm\<lparr>i_views := v, i_readers := Suc (i_readers mm)\<rparr>) (managed a)"
  "managed (an_upd (\<lambda>mm. mm\<lparr>an_views := v\<rparr>) a) = mm_upd (\<lambda>mm. mm\<lparr>i_views := v\<rparr>) (managed a)"
  "managed (an_upd (\<lambda>mm. mm\<lparr>an_writer := b\<rparr>) a) = mm_upd (\<lambda>mm. mm\<lparr>i_writer := b\<rparr>) (managed a)"
  by (simp_all add: managed_def)

lemma anon_okD:
  assumes "anon_ok a"
  shows "sys_ok (managed a)" "m_len (an_map (a_mm a)) = an_len (a_mm a)"
  using assms sys_okD(3) [of "managed a"] by (simp_all add: anon_ok_def)

text \<open>An anonymous mapping is a byte store too, through the managed mapping.\<close>

lemma anon_store_kind: "m_kind (an_map (a_mm (anon_store b d a))) = m_kind (an_map (a_mm a))"
  "an_len (a_mm (anon_store b d a)) = an_len (a_mm a)"
  by (auto simp: anon_store_def mapping_store_def split: prod.splits mem_ref.splits)

interpretation anon_bytes: byte_store a_bytes anon_store anon_ok
proof
  fix a :: asys and off and d :: "byte list"
  assume a: "anon_ok a" "off + length d \<le> length (a_bytes a)"
  then have s: "sys_ok (managed a)" "off + length d \<le> length (s_bytes (managed a))" by (simp_all add: anon_ok_def)
  show "a_bytes (anon_store off d a) = splice_at (a_bytes a) off d"
    using managed.contents_store [OF s] by (simp flip: managed_store)
  show "anon_ok (anon_store off d a)"
    using managed.store_valid [OF s] a(1) by (simp add: anon_ok_def anon_store_kind flip: managed_store)
qed

lemma anon_reads_same:
  assumes "anon_ok a" "an_read_free a"
  shows "same_result (anon_read_into env off buf a) (read_into env off buf (managed a))"
    and "same_result (anon_as_slice env sh off len a) (as_slice env sh off len (managed a))"
  using anon_okD [OF assms(1)] assms(2)
  by (auto simp: same_result_def anon_read_into_def read_into_def anon_as_slice_def as_slice_def map_read_def
      op_return_def op_bind_def op_lift_def copy_to_def into_view_def anon_guarded_def managed_upd
      split: sum.splits prod.splits)

lemma anon_writes_same:
  assumes "anon_ok a" "an_write_free a"
  shows "length data < 2 ^ 63 \<Longrightarrow>
      same_result (anon_update_region off data a) (update_region env off data (managed a))"
    and "same_result (anon_as_mut_slice off len a) (as_slice_mut off len (managed a))"
  using anon_okD [OF assms(1)] assms(2)
  by (auto simp: same_result_def anon_update_region_def update_region_def update_region_within_def write_lock_def
      apply_flush_policy_def count_update_def anon_as_mut_slice_def as_slice_mut_def anon_mut_range_def
      managed_upd managed_store slice_range64_eq store_at_variant split: sum.splits prod.splits)

lemma anon_atomic_same: "same_result (anon_atomic_parts c off n a) (atomic_parts c off n (managed a))"
  by (simp add: same_result_def anon_atomic_parts_def atomic_parts_def write_lock_def managed_upd
      split: option.splits sum.splits prod.splits)

text \<open>The range is checked before the lock is taken, so a bad range is reported even while the lock is
  held; in range, a call that finds the lock held waits, and the \<open>try_\<close> variant says so.\<close>

lemma anon_blocked:
  assumes "\<not> an_write_free a" "data \<noteq> []"
  shows "anon_update_region off data a =
      (if unat off + unat (of_nat (length data) :: u64) \<le> unat (an_len (a_mm a)) then None
       else Some (Inl (OutOfBounds off (of_nat (length data)) (an_len (a_mm a))), a))"
  using assms by (simp add: anon_update_region_def slice_range64_eq)

lemma anon_try_same:
  "anon_try_update_region off data a =
     (case anon_update_region off data a of
        None \<Rightarrow> Some (Inr False, a)
      | Some (Inl e, a') \<Rightarrow> Some (Inl e, a')
      | Some (Inr _, a') \<Rightarrow> Some (Inr True, a'))"
  "anon_try_as_slice env sh off len a =
     (case anon_as_slice env sh off len a of
        None \<Rightarrow> Some (Inr None, a)
      | Some (Inl e, a') \<Rightarrow> Some (Inl e, a')
      | Some (Inr v, a') \<Rightarrow> Some (Inr (Some v), a'))"
  "anon_try_as_mut_slice off len a =
     (case anon_as_mut_slice off len a of
        None \<Rightarrow> Some (Inr None, a)
      | Some (Inl e, a') \<Rightarrow> Some (Inl e, a')
      | Some (Inr v, a') \<Rightarrow> Some (Inr (Some v), a'))"
  by (auto simp: anon_try_update_region_def anon_update_region_def anon_try_as_slice_def anon_as_slice_def
      anon_try_as_mut_slice_def anon_as_mut_slice_def split: sum.splits prod.splits)

section \<open>What the constructors give\<close>

lemma validated_len_iff:
  "validated_len n = (if n = 0 then Inl (ResizeFailed ANON_ERR_ZERO_SIZE)
     else if n > ANON_MAX_MMAP_SIZE
     then Inl (ResizeFailed (''Size '' @ show_word n @ '' exceeds maximum safe limit of ''
                  @ show_word ANON_MAX_MMAP_SIZE @ '' bytes''))
     else Inr n)"
  by (simp add: validated_len_def)

text \<open>A fresh anonymous mapping of \<open>n\<close> zero bytes.\<close>

definition fresh_anon :: "u64 \<Rightarrow> world \<Rightarrow> anon \<Rightarrow> world \<Rightarrow> bool" where
  "fresh_anon n w m w' \<longleftrightarrow> anon_ok \<lparr>a_mm = m, a_world = w'\<rparr> \<and> an_len m = n
     \<and> mapping_bytes w' (an_map m) = replicate (unat n) 0 \<and> an_readers m = 0 \<and> \<not> an_writer m
     \<and> an_views m = registry_new \<and> w_data w' = w_data w"

lemma fresh_anonI:
  assumes "raw_map_anon env ro w1 = (Inr m, w2)" "ro_len ro = Some n" "n \<noteq> 0" "w_data w' = w_data w2"
    and "w_data w1 = w_data w" "\<forall>f. length (w_data w f) < 2 ^ 63"
  shows "fresh_anon n w (anon_from_raw m n) w'"
proof -
  note M = raw_map_anon_ok [OF assms(1)]
  have "mapping_ok w' m" using M(1) assms(4) mapping_ok_cong [of w' w2 m] by simp
  moreover have "mapping_bytes w' m = replicate (unat n) 0"
    using M(3,4) assms(2,4) mapping_bytes_cong [of w' w2 m] by simp
  ultimately show ?thesis
    using M(2,3,5) assms(2-6) registry_ok_new
    by (simp add: fresh_anon_def anon_ok_def sys_ok_def variant_ok_def anon_from_raw_def)
qed

lemma anon_new_cases:
  assumes "\<forall>f. length (w_data w f) < 2 ^ 63" "n \<noteq> 0" "\<not> n > ANON_MAX_MMAP_SIZE"
    and "anon_new env n w = (r, w')"
  shows "case r of Inl e \<Rightarrow> (\<exists>x. e = from_io_error x) \<and> w_data w' = w_data w | Inr m \<Rightarrow> fresh_anon n w m w'"
proof -
  obtain q w1 where q: "raw_map_anon env (options_len n options_new) w = (q, w1)"
    by (cases "raw_map_anon env (options_len n options_new) w")
  have "w_data w1 = w_data w" using map_anon_files [of env n w q w1] q by (simp add: rawmmapmut_map_anon_def same_files_def)
  with q assms show ?thesis
    using fresh_anonI [of env "options_len n options_new" w _ w1 n w1 w]
    by (cases q) (auto simp: anon_new_def validated_len_iff io_try_def map_err_se_def bind_se_def lift_se_def return_se_def
        rawmmapmut_map_anon_def options_len_def split: sum.splits prod.splits)
qed

lemma raw_map_anon_files: "raw_map_anon env ro w = (r, w') \<Longrightarrow> w_data w' = w_data w"
  using os_map_anon_data(1)
  by (auto simp: raw_map_anon_def bind_se_def split: sum.splits prod.splits if_splits)

lemma anon_huge_cases:
  assumes "\<forall>f. length (w_data w f) < 2 ^ 63" "n \<noteq> 0" "\<not> n > ANON_MAX_MMAP_SIZE"
    and "anon_with_huge_pages env n w = (r, w')"
  shows "case r of Inl e \<Rightarrow> (\<exists>x. e = from_io_error x) \<and> w_data w' = w_data w | Inr m \<Rightarrow> fresh_anon n w m w'"
proof -
  let ?h = "options_huge (options_len n options_new)" and ?b = "options_len n options_new"
  have hl: "ro_len ?h = Some n" "ro_len ?b = Some n" by (simp_all add: options_huge_def options_len_def)
  obtain q w1 where q: "raw_map_anon env ?h w = (q, w1)" by (cases "raw_map_anon env ?h w")
  note d1 = raw_map_anon_files [OF q]
  show ?thesis
  proof (cases q)
    case (Inr m)
    with q assms fresh_anonI [OF q [unfolded Inr] hl(1) assms(2) refl refl assms(1)] show ?thesis
      by (auto simp: anon_with_huge_pages_def validated_len_iff)
  next
    case (Inl e)
    obtain q2 w2 where q2: "raw_map_anon env ?b w1 = (q2, w2)" by (cases "raw_map_anon env ?b w1")
    note d2 = raw_map_anon_files [OF q2]
    show ?thesis
    proof (cases q2)
      case (Inl e2)
      with q \<open>q = Inl e\<close> q2 assms d1 d2 show ?thesis
        by (auto simp: anon_with_huge_pages_def validated_len_iff io_try_def map_err_se_def bind_se_def
            rawmmapmut_map_anon_def)
    next
      case (Inr m)
      have "w_data (advise_huge_pages env m w2) = w_data w2"
        using advise_huge_files [of w2 env m] by (simp add: same_files_def)
      from fresh_anonI [OF q2 [unfolded Inr] hl(2) assms(2) this d1 assms(1)] q \<open>q = Inl e\<close> q2 Inr assms
      show ?thesis
        by (auto simp: anon_with_huge_pages_def validated_len_iff io_try_def map_err_se_def bind_se_def
            rawmmapmut_map_anon_def)
    qed
  qed
qed

text \<open>A write that is in range is read back, through the managed mapping's facts.\<close>

lemma anon_read_into_state: "an_read_free a \<Longrightarrow> \<exists>r. anon_read_into env off buf a = Some (r, a)"
  by (auto simp: anon_read_into_def split: sum.splits prod.splits)

lemma anon_roundtrip:
  assumes "anon_ok a" "an_write_free a" "data \<noteq> []" "length data < 2 ^ 63"
    and "unat off + length data \<le> unat (an_len (a_mm a))"
    and "as_entries (vr_atomics (an_views (a_mm a))) = []"
  shows "\<exists>a'. anon_update_region off data a = Some (Inr (), a')
    \<and> anon_read_into env off data a' = Some (Inr data, a') \<and> w_data (a_world a') = w_data (a_world a)"
proof -
  let ?a = "anon_store (unat off) data a" and ?s = "managed a"
  note O = anon_okD [OF assms(1)]
  have u: "anon_update_region off data a = Some (Inr (), ?a)"
    using assms(2-5) unat_of_length [OF assms(4)] by (simp add: anon_update_region_def slice_range64_eq)
  have fit: "unat off + length data \<le> unat (m_len (s_mapping ?s))" using assms(5) O(2) by simp
  have w: "wrote (unat off) data ?s (managed ?a)"
    unfolding managed_store by (rule store_at_wrote [OF O(1) _ fit quiet_sys_refl]) simp
  then have ok: "sys_ok (managed ?a)" and bt: "s_bytes (managed ?a) = splice_at (s_bytes ?s) (unat off) data"
    and len: "m_len (s_mapping (managed ?a)) = m_len (s_mapping ?s)" and dt: "w_data (a_world ?a) = w_data (a_world a)"
    and fr: "read_free (managed ?a)" and vw: "an_views (a_mm ?a) = an_views (a_mm a)"
    using assms(2) by (auto simp: wrote_def an_read_free_def an_write_free_def)
  have "atomics_fit (managed ?a)" using assms(6) vw by (simp add: atomics_fit_def)
  from read_into_eq [OF ok this assms(4,3), of env off] fr len fit bt slice_splice_same [of "unat off" data "s_bytes ?s"]
    sys_okD(5) [OF O(1)]
  have "read_into env off data (managed ?a) = Some (Inr data, managed ?a)" by simp
  moreover have "anon_ok ?a"
    using anon_bytes.store_valid [OF assms(1)] fit sys_okD(5) [OF O(1)] by simp
  then have "same_result (anon_read_into env off data ?a) (read_into env off data (managed ?a))"
    by (rule anon_reads_same(1)) (use fr in simp)
  moreover obtain r where "anon_read_into env off data ?a = Some (r, ?a)"
    using anon_read_into_state [of ?a env off data] fr by auto
  ultimately have "anon_read_into env off data ?a = Some (Inr data, ?a)" by (simp add: same_result_def)
  with u dt show ?thesis by blast
qed

section \<open>Properties\<close>

text \<open>C33. An anonymous mapping behaves exactly like a writable copy-on-write mapping of the same memory: when
  the lock is free, copying reads, slices, updates and mutable slices have the same results and the same
  effects, errors included, and atomic views always do. Only the order of the checks differs: a bad range
  is reported before the lock is tried, a good one waits while the lock is held. The \<open>try_\<close> variants
  report that instead of waiting.\<close>

theorem anonymous_as_private_mapping:
  assumes "anon_ok a" "length data < 2 ^ 63"
  shows "(an_read_free a \<longrightarrow>
        same_result (anon_read_into env off buf a) (read_into env off buf (managed a))
      \<and> same_result (anon_as_slice env sh off len a) (as_slice env sh off len (managed a)))
    \<and> (an_write_free a \<longrightarrow>
        same_result (anon_update_region off data a) (update_region env off data (managed a))
      \<and> same_result (anon_as_mut_slice off len a) (as_slice_mut off len (managed a)))
    \<and> same_result (anon_atomic_parts c off n a) (atomic_parts c off n (managed a))
    \<and> (\<not> an_write_free a \<and> data \<noteq> [] \<longrightarrow> anon_update_region off data a =
        (if unat off + length data \<le> unat (anon_len a) then None
         else Some (Inl (OutOfBounds off (of_nat (length data)) (anon_len a)), a)))
    \<and> anon_try_update_region off data a =
        (case anon_update_region off data a of
           None \<Rightarrow> Some (Inr False, a)
         | Some (Inl e, a') \<Rightarrow> Some (Inl e, a')
         | Some (Inr _, a') \<Rightarrow> Some (Inr True, a'))"
  using anon_reads_same [OF assms(1)] anon_writes_same [OF assms(1)] assms(2) anon_atomic_same [of c off n a]
    anon_blocked [of a data off] anon_try_same(1) [of off data a] unat_of_length [of data]
  by (simp add: anon_len_def)

definition sample_anon :: asys where
  "sample_anon = \<lparr>a_mm = anon_from_raw (sample_private\<lparr>m_kind := Kind_Anon\<rparr>) 8, a_world = sample_world\<rparr>"

lemma sample_anon_ok: "anon_ok sample_anon" "an_write_free sample_anon"
  using sample_world_lengths registry_ok_new
  by (simp_all add: anon_ok_def sys_ok_def variant_ok_def sample_anon_def anon_from_raw_def mapping_ok_def
      an_write_free_def sample_private_def sample_mapping_def unat_MAX_LEN sample_bytes_def)

theorem anonymous_as_private_mapping_witness:
  "anon_ok sample_anon \<and> an_write_free sample_anon
   \<and> same_result (anon_update_region 2 [1, 2] sample_anon) (update_region sample_env 2 [1, 2] (managed sample_anon))"
  using anonymous_as_private_mapping [OF sample_anon_ok(1), of "[1, 2]"] sample_anon_ok by auto

text \<open>The constructors of anonymous mappings refuse exactly a zero size and one above the limit, before
  any system call; otherwise they fail only with the error of the system call, or return \<open>size\<close> zero bytes
  in the invariant, with the lock free and no view, whether or not the kernel granted huge pages. No
  file changes. What is then written is what is read back.\<close>

lemma anonymous_fresh:
  assumes "world_ok w" "length data < 2 ^ 63" "data \<noteq> []" "ctor = anon_new \<or> ctor = anon_with_huge_pages"
  shows "case ctor env n w of
      (Inl e, w') \<Rightarrow> w_data w' = w_data w \<and>
        (if n = 0 \<or> n > ANON_MAX_MMAP_SIZE then (\<exists>msg. e = ResizeFailed msg) \<and> w' = w
         else \<exists>x. e = from_io_error x)
    | (Inr m, w') \<Rightarrow> n \<noteq> 0 \<and> n \<le> ANON_MAX_MMAP_SIZE \<and> fresh_anon n w m w'
        \<and> (unat off + length data \<le> unat n \<longrightarrow>
            (\<exists>a. anon_update_region off data \<lparr>a_mm = m, a_world = w'\<rparr> = Some (Inr (), a)
              \<and> anon_read_into env off data a = Some (Inr data, a) \<and> w_data (a_world a) = w_data w))"
proof -
  obtain r w' where mk: "ctor env n w = (r, w')" by (cases "ctor env n w")
  have wl: "\<forall>f. length (w_data w f) < 2 ^ 63" using assms(1) by (simp add: world_ok_def)
  show ?thesis
  proof (cases "n = 0 \<or> n > ANON_MAX_MMAP_SIZE")
    case True
    then have "\<exists>msg. (r, w') = (Inl (ResizeFailed msg), w)"
      using mk assms(4) by (cases "n = 0") (auto simp: anon_new_def anon_with_huge_pages_def validated_len_iff)
    with True mk show ?thesis by auto
  next
    case False
    then have c: "case r of Inl e \<Rightarrow> (\<exists>x. e = from_io_error x) \<and> w_data w' = w_data w | Inr m \<Rightarrow> fresh_anon n w m w'"
      using mk assms(4) anon_new_cases [OF wl] anon_huge_cases [OF wl] by auto
    have rt: "\<exists>a. anon_update_region off data \<lparr>a_mm = m, a_world = w'\<rparr> = Some (Inr (), a)
        \<and> anon_read_into env off data a = Some (Inr data, a) \<and> w_data (a_world a) = w_data w"
      if "fresh_anon n w m w'" "unat off + length data \<le> unat n" for m
      using anon_roundtrip [of "\<lparr>a_mm = m, a_world = w'\<rparr>" data off env] that assms(2,3)
      by (simp add: fresh_anon_def an_write_free_def registry_new_def atomic_empty_def)
    from c rt False mk show ?thesis by (auto simp: not_less split: sum.splits)
  qed
qed

lemma sample_anon_map: "\<exists>m w'. anon_new sample_env 8 sample_world = (Inr m, w')"
  by (simp add: anon_new_def validated_len_iff ANON_MAX_MMAP_SIZE_def bind_se_def lift_se_def return_se_def io_try_def
      map_err_se_def rawmmapmut_map_anon_def raw_map_anon_def options_len_def options_new_def sample_layout
      os_map_anon_def os_select_def unix_map_anon_def huge_layout_def populate_flag_def os_call_def unix_finish_def)

lemma anonymous_fresh_witness:
  "\<exists>m w' a. anon_new sample_env 8 sample_world = (Inr m, w') \<and> fresh_anon 8 sample_world m w'
     \<and> anon_update_region 2 [7, 9] \<lparr>a_mm = m, a_world = w'\<rparr> = Some (Inr (), a)
     \<and> anon_read_into sample_env 2 [7, 9] a = Some (Inr [7, 9], a)"
proof -
  obtain m w' where m: "anon_new sample_env 8 sample_world = (Inr m, w')" using sample_anon_map by blast
  from anonymous_fresh [where data = "[7, 9]" and ctor = anon_new and env = sample_env and n = 8 and off = 2, OF sample_world_ok] m show ?thesis by auto
qed

end
