(* ===== verification/Advise_Lock.thy ===== *)
theory Advise_Lock
  imports Mmap_Props
begin

text \<open>
  \<open>src/advise.rs\<close> and \<open>src/lock.rs\<close>: hints and page locks for ranges of a managed mapping. Both hold their
  guard across the system call, widen the range down to a page boundary and pass it on. What the kernel
  does with the pages is not modelled: in particular the bytes of a private mapping after a \<open>DontNeed\<close>
  hint are not described.
\<close>

section \<open>Definitions\<close>

text \<open>The error text of \<open>AdviceFailed\<close>.\<close>

definition advice_failed :: "env \<Rightarrow> io_error \<Rightarrow> mmap_io_error" where
  "advice_failed env e =
     AdviceFailed ((if e_target env = Windows then ''PrefetchVirtualMemory'' else ''madvise'')
       @ '' failed: '' @ io_text e)"

definition advise_mapped :: "env \<Rightarrow> addr \<Rightarrow> usize \<Rightarrow> u64 \<Rightarrow> u64 \<Rightarrow> mmap_advice \<Rightarrow> unit op" where
  "advise_mapped env base tot off len advice =
     op_bind (op_lift (slice_range64 off len tot)) (\<lambda>(start, fin).
       let aligned_start = start - start mod page_size (e_plat env)
       in op_io (advice_failed env) (advise_span env (base + aligned_start) (fin - aligned_start) advice))"

definition advise :: "env \<Rightarrow> u64 \<Rightarrow> u64 \<Rightarrow> mmap_advice \<Rightarrow> unit op" where
  "advise env off len advice s =
     (if len = 0 then Some (Inr (), s)
      else
        (case (advice, i_map (s_mm s)) of
           (Adv_DontNeed, Cow m) \<Rightarrow>
             if \<not> write_free s then None else advise_mapped env (raw_as_ptr m) (m_len m) off len advice s
         | _ \<Rightarrow> map_read (\<lambda>m. advise_mapped env (raw_as_ptr m) (m_len m) off len advice) s))"

datatype lock_error = Lock_Range mmap_io_error | Lock_Os io_error

text \<open>\<open>lock_range\<close> with its own error type.\<close>

definition lock_range :: "env \<Rightarrow> u64 \<Rightarrow> u64 \<Rightarrow> bool \<Rightarrow> sys \<Rightarrow> ((lock_error + unit) \<times> sys) option" where
  "lock_range env off len lock s =
     (if len = 0 then Some (Inr (), s)
      else if \<not> read_free s then None
      else
        let m = s_mapping s
        in (case slice_range64 off len (m_len m) of
              Inl e \<Rightarrow> Some (Inl (Lock_Range e), s)
            | Inr (start, fin) \<Rightarrow>
                let aligned_start = start - start mod page_size (e_plat env)
                in (case lock_span env (raw_as_ptr m + aligned_start) (fin - aligned_start) lock (s_world s) of
                      (r, w') \<Rightarrow> Some (map_err Lock_Os r, s\<lparr>s_world := w'\<rparr>))))"

fun lock_failed :: "env \<Rightarrow> lock_error \<Rightarrow> mmap_io_error" where
  "lock_failed env (Lock_Range e) = e"
| "lock_failed env (Lock_Os err) =
     LockFailed (if e_target env = Windows
       then ''VirtualLock failed: '' @ io_text err @ ''. This operation may require elevated privileges.''
       else ''mlock failed: '' @ io_text err @ ''. This operation typically requires elevated privileges.'')"

fun unlock_failed :: "env \<Rightarrow> lock_error \<Rightarrow> mmap_io_error" where
  "unlock_failed env (Lock_Range e) = e"
| "unlock_failed env (Lock_Os err) =
     UnlockFailed ((if e_target env = Windows then ''VirtualUnlock failed: '' else ''munlock failed: '') @ io_text err)"

definition lock_pages :: "env \<Rightarrow> u64 \<Rightarrow> u64 \<Rightarrow> unit op" where
  "lock_pages env off len s =
     map_option (\<lambda>(r, s'). (map_err (lock_failed env) r, s')) (lock_range env off len True s)"

definition unlock_pages :: "env \<Rightarrow> u64 \<Rightarrow> u64 \<Rightarrow> unit op" where
  "unlock_pages env off len s =
     map_option (\<lambda>(r, s'). (map_err (unlock_failed env) r, s')) (lock_range env off len False s)"

definition lock_all :: "env \<Rightarrow> unit op" where
  "lock_all env s = lock_pages env 0 (mmap_len s) s"

definition unlock_all :: "env \<Rightarrow> unit op" where
  "unlock_all env s = unlock_pages env 0 (mmap_len s) s"

section \<open>Facts\<close>

text \<open>The range that is passed on covers the request, starts at a page boundary and is inside the mapping.\<close>

lemma widened_span:
  fixes off len :: u64
  assumes "sys_ok s" "placed env (s_mapping s)" "m_delta (s_mapping s) = 0"
    and "os_page_size env = Inr page" "len \<noteq> 0" "unat off + unat len \<le> unat (m_len (s_mapping s))"
    and "a = raw_as_ptr (s_mapping s) + (off - off mod page)" "n = off + len - (off - off mod page)"
  shows "span_inside (unat page) (s_mapping s) a n"
    and "unat a \<le> unat (raw_as_ptr (s_mapping s)) + unat off"
    and "unat a + unat n = unat (raw_as_ptr (s_mapping s)) + unat off + unat len"
proof -
  let ?m = "s_mapping s"
  let ?d = "unat off - unat off mod unat page"
  have base: "mapping_base ?m = m_ptr ?m" using assms(3) by (simp add: mapping_base_def)
  have pl: "unat (m_ptr ?m) + unat (m_os_len ?m) \<le> 2 ^ 64" "unat page dvd unat (m_ptr ?m)"
    using assms(2,4) by (simp_all add: placed_def base)
  have os: "unat (m_len ?m) \<le> unat (m_os_len ?m)"
    using sys_okD(1) [OF assms(1)] assms(3,5,6) by (auto simp: mapping_ok_def unat_eq_zero split: if_splits)
  have len: "0 < unat len" using assms(5) by (simp add: unat_gt_0)
  have d: "unat (off - off mod page) = ?d"
    by (subst unat_sub_exact) (simp_all add: word_le_unat unat_mod_distrib)
  have e: "unat (off + len) = unat off + unat len"
    using assms(6) sys_okD(6) [OF assms(1)] by (subst unat_add_exact) simp_all
  have ua: "unat a = unat (m_ptr ?m) + ?d"
  proof -
    have "unat (m_ptr ?m) + ?d < 2 ^ 64" using pl(1) os len assms(6) diff_le_self [of "unat off" "unat off mod unat page"] by linarith
    then show ?thesis unfolding assms(7) by (subst unat_add_exact) (simp_all add: raw_as_ptr_def d)
  qed
  have un: "unat n = unat off + unat len - ?d"
    unfolding assms(8) by (subst unat_sub_exact) (simp_all add: word_le_unat d e)
  have dd: "unat page dvd ?d" by (simp add: dvd_minus_mod)
  obtain D where D: "?d = D" "D \<le> unat off" by simp
  note U = ua [unfolded D(1)] un [unfolded D(1)] dd [unfolded D(1)]
  show "span_inside (unat page) ?m a n"
    using U D(2) pl os len assms(6) by (simp add: span_inside_def base)
  show "unat a \<le> unat (raw_as_ptr ?m) + unat off" using U D(2) by (simp add: raw_as_ptr_def)
  show "unat a + unat n = unat (raw_as_ptr ?m) + unat off + unat len" using U D(2) by (simp add: raw_as_ptr_def)
qed

text \<open>The calls of a hint or a page lock, by the span they are given.\<close>

fun span_call :: "(addr \<Rightarrow> usize \<Rightarrow> bool) \<Rightarrow> syscall \<Rightarrow> bool" where
  "span_call P (Sys_madvise a n _) = P a n"
| "span_call P (Sys_mlock a n) = P a n"
| "span_call P (Sys_munlock a n) = P a n"
| "span_call P (Win_PrefetchVirtualMemory a n) = P a n"
| "span_call P (Win_VirtualLock a n) = P a n"
| "span_call P (Win_VirtualUnlock a n) = P a n"
| "span_call P _ = False"

lemma span_calls:
  assumes "P a n"
  shows "emits (span_call P) (advise_span env a n advice)" "emits (span_call P) (lock_span env a n lock)"
proof -
  show "emits (span_call P) (advise_span env a n advice)"
    using assms by (auto simp: advise_span_def os_dispatch os_select_def unix_advise_def win_advise_def
        intro!: emits_intro)
  have "emits (span_call P) (win_lock env a n lock)"
    using assms by (auto simp: win_lock_def emits_def os_call_def split: sum.splits)
  then show "emits (span_call P) (lock_span env a n lock)"
    using assms by (auto simp: lock_span_def os_dispatch os_select_def unix_lock_def intro!: emits_intro)
qed

definition widened :: "nat \<Rightarrow> mapping \<Rightarrow> u64 \<Rightarrow> u64 \<Rightarrow> addr \<Rightarrow> usize \<Rightarrow> bool" where
  "widened page m off len a n \<longleftrightarrow> span_inside page m a n \<and> unat a \<le> unat (raw_as_ptr m) + unat off
     \<and> unat a + unat n = unat (raw_as_ptr m) + unat off + unat len"

text \<open>What a call in range does: system calls on the widened span, and nothing to the mapping's state.\<close>

definition passed_on :: "env \<Rightarrow> u64 \<Rightarrow> u64 \<Rightarrow> sys \<Rightarrow> sys \<Rightarrow> bool" where
  "passed_on env off len s s' \<longleftrightarrow> s_mm s' = s_mm s \<and> same_files (s_world s) (s_world s')
     \<and> (\<exists>cs. w_trace (s_world s') = w_trace (s_world s) @ cs
          \<and> list_all (span_call (widened (unat (page_size (e_plat env))) (s_mapping s) off len)) cs)"

lemma passed_onI:
  assumes "m (s_world s) = (r, w')" "emits (span_call (widened (unat (page_size (e_plat env))) (s_mapping s) off len)) m" "quiet m"
  shows "passed_on env off len s (s\<lparr>s_world := w'\<rparr>)"
  using emitsD [OF assms(2,1)] quietD [OF assms(3,1)] by (simp add: passed_on_def)

lemma quiet_spans: "quiet (advise_span env a n advice)" "quiet (lock_span env a n lock)"
  by (simp_all add: advise_span_def lock_span_def quiet_os)

lemma widened_request:
  assumes "sys_ok s" "placed env (s_mapping s)" "m_delta (s_mapping s) = 0"
    and "os_page_size env = Inr (page_size (e_plat env))" "len \<noteq> 0" "unat off + unat len \<le> unat (m_len (s_mapping s))"
  shows "widened (unat (page_size (e_plat env))) (s_mapping s) off len
    (raw_as_ptr (s_mapping s) + (off - off mod page_size (e_plat env))) (off + len - (off - off mod page_size (e_plat env)))"
  using widened_span [OF assms refl refl] by (simp add: widened_def)

lemma advise_in_range:
  assumes "sys_ok s" "placed env (s_mapping s)" "m_delta (s_mapping s) = 0"
    and "os_page_size env = Inr (page_size (e_plat env))" "len \<noteq> 0" "unat off + unat len \<le> unat (m_len (s_mapping s))"
  shows "\<exists>r s'. advise_mapped env (raw_as_ptr (s_mapping s)) (m_len (s_mapping s)) off len advice s = Some (r, s')
    \<and> passed_on env off len s s' \<and> (r = Inr () \<or> (\<exists>msg. r = Inl (AdviceFailed msg)))"
proof -
  let ?d = "off - off mod page_size (e_plat env)"
  let ?m = "advise_span env (raw_as_ptr (s_mapping s) + ?d) (off + len - ?d) advice"
  obtain r w where r: "?m (s_world s) = (r, w)" by (cases "?m (s_world s)")
  have "advise_mapped env (raw_as_ptr (s_mapping s)) (m_len (s_mapping s)) off len advice s =
      Some (map_err (advice_failed env) r, s\<lparr>s_world := w\<rparr>)"
    using assms(6) r by (simp add: advise_mapped_def op_bind_def op_lift_def slice_range64_eq Let_def op_io_def)
  with passed_onI [OF r span_calls(1) [where P = "widened (unat (page_size (e_plat env))) (s_mapping s) off len", OF widened_request [OF assms]] quiet_spans(1)] show ?thesis
    by (cases r) (auto simp: advice_failed_def)
qed

lemma lock_in_range:
  assumes "sys_ok s" "placed env (s_mapping s)" "m_delta (s_mapping s) = 0"
    and "os_page_size env = Inr (page_size (e_plat env))" "len \<noteq> 0" "unat off + unat len \<le> unat (m_len (s_mapping s))"
    and "read_free s"
  shows "\<exists>r s'. lock_range env off len lock s = Some (r, s')
    \<and> passed_on env off len s s' \<and> (r = Inr () \<or> (\<exists>e. r = Inl (Lock_Os e)))"
proof -
  let ?d = "off - off mod page_size (e_plat env)"
  let ?m = "lock_span env (raw_as_ptr (s_mapping s) + ?d) (off + len - ?d) lock"
  obtain r w where r: "?m (s_world s) = (r, w)" by (cases "?m (s_world s)")
  have "lock_range env off len lock s = Some (map_err Lock_Os r, s\<lparr>s_world := w\<rparr>)"
    using assms(5-7) r by (simp add: lock_range_def slice_range64_eq Let_def)
  with passed_onI [OF r span_calls(2) [where P = "widened (unat (page_size (e_plat env))) (s_mapping s) off len", OF widened_request [OF assms(1-6)]] quiet_spans(2)] show ?thesis
    by (cases r) auto
qed

text \<open>The exact behaviour of the two guards.\<close>

definition advise_free :: "mmap_advice \<Rightarrow> sys \<Rightarrow> bool" where
  "advise_free advice s \<longleftrightarrow> (if advice = Adv_DontNeed \<and> is_cow_writable s then write_free s else read_free s)"

lemma advise_eq:
  "advise env off len advice s =
     (if len = 0 then Some (Inr (), s)
      else if \<not> advise_free advice s then None
      else advise_mapped env (raw_as_ptr (s_mapping s)) (m_len (s_mapping s)) off len advice s)"
  by (cases advice; cases "i_map (s_mm s)")
    (simp_all add: advise_def advise_free_def is_cow_writable_def map_read_def)

section \<open>Properties\<close>



end
