(* ===== verification/Watch.thy ===== *)
theory Watch
  imports Errors Joined_Worker
begin

text \<open>
  \<open>src/watch.rs\<close>: watching a file. The backend (the \<open>notify\<close> crate) sends events into a channel; the
  dispatcher thread receives them one by one and calls the user's callback; dropping the handle sends
  a shutdown message and joins. The three parties are a state machine over the channel. The backend is
  not constrained: until it releases its sender it may send any event at any time, also after it was
  dropped. Its event kinds are modelled as far as the code matches on them.
\<close>

section \<open>Events\<close>

datatype modify_kind = Modify_Any | Modify_Data | Modify_Metadata | Modify_Name | Modify_Other

datatype remove_kind = Remove_Any | Remove_File | Remove_Folder | Remove_Other

datatype notify_kind = N_Any | N_Access | N_Create | N_Modify modify_kind | N_Remove remove_kind | N_Other

datatype msg = Event "string + notify_kind" | Shutdown

datatype change_kind = Modified | Metadata | Removed

record change_event =
  ev_offset :: "u64 option"
  ev_len :: "u64 option"
  ev_kind :: change_kind

fun map_notify_kind :: "notify_kind \<Rightarrow> change_kind option" where
  "map_notify_kind N_Create = Some Modified"
| "map_notify_kind (N_Modify Modify_Data) = Some Modified"
| "map_notify_kind (N_Modify Modify_Metadata) = Some Metadata"
| "map_notify_kind (N_Modify Modify_Name) = Some Removed"
| "map_notify_kind (N_Modify _) = Some Modified"
| "map_notify_kind (N_Remove _) = Some Removed"
| "map_notify_kind N_Access = None"
| "map_notify_kind N_Any = Some Modified"
| "map_notify_kind N_Other = Some Modified"

definition change_event_of :: "change_kind \<Rightarrow> change_event" where
  "change_event_of k = \<lparr>ev_offset = None, ev_len = None, ev_kind = k\<rparr>"

section \<open>The dispatcher\<close>

text \<open>The dispatcher waits in \<open>recv\<close>, is inside a callback (with whether it leaves the loop after it), or
  has ended. The drop has not started, has dropped the watcher, has sent the shutdown message, or has
  returned; the flag says whether it runs on the dispatcher's own thread.\<close>

datatype dispatch_pc = P_Recv | P_Callback bool | P_Done

datatype handle_pc = H_Alive | H_Unsubscribed bool | H_Signalled bool | H_Returned bool

record watch_state =
  wa_queue :: "msg list"
  wa_event_tx :: bool
  wa_shutdown_tx :: bool
  wa_pc :: dispatch_pc
  wa_drop :: handle_pc
  wa_log :: "change_event list"
  wa_got :: "msg list"

text \<open>\<open>MemoryMappedFile::watch\<close>, given the results of creating the watcher, of subscribing and of spawning the
  thread, and the debug form of the path.\<close>

definition watch ::
  "string \<Rightarrow> (string + unit) \<Rightarrow> (string + unit) \<Rightarrow> (string + unit) \<Rightarrow> mmap_io_error + watch_state" where
  "watch path_dbg init sub spawned =
     result_bind (map_err (\<lambda>e. WatchFailed (''watcher init failed: '' @ e)) init) (\<lambda>_.
     result_bind (map_err (\<lambda>e. WatchFailed (''watch('' @ path_dbg @ '') failed: '' @ e)) sub) (\<lambda>_.
     result_bind (map_err (\<lambda>e. WatchFailed (''watch thread spawn failed: '' @ e)) spawned) (\<lambda>_.
       Inr \<lparr>wa_queue = [], wa_event_tx = True, wa_shutdown_tx = True, wa_pc = P_Recv, wa_drop = H_Alive,
            wa_log = [], wa_got = []\<rparr>)))"

text \<open>A send reaches the queue as long as the receiver exists.\<close>

definition send :: "msg \<Rightarrow> watch_state \<Rightarrow> watch_state" where
  "send m w = (if wa_pc w = P_Done then w else w\<lparr>wa_queue := wa_queue w @ [m]\<rparr>)"

text \<open>The body of the dispatcher's loop for one message: the callback it makes, if any, and whether the
  loop is left (after that callback).\<close>

fun handle_msg :: "msg \<Rightarrow> change_event option \<times> bool" where
  "handle_msg Shutdown = (None, True)"
| "handle_msg (Event (Inl _)) = (Some (change_event_of Modified), False)"
| "handle_msg (Event (Inr k)) =
     (case map_notify_kind k of
        None \<Rightarrow> (None, False)
      | Some kind \<Rightarrow> (Some (change_event_of kind), kind = Removed))"

inductive dispatch_step :: "watch_state \<Rightarrow> watch_state \<Rightarrow> bool" where
  received:
    "wa_pc w = P_Recv \<Longrightarrow> wa_queue w = m # q \<Longrightarrow> handle_msg m = (None, stop) \<Longrightarrow>
       dispatch_step w (w\<lparr>wa_queue := q, wa_got := wa_got w @ [m], wa_pc := (if stop then P_Done else P_Recv)\<rparr>)"
| called:
    "wa_pc w = P_Recv \<Longrightarrow> wa_queue w = m # q \<Longrightarrow> handle_msg m = (Some e, stop) \<Longrightarrow>
       dispatch_step w (w\<lparr>wa_queue := q, wa_got := wa_got w @ [m], wa_pc := P_Callback stop, wa_log := wa_log w @ [e]\<rparr>)"
| call_returns:
    "wa_pc w = P_Callback stop \<Longrightarrow> wa_drop w \<notin> {H_Unsubscribed True, H_Signalled True} \<Longrightarrow>
       dispatch_step w (w\<lparr>wa_pc := (if stop then P_Done else P_Recv)\<rparr>)"
| disconnected:
    "wa_pc w = P_Recv \<Longrightarrow> wa_queue w = [] \<Longrightarrow> \<not> wa_event_tx w \<Longrightarrow> \<not> wa_shutdown_tx w \<Longrightarrow>
       dispatch_step w (w\<lparr>wa_pc := P_Done\<rparr>)"

text \<open>\<open>Drop for WatchHandle\<close>; on the dispatcher's own thread it can only run inside a callback, and does not
  join.\<close>

inductive handle_step :: "watch_state \<Rightarrow> watch_state \<Rightarrow> bool" where
  drop_other: "wa_drop w = H_Alive \<Longrightarrow> handle_step w (w\<lparr>wa_drop := H_Unsubscribed False\<rparr>)"
| drop_own: "wa_drop w = H_Alive \<Longrightarrow> wa_pc w = P_Callback stop \<Longrightarrow> handle_step w (w\<lparr>wa_drop := H_Unsubscribed True\<rparr>)"
| signal: "wa_drop w = H_Unsubscribed own \<Longrightarrow> handle_step w ((send Shutdown w)\<lparr>wa_drop := H_Signalled own\<rparr>)"
| join: "wa_drop w = H_Signalled own \<Longrightarrow> own \<or> wa_pc w = P_Done \<Longrightarrow>
    handle_step w (w\<lparr>wa_drop := H_Returned own, wa_shutdown_tx := False\<rparr>)"

text \<open>The backend sends an event, or releases its sender once it was dropped.\<close>

inductive backend_step :: "watch_state \<Rightarrow> watch_state \<Rightarrow> bool" where
  backend_sends: "wa_event_tx w \<Longrightarrow> backend_step w (send (Event e) w)"
| backend_ends: "wa_drop w \<noteq> H_Alive \<Longrightarrow> backend_step w (w\<lparr>wa_event_tx := False\<rparr>)"

definition watch_step :: "watch_state \<Rightarrow> watch_state \<Rightarrow> bool" where
  "watch_step w v \<longleftrightarrow> dispatch_step w v \<or> handle_step w v \<or> backend_step w v"

text \<open>\<open>is_active\<close>: the handle still has the thread, and it has not finished.\<close>

definition is_active :: "watch_state \<Rightarrow> bool" where
  "is_active w \<longleftrightarrow> wa_pc w \<noteq> P_Done"

section \<open>What is delivered\<close>

text \<open>The reference: the callbacks for a sequence of messages, up to a shutdown or a removal.\<close>

fun deliveries :: "msg list \<Rightarrow> change_event list" where
  "deliveries [] = []"
| "deliveries (m # ms) =
     (case handle_msg m of (e, stop) \<Rightarrow>
        (case e of None \<Rightarrow> [] | Some x \<Rightarrow> [x]) @ (if stop then [] else deliveries ms))"

definition stops :: "msg \<Rightarrow> bool" where
  "stops m = snd (handle_msg m)"

lemma deliveries_append:
  "deliveries (ms @ ns) = deliveries ms @ (if list_ex stops ms then [] else deliveries ns)"
  by (induction ms) (auto simp: stops_def split: prod.splits option.splits)

inductive_cases dispatch_stepE: "dispatch_step w v"
inductive_cases handle_stepE: "handle_step w v"
inductive_cases backend_stepE: "backend_step w v"

text \<open>The invariant: the log is the reference on what was received, the loop is left exactly after a
  message that stops it, a shutdown message is under way once it was sent, and a join has seen the
  end.\<close>

fun shutdown_sent :: "handle_pc \<Rightarrow> bool" where
  "shutdown_sent (H_Signalled _) = True"
| "shutdown_sent (H_Returned _) = True"
| "shutdown_sent _ = False"

fun drop_returned :: "handle_pc \<Rightarrow> bool" where
  "drop_returned (H_Returned _) = True"
| "drop_returned _ = False"

definition watch_inv :: "watch_state \<Rightarrow> bool" where
  "watch_inv w \<longleftrightarrow> wa_log w = deliveries (wa_got w)
     \<and> (wa_pc w = P_Recv \<or> wa_pc w = P_Callback False \<longrightarrow> \<not> list_ex stops (wa_got w))
     \<and> (wa_pc w = P_Done \<longrightarrow> list_ex stops (wa_got w))
     \<and> (wa_pc w = P_Callback True \<longrightarrow> list_ex stops (wa_got w))
     \<and> (shutdown_sent (wa_drop w) \<longrightarrow> Shutdown \<in> set (wa_queue w) \<or> list_ex stops (wa_got w))
     \<and> (wa_shutdown_tx w \<longleftrightarrow> \<not> drop_returned (wa_drop w))
     \<and> (wa_drop w = H_Returned False \<longrightarrow> wa_pc w = P_Done)"

lemma watch_inv_new: "watch dbg i u t = Inr w \<Longrightarrow> watch_inv w"
  by (auto simp: watch_def result_bind_Inr watch_inv_def)

lemma deliveries_snoc:
  "\<not> list_ex stops ms \<Longrightarrow> handle_msg m = (e, stop) \<Longrightarrow>
     deliveries (ms @ [m]) = deliveries ms @ (case e of None \<Rightarrow> [] | Some x \<Rightarrow> [x])"
  by (simp add: deliveries_append)

lemma shutdown_stops [simp]: "stops Shutdown"
  by (simp add: stops_def)

lemma watch_inv_dispatch:
  assumes "watch_inv w" "dispatch_step w v"
  shows "watch_inv v"
  using assms(2)
proof (cases rule: dispatch_step.cases)
  case (received m q stop)
  then have n: "\<not> list_ex stops (wa_got w)" and st: "stops m = stop"
    using assms(1) by (simp_all add: watch_inv_def stops_def)
  with received deliveries_snoc [OF n received(4)] assms(1) show ?thesis
    by (auto simp: watch_inv_def)
next
  case (called m q e stop)
  then have n: "\<not> list_ex stops (wa_got w)" and st: "stops m = stop"
    using assms(1) by (simp_all add: watch_inv_def stops_def)
  moreover have "m \<noteq> Shutdown" using called(4) by auto
  ultimately show ?thesis
    using called deliveries_snoc [OF n called(4)] assms(1) by (cases stop) (auto simp: watch_inv_def)
next
  case (call_returns stop)
  with assms(1) show ?thesis by (cases stop) (auto simp: watch_inv_def)
next
  case disconnected
  with assms(1) have "shutdown_sent (wa_drop w)" by (cases "wa_drop w") (auto simp: watch_inv_def)
  with disconnected assms(1) show ?thesis by (auto simp: watch_inv_def)
qed

lemma watch_inv_step:
  assumes "watch_inv w" "watch_step w v"
  shows "watch_inv v"
  using assms(2) unfolding watch_step_def
proof (elim disjE)
  assume "handle_step w v"
  then show ?thesis
  proof (cases rule: handle_step.cases)
    case (signal own)
    with assms(1) show ?thesis by (cases "wa_pc w = P_Done") (simp_all add: watch_inv_def send_def)
  next
    case (join own)
    with assms(1) show ?thesis by (cases own) (simp_all add: watch_inv_def)
  qed (use assms(1) in \<open>simp_all add: watch_inv_def\<close>)
next
  assume "backend_step w v"
  then show ?thesis
  proof (cases rule: backend_step.cases)
    case (backend_sends e)
    with assms(1) show ?thesis by (cases "wa_pc w = P_Done") (simp_all add: watch_inv_def send_def)
  qed (use assms(1) in \<open>simp add: watch_inv_def\<close>)
qed (rule watch_inv_dispatch [OF assms(1)])

lemma done_step: "wa_pc w = P_Done \<Longrightarrow> watch_step w v \<Longrightarrow> wa_pc v = P_Done \<and> wa_log v = wa_log w"
  unfolding watch_step_def by (auto simp: send_def elim!: dispatch_stepE handle_stepE backend_stepE)

interpretation dispatcher: joined_worker watch_step watch_inv "\<lambda>w. wa_pc w = P_Done"
  "\<lambda>w. wa_drop w = H_Returned False" wa_log
proof unfold_locales
  show "watch_inv w \<Longrightarrow> watch_step w v \<Longrightarrow> watch_inv v" for w v by (rule watch_inv_step)
  show "wa_pc w = P_Done \<Longrightarrow> watch_step w v \<Longrightarrow> wa_pc v = P_Done \<and> wa_log v = wa_log w" for w v by (rule done_step)
  show "watch_inv w \<Longrightarrow> wa_drop w = H_Returned False \<Longrightarrow> wa_pc w = P_Done" for w by (simp add: watch_inv_def)
qed

section \<open>The dispatcher ends\<close>

text \<open>What the dispatcher still does before it ends, once a shutdown message is in the queue: at most two
  steps for every message up to that one.\<close>

fun until_shutdown :: "msg list \<Rightarrow> nat" where
  "until_shutdown [] = 0"
| "until_shutdown (m # ms) = (if m = Shutdown then 1 else Suc (until_shutdown ms))"

definition dispatch_rank :: "watch_state \<Rightarrow> nat" where
  "dispatch_rank w = (case wa_pc w of P_Done \<Rightarrow> 0 | P_Recv \<Rightarrow> 2 * until_shutdown (wa_queue w)
     | P_Callback _ \<Rightarrow> Suc (2 * until_shutdown (wa_queue w)))"

definition own_drop_running :: "watch_state \<Rightarrow> bool" where
  "own_drop_running w \<longleftrightarrow> wa_drop w \<in> {H_Unsubscribed True, H_Signalled True}"

lemma until_shutdown_pos: "Shutdown \<in> set ms \<Longrightarrow> 0 < until_shutdown ms"
  by (cases ms) auto

lemma dispatch_rank_step:
  assumes "Shutdown \<in> set (wa_queue w)" "dispatch_step w v"
  shows "dispatch_rank v < dispatch_rank w" "wa_pc v \<noteq> P_Done \<longrightarrow> Shutdown \<in> set (wa_queue v)" "wa_drop v = wa_drop w"
  using assms until_shutdown_pos [OF assms(1)]
  by (auto simp: dispatch_rank_def elim!: dispatch_stepE split: if_splits)

lemma dispatch_progress:
  assumes "Shutdown \<in> set (wa_queue w)" "wa_pc w \<noteq> P_Done" "\<not> own_drop_running w"
  shows "\<exists>v. dispatch_step w v"
proof (cases "wa_pc w")
  case P_Recv
  obtain m q where q: "wa_queue w = m # q" using assms(1) by (cases "wa_queue w") auto
  obtain e stop where h: "handle_msg m = (e, stop)" by (cases "handle_msg m")
  show ?thesis
  proof (cases e)
    case None
    from received [OF P_Recv q h [unfolded None]] show ?thesis by blast
  next
    case (Some x)
    from called [OF P_Recv q h [unfolded Some]] show ?thesis by blast
  qed
next
  case (P_Callback stop)
  from call_returns [OF P_Callback] assms(3) show ?thesis by (auto simp: own_drop_running_def)
qed (use assms in simp)

lemma dispatch_ends:
  "wa_pc w = P_Done \<or> Shutdown \<in> set (wa_queue w) \<and> \<not> own_drop_running w \<Longrightarrow>
     \<exists>v. dispatch_step\<^sup>*\<^sup>* w v \<and> wa_pc v = P_Done \<and> wa_drop v = wa_drop w"
proof (induction "dispatch_rank w" arbitrary: w rule: less_induct)
  case less
  show ?case
  proof (cases "wa_pc w = P_Done")
    case False
    with less.prems have sh: "Shutdown \<in> set (wa_queue w)" "\<not> own_drop_running w" by simp_all
    obtain u where u: "dispatch_step w u" using dispatch_progress [OF sh(1) False sh(2)] by blast
    note R = dispatch_rank_step [OF sh(1) u]
    have "wa_pc u = P_Done \<or> Shutdown \<in> set (wa_queue u) \<and> \<not> own_drop_running u"
      using R(2,3) sh(2) by (auto simp: own_drop_running_def)
    with less.hyps [OF R(1)] obtain v where "dispatch_step\<^sup>*\<^sup>* u v" "wa_pc v = P_Done" "wa_drop v = wa_drop u" by blast
    with u R(3) show ?thesis by (metis converse_rtranclp_into_rtranclp)
  qed blast
qed

text \<open>Messages behind the shutdown message do not delay the end.\<close>

lemma until_shutdown_append: "Shutdown \<in> set ms \<Longrightarrow> until_shutdown (ms @ ns) = until_shutdown ms"
  by (induction ms) auto

lemma backend_keeps_rank:
  "Shutdown \<in> set (wa_queue w) \<Longrightarrow> backend_step w v \<Longrightarrow> dispatch_rank v = dispatch_rank w"
  by (auto simp: dispatch_rank_def send_def until_shutdown_append elim!: backend_stepE split: dispatch_pc.splits)

section \<open>Properties\<close>


text \<open>A run: a modification is delivered, the handle is dropped, and the dispatcher ends.\<close>

definition watch_start :: watch_state where
  "watch_start = \<lparr>wa_queue = [], wa_event_tx = True, wa_shutdown_tx = True, wa_pc = P_Recv, wa_drop = H_Alive,
     wa_log = [], wa_got = []\<rparr>"

lemma watch_start_new: "watch dbg (Inr ()) (Inr ()) (Inr ()) = Inr watch_start"
  by (simp add: watch_def watch_start_def)

lemma drop_run:
  "watch_step\<^sup>*\<^sup>* watch_start (watch_start\<lparr>wa_shutdown_tx := False, wa_pc := P_Done, wa_drop := H_Returned False, wa_got := [Shutdown]\<rparr>)"
proof -
  let ?a = "watch_start\<lparr>wa_drop := H_Unsubscribed False\<rparr>"
  let ?b = "watch_start\<lparr>wa_queue := [Shutdown], wa_drop := H_Signalled False\<rparr>"
  let ?c = "watch_start\<lparr>wa_pc := P_Done, wa_drop := H_Signalled False, wa_got := [Shutdown]\<rparr>"
  have "watch_step watch_start ?a" using drop_other [of watch_start] by (simp add: watch_step_def watch_start_def)
  moreover have "watch_step ?a ?b"
    using signal [of ?a False] by (simp add: watch_step_def watch_start_def send_def)
  moreover have "watch_step ?b ?c"
    using received [of ?b Shutdown "[]" True] by (simp add: watch_step_def watch_start_def)
  moreover have "watch_step ?c (watch_start\<lparr>wa_shutdown_tx := False, wa_pc := P_Done, wa_drop := H_Returned False, wa_got := [Shutdown]\<rparr>)"
    using join [of ?c False] by (simp add: watch_step_def watch_start_def)
  ultimately show ?thesis by (meson converse_rtranclp_into_rtranclp rtranclp.rtrancl_refl)
qed


text \<open>C36. The drop ends: once the shutdown message was sent by another thread, the dispatcher has ended or can
  take a step that brings its end nearer, whatever the backend still sends; it ends after the messages
  ahead of the shutdown message, and then the join returns.\<close>

theorem watch_drop_returns:
  assumes "watch dbg i u t = Inr w0" "watch_step\<^sup>*\<^sup>* w0 w" "wa_drop w = H_Signalled False"
  shows "(wa_pc w = P_Done \<or> (\<exists>v. dispatch_step w v))
    \<and> (\<forall>v. dispatch_step w v \<longrightarrow> dispatch_rank v < dispatch_rank w)
    \<and> (\<forall>v. backend_step w v \<and> \<not> list_ex stops (wa_got w) \<longrightarrow> dispatch_rank v = dispatch_rank w)
    \<and> (\<exists>v x. dispatch_step\<^sup>*\<^sup>* w v \<and> handle_step v x \<and> wa_drop x = H_Returned False \<and> \<not> is_active x)"
proof -
  have inv: "watch_inv w" by (rule dispatcher.good_run [OF assms(2) watch_inv_new [OF assms(1)]])
  have no: "\<not> own_drop_running w" using assms(3) by (simp add: own_drop_running_def)
  have sh: "Shutdown \<in> set (wa_queue w) \<or> list_ex stops (wa_got w)" using inv assms(3) by (simp add: watch_inv_def)
  have last: "wa_pc w = P_Done \<or> wa_pc w = P_Callback True" if "list_ex stops (wa_got w)"
    using inv that by (cases "wa_pc w") (auto simp: watch_inv_def)
  have ret: "dispatch_step w (w\<lparr>wa_pc := P_Done\<rparr>)" if "wa_pc w = P_Callback True"
    using call_returns [OF that] assms(3) by simp
  have "wa_pc w = P_Done \<or> (\<exists>v. dispatch_step w v)"
    using dispatch_progress [OF _ _ no] sh last ret by blast
  moreover have "dispatch_rank v < dispatch_rank w" if "dispatch_step w v" for v
  proof (cases "list_ex stops (wa_got w)")
    case True
    with last that have "wa_pc w = P_Callback True" by (auto elim: dispatch_stepE)
    with that show ?thesis by (auto simp: dispatch_rank_def elim: dispatch_stepE)
  qed (use dispatch_rank_step(1) [OF _ that] sh in blast)
  moreover have "\<exists>v. dispatch_step\<^sup>*\<^sup>* w v \<and> wa_pc v = P_Done \<and> wa_drop v = wa_drop w"
  proof (cases "Shutdown \<in> set (wa_queue w) \<or> wa_pc w = P_Done")
    case False
    with sh last ret have "dispatch_step w (w\<lparr>wa_pc := P_Done\<rparr>)" by blast
    then show ?thesis by (intro exI [of _ "w\<lparr>wa_pc := P_Done\<rparr>"]) auto
  qed (use dispatch_ends [of w] no in blast)
  then obtain v where v: "dispatch_step\<^sup>*\<^sup>* w v" "wa_pc v = P_Done" "wa_drop v = H_Signalled False"
    using assms(3) by auto
  then have "handle_step v (v\<lparr>wa_drop := H_Returned False, wa_shutdown_tx := False\<rparr>)" by (intro join) auto
  moreover have "\<forall>v. backend_step w v \<and> \<not> list_ex stops (wa_got w) \<longrightarrow> dispatch_rank v = dispatch_rank w"
    using backend_keeps_rank sh by blast
  ultimately show ?thesis using v(1,2)
    by (metis (no_types, lifting) is_active_def watch_state.select_convs(4,5) watch_state.surjective watch_state.update_convs(3,5))
qed

theorem watch_drop_returns_witness:
  "\<exists>w v x. watch_step\<^sup>*\<^sup>* watch_start w \<and> wa_drop w = H_Signalled False \<and> is_active w
     \<and> dispatch_step\<^sup>*\<^sup>* w v \<and> handle_step v x \<and> wa_drop x = H_Returned False"
proof -
  let ?a = "watch_start\<lparr>wa_drop := H_Unsubscribed False\<rparr>"
  let ?b = "watch_start\<lparr>wa_queue := [Shutdown], wa_drop := H_Signalled False\<rparr>"
  have "watch_step watch_start ?a" using drop_other [of watch_start] by (simp add: watch_step_def watch_start_def)
  moreover have "watch_step ?a ?b"
    using signal [of ?a False] by (simp add: watch_step_def watch_start_def send_def)
  ultimately have r: "watch_step\<^sup>*\<^sup>* watch_start ?b" by (meson converse_rtranclp_into_rtranclp rtranclp.rtrancl_refl)
  moreover have "wa_drop ?b = H_Signalled False" "is_active ?b" by (simp_all add: is_active_def watch_start_def)
  ultimately show ?thesis using watch_drop_returns [OF watch_start_new r] by blast
qed

section \<open>A drop on the dispatcher's own thread\<close>

text \<open>The documentation of \<open>WatchHandle\<close> says of a drop inside the callback that the thread exits when the
  callback returns. The shutdown message is behind the events already in the channel, so those are
  still delivered: callbacks are made after such a drop has returned and its callback has ended.\<close>

lemma own_drop_calls_again:
  "\<exists>w v. watch_step\<^sup>*\<^sup>* watch_start w \<and> wa_drop w = H_Returned True \<and> wa_pc w = P_Recv
     \<and> watch_step w v \<and> wa_log v = wa_log w @ [change_event_of Modified]"
proof -
  let ?e = "Event (Inr N_Any)" and ?c = "change_event_of Modified"
  let ?s1 = "watch_start\<lparr>wa_queue := [?e]\<rparr>"
  let ?s2 = "watch_start\<lparr>wa_pc := P_Callback False, wa_log := [?c], wa_got := [?e]\<rparr>"
  let ?s3 = "?s2\<lparr>wa_queue := [?e]\<rparr>"
  let ?s4 = "?s3\<lparr>wa_drop := H_Unsubscribed True\<rparr>"
  let ?s5 = "?s4\<lparr>wa_queue := [?e, Shutdown], wa_drop := H_Signalled True\<rparr>"
  let ?s6 = "?s5\<lparr>wa_drop := H_Returned True, wa_shutdown_tx := False\<rparr>"
  let ?w = "?s6\<lparr>wa_pc := P_Recv\<rparr>"
  let ?v = "?w\<lparr>wa_queue := [Shutdown], wa_got := [?e, ?e], wa_pc := P_Callback False, wa_log := [?c, ?c]\<rparr>"
  have "watch_step watch_start ?s1"
    using backend_sends [of watch_start "Inr N_Any"] by (simp add: watch_step_def watch_start_def send_def)
  moreover have "watch_step ?s1 ?s2"
    using called [of ?s1 ?e "[]" ?c False] by (simp add: watch_step_def watch_start_def)
  moreover have "watch_step ?s2 ?s3"
    using backend_sends [of ?s2 "Inr N_Any"] by (simp add: watch_step_def watch_start_def send_def)
  moreover have "watch_step ?s3 ?s4"
    using drop_own [of ?s3 False] by (simp add: watch_step_def watch_start_def)
  moreover have "watch_step ?s4 ?s5"
    using signal [of ?s4 True] by (simp add: watch_step_def watch_start_def send_def)
  moreover have "watch_step ?s5 ?s6"
    using join [of ?s5 True] by (simp add: watch_step_def watch_start_def)
  moreover have "watch_step ?s6 ?w"
    using call_returns [of ?s6 False] by (simp add: watch_step_def watch_start_def)
  ultimately have "watch_step\<^sup>*\<^sup>* watch_start ?w" by (meson converse_rtranclp_into_rtranclp rtranclp.rtrancl_refl)
  moreover have "watch_step ?w ?v"
    using called [of ?w ?e "[Shutdown]" ?c False] by (simp add: watch_step_def watch_start_def)
  ultimately show ?thesis by (intro exI [of _ ?w] exI [of _ ?v]) (simp add: watch_start_def)
qed

end
