(* ===== verification/Manager.thy ===== *)
theory Manager
  imports Mmap_Open_Props Mmap_Props
begin

text \<open>
  \<open>src/manager.rs\<close>: the convenience functions over files and mappings, and their asynchronous variants,
  which run the same calls on a thread pool. A mapping that a function opens for itself is dropped
  (unmapped) when it returns.
\<close>

section \<open>Definitions\<close>

definition create_mmap :: "env \<Rightarrow> path \<Rightarrow> u64 \<Rightarrow> inner open_io" where
  "create_mmap env pth n = create_rw env pth n"

definition load_mmap :: "env \<Rightarrow> path \<Rightarrow> mmap_mode \<Rightarrow> inner open_io" where
  "load_mmap env pth mode =
     (case mode of
        ReadOnly \<Rightarrow> open_ro env pth
      | ReadWrite \<Rightarrow> open_rw env pth
      | CopyOnWrite \<Rightarrow>
          if e_cow env then open_cow env pth
          else fail_se (InvalidMode ''copy-on-write mode not enabled (feature `cow`)''))"

text \<open>\<open>None\<close> would be a wait for the lock.\<close>

definition write_mmap :: "env \<Rightarrow> path \<Rightarrow> u64 \<Rightarrow> byte list \<Rightarrow> world \<Rightarrow> ((mmap_io_error + unit) \<times> world) option" where
  "write_mmap env pth off data w =
     (case open_rw env pth w of
        (Inl e, w1) \<Rightarrow> Some (Inl e, w1)
      | (Inr mm, w1) \<Rightarrow>
          map_option (\<lambda>(r, s). (r, mapping_drop env (s_mapping s) (s_world s)))
            (update_region env off data \<lparr>s_mm = mm, s_world = w1\<rparr>))"

definition manager_update_region :: "env \<Rightarrow> u64 \<Rightarrow> byte list \<Rightarrow> unit op" where
  "manager_update_region env off data = update_region env off data"

definition manager_flush :: "env \<Rightarrow> unit op" where
  "manager_flush env = mmap_flush env"

definition copy_mmap :: "env \<Rightarrow> path \<Rightarrow> path \<Rightarrow> unit open_io" where
  "copy_mmap env src dst = bind_se (io_try (fs_copy env src dst)) (\<lambda>_. return_se ())"

definition delete_mmap :: "env \<Rightarrow> path \<Rightarrow> unit open_io" where
  "delete_mmap env pth = bind_se (io_try (fs_remove_file env pth)) (\<lambda>_. return_se ())"

definition create_mmap_async :: "env \<Rightarrow> path \<Rightarrow> u64 \<Rightarrow> inner open_io" where
  "create_mmap_async env pth n = create_rw env pth n"

definition copy_mmap_async :: "env \<Rightarrow> path \<Rightarrow> path \<Rightarrow> unit open_io" where
  "copy_mmap_async env src dst = map_err_se Io (bind_se (fs_copy env src dst) (\<lambda>_. return_se ()))"

definition delete_mmap_async :: "env \<Rightarrow> path \<Rightarrow> unit open_io" where
  "delete_mmap_async env pth = map_err_se Io (fs_remove_file env pth)"

section \<open>Opening changes no file\<close>

lemma quiet_io_try [quiet_intro]: "quiet m \<Longrightarrow> quiet (io_try m)"
  by (simp add: quiet_def io_try_def map_err_se_def split_def)

lemma quiet_plain_open [quiet_intro]: "opts \<in> {opts_ro, opts_rw} \<Longrightarrow> quiet (fs_open env pth opts)"
  unfolding quiet_def by (auto intro!: fs_open_plain(1) [OF prod.collapse [symmetric]])

lemma quiet_metadata [quiet_intro]: "quiet (fs_metadata_len env f)"
  unfolding quiet_def by (auto intro!: fs_metadata_quiet [OF prod.collapse [symmetric]])

lemma quiet_map [quiet_intro]: "quiet (map_impl env ro f acc)"
  unfolding quiet_def same_files_def using map_impl_data [of env ro f acc] by (metis prod.collapse)

lemma quiet_raw_maps [quiet_intro]:
  "quiet (rawmmap_map env f)" "quiet (rawmmapmut_map_mut env f)" "quiet (raw_map env ro f)" "quiet (raw_map_copy env ro f)"
  by (simp_all add: rawmmap_map_def rawmmapmut_map_mut_def raw_map_def raw_map_mut_def raw_map_copy_def quiet_map)

lemma quiet_load: "quiet (load_mmap env pth mode)" "quiet (open_rw env pth)"
  unfolding load_mmap_def open_ro_def open_rw_def open_cow_def cow_inner_def Let_def
  by (auto intro!: quiet_intro split: mmap_mode.splits)

lemma load_opened:
  assumes "load_mmap env pth mode w = (Inr mm, w')" "world_ok w"
  shows "opened_ok \<lparr>s_mm = mm, s_world = w'\<rparr>" "w_dir w pth = Some (i_file mm)" "same_files w w'"
proof -
  show "same_files w w'" by (rule quietD [OF quiet_load(1) assms(1)])
  show "opened_ok \<lparr>s_mm = mm, s_world = w'\<rparr>"
    using assms establishes_direct(1-3) [where env = env and pth = pth] unfolding load_mmap_def establishes_def
    by (cases mode) (auto split: if_splits)
  show "w_dir w pth = Some (i_file mm)"
    using assms(1) fs_open_plain(2) [where env = env and pth = pth]
    by (cases mode) (auto simp: load_mmap_def open_ro_def open_rw_def open_cow_def cow_inner_def bind_se_Inr Let_def
        inner_new_def split: if_splits)
qed

lemma open_rw_policy:
  "open_rw env pth w = (Inr mm, w') \<Longrightarrow> i_policy mm = Never \<and> (\<exists>m. i_map mm = Rw m)"
  by (auto simp: open_rw_def bind_se_Inr inner_new_def split: if_splits)

lemma never_no_flush:
  "i_policy (s_mm s) = Never \<Longrightarrow> \<exists>s'. apply_flush_policy env n s = Some (Inr (), s') \<and> s_world s' = s_world s"
  by (simp add: apply_flush_policy_def count_update_def Let_def)

section \<open>What is written\<close>

lemma write_mmap_result:
  assumes "world_ok w" "length data < 2 ^ 63" "data \<noteq> []"
  shows "case write_mmap env pth off data w of
      None \<Rightarrow> False
    | Some (Inl e, w1) \<Rightarrow> same_files w w1
    | Some (Inr _, w1) \<Rightarrow> \<exists>f. w_dir w pth = Some f \<and> unat off + length data \<le> length (w_data w f)
        \<and> w_data w1 = (w_data w)(f := splice_at (w_data w f) (unat off) data)
        \<and> w_dir w1 = w_dir w \<and> w_next w1 = w_next w"
proof (cases "open_rw env pth w")
  case (Pair r w1)
  show ?thesis
  proof (cases r)
    case (Inl e)
    with Pair quietD [OF quiet_load(2)] show ?thesis by (simp add: write_mmap_def)
  next
    case (Inr mm)
    let ?s = "\<lparr>s_mm = mm, s_world = w1\<rparr>"
    have ld: "load_mmap env pth ReadWrite w = (Inr mm, w1)" using Pair Inr by (simp add: load_mmap_def)
    note O = load_opened [OF ld assms(1)]
    obtain m where m: "i_map mm = Rw m" and pol: "i_policy mm = Never" using open_rw_policy Pair Inr by blast
    have ok: "sys_ok ?s" "write_free ?s" "s_bytes ?s = w_data w1 (i_file mm)" using O(1) by (simp_all add: opened_ok_def)
    have len: "unat (m_len m) = length (w_data w (i_file mm))"
      using sys_okD(5) [OF ok(1)] ok(3) m O(3) by (simp add: same_files_def)
    show ?thesis
    proof (cases "unat off + length data \<le> unat (m_len m)")
      case False
      then have "update_region env off data ?s = Some (Inl (OutOfBounds off (of_nat (length data)) (m_len m)), ?s)"
        using update_region_within_refused(3) [OF assms(2), of ?s off "of_nat (length data)" env] assms(2,3) m ok(2)
        by (simp add: update_region_def unat_of_length)
      moreover have "same_files w (mapping_drop env m w1)"
        using same_files_trans [OF O(3) mapping_drop_files] .
      ultimately show ?thesis using Pair Inr m by (simp add: write_mmap_def)
    next
      case True
      let ?t = "store_at (unat off) data ?s"
      have fit: "unat off + max (unat (of_nat (length data) :: u64)) (length data) \<le> unat (m_len (s_mapping ?s))"
        using True m assms(2) by (simp add: unat_of_length)
      obtain t where t: "apply_flush_policy env (of_nat (length data)) ?t = Some (Inr (), t)" "s_world t = s_world ?t"
        using never_no_flush [of ?t] pol by auto
      have "update_region env off data ?s = Some (Inr (), t)"
        using update_region_within_ok [OF ok(1) _ ok(2) assms(2) fit] m assms(3) t(1) by (simp add: update_region_def)
      moreover have "wrote (unat off) data ?s t"
        using store_at_wrote [OF ok(1) _ _ apply_flush_policy_quiet [OF t(1)]] True m by simp
      moreover have "w_dir (s_world t) = w_dir w1 \<and> w_next (s_world t) = w_next w1"
        using store_at_mapped [of "unat off" data ?s] t(2) by (auto simp: mapping_store_def split: mem_ref.splits)
      moreover have "same_files (s_world t) (mapping_drop env (s_mapping t) (s_world t))" by (rule mapping_drop_files)
      ultimately show ?thesis
        using Pair Inr m True O(2,3) len by (auto simp: write_mmap_def wrote_def same_files_def)
    qed
  qed
qed

lemma load_reads:
  assumes "world_ok w" "load_mmap env pth mode w = (Inr mm, w')" "w_dir w pth = Some f"
    and "buf \<noteq> []" "length buf < 2 ^ 63" "unat off + length buf \<le> length (w_data w f)"
  shows "read_into env off buf \<lparr>s_mm = mm, s_world = w'\<rparr> =
    Some (Inr (sub_slice (w_data w f) (unat off) (unat off + length buf)), \<lparr>s_mm = mm, s_world = w'\<rparr>)"
proof -
  let ?s = "\<lparr>s_mm = mm, s_world = w'\<rparr>"
  note O = load_opened [OF assms(2,1)]
  have ok: "sys_ok ?s" "atomics_fit ?s" "read_free ?s" "s_bytes ?s = w_data w f"
    using O assms(3) by (auto simp: opened_ok_def same_files_def write_free_def read_free_def)
  from read_into_eq [OF ok(1,2) assms(5,4)] ok(3,4) sys_okD(5) [OF ok(1)] assms(6) show ?thesis by simp
qed

lemma copy_mmap_result:
  assumes "copy_mmap env src dst w = (Inr (), w')" "world_ok w" "w_dir w src = Some f" "w_dir w dst \<noteq> Some f"
  shows "\<exists>d. w_dir w' dst = Some d \<and> d \<noteq> f \<and> w_data w' = (w_data w)(d := w_data w f) \<and> w_dir w' src = Some f"
proof -
  have "f \<noteq> w_next w" using assms(2,3) by (auto simp: world_ok_def)
  moreover have "dst \<noteq> src" using assms(3,4) by auto
  ultimately show ?thesis
    using assms(1,3,4)
    by (auto simp: copy_mmap_def bind_se_Inr fs_copy_def os_call_eq create_file_def Let_def split: option.splits prod.splits)
qed

lemma delete_mmap_result:
  "delete_mmap env pth w = (Inr (), w') \<Longrightarrow>
     w_dir w pth \<noteq> None \<and> w_dir w' = (w_dir w)(pth := None) \<and> w_data w' = w_data w"
  by (auto simp: delete_mmap_def bind_se_Inr fs_remove_file_def os_call_eq split: option.splits)

section \<open>Properties\<close>

text \<open>C37. Writing through the manager: \<open>write_mmap\<close> always returns; when it fails no file has changed, and when it
  succeeds the file at the path has exactly the written range replaced and nothing else changed. After
  that, loading the path in any mode reads the written bytes back; a copy to another file has the same
  contents as the source, which keeps them; and deleting removes exactly that path.\<close>

theorem manager_roundtrip:
  assumes "world_ok w" "length data < 2 ^ 63" "data \<noteq> []" "length buf = length data"
  shows "case write_mmap env pth off data w of
      None \<Rightarrow> False
    | Some (Inl e, w1) \<Rightarrow> w_data w1 = w_data w \<and> w_dir w1 = w_dir w
    | Some (Inr _, w1) \<Rightarrow> \<exists>f. w_dir w pth = Some f \<and> unat off + length data \<le> length (w_data w f)
        \<and> w_data w1 = (w_data w)(f := splice_at (w_data w f) (unat off) data) \<and> w_dir w1 = w_dir w
        \<and> (\<forall>mode mm w2. load_mmap env pth mode w1 = (Inr mm, w2) \<longrightarrow>
             read_into env off buf \<lparr>s_mm = mm, s_world = w2\<rparr> = Some (Inr data, \<lparr>s_mm = mm, s_world = w2\<rparr>))
        \<and> (\<forall>dst w2. copy_mmap env pth dst w1 = (Inr (), w2) \<and> w_dir w1 dst \<noteq> Some f \<longrightarrow>
             (\<exists>d. w_dir w2 dst = Some d \<and> w_data w2 d = w_data w1 f \<and> w_data w2 f = w_data w1 f))
        \<and> (\<forall>w2. delete_mmap env pth w1 = (Inr (), w2) \<longrightarrow>
             w_dir w2 = (w_dir w1)(pth := None) \<and> w_data w2 = w_data w1)"
proof (cases "write_mmap env pth off data w")
  case None
  with write_mmap_result [where env = env and pth = pth and off = off, OF assms(1-3)] show ?thesis by simp
next
  case (Some rw)
  obtain r w1 where rw: "rw = (r, w1)" by (cases rw)
  show ?thesis
  proof (cases r)
    case (Inl e)
    with write_mmap_result [where env = env and pth = pth and off = off, OF assms(1-3)] Some rw show ?thesis by (simp add: same_files_def)
  next
    case (Inr u)
    with write_mmap_result [where env = env and pth = pth and off = off, OF assms(1-3)] Some rw obtain f where
      f: "w_dir w pth = Some f" "unat off + length data \<le> length (w_data w f)"
      "w_data w1 = (w_data w)(f := splice_at (w_data w f) (unat off) data)" "w_dir w1 = w_dir w" "w_next w1 = w_next w"
      by auto
    have ok: "world_ok w1"
      using assms(1) f by (auto simp: world_ok_def length_splice_at)
    have rd: "read_into env off buf \<lparr>s_mm = mm, s_world = w2\<rparr> = Some (Inr data, \<lparr>s_mm = mm, s_world = w2\<rparr>)"
      if "load_mmap env pth mode w1 = (Inr mm, w2)" for mode mm w2
    proof -
      have d: "w_data w1 f = splice_at (w_data w f) (unat off) data" using f(3) by simp
      have "length (w_data w1 f) = length (w_data w f)" using f(2) by (simp add: d length_splice_at)
      moreover have "sub_slice (w_data w1 f) (unat off) (unat off + length buf) = data"
        unfolding d assms(4) by (rule slice_splice_same [OF f(2)])
      moreover have "buf \<noteq> []" "length buf < 2 ^ 63" using assms by auto
      ultimately show ?thesis
        using load_reads [OF ok that, of f buf off] f(1,2,4) assms(4) by simp
    qed
    have cp: "\<exists>d. w_dir w2 dst = Some d \<and> w_data w2 d = w_data w1 f \<and> w_data w2 f = w_data w1 f"
      if "copy_mmap env pth dst w1 = (Inr (), w2)" "w_dir w1 dst \<noteq> Some f" for dst w2
      using copy_mmap_result [OF that(1) ok _ that(2)] f(1,4) by auto
    show ?thesis
      unfolding Some rw Inr option.case prod.case sum.case
      using f(1-4) rd cp delete_mmap_result [of env pth w1] by (intro exI [of _ f] conjI) blast+
  qed
qed

lemma sample_write: "\<exists>w1. write_mmap sample_env ''f'' 2 [7, 9] sample_world = Some (Inr (), w1)"
proof -
  have "\<exists>w1. open_rw sample_env ''f'' sample_world = (Inr (inner_new ''f'' 0 ReadWrite 8 (Rw sample_mapping) Never False), w1)"
    by (simp add: open_rw_def bind_se_def return_se_def io_try_def map_err_se_def fs_open_def fs_metadata_len_def os_call_def
        opts_rw_def opts_ro_def rawmmapmut_map_mut_def raw_map_mut_def
        map_impl_def sample_resolve sample_layout file_len_def options_new_def
        os_map_file_def os_select_def unix_map_file_def unix_finish_def populate_flag_def from_os_def access_mem_def
        sample_mapping_def Let_def)
  then obtain w1 where "open_rw sample_env ''f'' sample_world = (Inr (inner_new ''f'' 0 ReadWrite 8 (Rw sample_mapping) Never False), w1)"
    by blast
  then show ?thesis
    by (simp add: write_mmap_def update_region_def update_region_within_def write_lock_def write_free_def inner_new_def
        slice_range64_eq apply_flush_policy_def count_update_def Let_def)
qed

theorem manager_roundtrip_witness:
  "\<exists>w1. write_mmap sample_env ''f'' 2 [7, 9] sample_world = Some (Inr (), w1)
     \<and> w_data w1 0 = [10, 11, 7, 9, 14, 15, 16, 17]"
proof -
  obtain w1 where w1: "write_mmap sample_env ''f'' 2 [7, 9] sample_world = Some (Inr (), w1)" using sample_write by blast
  from manager_roundtrip [where data = "[7, 9]" and buf = "[0, 0]" and env = sample_env and pth = "''f''" and off = 2, OF sample_world_ok] w1 show ?thesis
    by (auto simp: sample_world_def sample_bytes_def splice_at_def)
qed

end
