(* ===== verification/Mmap_Async.thy ===== *)
theory Mmap_Async
  imports Mmap_Props
begin

text \<open>
  \<open>src/mmap.rs\<close>, the asynchronous variants: the same calls, run by a thread pool. What the pool adds, the
  moment the call runs, is the interleaving of the calls, which is the order in which the operations of
  \<open>Mmap\<close> are composed.
\<close>

definition update_region_async :: "env \<Rightarrow> u64 \<Rightarrow> byte list \<Rightarrow> unit op" where
  "update_region_async env off data = op_bind (update_region env off data) (\<lambda>_. mmap_flush env)"

definition flush_async :: "env \<Rightarrow> unit op" where
  "flush_async env = mmap_flush env"

definition flush_range_async :: "env \<Rightarrow> u64 \<Rightarrow> u64 \<Rightarrow> unit op" where
  "flush_range_async env off len = flush_range env off len"

text \<open>A successful asynchronous update has written its range, and nothing is pending on the mapping.\<close>

lemma update_region_async_flushed:
  assumes "sys_ok s" "i_map (s_mm s) = Rw m" "data \<noteq> []" "length data < 2 ^ 63"
    and "update_region_async env off data s = Some (Inr (), s')"
  shows "s_bytes s' = splice_at (s_bytes s) (unat off) data" "sys_ok s'"
    "pending_bytes s' = 0" "i_writes (s_mm s') = 0"
proof -
  obtain s1 where u: "update_region env off data s = Some (Inr (), s1)" and f: "mmap_flush env s1 = Some (Inr (), s')"
    using assms(5) by (auto simp: update_region_async_def op_bind_def split: option.splits prod.splits sum.splits)
  have lk: "locked (i_map (s_mm s))" using assms(2) by simp
  have wf: "write_free s"
    using u update_region_within_refused(2) [OF assms(4) lk, of env off "of_nat (length data)"] assms(3)
    by (auto simp: update_region_def)
  have fit: "unat off + max (unat (of_nat (length data) :: u64)) (length data) \<le> unat (m_len (s_mapping s))"
    using u update_region_within_refused(3) [OF assms(4) lk wf, of off "of_nat (length data)" env] assms(3)
    by (force simp: update_region_def)
  from update_region_within_wrote [OF assms(1) lk wf assms(4) fit, where env = env] u assms(3)
  have w: "wrote (unat off) data s s1" by (auto simp: update_region_def)
  have q: "quiet_sys s1 s'" by (rule mmap_flush_quiet [OF f])
  show "s_bytes s' = splice_at (s_bytes s) (unat off) data" "sys_ok s'"
    using w quiet_sys_bytes [OF q] quiet_sys_ok [OF q] by (simp_all add: wrote_def)
  have "i_map (s_mm s1) = Rw (s_mapping s1)"
  proof -
    have "i_mode (s_mm s1) = ReadWrite" "locked (i_map (s_mm s1))" "variant_ok s1"
      using w rw_facts(5) [OF assms(1,2)] lk sys_okD(2) [of s1] by (simp_all add: wrote_def)
    then show ?thesis by (cases "i_map (s_mm s1)") (simp_all add: variant_ok_def)
  qed
  with f have "flush_mapped env s1 = Some (Inr (), s')"
    by (auto simp: mmap_flush_def map_read_def split: map_variant.splits if_splits)
  then show "pending_bytes s' = 0" "i_writes (s_mm s') = 0"
    using flush_mapped_Inr by (simp_all add: pending_bytes_def)
qed

end
