(* ===== verification/Divergences.thy ===== *)
theory Divergences
  imports Iterator_Props Segment Atomic Mmap_Open_Props
begin

text \<open>
  Where the documentation of the sources says one thing and the code does another, as facts about the
  model. (The one about \<open>src/watch.rs\<close> is in \<open>Watch\<close>.)
\<close>

text \<open>\<open>src/atomic.rs\<close> says that a chunk iterator created while no atomic view is alive covers the whole mapping
  for the overlap check. It registers nothing: only its items do.\<close>

lemma iterator_registers_nothing:
  "chunk_iterator_new n s = Some (it, s') \<Longrightarrow> i_views (s_mm s') = i_views (s_mm s)"
  by (auto simp: chunk_iterator_new_def split: map_variant.splits if_splits)

lemma atomic_view_beside_iterator:
  "\<exists>it s' v s2. chunk_iterator_new 4 (sample_sys Never) = Some (it, s') \<and> atomic_slice AtomicU32 4 1 s' = Some (Inr v, s2)"
proof -
  let ?s = "mm_upd (\<lambda>mm. mm\<lparr>i_readers := Suc (i_readers mm)\<rparr>) (sample_sys Never)"
  have ok: "sys_ok ?s"
    by (rule sys_ok_cong [OF sample_sys_ok]) (simp_all add: registry_ok_new, simp add: sample_sys_def sample_inner_def)
  have "is_ok (fst (register_atomic 4 8 4 registry_new))" by code_simp
  then obtain reg w where "register_atomic 4 8 4 registry_new = (Inr reg, w)"
    by (cases "register_atomic 4 8 4 registry_new") (auto simp: is_ok_iff)
  then have "\<exists>v s2. atomic_slice AtomicU32 4 1 ?s = Some (Inr v, s2)"
    by (simp add: atomic_slice_Some atomic_parts_eq [OF ok] request_fits_def read_free_def)
      (simp add: sample_sys_def sample_inner_def)
  then show ?thesis by (simp add: chunk_iterator_new_def)
qed

text \<open>\<open>SegmentMut\<close> documents \<open>InvalidMode\<close> for every parent that is not \<open>ReadWrite\<close>. A writable copy-on-write parent
  is written.\<close>

lemma segment_writes_cow:
  "\<exists>s'. segment_write sample_env \<lparr>seg_offset = 2, seg_len = 4\<rparr> [1, 2] sample_cow = Some (Inr (), s')
     \<and> i_mode (s_mm sample_cow) = CopyOnWrite"
  by (simp add: segment_write_def update_region_within_def write_lock_def slice_range64_eq apply_flush_policy_def
      count_update_def tracks_writes_def Let_def)
    (simp add: sample_cow_def sample_inner_def)

text \<open>The builder's \<open>open\<close> documents \<open>ResizeFailed\<close> for a zero-length file. In its default mode it maps one.\<close>

definition empty_file_world :: world where
  "empty_file_world = \<lparr>w_dir = [''e'' \<mapsto> 0], w_data = (\<lambda>f. []), w_next = 1, w_trace = []\<rparr>"

lemma empty_file_opens_read_only:
  "\<exists>mm w'. builder_open sample_env sp (builder_new ''e'') empty_file_world = (Inr (mm, []), w') \<and> i_cached_len mm = 0"
proof -
  have "resolve_len 0 0 None (MAX_LEN::usize) = Inr (0::usize)"
    by (simp add: resolve_len_def checked_sub_def MAX_LEN_def word_max_def)
  moreover have "layout 0 (0::usize) 4096 MAX_LEN = Inr \<lparr>aligned_offset = 0, delta = 0, l_len = 0, map_len = 0\<rparr>"
    by (simp add: layout_def option_filter_def Let_def checked_add_def MAX_LEN_def word_max_def)
  ultimately show ?thesis
    by (simp add: builder_open_def builder_new_def open_existing_def bind_se_def return_se_def io_try_def map_err_se_def
        fs_open_def fs_metadata_len_def os_call_def opts_ro_def rawmmap_map_def raw_map_def map_impl_def file_len_def
        options_new_def inner_new_def empty_file_world_def)
qed

end
