(* ===== verification/Sessions.thy ===== *)
theory Sessions
  imports Iterator_Props Atomic Advise_Lock
begin

text \<open>
  Everything a program can do with one mapping, in any order: take slices, atomic views, mutable slices
  and iterators, hold them, use them and drop them, and call the operations of the mapping in between. A
  session is the mapping with what is alive; a live slice is kept with the bytes it showed and the
  address of the mapping when it was taken. The shared references of \<open>MappedSlice\<close> are sound when no
  step of any session changes those bytes or moves the mapping under them.
\<close>

section \<open>Sessions\<close>

record live_slice =
  ls_view :: mapped_slice
  ls_bytes :: "byte list"
  ls_base :: addr

record live_atomic =
  la_offset :: u64
  la_view :: atomic_slice_view

record session =
  c_sys :: sys
  c_slices :: "live_slice list"
  c_atomics :: "live_atomic list"
  c_iters :: "chunk_iterator list"
  c_mut :: "mapped_slice_mut option"

definition session_start :: "sys \<Rightarrow> session" where
  "session_start s = \<lparr>c_sys = s, c_slices = [], c_atomics = [], c_iters = [], c_mut = None\<rparr>"

abbreviation set_sys :: "sys \<Rightarrow> session \<Rightarrow> session" where
  "set_sys s c \<equiv> c\<lparr>c_sys := s\<rparr>"

definition keep_slice :: "mapped_slice \<Rightarrow> sys \<Rightarrow> live_slice" where
  "keep_slice v s = \<lparr>ls_view = v, ls_bytes = slice_bytes s v, ls_base = raw_as_ptr (s_mapping s)\<rparr>"

text \<open>
  The steps. A call that would wait has no step, its caller is blocked until another step frees the lock.
  A failed resize is a step when the length of the file could be restored and, on Windows, not at all:
  there the view may be gone.
\<close>

inductive session_step :: "env \<Rightarrow> session \<Rightarrow> session \<Rightarrow> bool" for env where
  slice_taken:
    "as_slice env sh off len (c_sys c) = Some (Inr v, s) \<Longrightarrow> sh < SHARDS \<Longrightarrow>
       session_step env c (set_sys s c\<lparr>c_slices := keep_slice v s # c_slices c\<rparr>)"
| slice_refused:
    "as_slice env sh off len (c_sys c) = Some (Inl e, s) \<Longrightarrow> sh < SHARDS \<Longrightarrow> session_step env c (set_sys s c)"
| slice_dropped:
    "c_slices c = xs @ l # ys \<Longrightarrow>
       session_step env c (set_sys (drop_slice (ls_view l) (c_sys c)) c\<lparr>c_slices := xs @ ys\<rparr>)"
| iterator_taken:
    "chunk_iterator_new n (c_sys c) = Some (it, s) \<Longrightarrow>
       session_step env c (set_sys s c\<lparr>c_iters := it # c_iters c\<rparr>)"
| iterator_item:
    "c_iters c = xs @ it # ys \<Longrightarrow> chunk_next env sh it (c_sys c) = Some (Some v, it', s) \<Longrightarrow> sh < SHARDS \<Longrightarrow>
       session_step env c (set_sys s c\<lparr>c_iters := xs @ it' # ys, c_slices := keep_slice v s # c_slices c\<rparr>)"
| iterator_dropped:
    "c_iters c = xs @ it # ys \<Longrightarrow>
       session_step env c (set_sys (chunk_iterator_drop it (c_sys c)) c\<lparr>c_iters := xs @ ys\<rparr>)"
| atomic_taken:
    "e_atomic env \<Longrightarrow> atomic_room (vr_atomics (i_views (s_mm (c_sys c)))) \<Longrightarrow>
     atomic_slice k off n (c_sys c) = Some (Inr v, s) \<Longrightarrow>
       session_step env c (set_sys s c\<lparr>c_atomics := \<lparr>la_offset = off, la_view = v\<rparr> # c_atomics c\<rparr>)"
| atomic_refused:
    "e_atomic env \<Longrightarrow> atomic_slice k off n (c_sys c) = Some (Inl e, s) \<Longrightarrow> session_step env c (set_sys s c)"
| atomic_stored:
    "a \<in> set (c_atomics c) \<Longrightarrow> slice_deref (la_view a) i = Some p \<Longrightarrow>
     length bs = unat (cell_size (av_cell (la_view a))) \<Longrightarrow>
       session_step env c (set_sys (cell_store p bs (c_sys c)) c)"
| atomic_dropped:
    "c_atomics c = xs @ a # ys \<Longrightarrow>
       session_step env c (set_sys (drop_atomic_slice (la_view a) (c_sys c)) c\<lparr>c_atomics := xs @ ys\<rparr>)"
| mut_taken:
    "as_slice_mut off len (c_sys c) = Some (Inr sm, s) \<Longrightarrow> session_step env c (set_sys s c\<lparr>c_mut := Some sm\<rparr>)"
| mut_refused:
    "as_slice_mut off len (c_sys c) = Some (Inl e, s) \<Longrightarrow> session_step env c (set_sys s c)"
| mut_stored:
    "c_mut c = Some sm \<Longrightarrow> i + length d \<le> slice_mut_len sm \<Longrightarrow>
       session_step env c (set_sys (slice_mut_store sm i d (c_sys c)) c)"
| mut_dropped:
    "c_mut c = Some sm \<Longrightarrow> session_step env c (set_sys (drop_slice_mut sm (c_sys c)) c\<lparr>c_mut := None\<rparr>)"
| updated:
    "update_region env off d (c_sys c) = Some (r, s) \<Longrightarrow> length d < 2 ^ 63 \<Longrightarrow> session_step env c (set_sys s c)"
| resized_to:
    "resize env n (c_sys c) = Some (Inr (), s) \<Longrightarrow> session_step env c (set_sys s c)"
| resize_refused:
    "resize env n (c_sys c) = Some (Inl e, s) \<Longrightarrow> e_target env \<noteq> Windows \<Longrightarrow>
     length (s_file_bytes s) = length (s_file_bytes (c_sys c)) \<Longrightarrow> session_step env c (set_sys s c)"
| flushed:
    "mmap_flush env (c_sys c) = Some (r, s) \<Longrightarrow> session_step env c (set_sys s c)"
| flushed_range:
    "flush_range env off len (c_sys c) = Some (r, s) \<Longrightarrow> session_step env c (set_sys s c)"
| advised:
    "advise env off len advice (c_sys c) = Some (r, s) \<Longrightarrow> session_step env c (set_sys s c)"
| locked_pages:
    "lock_range env off len lock (c_sys c) = Some (q, s) \<Longrightarrow> session_step env c (set_sys s c)"

inductive session_run :: "env \<Rightarrow> session \<Rightarrow> session \<Rightarrow> bool" for env c0 where
  started: "session_run env c0 c0"
| continued: "session_run env c0 c \<Longrightarrow> session_step env c c' \<Longrightarrow> session_run env c0 c'"

section \<open>The invariant\<close>

fun slice_regs :: "env \<Rightarrow> mapped_slice \<Rightarrow> plain_reg list" where
  "slice_regs env (Slice_Guarded reg b e) = (if e_atomic env then [reg] else [])"
| "slice_regs env _ = []"

fun slice_guards :: "mapped_slice \<Rightarrow> nat" where
  "slice_guards (Slice_Guarded _ _ _) = 1"
| "slice_guards _ = 0"

definition iter_guards :: "chunk_iterator \<Rightarrow> nat" where
  "iter_guards it = (if ci_locked it then 1 else 0)"

definition atomic_ids :: "live_atomic \<Rightarrow> u64 list" where
  "atomic_ids a = (case ar_id (av_reg (la_view a)) of None \<Rightarrow> [] | Some i \<Rightarrow> [i])"

text \<open>The read guards that are held.\<close>

definition guards :: "session \<Rightarrow> nat" where
  "guards c = sum_list (map (slice_guards \<circ> ls_view) (c_slices c)) + length (c_atomics c)
     + sum_list (map iter_guards (c_iters c))"

definition slice_ok :: "env \<Rightarrow> sys \<Rightarrow> live_slice \<Rightarrow> bool" where
  "slice_ok env s l \<longleftrightarrow> slice_bytes s (ls_view l) = ls_bytes l \<and>
     (case ls_view l of
        Slice_Owned b e \<Rightarrow> if locked (i_map (s_mm s)) then b = e else ls_base l = raw_as_ptr (s_mapping s)
      | Slice_Guarded reg b e \<Rightarrow> locked (i_map (s_mm s)) \<and> ls_base l = raw_as_ptr (s_mapping s)
          \<and> b \<le> e \<and> e \<le> length (s_bytes s)
          \<and> (e_atomic env \<longrightarrow> plain_lookup (i_views (s_mm s)) reg = Some (b, e))
      | Slice_Snapshot _ \<Rightarrow> True)"

definition atomic_span :: "live_atomic \<Rightarrow> nat \<times> nat" where
  "atomic_span a =
     (unat (la_offset a),
      unat (la_offset a) + unat (cell_size (av_cell (la_view a))) * unat (av_len (la_view a)))"

definition atomic_ok :: "sys \<Rightarrow> live_atomic \<Rightarrow> bool" where
  "atomic_ok s a \<longleftrightarrow> locked (i_map (s_mm s))
     \<and> av_ptr (la_view a) = raw_as_ptr (s_mapping s) + la_offset a
     \<and> request_fits (av_cell (la_view a)) (la_offset a) (av_len (la_view a)) (m_len (s_mapping s))
     \<and> (case ar_id (av_reg (la_view a)) of
          None \<Rightarrow> av_len (la_view a) = 0
        | Some i \<Rightarrow> atomic_lookup (vr_atomics (i_views (s_mm s))) i =
            Some (fst (atomic_span a), snd (atomic_span a), unat (cell_size (av_cell (la_view a)))))"

definition iter_ok :: "sys \<Rightarrow> chunk_iterator \<Rightarrow> bool" where
  "iter_ok s it \<longleftrightarrow> ci_locked it = locked (i_map (s_mm s)) \<and> ci_total_len it = m_len (s_mapping s)"

definition mut_ok :: "sys \<Rightarrow> mapped_slice_mut \<Rightarrow> bool" where
  "mut_ok s sm \<longleftrightarrow> locked (i_map (s_mm s)) \<and> sm_start sm \<le> sm_end sm \<and> sm_end sm \<le> length (s_bytes s)"

definition session_ok :: "env \<Rightarrow> session \<Rightarrow> bool" where
  "session_ok env c \<longleftrightarrow> sys_ok (c_sys c) \<and> atomics_fit (c_sys c)
     \<and> i_readers (s_mm (c_sys c)) = guards c
     \<and> (i_writer (s_mm (c_sys c)) \<longleftrightarrow> c_mut c \<noteq> None)
     \<and> (\<forall>l \<in> set (c_slices c). slice_ok env (c_sys c) l)
     \<and> (\<forall>a \<in> set (c_atomics c). atomic_ok (c_sys c) a)
     \<and> (\<forall>it \<in> set (c_iters c). iter_ok (c_sys c) it)
     \<and> (\<forall>sm. c_mut c = Some sm \<longrightarrow> mut_ok (c_sys c) sm)
     \<and> distinct (concat (map (slice_regs env \<circ> ls_view) (c_slices c)))
     \<and> distinct (concat (map atomic_ids (c_atomics c)))
     \<and> dom (atomic_lookup (vr_atomics (i_views (s_mm (c_sys c))))) = set (concat (map atomic_ids (c_atomics c)))
     \<and> (c_atomics c \<noteq> [] \<longrightarrow> e_atomic env)"

lemmas session_defs = session_ok_def guards_def

lemma session_okD:
  assumes "session_ok env c"
  shows "sys_ok (c_sys c)" "atomics_fit (c_sys c)" "i_readers (s_mm (c_sys c)) = guards c"
    "i_writer (s_mm (c_sys c)) \<longleftrightarrow> c_mut c \<noteq> None"
    "l \<in> set (c_slices c) \<Longrightarrow> slice_ok env (c_sys c) l" "a \<in> set (c_atomics c) \<Longrightarrow> atomic_ok (c_sys c) a"
    "it \<in> set (c_iters c) \<Longrightarrow> iter_ok (c_sys c) it" "c_mut c = Some sm \<Longrightarrow> mut_ok (c_sys c) sm"
  using assms by (simp_all add: session_ok_def)


text \<open>Entries of the atomic set and their lookup.\<close>

lemma registry_entries:
  assumes "registry_ok v"
  shows "(\<forall>a \<in> set (as_entries (vr_atomics v)). P a) \<longleftrightarrow> (\<forall>i x. atomic_lookup (vr_atomics v) i = Some x \<longrightarrow> P (entry_of x i))"
proof -
  have wf: "atomic_wf (vr_atomics v)" using assms by (simp add: registry_ok_def registry_wf_def)
  show ?thesis
    using atomic_lookup_entry [OF wf] by (auto simp: atomic_lookup_Some [OF wf]) (metis entry_of_eta)
qed

lemma registry_no_entries:
  "registry_ok v \<Longrightarrow> dom (atomic_lookup (vr_atomics v)) = {} \<Longrightarrow> as_entries (vr_atomics v) = []"
  using registry_entries [of v "\<lambda>_. False"] by (auto simp: domIff)

section \<open>Steps that keep the views\<close>

definition same_frame :: "sys \<Rightarrow> sys \<Rightarrow> bool" where
  "same_frame s s' \<longleftrightarrow> locked (i_map (s_mm s')) = locked (i_map (s_mm s)) \<and> m_len (s_mapping s') = m_len (s_mapping s)
     \<and> raw_as_ptr (s_mapping s') = raw_as_ptr (s_mapping s) \<and> i_views (s_mm s') = i_views (s_mm s)
     \<and> i_readers (s_mm s') = i_readers (s_mm s) \<and> i_writer (s_mm s') = i_writer (s_mm s)"

lemma session_frame:
  assumes "session_ok env c" "same_frame (c_sys c) s" "sys_ok s"
    and "\<And>l. l \<in> set (c_slices c) \<Longrightarrow> slice_bytes s (ls_view l) = slice_bytes (c_sys c) (ls_view l)"
  shows "session_ok env (set_sys s c)"
proof -
  have len: "length (s_bytes s) = length (s_bytes (c_sys c))"
    using sys_okD(5) [OF assms(3)] sys_okD(5) [OF session_okD(1) [OF assms(1)]] assms(2) by (simp add: same_frame_def)
  have "slice_ok env s l" if "l \<in> set (c_slices c)" for l
    using session_okD(5) [OF assms(1) that] assms(4) [OF that] assms(2) len
    by (simp add: slice_ok_def same_frame_def split: mapped_slice.splits)
  moreover have "atomic_ok s a" if "a \<in> set (c_atomics c)" for a
    using session_okD(6) [OF assms(1) that] assms(2) by (simp add: atomic_ok_def same_frame_def split: option.splits)
  moreover have "iter_ok s it" if "it \<in> set (c_iters c)" for it
    using session_okD(7) [OF assms(1) that] assms(2) by (simp add: iter_ok_def same_frame_def)
  moreover have "mut_ok s sm" if "c_mut c = Some sm" for sm
    using session_okD(8) [OF assms(1) that] assms(2) len by (simp add: mut_ok_def same_frame_def)
  ultimately show ?thesis
    using assms(1,2,3) by (simp add: session_defs same_frame_def atomics_fit_def)
qed

lemma quiet_frame: "quiet_sys s s' \<Longrightarrow> same_frame s s'"
  by (simp add: quiet_sys_def same_frame_def)

lemma quiet_slice_bytes: "quiet_sys s s' \<Longrightarrow> slice_bytes s' v = slice_bytes s v"
  using quiet_sys_bytes [of s s'] by (simp add: slice_bytes_def split: mapped_slice.splits)

lemma session_quiet:
  "session_ok env c \<Longrightarrow> quiet_sys (c_sys c) s \<Longrightarrow> session_ok env (set_sys s c)"
  by (rule session_frame)
    (simp_all add: quiet_frame quiet_slice_bytes quiet_sys_ok session_okD(1))

lemma op_io_quiet: "op_io g m s = Some (r, s') \<Longrightarrow> quiet m \<Longrightarrow> quiet_sys s s'"
  by (auto simp: op_io_def quiet_sys_def dest: quietD split: prod.splits)

lemma flush_range_quiet: "flush_range env off len s = Some (r, s') \<Longrightarrow> quiet_sys s s'"
  by (auto simp: flush_range_def op_return_def map_read_def op_bind_def op_lift_def raw_flush_range_def
      intro: mmap_flush_quiet op_io_quiet quiet_ranged
      split: if_splits sum.splits prod.splits map_variant.splits)

lemma advise_quiet: "advise env off len advice s = Some (r, s') \<Longrightarrow> quiet_sys s s'"
  by (auto simp: advise_eq advise_mapped_def op_bind_def op_lift_def Let_def
      intro: op_io_quiet quiet_spans split: if_splits sum.splits prod.splits)

lemma lock_range_quiet: "lock_range env off len lock s = Some (q, s') \<Longrightarrow> quiet_sys s s'"
  using quietD [OF quiet_spans(2)]
  by (auto simp: lock_range_def Let_def quiet_sys_def split: if_splits sum.splits prod.splits)

section \<open>Steps under the write guard\<close>

lemma exclusive_empty:
  assumes "session_ok env c" "i_readers (s_mm (c_sys c)) = 0"
  shows "c_atomics c = []" "l \<in> set (c_slices c) \<Longrightarrow> slice_guards (ls_view l) = 0"
    "locked (i_map (s_mm (c_sys c))) \<Longrightarrow> c_iters c = []"
proof -
  have g: "guards c = 0" using session_okD(3) [OF assms(1)] assms(2) by simp
  then show "c_atomics c = []" "l \<in> set (c_slices c) \<Longrightarrow> slice_guards (ls_view l) = 0"
    by (auto simp: guards_def)
  show "c_iters c = []" if "locked (i_map (s_mm (c_sys c)))"
  proof (rule ccontr)
    assume "c_iters c \<noteq> []"
    then obtain it where "it \<in> set (c_iters c)" by (meson last_in_set)
    then show False
      using session_okD(7) [OF assms(1), of it] that g by (auto simp: guards_def iter_ok_def iter_guards_def)
  qed
qed

lemma session_exclusive:
  assumes "session_ok env c" "locked (i_map (s_mm (c_sys c)))" "i_readers (s_mm (c_sys c)) = 0"
    and "sys_ok s" "locked (i_map (s_mm s))" "i_readers (s_mm s) = 0"
    and "vr_atomics (i_views (s_mm s)) = vr_atomics (i_views (s_mm (c_sys c)))"
    and "i_writer (s_mm s) \<longleftrightarrow> m \<noteq> None" "\<And>sm. m = Some sm \<Longrightarrow> mut_ok s sm"
  shows "session_ok env (set_sys s c\<lparr>c_mut := m\<rparr>)"
proof -
  note E = exclusive_empty [OF assms(1,3)]
  have dom: "dom (atomic_lookup (vr_atomics (i_views (s_mm s)))) = {}"
    using assms(1,7) E(1) by (simp add: session_ok_def)
  have "as_entries (vr_atomics (i_views (s_mm s))) = []"
    by (rule registry_no_entries [OF sys_okD(4) [OF assms(4)] dom])
  then have fit: "atomics_fit s" by (simp add: atomics_fit_def)
  have "slice_ok env s l" if "l \<in> set (c_slices c)" for l
    using session_okD(5) [OF assms(1) that] E(2) [OF that] assms(2,5)
    by (simp add: slice_ok_def slice_bytes_def split: mapped_slice.splits)
  then show ?thesis
    using assms(1,4-6,8,9) E fit dom session_okD(3) [OF assms(1)] assms(2,3)
    by (simp add: session_defs)
qed

lemma update_region_session:
  assumes "session_ok env c" "update_region env off d (c_sys c) = Some (r, s)" "length d < 2 ^ 63"
  shows "session_ok env (set_sys s c)"
proof (cases "s = c_sys c")
  case True
  then show ?thesis using assms(1) by simp
next
  case False
  let ?s = "c_sys c"
  have ok: "sys_ok ?s" by (rule session_okD(1) [OF assms(1)])
  from False assms(2,3) obtain w where lk: "locked (i_map (s_mm ?s))" and free: "write_free ?s"
    and w: "wrote w d ?s s"
    using update_region_within_wrote [OF ok _ _ assms(3), where env = env and off = off and span = "of_nat (length d)"]
      update_region_within_refused [OF assms(3), where s = ?s and env = env and off = off and span = "of_nat (length d)"]
    by (cases "locked (i_map (s_mm ?s))"; cases "write_free ?s";
        cases "unat off + length d \<le> unat (m_len (s_mapping ?s))")
      (auto simp: update_region_def unat_of_length not_le split: if_splits)
  have "session_ok env (set_sys s c\<lparr>c_mut := None\<rparr>)"
    by (rule session_exclusive [OF assms(1) lk])
      (use w free lk in \<open>simp_all add: wrote_def write_free_def\<close>)
  moreover have "c_mut c = None" using session_okD(4) [OF assms(1)] free by (simp add: write_free_def)
  ultimately show ?thesis by (simp add: session_defs)
qed

lemma resize_outcome:
  assumes "sys_ok s" "resize env n s = Some (r, s')" "s' \<noteq> s"
  shows "locked (i_map (s_mm s))" "write_free s" "i_readers (s_mm s') = i_readers (s_mm s)"
    "i_writer (s_mm s') = i_writer (s_mm s)" "i_views (s_mm s') = i_views (s_mm s)"
    "i_file (s_mm s') = i_file (s_mm s)" "i_mode (s_mm s') = i_mode (s_mm s)"
proof -
  obtain m where m: "i_map (s_mm s) = Rw m" and free: "write_free s"
    and r: "map_option (\<lambda>(r, s'). (r, store_cached_len s'))
       (if n = m_len m then Some (Inr (), s)
        else if n > m_len m then grow_locked env (ucast (m_len m)) n n s
        else shrink_locked env (m_len m) n n s) = Some (r, s')"
    using assms(2,3) by (auto simp: resize_def Let_def split: if_splits map_variant.splits)
  from m free show "locked (i_map (s_mm s))" "write_free s" by simp_all
  from r show "i_readers (s_mm s') = i_readers (s_mm s)" "i_writer (s_mm s') = i_writer (s_mm s)"
    "i_views (s_mm s') = i_views (s_mm s)" "i_file (s_mm s') = i_file (s_mm s)" "i_mode (s_mm s') = i_mode (s_mm s)"
    by (auto simp: grow_locked_def shrink_locked_def shrink_locked_unix_def shrink_locked_windows_def Let_def
        split: if_splits sum.splits prod.splits)
qed

text \<open>A failed resize that could restore the length of the file.\<close>

lemma unresized_ok:
  assumes "sys_ok s" "i_map (s_mm s) = Rw m" "unresized s s'" "length (s_file_bytes s') = length (s_file_bytes s)"
    and "i_readers (s_mm s') = i_readers (s_mm s)" "i_writer (s_mm s') = i_writer (s_mm s)"
    and "i_views (s_mm s') = i_views (s_mm s)" "i_mode (s_mm s') = i_mode (s_mm s)"
  shows "sys_ok s'" "w_data (s_world s') = w_data (s_world s)"
proof -
  have f: "i_file (s_mm s') = i_file (s_mm s)" "s_file_bytes s' = s_file_bytes s"
    "\<And>g. g \<noteq> i_file (s_mm s) \<Longrightarrow> w_data (s_world s') g = w_data (s_world s) g"
    "i_map (s_mm s') = i_map (s_mm s)" "i_cached_len (s_mm s') = i_cached_len (s_mm s)"
    using assms(3,4) unfolding unresized_def by (simp_all add: take_all_iff) (metis order_refl take_all)
  show d: "w_data (s_world s') = w_data (s_world s)"
    using f(1-3) by (metis ext)
  have "mapping_ok (s_world s') m"
    using mapping_ok_cong [OF d] sys_okD(1) [OF assms(1)] assms(2) by simp
  then show "sys_ok s'"
    using assms(1,2,5-8) f d by (simp add: sys_ok_def variant_ok_def)
qed

lemma resize_session:
  assumes "session_ok env c" "resize env n (c_sys c) = Some (r, s)"
    and "r = Inr () \<or> e_target env \<noteq> Windows \<and> length (s_file_bytes s) = length (s_file_bytes (c_sys c))"
  shows "session_ok env (set_sys s c)"
proof (cases "s = c_sys c")
  case True
  then show ?thesis using assms(1) by simp
next
  case False
  have ok: "sys_ok (c_sys c)" by (rule session_okD(1) [OF assms(1)])
  note O = resize_outcome [OF ok assms(2) False]
  obtain m where m: "i_map (s_mm (c_sys c)) = Rw m"
    using assms(2) False by (auto simp: resize_def split: if_splits map_variant.splits)
  have s: "sys_ok s \<and> locked (i_map (s_mm s))"
  proof (cases r)
    case (Inr u)
    with resize_ok [OF ok] assms(2) have "resized (unat n) (c_sys c) s" by simp
    moreover from this have "i_mode (s_mm s) = ReadWrite" using O(7) rw_facts(5) [OF ok m] by simp
    ultimately show ?thesis
      using sys_okD(2) [of s] by (auto simp: resized_def variant_ok_def split: map_variant.splits)
  next
    case (Inl e)
    with assms(3) have t: "e_target env \<noteq> Windows" "length (s_file_bytes s) = length (s_file_bytes (c_sys c))" by auto
    have u: "unresized (c_sys c) s" using resize_failed [OF ok t(1)] assms(2) Inl by simp
    from unresized_ok(1) [OF ok m u t(2) O(3,4,5,7)] u m show ?thesis by (simp add: unresized_def)
  qed
  have none: "c_mut c = None" using session_okD(4) [OF assms(1)] O(2) by (simp add: write_free_def)
  have "session_ok env (set_sys s c\<lparr>c_mut := None\<rparr>)"
    by (rule session_exclusive [OF assms(1) O(1)]) (use s O in \<open>simp_all add: write_free_def\<close>)
  with none show ?thesis by (simp add: session_defs)
qed

lemma range_end: "unat a + unat b \<le> unat c \<Longrightarrow> unat (a + b) = unat a + unat b" for a b c :: "'a::len word"
  using unat_bound [of c] by (intro unat_add_exact) linarith

lemma as_slice_mut_eq:
  assumes "locked (i_map (s_mm s))"
  shows "as_slice_mut off len s =
    (if \<not> write_free s then None
     else if len = 0 then Some (Inr (Slice_Mut 0 0), mm_upd (\<lambda>mm. mm\<lparr>i_writer := True\<rparr>) s)
     else if unat off + unat len \<le> unat (m_len (s_mapping s))
     then Some (Inr (Slice_Mut (unat off) (unat off + unat len)), mm_upd (\<lambda>mm. mm\<lparr>i_writer := True\<rparr>) s)
     else Some (Inl (OutOfBounds off len (m_len (s_mapping s))), s))"
  using assms range_end [of off len "m_len (s_mapping s)"]
  by (simp add: as_slice_mut_def write_lock_def slice_range64_eq)

lemma mut_taken_session:
  assumes "session_ok env c" "as_slice_mut off len (c_sys c) = Some (Inr sm, s)"
  shows "session_ok env (set_sys s c\<lparr>c_mut := Some sm\<rparr>)"
proof -
  let ?s = "c_sys c"
  have ok: "sys_ok ?s" by (rule session_okD(1) [OF assms(1)])
  have lk: "locked (i_map (s_mm ?s))" using assms(2) by (simp add: as_slice_mut_def write_lock_def split: if_splits)
  from assms(2) have free: "write_free ?s"
    and s: "s = mm_upd (\<lambda>mm. mm\<lparr>i_writer := True\<rparr>) ?s"
    and sm: "sm_start sm \<le> sm_end sm" "sm_end sm \<le> unat (m_len (s_mapping ?s))"
    by (auto simp: as_slice_mut_eq [OF lk] split: if_splits)
  have "sys_ok s" unfolding s
    by (rule sys_ok_cong [OF ok]) (use free sys_okD(4) [OF ok] in \<open>simp_all add: write_free_def\<close>)
  moreover have "mut_ok s sm" using sm lk sys_okD(5) [OF ok] by (simp add: mut_ok_def s)
  ultimately show ?thesis
    by (intro session_exclusive [OF assms(1) lk]) (use free lk in \<open>simp_all add: write_free_def s\<close>)
qed

lemma mut_stored_session:
  assumes "session_ok env c" "c_mut c = Some sm" "i + length d \<le> slice_mut_len sm"
  shows "session_ok env (set_sys (slice_mut_store sm i d (c_sys c)) c)"
proof -
  let ?s = "c_sys c" and ?t = "slice_mut_store sm i d (c_sys c)"
  have ok: "sys_ok ?s" by (rule session_okD(1) [OF assms(1)])
  have m: "mut_ok ?s sm" by (rule session_okD(8) [OF assms(1,2)])
  have wr: "i_writer (s_mm ?s)" using session_okD(4) [OF assms(1)] assms(2) by simp
  then have rd: "i_readers (s_mm ?s) = 0" using ok by (simp add: sys_ok_def)
  have in_range: "sm_start sm + i + length d \<le> length (s_bytes ?s)"
    using m assms(3) unfolding mut_ok_def slice_mut_len_def by linarith
  note S = store_at_take_drop(1,2) [OF ok in_range]
  have "session_ok env (set_sys ?t c\<lparr>c_mut := Some sm\<rparr>)"
    by (rule session_exclusive [OF assms(1) _ rd])
      (use m rd wr S in \<open>simp_all add: slice_mut_store_def mut_ok_def\<close>)
  then show ?thesis using assms(2) by (simp add: session_defs)
qed

lemma mut_dropped_session:
  assumes "session_ok env c" "c_mut c = Some sm"
  shows "session_ok env (set_sys (drop_slice_mut sm (c_sys c)) c\<lparr>c_mut := None\<rparr>)"
proof -
  let ?s = "c_sys c"
  have ok: "sys_ok ?s" by (rule session_okD(1) [OF assms(1)])
  have m: "mut_ok ?s sm" by (rule session_okD(8) [OF assms])
  have "i_writer (s_mm ?s)" using session_okD(4) [OF assms(1)] assms(2) by simp
  then have rd: "i_readers (s_mm ?s) = 0" using ok by (simp add: sys_ok_def)
  have "sys_ok (drop_slice_mut sm ?s)"
    by (rule sys_ok_cong [OF ok]) (use sys_okD(4) [OF ok] in \<open>simp_all add: drop_slice_mut_def record_write_def\<close>)
  then show ?thesis
    by (intro session_exclusive [OF assms(1) _ rd])
      (use m rd in \<open>simp_all add: drop_slice_mut_def record_write_def mut_ok_def\<close>)
qed

section \<open>Steps that add and drop slices\<close>

text \<open>What taking a slice or an item does to the mapping's state.\<close>

definition view_added :: "env \<Rightarrow> mapped_slice \<Rightarrow> sys \<Rightarrow> sys \<Rightarrow> bool" where
  "view_added env v s s' \<longleftrightarrow> sys_ok s' \<and> i_map (s_mm s') = i_map (s_mm s) \<and> s_world s' = s_world s
     \<and> vr_atomics (i_views (s_mm s')) = vr_atomics (i_views (s_mm s))
     \<and> i_writer (s_mm s') = i_writer (s_mm s) \<and> i_readers (s_mm s') = i_readers (s_mm s) + slice_guards v
     \<and> (e_atomic env \<longrightarrow>
          (case v of
             Slice_Guarded reg b e \<Rightarrow> plain_lookup (i_views (s_mm s)) reg = None
               \<and> plain_lookup (i_views (s_mm s')) = (plain_lookup (i_views (s_mm s)))(reg \<mapsto> (b, e))
           | _ \<Rightarrow> plain_lookup (i_views (s_mm s')) = plain_lookup (i_views (s_mm s))))"

lemma view_added_bytes: "view_added env v s s' \<Longrightarrow> slice_bytes s' u = slice_bytes s u"
  by (simp add: view_added_def slice_bytes_def split: mapped_slice.splits)

lemma slice_ok_added:
  assumes "slice_ok env s l" "view_added env v s s'"
  shows "slice_ok env s' l"
proof (cases "ls_view l")
  case (Slice_Guarded reg b e)
  have "plain_lookup (i_views (s_mm s')) reg = Some (b, e)" if "e_atomic env"
    using assms that Slice_Guarded by (auto simp: slice_ok_def view_added_def split: mapped_slice.splits)
  with Slice_Guarded assms view_added_bytes [OF assms(2)] show ?thesis
    by (simp add: slice_ok_def view_added_def)
qed (use assms view_added_bytes [OF assms(2)] in \<open>simp_all add: slice_ok_def view_added_def\<close>)

lemma regs_fresh:
  assumes "\<And>l. l \<in> set ls \<Longrightarrow> slice_ok env s l" "view_added env v s s'"
  shows "set (slice_regs env v) \<inter> set (concat (map (slice_regs env \<circ> ls_view) ls)) = {}"
proof (rule ccontr)
  assume "\<not> ?thesis"
  then obtain l reg where l: "l \<in> set ls" "reg \<in> set (slice_regs env v)" "reg \<in> set (slice_regs env (ls_view l))" by auto
  then obtain b e where v: "ls_view l = Slice_Guarded reg b e" and at: "e_atomic env"
    by (cases "ls_view l") (auto split: if_splits)
  from assms(1) [OF l(1)] v at have "plain_lookup (i_views (s_mm s)) reg = Some (b, e)" by (simp add: slice_ok_def)
  moreover have "plain_lookup (i_views (s_mm s)) reg = None"
    using assms(2) at l(2) by (cases v) (auto simp: view_added_def)
  ultimately show False by simp
qed

lemma session_add_slice:
  assumes "session_ok env c" "view_added env v (c_sys c) s" "slice_ok env s (keep_slice v s)"
    and "\<And>it. it \<in> set its \<Longrightarrow> iter_ok (c_sys c) it"
    and "sum_list (map iter_guards its) = sum_list (map iter_guards (c_iters c))"
  shows "session_ok env (set_sys s c\<lparr>c_iters := its, c_slices := keep_slice v s # c_slices c\<rparr>)"
proof -
  have a: "sys_ok s" "i_map (s_mm s) = i_map (s_mm (c_sys c))" "s_world s = s_world (c_sys c)"
    "vr_atomics (i_views (s_mm s)) = vr_atomics (i_views (s_mm (c_sys c)))"
    "i_writer (s_mm s) = i_writer (s_mm (c_sys c))" "i_readers (s_mm s) = i_readers (s_mm (c_sys c)) + slice_guards v"
    using assms(2) by (simp_all add: view_added_def)
  have "slice_ok env s l" if "l \<in> set (c_slices c)" for l
    using slice_ok_added [OF session_okD(5) [OF assms(1) that] assms(2)] .
  moreover have "atomic_ok s x" if "x \<in> set (c_atomics c)" for x
    using session_okD(6) [OF assms(1) that] a(2,4) by (simp add: atomic_ok_def split: option.splits)
  moreover have "iter_ok s it" if "it \<in> set its" for it
    using assms(4) [OF that] a(2) by (simp add: iter_ok_def)
  moreover have "mut_ok s sm" if "c_mut c = Some sm" for sm
    using session_okD(8) [OF assms(1) that] a(2,3) by (simp add: mut_ok_def)
  moreover have "atomics_fit s" using session_okD(2) [OF assms(1)] a(2,4) by (simp add: atomics_fit_def)
  moreover have "distinct (slice_regs env v)" by (cases v) simp_all
  moreover note regs_fresh [OF session_okD(5) [OF assms(1)] assms(2)]
  ultimately show ?thesis
    using assms(1,3,5) a by (simp add: session_defs keep_slice_def)
qed

text \<open>Registering a plain view with its guard.\<close>

lemma registered_view_added:
  assumes "sys_ok s" "read_free s" "locked (i_map (s_mm s))" "sh < SHARDS"
    and "view_register env sh b e (i_views (s_mm s)) = (Inr reg, v)" "b \<le> e" "e \<le> length (s_bytes s)"
    and "s' = mm_upd (\<lambda>mm. mm\<lparr>i_views := v, i_readers := Suc (i_readers mm)\<rparr>) s"
  shows "view_added env (Slice_Guarded reg b e) s s'" "slice_ok env s' (keep_slice (Slice_Guarded reg b e) s')"
proof -
  note V = view_register_ok [OF assms(5) sys_okD(4) [OF assms(1)] assms(4)]
  have nw: "\<not> i_writer (s_mm s)" using assms(2,3) by (simp add: read_free_def)
  have ok: "sys_ok s'" unfolding assms(8) by (rule sys_ok_cong [OF assms(1)]) (simp_all add: V(1) nw)
  have reg: "plain_lookup (i_views (s_mm s)) reg = None \<and> plain_lookup v = (plain_lookup (i_views (s_mm s)))(reg \<mapsto> (b, e))"
    if "e_atomic env"
    using register_plain_ok(2,3) [OF sys_okD(4) [OF assms(1)] assms(4)] assms(5) that by (simp add: view_register_def)
  then show added: "view_added env (Slice_Guarded reg b e) s s'"
    using ok V(2) by (simp add: view_added_def assms(8))
  show "slice_ok env s' (keep_slice (Slice_Guarded reg b e) s')"
    using reg assms(3,6,7) by (auto simp: slice_ok_def keep_slice_def assms(8))
qed

lemma as_slice_added:
  assumes "sys_ok s" "sh < SHARDS" "as_slice env sh off len s = Some (Inr v, s')"
  shows "view_added env v s s'" "slice_ok env s' (keep_slice v s')"
proof -
  have "view_added env v s s' \<and> slice_ok env s' (keep_slice v s')"
  proof (cases "len = 0")
    case True
    with assms(3) have "v = Slice_Owned 0 0" "s' = s" by (simp_all add: as_slice_def op_return_def)
    with assms(1) show ?thesis by (simp add: view_added_def slice_ok_def keep_slice_def)
  next
    case False
    then have rf: "read_free s" and rng: "unat off + unat len \<le> length (s_bytes s)"
      and iv: "into_view env sh (unat off) (unat off + unat len) s = Some (Inr v, s')"
      using assms(3) sys_okD(5) [OF assms(1)] by (auto simp: as_slice_eq split: if_splits)
    show ?thesis
    proof (cases "locked (i_map (s_mm s))")
      case True
      from iv True obtain reg w where "v = Slice_Guarded reg (unat off) (unat off + unat len)"
        "s' = mm_upd (\<lambda>mm. mm\<lparr>i_views := w, i_readers := Suc (i_readers mm)\<rparr>) s"
        "view_register env sh (unat off) (unat off + unat len) (i_views (s_mm s)) = (Inr reg, w)"
        by (cases rule: into_view_cases) auto
      with registered_view_added [OF assms(1) rf True assms(2) this(3) _ rng this(2)] show ?thesis by simp
    next
      case False
      with iv have "v = Slice_Owned (unat off) (unat off + unat len)" "s' = s" by (simp_all add: into_view_owned)
      with assms(1) False show ?thesis by (simp add: view_added_def slice_ok_def keep_slice_def)
    qed
  qed
  then show "view_added env v s s'" "slice_ok env s' (keep_slice v s')" by simp_all
qed

text \<open>A refused slice leaves the registry's contents as they were.\<close>

lemma session_plain_kept:
  assumes "session_ok env c" "sys_ok s" "i_map (s_mm s) = i_map (s_mm (c_sys c))" "s_world s = s_world (c_sys c)"
    and "vr_atomics (i_views (s_mm s)) = vr_atomics (i_views (s_mm (c_sys c)))"
    and "plain_lookup (i_views (s_mm s)) = plain_lookup (i_views (s_mm (c_sys c)))"
    and "i_writer (s_mm s) = i_writer (s_mm (c_sys c))" "i_readers (s_mm s) = i_readers (s_mm (c_sys c))"
  shows "session_ok env (set_sys s c)"
  using assms
  by (auto simp: session_defs slice_ok_def slice_bytes_def atomic_ok_def iter_ok_def mut_ok_def atomics_fit_def
      split: mapped_slice.splits option.splits)

lemma as_slice_refused_session:
  assumes "session_ok env c" "sh < SHARDS" "as_slice env sh off len (c_sys c) = Some (Inl e, s)"
  shows "session_ok env (set_sys s c)"
proof (cases "s = c_sys c")
  case True
  then show ?thesis using assms(1) by simp
next
  case False
  let ?s = "c_sys c"
  have ok: "sys_ok ?s" by (rule session_okD(1) [OF assms(1)])
  have "len \<noteq> 0" using assms(3) by (auto simp: as_slice_def op_return_def)
  then have rf: "read_free ?s" and iv: "into_view env sh (unat off) (unat off + unat len) ?s = Some (Inl e, s)"
    using assms(3) False by (auto simp: as_slice_eq split: if_splits)
  have lk: "locked (i_map (s_mm ?s))" using iv by (rule contrapos_pp) (simp add: into_view_owned)
  from iv lk obtain k v where s: "s = mm_upd (\<lambda>mm. mm\<lparr>i_views := v\<rparr>) ?s"
    and reg: "view_register env sh (unat off) (unat off + unat len) (i_views (s_mm ?s)) = (Inl k, v)"
    by (cases rule: into_view_cases) auto
  have "plain_lookup v = plain_lookup (i_views (s_mm ?s))"
    using register_plain_refused(4) [OF sys_okD(4) [OF ok] assms(2)] reg
    by (auto simp: view_register_def register_plain_untracked_def split: if_splits)
  with into_view_keeps [OF iv ok assms(2) rf] show ?thesis
    by (intro session_plain_kept [OF assms(1)]) (simp_all add: s)
qed

lemma slice_dropped_session:
  assumes "session_ok env c" "c_slices c = xs @ l # ys"
  shows "session_ok env (set_sys (drop_slice (ls_view l) (c_sys c)) c\<lparr>c_slices := xs @ ys\<rparr>)"
proof -
  let ?s = "c_sys c" and ?t = "drop_slice (ls_view l) (c_sys c)"
  have ok: "sys_ok ?s" by (rule session_okD(1) [OF assms(1)])
  show ?thesis
  proof (cases "ls_view l")
    case (Slice_Guarded reg b e)
    let ?v = "drop_plain reg (i_views (s_mm ?s))"
    have t: "?t = mm_upd (\<lambda>mm. mm\<lparr>i_views := ?v, i_readers := i_readers mm - 1\<rparr>) ?s"
      by (simp add: drop_slice_def Slice_Guarded)
    have pos: "0 < i_readers (s_mm ?s)"
      using session_okD(3) [OF assms(1)] by (simp add: guards_def assms(2) Slice_Guarded)
    have wf: "registry_wf (i_views (s_mm ?s))" using sys_okD(4) [OF ok] by (simp add: registry_ok_def)
    have t_ok: "sys_ok ?t" unfolding t
      by (rule sys_ok_cong [OF ok]) (use ok pos drop_plain_registry_ok [OF sys_okD(4) [OF ok]] in \<open>auto simp: sys_ok_def\<close>)
    have "slice_ok env ?t k" if k: "k \<in> set (xs @ ys)" for k
    proof (cases "ls_view k")
      case k_guarded: (Slice_Guarded reg' b' e')
      have "reg' \<noteq> reg" if "e_atomic env"
        using assms that k k_guarded Slice_Guarded by (auto simp: session_ok_def)
      then show ?thesis
        using session_okD(5) [OF assms(1), of k] k assms(2) k_guarded drop_plain_ok(2) [OF wf, of reg]
        by (auto simp: slice_ok_def slice_bytes_def t)
    qed (use session_okD(5) [OF assms(1), of k] k assms(2) in \<open>auto simp: slice_ok_def slice_bytes_def t\<close>)
    moreover have "atomic_ok ?t a" if "a \<in> set (c_atomics c)" for a
      using session_okD(6) [OF assms(1) that] by (simp add: atomic_ok_def t split: option.splits)
    moreover have "iter_ok ?t it" if "it \<in> set (c_iters c)" for it
      using session_okD(7) [OF assms(1) that] by (simp add: iter_ok_def t)
    moreover have "mut_ok ?t sm" if "c_mut c = Some sm" for sm
      using session_okD(8) [OF assms(1) that] by (simp add: mut_ok_def t)
    moreover have "distinct (concat (map (slice_regs env \<circ> ls_view) (xs @ ys)))"
      using assms by (simp add: session_ok_def) blast
    moreover have "atomics_fit ?t" using session_okD(2) [OF assms(1)] by (simp add: atomics_fit_def t)
    moreover have "i_readers (s_mm ?t) = guards (c\<lparr>c_slices := xs @ ys\<rparr>)"
      using session_okD(3) [OF assms(1)] by (simp add: guards_def assms(2) Slice_Guarded drop_slice_def)
    ultimately show ?thesis using assms(1) t_ok by (simp add: session_defs t)
  qed (use assms in \<open>auto simp: session_defs drop_slice_def\<close>)
qed

section \<open>Steps of iterators\<close>

lemma session_readers:
  assumes "session_ok env c" "sys_ok s" "s = mm_upd (\<lambda>mm. mm\<lparr>i_readers := n\<rparr>) (c_sys c)"
    and "\<And>it. it \<in> set its \<Longrightarrow> iter_ok (c_sys c) it"
    and "n + sum_list (map iter_guards (c_iters c)) = i_readers (s_mm (c_sys c)) + sum_list (map iter_guards its)"
  shows "session_ok env (set_sys s c\<lparr>c_iters := its\<rparr>)"
proof -
  have "slice_ok env s l" if "l \<in> set (c_slices c)" for l
    using session_okD(5) [OF assms(1) that] by (simp add: slice_ok_def slice_bytes_def assms(3) split: mapped_slice.splits)
  moreover have "atomic_ok s a" if "a \<in> set (c_atomics c)" for a
    using session_okD(6) [OF assms(1) that] by (simp add: atomic_ok_def assms(3) split: option.splits)
  moreover have "iter_ok s it" if "it \<in> set its" for it
    using assms(4) [OF that] by (simp add: iter_ok_def assms(3))
  moreover have "mut_ok s sm" if "c_mut c = Some sm" for sm
    using session_okD(8) [OF assms(1) that] by (simp add: mut_ok_def assms(3))
  moreover have "atomics_fit s" using session_okD(2) [OF assms(1)] by (simp add: atomics_fit_def assms(3))
  moreover have "n = guards (c\<lparr>c_iters := its\<rparr>)"
    using assms(5) session_okD(3) [OF assms(1)] by (simp add: guards_def)
  ultimately show ?thesis using assms(1,2,3) by (simp add: session_defs)
qed

lemma iterator_taken_session:
  assumes "session_ok env c" "chunk_iterator_new n (c_sys c) = Some (it, s)"
  shows "session_ok env (set_sys s c\<lparr>c_iters := it # c_iters c\<rparr>)"
proof (cases "locked (i_map (s_mm (c_sys c)))")
  case True
  have ok: "sys_ok (c_sys c)" by (rule session_okD(1) [OF assms(1)])
  from True assms(2) have rf: "read_free (c_sys c)"
    and s: "s = mm_upd (\<lambda>mm. mm\<lparr>i_readers := Suc (i_readers (s_mm (c_sys c)))\<rparr>) (c_sys c)"
    and it: "ci_locked it" "ci_total_len it = m_len (s_mapping (c_sys c))"
    by (cases "i_map (s_mm (c_sys c))"; auto simp: chunk_iterator_new_def split: if_splits)+
  have "sys_ok s" unfolding s
    by (rule sys_ok_cong [OF ok]) (use rf True sys_okD(4) [OF ok] in \<open>simp_all add: read_free_def\<close>)
  then show ?thesis
    by (rule session_readers [OF assms(1) _ s])
      (use session_okD(7) [OF assms(1)] it True in \<open>auto simp: iter_ok_def iter_guards_def\<close>)
next
  case False
  then obtain m where m: "i_map (s_mm (c_sys c)) = Ro m" by (cases "i_map (s_mm (c_sys c))") simp_all
  with assms(2) have s: "s = c_sys c" and it: "\<not> ci_locked it" "ci_total_len it = m_len m"
    by (auto simp: chunk_iterator_new_def)
  with m assms(1) show ?thesis
    by (auto simp: session_defs iter_ok_def iter_guards_def)
qed

lemma iterator_dropped_session:
  assumes "session_ok env c" "c_iters c = xs @ it # ys"
  shows "session_ok env (set_sys (chunk_iterator_drop it (c_sys c)) c\<lparr>c_iters := xs @ ys\<rparr>)"
proof -
  let ?s = "c_sys c"
  have ok: "sys_ok ?s" by (rule session_okD(1) [OF assms(1)])
  have its: "iter_ok ?s k" if "k \<in> set (xs @ ys)" for k
    using session_okD(7) [OF assms(1), of k] that assms(2) by auto
  have rd: "i_readers (s_mm ?s) = iter_guards it + sum_list (map (slice_guards \<circ> ls_view) (c_slices c)) + length (c_atomics c)
      + sum_list (map iter_guards (xs @ ys))"
    using session_okD(3) [OF assms(1)] by (simp add: guards_def assms(2))
  have drop: "chunk_iterator_drop it ?s = mm_upd (\<lambda>mm. mm\<lparr>i_readers := i_readers (s_mm ?s) - iter_guards it\<rparr>) ?s"
    by (simp add: chunk_iterator_drop_def iter_guards_def)
  have "sys_ok (chunk_iterator_drop it ?s)" unfolding drop
    by (rule sys_ok_cong [OF ok]) (use ok in \<open>auto simp: sys_ok_def\<close>)
  then show ?thesis
    by (rule session_readers [OF assms(1) _ drop its]) (use rd in \<open>simp_all add: assms(2)\<close>)
qed

lemma chunk_end:
  fixes off tot n :: u64
  assumes "\<not> tot \<le> off"
  shows "unat (off + min (tot - off) n) = unat off + min (unat tot - unat off) (unat n)"
proof -
  have m: "unat (min (tot - off) n) = min (unat tot - unat off) (unat n)"
    using assms by (simp add: min_def word_le_unat unat_sub_exact)
  have "unat off + unat (min (tot - off) n) \<le> unat tot" using assms unfolding m word_le_unat by linarith
  from range_end [OF this] m show ?thesis by simp
qed

lemma chunk_item_added:
  assumes "sys_ok s" "read_free s" "locked (i_map (s_mm s))" "sh < SHARDS" "b \<le> e" "e \<le> length (s_bytes s)"
    and "chunk_item env sh b e s = (v, s')"
  shows "view_added env v s s'" "slice_ok env s' (keep_slice v s')"
proof -
  obtain r w where reg: "view_register env sh b e (i_views (s_mm s)) = (r, w)"
    by (cases "view_register env sh b e (i_views (s_mm s))")
  have "view_added env v s s' \<and> slice_ok env s' (keep_slice v s')"
  proof (cases r)
    case (Inr h)
    with reg assms(7) have "v = Slice_Guarded h b e"
      and s': "s' = mm_upd (\<lambda>mm. mm\<lparr>i_views := w, i_readers := Suc (i_readers mm)\<rparr>) s"
      by (simp_all add: chunk_item_def)
    with registered_view_added [OF assms(1-4) reg [unfolded Inr] assms(5,6) s'] show ?thesis by simp
  next
    case (Inl k)
    note V = view_register_ok [OF reg sys_okD(4) [OF assms(1)] assms(4)]
    have at: "e_atomic env" using reg Inl by (simp add: view_register_def register_plain_untracked_def split: if_splits)
    then have "plain_lookup w = plain_lookup (i_views (s_mm s))"
      using register_plain_refused(4) [OF sys_okD(4) [OF assms(1)] assms(4)] reg Inl by (simp add: view_register_def)
    moreover have s': "s' = mm_upd (\<lambda>mm. mm\<lparr>i_views := w\<rparr>) s" and "\<exists>bs. v = Slice_Snapshot bs"
      using reg Inl assms(7) by (auto simp: chunk_item_def)
    moreover have "sys_ok s'" unfolding s'
      by (rule sys_ok_cong [OF assms(1)]) (use V(1) assms(2,3) in \<open>simp_all add: read_free_def\<close>)
    ultimately show ?thesis using V(2) by (auto simp: view_added_def slice_ok_def keep_slice_def)
  qed
  then show "view_added env v s s'" "slice_ok env s' (keep_slice v s')" by simp_all
qed

lemma iterator_item_session:
  assumes "session_ok env c" "c_iters c = xs @ it # ys" "sh < SHARDS"
    and "chunk_next env sh it (c_sys c) = Some (Some v, it', s)"
  shows "session_ok env (set_sys s c\<lparr>c_iters := xs @ it' # ys, c_slices := keep_slice v s # c_slices c\<rparr>)"
proof -
  let ?s = "c_sys c" and ?b = "ci_offset it"
  let ?e = "?b + min (ci_total_len it - ?b) (ci_chunk_size it)"
  have ok: "sys_ok ?s" by (rule session_okD(1) [OF assms(1)])
  have io: "iter_ok ?s it" using session_okD(7) [OF assms(1)] assms(2) by simp
  from assms(4) have lt: "\<not> ci_total_len it \<le> ?b" and it': "it' = it\<lparr>ci_offset := ?e\<rparr>"
    by (simp_all add: chunk_next_def Let_def split: if_splits prod.splits)
  have e: "unat ?b \<le> unat ?e" "unat ?e \<le> length (s_bytes ?s)"
    using chunk_end [OF lt, of "ci_chunk_size it"] io sys_okD(5) [OF ok] lt by (auto simp: iter_ok_def word_le_unat)
  have added: "view_added env v ?s s \<and> slice_ok env s (keep_slice v s)"
  proof (cases "ci_locked it")
    case True
    with assms(4) lt have rf: "read_free ?s" and ci: "chunk_item env sh (unat ?b) (unat ?e) ?s = (v, s)"
      by (auto simp: chunk_next_def Let_def split: if_splits prod.splits)
    from True io have "locked (i_map (s_mm ?s))" by (simp add: iter_ok_def)
    from chunk_item_added [OF ok rf this assms(3) e ci] show ?thesis by simp
  next
    case False
    with assms(4) lt have "v = Slice_Owned (unat ?b) (unat ?e)" "s = ?s"
      by (auto simp: chunk_next_def Let_def split: if_splits)
    with False io ok show ?thesis by (simp add: view_added_def slice_ok_def keep_slice_def iter_ok_def)
  qed
  have its: "iter_ok ?s k" if "k \<in> set (xs @ it' # ys)" for k
    using session_okD(7) [OF assms(1), of k] io that assms(2) by (auto simp: it' iter_ok_def)
  have "iter_guards it' = iter_guards it" by (simp add: it' iter_guards_def)
  then have "sum_list (map iter_guards (xs @ it' # ys)) = sum_list (map iter_guards (c_iters c))"
    by (simp add: assms(2))
  with added its show ?thesis by (intro session_add_slice [OF assms(1)]) simp_all
qed

section \<open>Steps of atomic views\<close>

lemma atomic_taken_session:
  assumes "session_ok env c" "e_atomic env" "atomic_room (vr_atomics (i_views (s_mm (c_sys c))))"
    and "atomic_slice k off n (c_sys c) = Some (Inr v, s)"
  shows "session_ok env (set_sys s c\<lparr>c_atomics := \<lparr>la_offset = off, la_view = v\<rparr> # c_atomics c\<rparr>)"
proof -
  let ?s = "c_sys c" and ?a = "\<lparr>la_offset = off, la_view = v\<rparr>"
  let ?A = "atomic_lookup (vr_atomics (i_views (s_mm ?s)))" and ?B = "atomic_lookup (vr_atomics (i_views (s_mm s)))"
  let ?e = "unat off + unat (cell_size k) * unat n"
  obtain reg p where ap: "atomic_parts k off n ?s = Some (Inr (reg, p), s)"
    and v: "v = \<lparr>av_cell = k, av_reg = reg, av_ptr = p, av_pending = tracks_writes (s_mm s), av_len = n\<rparr>"
    using assms(4) by (auto simp: atomic_slice_Some)
  note G = atomic_parts_granted [OF session_okD(1,2) [OF assms(1)] assms(3) ap]
  have g: "sys_ok s" "atomics_fit s" "s_world s = s_world ?s" "i_map (s_mm s) = i_map (s_mm ?s)"
    "i_readers (s_mm s) = Suc (i_readers (s_mm ?s))" "\<not> i_writer (s_mm s)" "\<not> i_writer (s_mm ?s)"
    "plain_lookup (i_views (s_mm s)) = plain_lookup (i_views (s_mm ?s))"
    and reg: "registered (unat off) ?e (unat (cell_size k)) reg (i_views (s_mm ?s)) (i_views (s_mm s))"
    using G(1,3,6) by (simp_all add: granted_def read_free_def)
  have mono: "?A i = Some x \<Longrightarrow> ?B i = Some x" for i x
    using reg by (auto simp: registered_def split: if_splits)
  have ids: "set (atomic_ids ?a) \<inter> dom ?A = {}" "dom ?B = dom ?A \<union> set (atomic_ids ?a)" "distinct (atomic_ids ?a)"
    using reg by (auto simp: registered_def atomic_ids_def v split: if_splits)
  have new: "atomic_ok s ?a"
    using reg G(2,3,5) g(4) by (auto simp: atomic_ok_def v atomic_span_def registered_def unat_eq_zero split: if_splits)
  have old: "atomic_ok s a" if "a \<in> set (c_atomics c)" for a
    using session_okD(6) [OF assms(1) that] g(4) mono by (auto simp: atomic_ok_def split: option.splits)
  have sl: "slice_ok env s l" if "l \<in> set (c_slices c)" for l
    using session_okD(5) [OF assms(1) that] g(3,4,8) by (simp add: slice_ok_def slice_bytes_def split: mapped_slice.splits)
  have it: "iter_ok s x" if "x \<in> set (c_iters c)" for x
    using session_okD(7) [OF assms(1) that] g(4) by (simp add: iter_ok_def)
  have none: "c_mut c = None" using session_okD(4) [OF assms(1)] g(7) by simp
  have "dom ?A = set (concat (map atomic_ids (c_atomics c)))" "distinct (concat (map atomic_ids (c_atomics c)))"
    "distinct (concat (map (slice_regs env \<circ> ls_view) (c_slices c)))" "i_readers (s_mm ?s) = guards c"
    using assms(1) by (simp_all add: session_ok_def)
  with g new old sl it ids none assms(2) show ?thesis by (simp add: session_defs Un_commute)
qed

lemma atomic_refused_session:
  assumes "session_ok env c" "atomic_slice k off n (c_sys c) = Some (Inl e, s)"
  shows "session_ok env (set_sys s c)"
  using assms
  by (auto simp: atomic_slice_Inl atomic_parts_eq [OF session_okD(1) [OF assms(1)]] split: if_splits prod.splits sum.splits)

lemma atomic_dropped_session:
  assumes "session_ok env c" "c_atomics c = xs @ a # ys"
  shows "session_ok env (set_sys (drop_atomic_slice (la_view a) (c_sys c)) c\<lparr>c_atomics := xs @ ys\<rparr>)"
proof -
  let ?s = "c_sys c" and ?t = "drop_atomic_slice (la_view a) (c_sys c)" and ?reg = "av_reg (la_view a)"
  let ?A = "atomic_lookup (vr_atomics (i_views (s_mm ?s)))" and ?B = "atomic_lookup (vr_atomics (i_views (s_mm ?t)))"
  have ok: "sys_ok ?s" by (rule session_okD(1) [OF assms(1)])
  have t: "s_world ?t = s_world ?s" "i_map (s_mm ?t) = i_map (s_mm ?s)" "i_readers (s_mm ?t) = i_readers (s_mm ?s) - 1"
    "i_writer (s_mm ?t) = i_writer (s_mm ?s)" "i_views (s_mm ?t) = drop_atomic ?reg (i_views (s_mm ?s))"
    by (simp_all add: drop_atomic_slice_def release_view_def)
  note D = drop_atomic_ok [OF sys_okD(4) [OF ok], of ?reg]
  have rd: "i_readers (s_mm ?s) = Suc (guards (c\<lparr>c_atomics := xs @ ys\<rparr>))"
    using session_okD(3) [OF assms(1)] by (simp add: guards_def assms(2))
  then have nw: "\<not> i_writer (s_mm ?s)" using ok by (auto simp: sys_ok_def)
  have t_ok: "sys_ok ?t"
    using sys_ok_views [OF ok D(1)] nw by (simp add: drop_atomic_slice_def release_view_def)
  have ids: "distinct (concat (map atomic_ids (xs @ ys)))" "set (atomic_ids a) \<inter> set (concat (map atomic_ids (xs @ ys))) = {}"
    "dom ?A = set (atomic_ids a) \<union> set (concat (map atomic_ids (xs @ ys)))"
    using assms by (auto simp: session_ok_def)
  have B: "?B = ?A |` (- set (atomic_ids a))"
    using D(3) by (auto simp: t(5) atomic_ids_def restrict_map_def fun_eq_iff split: option.splits)
  have dom: "dom ?B = set (concat (map atomic_ids (xs @ ys)))" using ids(2,3) by (auto simp: B)
  have "\<forall>x \<in> set (as_entries (vr_atomics (i_views (s_mm ?t)))). entry_fits (unat (m_len (s_mapping ?s))) x"
    unfolding registry_entries [OF sys_okD(4) [OF t_ok]]
    using session_okD(2) [OF assms(1)] unfolding atomics_fit_def registry_entries [OF sys_okD(4) [OF ok]]
    by (auto simp: B restrict_map_def split: if_splits)
  then have fit: "atomics_fit ?t" by (simp add: atomics_fit_def t(2))
  have at: "atomic_ok ?t x" if x: "x \<in> set (xs @ ys)" for x
  proof -
    have "atomic_ok ?s x" using session_okD(6) [OF assms(1), of x] x assms(2) by auto
    moreover have "?B i = ?A i" if "ar_id (av_reg (la_view x)) = Some i" for i
    proof -
      have "i \<in> set (concat (map atomic_ids (xs @ ys)))" using x that by (force simp: atomic_ids_def)
      then have "i \<notin> set (atomic_ids a)" using ids(2) by blast
      then show ?thesis by (simp add: B)
    qed
    ultimately show ?thesis using t(2) by (simp add: atomic_ok_def split: option.splits)
  qed
  have sl: "slice_ok env ?t l" if "l \<in> set (c_slices c)" for l
    using session_okD(5) [OF assms(1) that] t(1,2,5) D(2)
    by (simp add: slice_ok_def slice_bytes_def split: mapped_slice.splits)
  have it: "iter_ok ?t x" if "x \<in> set (c_iters c)" for x
    using session_okD(7) [OF assms(1) that] t(2) by (simp add: iter_ok_def)
  have "c_mut c = None" "e_atomic env" using session_okD(4) [OF assms(1)] nw assms by (simp_all add: session_ok_def)
  with t_ok fit at sl it ids(1) dom rd t(3,4) nw assms(1) show ?thesis by (simp add: session_defs)
qed

text \<open>A store through an atomic view is disjoint from every live slice.\<close>

lemma atomic_slice_disjoint:
  assumes "session_ok env c" "a \<in> set (c_atomics c)" "l \<in> set (c_slices c)" "ls_view l = Slice_Guarded reg b e"
    and "av_len (la_view a) \<noteq> 0"
  shows "\<not> overlaps (fst (atomic_span a)) (snd (atomic_span a)) b e"
proof -
  let ?s = "c_sys c"
  have at: "e_atomic env" using assms(1,2) by (auto simp: session_ok_def)
  have reg: "registry_ok (i_views (s_mm ?s))" by (rule sys_okD(4) [OF session_okD(1) [OF assms(1)]])
  obtain i where "atomic_lookup (vr_atomics (i_views (s_mm ?s))) i =
      Some (fst (atomic_span a), snd (atomic_span a), unat (cell_size (av_cell (la_view a))))"
    using session_okD(6) [OF assms(1,2)] assms(5) by (auto simp: atomic_ok_def split: option.splits)
  then have "entry_of (fst (atomic_span a), snd (atomic_span a), unat (cell_size (av_cell (la_view a)))) i
      \<in> set (as_entries (vr_atomics (i_views (s_mm ?s))))"
    using reg by (simp add: atomic_lookup_Some registry_ok_def registry_wf_def)
  moreover have "plain_lookup (i_views (s_mm ?s)) reg = Some (b, e)"
    using session_okD(5) [OF assms(1,3)] assms(4) at by (simp add: slice_ok_def)
  ultimately show ?thesis
    using reg unfolding registry_ok_def plain_excluded_def entry_of_def by fastforce
qed

lemma element_in_span:
  assumes "sys_ok s" "atomic_ok s a" "slice_deref (la_view a) i = Some p"
  shows "fst (atomic_span a) \<le> cell_offset p s"
    "cell_offset p s + unat (cell_size (av_cell (la_view a))) \<le> snd (atomic_span a)"
    "cell_offset p s + unat (cell_size (av_cell (la_view a))) \<le> unat (m_len (s_mapping s))" "av_len (la_view a) \<noteq> 0"
proof -
  let ?v = "la_view a"
  let ?z = "unat (cell_size (av_cell ?v))"
  have i: "i < unat (av_len ?v)" using assms(3) by (simp add: slice_deref_def split: if_splits)
  then show "av_len ?v \<noteq> 0" by auto
  have co: "cell_offset p s = unat (la_offset a) + i * ?z" "cell_offset p s + ?z \<le> unat (m_len (s_mapping s))"
    using slice_deref_ok [OF i _ sys_okD(6) [OF assms(1)] refl refl, of "la_offset a"] assms(2,3)
    by (auto simp: atomic_ok_def)
  then show "fst (atomic_span a) \<le> cell_offset p s" "cell_offset p s + ?z \<le> unat (m_len (s_mapping s))"
    by (simp_all add: atomic_span_def)
  have "i * ?z + ?z \<le> ?z * unat (av_len ?v)"
    using mult_le_mono1 [of "Suc i" "unat (av_len ?v)" ?z] i by (simp add: mult.commute)
  then show "cell_offset p s + ?z \<le> snd (atomic_span a)" using co(1) by (simp add: atomic_span_def)
qed

lemma atomic_stored_session:
  assumes "session_ok env c" "a \<in> set (c_atomics c)" "slice_deref (la_view a) i = Some p"
    and "length bs = unat (cell_size (av_cell (la_view a)))"
  shows "session_ok env (set_sys (cell_store p bs (c_sys c)) c)"
proof -
  let ?s = "c_sys c" and ?o = "cell_offset p (c_sys c)"
  have ok: "sys_ok ?s" by (rule session_okD(1) [OF assms(1)])
  have aok: "atomic_ok ?s a" by (rule session_okD(6) [OF assms(1,2)])
  note E = element_in_span [OF ok aok assms(3), folded assms(4)]
  have in_range: "?o + length bs \<le> length (s_bytes ?s)" using E(3) sys_okD(5) [OF ok] by simp
  note S = store_at_ok [OF ok E(3)] store_at_sys_ok [OF ok E(3)]
  show ?thesis
  proof (rule session_frame [OF assms(1)])
    show "sys_ok (cell_store p bs ?s)" using S(5) by (simp add: cell_store_def)
    show "same_frame ?s (cell_store p bs ?s)" using S(3) by (simp add: same_frame_def cell_store_def raw_as_ptr_def)
    fix l assume l: "l \<in> set (c_slices c)"
    show "slice_bytes (cell_store p bs ?s) (ls_view l) = slice_bytes ?s (ls_view l)"
    proof (cases "ls_view l")
      case (Slice_Guarded reg b e)
      have "e \<le> ?o \<or> ?o + length bs \<le> b \<or> e \<le> b"
        using atomic_slice_disjoint [OF assms(1,2) l Slice_Guarded E(4)] E(1,2) by (auto simp: overlaps_def)
      then show ?thesis
        using managed.read_elsewhere [OF ok in_range, of e b] Slice_Guarded
        by (auto simp: slice_bytes_def cell_store_def sub_slice_def)
    next
      case (Slice_Owned b e)
      with session_okD(5) [OF assms(1) l] aok show ?thesis
        by (simp add: slice_bytes_def slice_ok_def atomic_ok_def)
    qed (simp add: slice_bytes_def)
  qed
qed

section \<open>Every step\<close>

lemma session_step_ok: "session_step env c c' \<Longrightarrow> session_ok env c \<Longrightarrow> session_ok env c'"
proof (induction rule: session_step.induct)
  case (slice_taken sh off len c v s)
  from session_add_slice [OF slice_taken(3) as_slice_added [OF session_okD(1) [OF slice_taken(3)] slice_taken(2,1)]]
    session_okD(7) [OF slice_taken(3)]
  have "session_ok env (set_sys s c\<lparr>c_iters := c_iters c, c_slices := keep_slice v s # c_slices c\<rparr>)" by blast
  then show ?case by simp
next
  case (mut_refused off len c e s)
  then have "s = c_sys c" by (auto simp: as_slice_mut_def split: sum.splits if_splits)
  with mut_refused show ?case by simp
qed (auto intro: as_slice_refused_session slice_dropped_session iterator_taken_session iterator_item_session
    iterator_dropped_session atomic_taken_session atomic_refused_session atomic_stored_session atomic_dropped_session
    mut_taken_session mut_stored_session mut_dropped_session update_region_session resize_session
    session_quiet mmap_flush_quiet flush_range_quiet advise_quiet lock_range_quiet)

lemma session_run_ok: "session_run env c0 c \<Longrightarrow> session_ok env c0 \<Longrightarrow> session_ok env c"
  by (induction rule: session_run.induct) (auto intro: session_step_ok)

lemma session_start_ok:
  assumes "sys_ok s" "i_readers (s_mm s) = 0" "\<not> i_writer (s_mm s)" "as_entries (vr_atomics (i_views (s_mm s))) = []"
  shows "session_ok env (session_start s)"
  using assms by (simp add: session_defs session_start_def atomics_fit_def atomic_lookup_def fun_eq_iff)

section \<open>Properties\<close>

text \<open>C2. The views a program holds are sound, in every session on one mapping: however slices, iterators and
  their items, atomic views, mutable slices, updates, resizes, flushes and hints follow each other, every
  live slice shows exactly the bytes it showed when it was taken and a guarded one still points into the
  mapping at the same address; every element of a live atomic view lies inside the mapping and no live
  slice overlaps a live atomic view; a mutable slice excludes every other view but owned copies; and as soon as nothing
  is held the write lock is free again, so no guard is ever lost.\<close>

theorem live_views_sound:
  assumes "sys_ok s" "i_readers (s_mm s) = 0" "\<not> i_writer (s_mm s)" "as_entries (vr_atomics (i_views (s_mm s))) = []"
    and "session_run env (session_start s) c"
  shows "sys_ok (c_sys c)
    \<and> (\<forall>l \<in> set (c_slices c). slice_bytes (c_sys c) (ls_view l) = ls_bytes l
         \<and> (slice_guards (ls_view l) = 1 \<longrightarrow> ls_base l = raw_as_ptr (s_mapping (c_sys c))))
    \<and> (\<forall>a \<in> set (c_atomics c). \<forall>i p. slice_deref (la_view a) i = Some p \<longrightarrow>
         cell_offset p (c_sys c) + unat (cell_size (av_cell (la_view a))) \<le> length (s_bytes (c_sys c)))
    \<and> (\<forall>l \<in> set (c_slices c). \<forall>a \<in> set (c_atomics c). \<forall>reg b e.
         ls_view l = Slice_Guarded reg b e \<and> av_len (la_view a) \<noteq> 0 \<longrightarrow>
         \<not> overlaps (fst (atomic_span a)) (snd (atomic_span a)) b e)
    \<and> (c_mut c \<noteq> None \<longrightarrow> c_atomics c = [] \<and> c_iters c = [] \<and> (\<forall>l \<in> set (c_slices c). slice_guards (ls_view l) = 0))
    \<and> (c_slices c = [] \<and> c_atomics c = [] \<and> c_iters c = [] \<and> c_mut c = None \<longrightarrow> write_free (c_sys c))"
proof -
  have ok: "session_ok env c" by (rule session_run_ok [OF assms(5) session_start_ok [OF assms(1-4)]])
  note S = session_okD [OF ok]
  have sl: "slice_bytes (c_sys c) (ls_view l) = ls_bytes l"
    "slice_guards (ls_view l) = 1 \<longrightarrow> ls_base l = raw_as_ptr (s_mapping (c_sys c))" if "l \<in> set (c_slices c)" for l
    using S(5) [OF that] by (cases "ls_view l"; simp add: slice_ok_def)+
  have at: "cell_offset p (c_sys c) + unat (cell_size (av_cell (la_view a))) \<le> length (s_bytes (c_sys c))"
    if "a \<in> set (c_atomics c)" "slice_deref (la_view a) i = Some p" for a i p
    using element_in_span(3) [OF S(1) S(6) [OF that(1)] that(2)] sys_okD(5) [OF S(1)] by simp
  have excl: "c_atomics c = [] \<and> c_iters c = [] \<and> (\<forall>l \<in> set (c_slices c). slice_guards (ls_view l) = 0)" if m: "c_mut c \<noteq> None"
  proof -
    have "i_readers (s_mm (c_sys c)) = 0" using m S(1,4) by (simp add: sys_ok_def)
    moreover have "locked (i_map (s_mm (c_sys c)))" using m S(8) by (auto simp: mut_ok_def)
    ultimately show ?thesis using exclusive_empty [OF ok] by blast
  qed
  have "write_free (c_sys c)" if "c_slices c = []" "c_atomics c = []" "c_iters c = []" "c_mut c = None"
    using that S(3,4) by (simp add: write_free_def guards_def)
  with S(1) sl at excl atomic_slice_disjoint [OF ok] show ?thesis by blast
qed

theorem live_views_sound_witness:
  "\<exists>c l. session_run sample_env (session_start (sample_sys Never)) c \<and> c_slices c = [l]
     \<and> slice_bytes (c_sys c) (ls_view l) = ls_bytes l \<and> update_region sample_env 0 [1] (c_sys c) = None"
proof -
  let ?s = "sample_sys Never"
  obtain h w where reg: "register_plain 0 2 5 registry_new = (Inr h, w)"
    using register_plain_succeeds [OF registry_ok_new, of 0 2 5]
    by (auto simp: atomic_hit_def registry_new_def atomic_empty_def SHARDS_def)
  let ?t = "mm_upd (\<lambda>mm. mm\<lparr>i_views := w, i_readers := Suc (i_readers mm)\<rparr>) ?s"
  let ?c = "set_sys ?t (session_start ?s)\<lparr>c_slices := [keep_slice (Slice_Guarded h 2 5) ?t]\<rparr>"
  have "as_slice sample_env 0 2 3 ?s = Some (Inr (Slice_Guarded h 2 5), ?t)"
    by (simp add: as_slice_eq into_view_def view_register_def reg)
  then have "session_run sample_env (session_start ?s) ?c"
    using session_step.slice_taken [of sample_env 0 2 3 "session_start ?s"]
    by (intro session_run.continued [OF session_run.started]) (simp add: session_start_def SHARDS_def)
  moreover from live_views_sound [OF sample_sys_ok _ _ _ this]
  have "slice_bytes (c_sys ?c) (ls_view (keep_slice (Slice_Guarded h 2 5) ?t)) = ls_bytes (keep_slice (Slice_Guarded h 2 5) ?t)"
    using sample_free(1) by (simp add: write_free_def registry_new_def atomic_empty_def)
  moreover have "update_region sample_env 0 [1] (c_sys ?c) = None"
    by (simp add: update_region_def update_region_within_def write_lock_def write_free_def)
  ultimately show ?thesis by (intro exI [of _ ?c] exI conjI) simp_all
qed

end
