(* ===== verification/Handles.thy ===== *)
theory Handles
  imports Sessions Segment Iterator_Props Anonymous
begin

text \<open>
  The small operations of the handles: how slices are built, read, compared and converted (\<open>src/mmap.rs\<close>), the accessors that name an
  iterator or an open file, the mutable half of \<open>src/segment.rs\<close>, and the operations \<open>RawMmapMut\<close> shares with \<open>RawMmap\<close>
  (\<open>src/raw/mod.rs\<close>). The two places where a handle can panic, the assertion of \<open>sub_slice_ptr\<close> and the indexing of a
  mutable slice, are \<open>None\<close>; no handle of a session reaches it.
\<close>

section \<open>Slices\<close>

text \<open>The address and length of a range of a mapping; a range outside it fails the assertion.\<close>

definition sub_slice_ptr :: "mapping \<Rightarrow> nat \<Rightarrow> nat \<Rightarrow> (addr \<times> nat) option" where
  "sub_slice_ptr m b e =
     (if b \<le> e \<and> e \<le> unat (m_len m) then Some (raw_as_ptr m + of_nat b, e - b) else None)"

definition mapped_slice_owned :: "nat \<Rightarrow> nat \<Rightarrow> mapped_slice" where
  "mapped_slice_owned b e = Slice_Owned b e"

definition mapped_slice_guarded :: "mapping \<Rightarrow> plain_reg \<Rightarrow> nat \<Rightarrow> nat \<Rightarrow> mapped_slice option" where
  "mapped_slice_guarded m reg b e = map_option (\<lambda>_. Slice_Guarded reg b e) (sub_slice_ptr m b e)"

definition mapped_slice_snapshot :: "byte list \<Rightarrow> mapped_slice" where
  "mapped_slice_snapshot bs = Slice_Snapshot bs"

definition slice_is_empty :: "sys \<Rightarrow> mapped_slice \<Rightarrow> bool" where
  "slice_is_empty s v \<longleftrightarrow> slice_len s v = 0"

definition mapped_slice_deref :: "sys \<Rightarrow> mapped_slice \<Rightarrow> byte list" where
  "mapped_slice_deref s v = slice_bytes s v"

definition mapped_slice_as_ref :: "sys \<Rightarrow> mapped_slice \<Rightarrow> byte list" where
  "mapped_slice_as_ref s v = slice_bytes s v"

text \<open>\<open>From<MappedSlice>\<close> for \<open>Bytes\<close> copies and drops the slice; from a reference it only copies.\<close>

definition bytes_from_slice :: "mapped_slice \<Rightarrow> sys \<Rightarrow> byte list \<times> sys" where
  "bytes_from_slice v s = (slice_bytes s v, drop_slice v s)"

definition bytes_from_slice_ref :: "mapped_slice \<Rightarrow> sys \<Rightarrow> byte list" where
  "bytes_from_slice_ref v s = slice_bytes s v"

definition slice_eq :: "sys \<Rightarrow> mapped_slice \<Rightarrow> mapped_slice \<Rightarrow> bool" where
  "slice_eq s v v' \<longleftrightarrow> slice_bytes s v = slice_bytes s v'"

definition slice_eq_bytes :: "sys \<Rightarrow> mapped_slice \<Rightarrow> byte list \<Rightarrow> bool" where
  "slice_eq_bytes s v other \<longleftrightarrow> slice_bytes s v = other"

text \<open>Mutable slices: \<open>&self.guard[start..end]\<close> is checked.\<close>

definition index_range :: "byte list \<Rightarrow> nat \<Rightarrow> nat \<Rightarrow> byte list option" where
  "index_range bs b e = (if b \<le> e \<and> e \<le> length bs then Some (sub_slice bs b e) else None)"

definition slice_mut_guarded :: "nat \<Rightarrow> nat \<Rightarrow> mapped_slice_mut" where
  "slice_mut_guarded b e = Slice_Mut b e"

definition slice_mut_is_empty :: "mapped_slice_mut \<Rightarrow> bool" where
  "slice_mut_is_empty sm \<longleftrightarrow> sm_start sm = sm_end sm"

definition slice_mut_deref :: "sys \<Rightarrow> mapped_slice_mut \<Rightarrow> byte list option" where
  "slice_mut_deref s sm = index_range (mapping_bytes (s_world s) (s_mapping s)) (sm_start sm) (sm_end sm)"

text \<open>What \<open>map_read\<close> hands out, and the counter a writer adds to.\<close>

datatype map_read_handle = MapRead_Shared mapping | MapRead_Guarded mapping

primrec map_read_mapping :: "map_read_handle \<Rightarrow> mapping" where
  "map_read_mapping (MapRead_Shared m) = m"
| "map_read_mapping (MapRead_Guarded m) = m"

primrec map_read_len :: "map_read_handle \<Rightarrow> usize" where
  "map_read_len (MapRead_Shared m) = m_len m"
| "map_read_len (MapRead_Guarded m) = m_len m"

primrec map_read_base_ptr :: "map_read_handle \<Rightarrow> addr" where
  "map_read_base_ptr (MapRead_Shared m) = raw_as_ptr m"
| "map_read_base_ptr (MapRead_Guarded m) = raw_as_ptr m"

definition map_read_deref :: "world \<Rightarrow> map_read_handle \<Rightarrow> byte list" where
  "map_read_deref w h = mapping_bytes w (map_read_mapping h)"

definition pending_counter :: "inner \<Rightarrow> u64 option" where
  "pending_counter mm = (if tracks_writes mm then Some (i_written mm) else None)"

section \<open>Files, iterators and segments\<close>

definition mmap_as_fd :: "sys \<Rightarrow> fid" where
  "mmap_as_fd s = i_file (s_mm s)"

definition mmap_as_raw_fd :: "sys \<Rightarrow> fid" where
  "mmap_as_raw_fd s = i_file (s_mm s)"

definition mmap_as_handle :: "sys \<Rightarrow> fid" where
  "mmap_as_handle s = i_file (s_mm s)"

definition mmap_as_raw_handle :: "sys \<Rightarrow> fid" where
  "mmap_as_raw_handle s = i_file (s_mm s)"

definition mmap_chunks :: "usize \<Rightarrow> sys \<Rightarrow> (chunk_iterator \<times> sys) option" where
  "mmap_chunks n = chunk_iterator_new n"

definition mmap_pages :: "env \<Rightarrow> sys \<Rightarrow> (chunk_iterator \<times> sys) option" where
  "mmap_pages env = page_iterator_new env"

definition mmap_chunks_owned :: "usize \<Rightarrow> sys \<Rightarrow> (chunk_iterator \<times> sys) option" where
  "mmap_chunks_owned n = chunk_iterator_new n"

definition mmap_pages_owned :: "env \<Rightarrow> sys \<Rightarrow> (chunk_iterator \<times> sys) option" where
  "mmap_pages_owned env = page_iterator_new env"

text \<open>The mutable iterator is its chunk size until it is driven; making one takes no lock.\<close>

datatype chunk_iterator_mut = Chunk_Iterator_Mut (cm_chunk_size: usize)

definition chunk_iterator_mut_new :: "usize \<Rightarrow> chunk_iterator_mut" where
  "chunk_iterator_mut_new n = Chunk_Iterator_Mut n"

definition mmap_chunks_mut :: "usize \<Rightarrow> chunk_iterator_mut" where
  "mmap_chunks_mut n = chunk_iterator_mut_new n"

definition segment_mut_len :: "segment \<Rightarrow> u64" where
  "segment_mut_len g = seg_len g"

definition segment_mut_is_empty :: "segment \<Rightarrow> bool" where
  "segment_mut_is_empty g \<longleftrightarrow> seg_len g = 0"

definition segment_mut_offset :: "segment \<Rightarrow> u64" where
  "segment_mut_offset g = seg_offset g"

definition segment_mut_is_valid :: "segment \<Rightarrow> sys \<Rightarrow> bool" where
  "segment_mut_is_valid g s = is_ok (validate_segment (seg_offset g) (seg_len g) s)"

section \<open>Mutable raw mappings\<close>

definition rawmut_len :: "mapping \<Rightarrow> usize" where
  "rawmut_len m = m_len m"

definition rawmut_is_empty :: "mapping \<Rightarrow> bool" where
  "rawmut_is_empty m \<longleftrightarrow> m_len m = 0"

definition rawmut_as_ptr :: "mapping \<Rightarrow> addr" where
  "rawmut_as_ptr m = m_ptr m"

definition rawmut_as_mut_ptr :: "mapping \<Rightarrow> addr" where
  "rawmut_as_mut_ptr m = m_ptr m"

definition rawmut_advise :: "env \<Rightarrow> mapping \<Rightarrow> mmap_advice \<Rightarrow> unit os_io" where
  "rawmut_advise env m advice = mapping_advise env m advice 0 (m_len m)"

definition rawmut_advise_range :: "env \<Rightarrow> mapping \<Rightarrow> mmap_advice \<Rightarrow> usize \<Rightarrow> usize \<Rightarrow> unit os_io" where
  "rawmut_advise_range env m advice off len = mapping_advise env m advice off len"

definition rawmut_lock :: "env \<Rightarrow> mapping \<Rightarrow> unit os_io" where
  "rawmut_lock env m = mapping_lock env m True"

definition rawmut_unlock :: "env \<Rightarrow> mapping \<Rightarrow> unit os_io" where
  "rawmut_unlock env m = mapping_lock env m False"

text \<open>\<open>Deref\<close> and \<open>AsRef\<close> show the whole mapping; the mutable forms store into it.\<close>

definition raw_deref :: "world \<Rightarrow> mapping \<Rightarrow> byte list" where
  "raw_deref w m = mapping_bytes w m"

definition rawmut_deref :: "world \<Rightarrow> mapping \<Rightarrow> byte list" where
  "rawmut_deref w m = mapping_bytes w m"

definition rawmut_deref_mut :: "nat \<Rightarrow> byte list \<Rightarrow> mapping \<Rightarrow> world \<Rightarrow> mapping \<times> world" where
  "rawmut_deref_mut b d m w = mapping_store b d (m, w)"

section \<open>Facts\<close>

lemma sub_slice_ptr_Some:
  "sub_slice_ptr m b e = Some (p, n) \<longleftrightarrow> b \<le> e \<and> e \<le> unat (m_len m) \<and> p = raw_as_ptr m + of_nat b \<and> n = e - b"
  by (auto simp: sub_slice_ptr_def)

text \<open>Where \<open>as_slice\<close> and the iterators build a guarded slice, its constructor accepts the range.\<close>

lemma guarded_constructed:
  assumes "b \<le> e" "e \<le> unat (m_len m)"
  shows "mapped_slice_guarded m reg b e = Some (Slice_Guarded reg b e)"
  using assms by (simp add: mapped_slice_guarded_def sub_slice_ptr_def)

lemma into_view_constructed:
  assumes "locked (i_map (s_mm s))" "b \<le> e" "e \<le> unat (m_len (s_mapping s))" "into_view env sh b e s = Some (Inr v, s')"
  shows "\<exists>reg. mapped_slice_guarded (s_mapping s) reg b e = Some v"
  using assms guarded_constructed [OF assms(2,3)] by (auto simp: into_view_def split: prod.splits sum.splits)

lemma slice_ok_pointer:
  assumes "sys_ok s" "slice_ok env s l" "ls_view l = Slice_Guarded reg b e"
  shows "locked (i_map (s_mm s))" "sub_slice_ptr (s_mapping s) b e = Some (ls_base l + of_nat b, e - b)"
    "mapped_slice_guarded (s_mapping s) reg b e = Some (ls_view l)"
proof -
  have r: "b \<le> e" "e \<le> unat (m_len (s_mapping s))" "ls_base l = raw_as_ptr (s_mapping s)" and "locked (i_map (s_mm s))"
    using assms sys_okD(5) [OF assms(1)] by (simp_all add: slice_ok_def)
  then show "locked (i_map (s_mm s))" "sub_slice_ptr (s_mapping s) b e = Some (ls_base l + of_nat b, e - b)"
    "mapped_slice_guarded (s_mapping s) reg b e = Some (ls_view l)"
    by (simp_all add: sub_slice_ptr_Some guarded_constructed assms(3))
qed

text \<open>A session that holds a slice.\<close>

lemma sample_slice_session:
  "\<exists>c l reg. session_run sample_env (session_start (sample_sys Never)) c \<and> c_slices c = [l] \<and> ls_view l = Slice_Guarded reg 2 5"
proof -
  let ?s = "sample_sys Never"
  obtain h w where reg: "register_plain 0 2 5 registry_new = (Inr h, w)"
    using register_plain_succeeds [OF registry_ok_new, of 0 2 5]
    by (auto simp: atomic_hit_def registry_new_def atomic_empty_def SHARDS_def)
  let ?t = "mm_upd (\<lambda>mm. mm\<lparr>i_views := w, i_readers := Suc (i_readers mm)\<rparr>) ?s"
  have "as_slice sample_env 0 2 3 ?s = Some (Inr (Slice_Guarded h 2 5), ?t)"
    by (simp add: as_slice_eq into_view_def view_register_def reg)
  then have "session_run sample_env (session_start ?s) (set_sys ?t (session_start ?s)\<lparr>c_slices := [keep_slice (Slice_Guarded h 2 5) ?t]\<rparr>)"
    using session_step.slice_taken [of sample_env 0 2 3 "session_start ?s"]
    by (intro session_run.continued [OF session_run.started]) (simp add: session_start_def SHARDS_def)
  then show ?thesis by (intro exI conjI) (auto simp: keep_slice_def)
qed

section \<open>Properties\<close>

text \<open>C13. Handles are well typed, in every session on one mapping. Every live guarded slice belongs to a mapping with a lock, its range
  passes the assertion of its constructor in the current mapping, and the address computed from the mapping it was taken from is still
  the address of its range, with its length; an owned slice belongs to a mapping nothing can write or is empty. Comparing two live slices,
  asking whether one is empty and converting one to \<open>Bytes\<close> give the answer for the bytes they showed when they were taken. The range of a live mutable
  slice is never out of bounds, so dereferencing it cannot panic.\<close>

theorem live_handles_typed:
  assumes "sys_ok s" "write_free s" "as_entries (vr_atomics (i_views (s_mm s))) = []" "session_run env (session_start s) c"
  shows "(\<forall>l \<in> set (c_slices c).
      (case ls_view l of
         Slice_Owned b e \<Rightarrow> \<not> locked (i_map (s_mm (c_sys c))) \<or> b = e
       | Slice_Guarded reg b e \<Rightarrow>
           locked (i_map (s_mm (c_sys c))) \<and> sub_slice_ptr (s_mapping (c_sys c)) b e = Some (ls_base l + of_nat b, e - b)
           \<and> mapped_slice_guarded (s_mapping (c_sys c)) reg b e = Some (ls_view l)
       | Slice_Snapshot _ \<Rightarrow> True)
      \<and> (slice_is_empty (c_sys c) (ls_view l) \<longleftrightarrow> ls_bytes l = [])
      \<and> fst (bytes_from_slice (ls_view l) (c_sys c)) = ls_bytes l
      \<and> (\<forall>l' \<in> set (c_slices c). slice_eq (c_sys c) (ls_view l) (ls_view l') \<longleftrightarrow> ls_bytes l = ls_bytes l'))
    \<and> (\<forall>sm. c_mut c = Some sm \<longrightarrow>
         (\<exists>bs. slice_mut_deref (c_sys c) sm = Some bs \<and> length bs = slice_mut_len sm
           \<and> (slice_mut_is_empty sm \<longleftrightarrow> bs = [])))"
proof -
  have ok: "session_ok env c"
    using assms(2) by (intro session_run_ok [OF assms(4) session_start_ok [OF assms(1) _ _ assms(3)]]) (simp_all add: write_free_def)
  note S = session_okD [OF ok]
  have bytes: "slice_bytes (c_sys c) (ls_view l) = ls_bytes l" if "l \<in> set (c_slices c)" for l
    using S(5) [OF that] by (simp add: slice_ok_def)
  have "case ls_view l of
      Slice_Owned b e \<Rightarrow> \<not> locked (i_map (s_mm (c_sys c))) \<or> b = e
    | Slice_Guarded reg b e \<Rightarrow>
        locked (i_map (s_mm (c_sys c))) \<and> sub_slice_ptr (s_mapping (c_sys c)) b e = Some (ls_base l + of_nat b, e - b)
        \<and> mapped_slice_guarded (s_mapping (c_sys c)) reg b e = Some (ls_view l)
    | Slice_Snapshot _ \<Rightarrow> True" if l: "l \<in> set (c_slices c)" for l
    using S(5) [OF l] slice_ok_pointer [OF S(1) S(5) [OF l]] by (cases "ls_view l") (auto simp: slice_ok_def split: if_splits)
  moreover have "\<exists>bs. slice_mut_deref (c_sys c) sm = Some bs \<and> length bs = slice_mut_len sm \<and> (slice_mut_is_empty sm \<longleftrightarrow> bs = [])"
    if "c_mut c = Some sm" for sm
    using S(8) [OF that]
    by (auto simp: mut_ok_def slice_mut_deref_def index_range_def slice_mut_len_def slice_mut_is_empty_def sub_slice_def)
  ultimately show ?thesis
    using bytes by (auto simp: slice_is_empty_def slice_len_def bytes_from_slice_def slice_eq_def)
qed

theorem live_handles_typed_witness:
  "\<exists>c l. session_run sample_env (session_start (sample_sys Never)) c \<and> c_slices c = [l]
     \<and> sub_slice_ptr (s_mapping (c_sys c)) 2 5 = Some (ls_base l + 2, 3) \<and> slice_eq (c_sys c) (ls_view l) (ls_view l)"
proof -
  obtain c l reg where c: "session_run sample_env (session_start (sample_sys Never)) c" "c_slices c = [l]" "ls_view l = Slice_Guarded reg 2 5"
    using sample_slice_session by blast
  have "as_entries (vr_atomics (i_views (s_mm (sample_sys Never)))) = []" by (simp add: registry_new_def atomic_empty_def)
  from live_handles_typed [OF sample_sys_ok sample_free(1) this c(1)] c show ?thesis by auto
qed

end
