(* ===== verification/Granting.thy ===== *)
theory Granting
  imports Sessions Mmap_Open_Props
begin

text \<open>
  A system that grants what it is asked for: a Linux whose kernel refuses no call but those for more than
  \<open>lim\<close> bytes of memory or of a file. The theorems about the operations hold for every kernel, with a
  failed call as a possible outcome; here the outcomes are settled: on such a system every valid request
  succeeds.
\<close>

section \<open>The system\<close>

fun call_demand :: "syscall \<Rightarrow> nat" where
  "call_demand (Sys_mmap n _ _ _ _) = unat n"
| "call_demand (Fs_set_len _ n) = unat n"
| "call_demand _ = 0"

text \<open>No kernel places a mapping at the null address.\<close>

fun answer_ok :: "syscall \<Rightarrow> io_error + u64 \<Rightarrow> bool" where
  "answer_ok c (Inl e) = False"
| "answer_ok (Sys_mmap _ _ _ _ _) (Inr v) = (v \<noteq> 0)"
| "answer_ok c (Inr v) = True"

definition granting :: "nat \<Rightarrow> env \<Rightarrow> bool" where
  "granting lim env \<longleftrightarrow> e_target env = Linux \<and> is_ok (os_page_size env)
     \<and> (\<forall>tr c. call_demand c \<le> lim \<longrightarrow> answer_ok c (e_kern env tr c))"

lemma sample_granting: "granting lim sample_env"
proof -
  have "answer_ok c (sample_kernel tr c)" for tr c by (cases c) simp_all
  then show ?thesis by (simp add: granting_def)
qed

lemma answer_ok_Inr: "answer_ok c r \<Longrightarrow> \<exists>v. r = Inr v"
  by (cases r) simp_all

lemma granted_call:
  assumes "granting lim env" "call_demand c \<le> lim"
  shows "\<exists>v. os_call env c w = (Inr v, w\<lparr>w_trace := w_trace w @ [c]\<rparr>) \<and> answer_ok c (Inr v)"
proof -
  have a: "answer_ok c (e_kern env (w_trace w) c)" using assms by (simp add: granting_def)
  with answer_ok_Inr [OF a] show ?thesis by (auto simp: os_call_def)
qed

lemma granted_call_unit:
  "granting lim env \<Longrightarrow> call_demand c \<le> lim \<Longrightarrow> \<exists>w'. os_call_unit env c w = (Inr (), w')"
  using granted_call [of lim env c w] by (auto simp: os_call_unit_def)

lemma granting_page:
  assumes "granting lim env"
  obtains page where "os_page_size env = Inr page" "offset_granularity env = Inr page" "is_power_of_two page"
proof -
  obtain page where p: "os_page_size env = Inr page" using assms by (auto simp: granting_def is_ok_iff)
  moreover have "offset_granularity env = Inr page"
    using p assms by (simp add: granting_def os_dispatch os_select_def unix_offset_granularity_def)
  ultimately show thesis using that os_page_size_pow [OF p] by blast
qed

section \<open>Raw mappings\<close>

lemma granted_metadata:
  "granting lim env \<Longrightarrow> fs_metadata_len env f w = (Inr (file_len w f), w\<lparr>w_trace := w_trace w @ [Fs_metadata f]\<rparr>)"
  using granted_call [of lim env "Fs_metadata f" w] by (auto simp: fs_metadata_len_Inr os_call_def)

lemma granted_mmap:
  assumes "granting lim env" "unat n \<le> lim"
  shows "\<exists>v w'. bind_se (os_call env (Sys_mmap n prot flags fo off))
    (\<lambda>a. bind_se (unix_finish env a n) (\<lambda>base. return_se (h base))) w = (Inr (h v), w')"
proof -
  obtain v where "os_call env (Sys_mmap n prot flags fo off) w =
      (Inr v, w\<lparr>w_trace := w_trace w @ [Sys_mmap n prot flags fo off]\<rparr>)" "v \<noteq> 0"
    using granted_call [OF assms(1), of "Sys_mmap n prot flags fo off" w] assms(2) by auto
  then show ?thesis by (intro exI [of _ v]) (simp add: unix_finish_def bind_se_def)
qed

lemma granted_map_file:
  assumes "granting lim env" "unat (map_len l) \<le> lim" "unat (aligned_offset l) < 2 ^ 63"
  shows "\<exists>base b w'. os_map_file env f acc l fl w = (Inr (base, b), w')"
proof -
  have "os_map_file env f acc l fl = unix_map_file env f acc l fl"
    using assms(1) by (simp add: granting_def os_dispatch os_select_def)
  moreover have "\<exists>base b' w'. bind_se (os_call env (Sys_mmap (map_len l) prot flags (Some f) (aligned_offset l)))
      (\<lambda>a. bind_se (unix_finish env a (map_len l)) (\<lambda>base. return_se (base, b))) w = (Inr (base, b'), w')"
    for prot flags b
    using granted_mmap [OF assms(1,2), where h = "\<lambda>base. (base, b)"] by blast
  ultimately show ?thesis using assms(3) by (cases acc) (simp_all add: unix_map_file_def)
qed

text \<open>A window inside the file can be mapped.\<close>

lemma granted_map:
  assumes "granting lim env" "length (w_data w f) < 2 ^ 63" "os_page_size env = Inr page"
    and "unat (ro_offset ro) + window_len (length (w_data w f)) ro \<le> length (w_data w f)"
    and "window_len (length (w_data w f)) ro + unat (ro_offset ro) mod unat page \<le> lim"
    and "window_len (length (w_data w f)) ro + unat (ro_offset ro) mod unat page < 2 ^ 63"
  shows "\<exists>m w'. map_impl env ro f acc w = (Inr m, w')"
proof -
  let ?L = "length (w_data w f)" and ?w = "w\<lparr>w_trace := w_trace w @ [Fs_metadata f]\<rparr>"
  obtain g where g: "offset_granularity env = Inr g" "is_power_of_two g" "g = page"
    using granting_page [OF assms(1)] assms(3) by auto
  have fl: "unat (file_len w f) = ?L" by (rule unat_file_len [OF assms(2)])
  have off: "unat (ro_offset ro) \<le> ?L" using assms(4) by simp
  let ?n = "of_nat (window_len ?L ro) :: usize"
  have n: "unat ?n = window_len ?L ro" using assms(2,4) by (simp add: unat_of_nat)
  have rl: "resolve_len (file_len w f) (ro_offset ro) (ro_len ro) MAX_LEN = Inr ?n"
    using assms(2,4) off n
    by (auto simp: resolve_len_Inr fl unat_MAX_LEN window_len_def word_unat_eq_iff split: option.splits)
  obtain l where l: "layout (ro_offset ro) ?n g MAX_LEN = Inr l"
    using layout_succeeds [OF g(2), of ?n "ro_offset ro" MAX_LEN] assms(6) n by (auto simp: unat_MAX_LEN g(3))
  note L = layout_ok [OF l]
  have "unat (ro_offset ro) mod unat page = (unat (aligned_offset l) + unat (delta l)) mod unat page" by (simp only: L(1))
  also have "\<dots> = unat (delta l)" using L(2,3) by (simp add: g(3) mod_add_left_eq [symmetric] dvd_imp_mod_0)
  finally have d: "unat (delta l) = unat (ro_offset ro) mod unat page" ..
  have "unat (aligned_offset l) < 2 ^ 63" using L(1) off assms(2) by linarith
  moreover have "unat (map_len l) \<le> lim" using L(5) d n assms(5) by simp
  ultimately obtain base b w2 where os: "os_map_file env f acc l (ro_flags ro) ?w = (Inr (base, b), w2)"
    using granted_map_file [OF assms(1)] by blast
  show ?thesis
    using g(1) granted_metadata [OF assms(1), of f w] rl l os
    by (auto simp: map_impl_def bind_se_def)
qed

lemma granted_map_rw:
  assumes "granting lim env" "length (w_data w f) < 2 ^ 63" "unat n \<le> length (w_data w f)" "unat n \<le> lim"
  shows "\<exists>m w'. map_file_rw env f n huge w = (Inr m, w')"
proof -
  obtain page where "os_page_size env = Inr page" using granting_page [OF assms(1)] by blast
  from granted_map [OF assms(1,2) this, of "options_len n options_new" Access_Write] assms(2-4)
  obtain m w' where "map_impl env (options_len n options_new) f Access_Write w = (Inr m, w')"
    by (auto simp: window_len_def options_len_def options_new_def)
  then show ?thesis by (simp add: map_file_rw_def raw_map_mut_def)
qed

lemma granted_set_len:
  assumes "granting lim env" "unat n \<le> lim"
  shows "\<exists>w'. fs_set_len env f n w = (Inr (), w')"
  using granted_call [OF assms(1), of "Fs_set_len f n" w] assms(2) by (auto simp: fs_set_len_def)

lemma granted_open:
  assumes "granting lim env" "o_create opts \<or> w_dir w pth \<noteq> None" "\<not> o_create_new opts"
  shows "\<exists>f w'. fs_open env pth opts w = (Inr f, w')"
  using granted_call [OF assms(1), of "Fs_open pth opts" w] assms(2,3)
  by (auto simp: fs_open_def bind_se_def create_file_def split: option.splits)

text \<open>A mapping of up to \<open>lim\<close> bytes can be created.\<close>

lemma granted_create_rw:
  assumes "granting lim env" "n \<noteq> 0" "\<not> n > MAX_MMAP_SIZE" "unat n \<le> lim"
  shows "\<exists>mm w'. create_rw env pth n w = (Inr mm, w')"
proof -
  obtain f w1 where o: "fs_open env pth opts_truncate w = (Inr f, w1)"
    using granted_open [OF assms(1), of opts_truncate w pth] by auto
  obtain w2 where sl: "fs_set_len env f n w1 = (Inr (), w2)" using granted_set_len [OF assms(1,4)] by blast
  have "\<not> unat n > unat MAX_MMAP_SIZE" using assms(3) by (simp add: word_less_nat_alt)
  then have l: "length (w_data w2 f) = unat n" "unat n < 2 ^ 63"
    using sl by (auto simp: fs_set_len_Inr resize_bytes_def MAX_MMAP_SIZE_def)
  obtain page where "os_page_size env = Inr page" using granting_page [OF assms(1)] by blast
  from granted_map [OF assms(1) _ this, of w2 f options_new Access_Write] l assms(2,4)
  obtain m w3 where "rawmmapmut_map_mut env f w2 = (Inr m, w3)"
    by (auto simp: window_len_def options_new_def rawmmapmut_map_mut_def raw_map_mut_def unat_eq_zero)
  with o sl assms(2,3) show ?thesis by (simp add: create_rw_def io_try_def bind_se_def map_err_se_def)
qed

text \<open>A range inside the mapping can be flushed.\<close>

lemma granted_flush:
  assumes "granting lim env" "mapping_ok w0 m" "unat off + unat n \<le> unat (m_len m)"
  shows "\<exists>w'. mapping_flush env m off n mode w = (Inr (), w')"
proof -
  obtain page where p: "os_page_size env = Inr page" "is_power_of_two page"
    using granting_page [OF assms(1)] by blast
  show ?thesis
  proof (cases "n = 0")
    case True
    then have "mapping_span env m off n = Inr None"
      using p assms(3) flush_span_None [of "m_delta m" "m_len m" off n page] by (simp add: mapping_span_def)
    then show ?thesis by (simp add: mapping_flush_def)
  next
    case False
    then have "m_len m \<noteq> 0" using assms(3) by (auto simp: unat_eq_zero)
    then have "unat (m_delta m) + unat (m_len m) < 2 ^ LENGTH(64)"
      using assms(2) by (simp add: mapping_ok_def unat_MAX_LEN)
    from flush_span_succeeds [OF assms(3) False p(2) this] p(1)
    obtain a k where "mapping_span env m off n = Inr (Some (a, k))" by (auto simp: mapping_span_def)
    moreover have "\<exists>w'. os_flush env a k (m_backing m) mode w = (Inr (), w')"
      using assms(1) granted_call_unit [OF assms(1)]
      by (auto simp: granting_def os_dispatch os_select_def unix_flush_def split: backing.splits)
    ultimately show ?thesis by (simp add: mapping_flush_def bind_se_def)
  qed
qed

section \<open>Managed mappings\<close>

lemma granted_flush_mapped:
  assumes "granting lim env" "sys_ok s"
  shows "\<exists>s'. flush_mapped env s = Some (Inr (), s')"
proof -
  obtain w' where "raw_flush env (s_mapping s) (s_world s) = (Inr (), w')"
    using granted_flush [OF assms(1) sys_okD(1) [OF assms(2)], of 0 "m_len (s_mapping s)"] by (auto simp: raw_flush_def)
  then show ?thesis by (cases rule: flush_mapped_cases [of env s]) simp_all
qed

lemma granted_mmap_flush:
  assumes "granting lim env" "sys_ok s" "read_free s"
  shows "\<exists>s'. mmap_flush env s = Some (Inr (), s')"
  using granted_flush_mapped [OF assms(1,2)] assms(3)
  by (cases "i_map (s_mm s)") (simp_all add: mmap_flush_def map_read_def)

lemma granted_flush_range:
  assumes "granting lim env" "sys_ok s" "i_map (s_mm s) = Rw m" "read_free s" "unat off + unat len \<le> unat (m_len m)"
  shows "\<exists>s'. flush_range env off len s = Some (Inr (), s')"
proof (cases "len = 0 \<or> off = 0 \<and> off + len = m_len m")
  case True
  with assms(3-5) granted_mmap_flush [OF assms(1,2,4)] show ?thesis
    by (auto simp: flush_range_def op_return_def map_read_eq op_bind_def op_lift_def slice_range64_eq)
next
  case False
  have "\<exists>w'. raw_flush_range env m off len (s_world s) = (Inr (), w')"
    unfolding raw_flush_range_def
    by (rule granted_flush [OF assms(1) sys_okD(1) [OF assms(2)], unfolded assms(3) variant_mapping.simps]) (use assms(5) in simp)
  with False assms(3-5) show ?thesis
    by (auto simp: flush_range_def map_read_eq op_bind_def op_lift_def slice_range64_eq op_io_def)
qed

lemma granted_policy:
  assumes "granting lim env" "sys_ok s" "write_free s"
  shows "\<exists>s'. apply_flush_policy env n s = Some (Inr (), s')"
proof -
  obtain fl s1 where c: "count_update n s = (fl, s1)" by (cases "count_update n s")
  have q: "quiet_sys s s1" by (rule count_update_quiet [OF c])
  then have "read_free s1" using assms(3) by (simp add: quiet_sys_def read_free_def write_free_def)
  from granted_mmap_flush [OF assms(1) quiet_sys_ok [OF q assms(2)] this] c show ?thesis
    by (cases fl) (simp_all add: apply_flush_policy_def)
qed

text \<open>An update within a span that fits.\<close>

lemma granted_update_within:
  assumes "granting lim env" "sys_ok s" "locked (i_map (s_mm s))" "write_free s" "length d < 2 ^ 63"
    and "unat off + max (unat span) (length d) \<le> unat (m_len (s_mapping s))"
  obtains s' where "update_region_within env off d span s = Some (Inr (), s')" "wrote (unat off) d s s'"
    "i_policy (s_mm s') = i_policy (s_mm s)" "i_file (s_mm s') = i_file (s_mm s)"
proof -
  let ?t = "store_at (unat off) d s"
  have fit: "unat off + length d \<le> unat (m_len (s_mapping s))" using assms(6) by simp
  obtain s' where a: "apply_flush_policy env (of_nat (length d)) ?t = Some (Inr (), s')"
    using granted_policy [OF assms(1) store_at_sys_ok [OF assms(2) fit]] assms(4) by auto
  have q: "quiet_sys ?t s'" by (rule apply_flush_policy_quiet [OF a])
  show thesis
    using that update_region_within_ok [OF assms(2-6)] a store_at_wrote [OF assms(2,3) fit q] q
    by (simp add: quiet_sys_def)
qed

text \<open>A resize within the limits, and one beyond them that fails.\<close>

lemma granted_resize:
  assumes "granting lim env" "sys_ok s" "i_map (s_mm s) = Rw m" "write_free s"
    and "n \<noteq> 0" "\<not> n > MAX_MMAP_SIZE" "unat n \<le> lim"
  shows "\<exists>s'. resize env n s = Some (Inr (), s')"
proof -
  note R = rw_facts [OF assms(2,3)]
  have n63: "unat n < 2 ^ 63" by (rule MAX_MMAP_SIZE_bound [OF assms(6)])
  have t: "e_target env \<noteq> Windows" using assms(1) by (simp add: granting_def)
  let ?f = "i_file (s_mm s)" and ?w = "s_world s"
  have "\<exists>s'. (if n = m_len m then Some (Inr (), s)
        else if n > m_len m then grow_locked env (ucast (m_len m)) n n s
        else shrink_locked env (m_len m) n n s) = Some (Inr (), s')"
  proof (cases n "m_len m" rule: linorder_cases)
    case greater
    obtain w1 where sl: "fs_set_len env ?f n ?w = (Inr (), w1)" using granted_set_len [OF assms(1,7)] by blast
    then have "length (w_data w1 ?f) = unat n" by (simp add: fs_set_len_Inr)
    then obtain m2 w2 where "map_file_rw env ?f n (huge_pages env s) w1 = (Inr m2, w2)"
      using granted_map_rw [OF assms(1), of w1 ?f n "huge_pages env s"] n63 assms(7) by auto
    with sl greater show ?thesis by (auto simp: grow_locked_def)
  next
    case less
    then have "unat n \<le> length (w_data ?w ?f)" using R(2) by (simp add: word_less_unat)
    then obtain m2 w2 where "map_file_rw env ?f n (huge_pages env s) ?w = (Inr m2, w2)"
      using granted_map_rw [OF assms(1) sys_ok_lengths [OF assms(2)]] assms(7) by blast
    moreover obtain w3 where "fs_set_len env ?f n w2 = (Inr (), w3)" using granted_set_len [OF assms(1,7)] by blast
    ultimately show ?thesis using less t by (auto simp: shrink_locked_def shrink_locked_unix_def)
  qed simp
  then show ?thesis
    using assms(3-6) R(5) by (auto simp: resize_def Let_def)
qed

lemma granted_resize_fails:
  assumes "granting lim env" "sys_ok s" "i_map (s_mm s) = Rw m" "write_free s" "unat (m_len m) \<le> lim"
    and "resize env n s = Some (Inl e, s')" "n \<noteq> 0" "\<not> n > MAX_MMAP_SIZE"
  shows "lim < unat n" "length (s_file_bytes s') = length (s_file_bytes s)" "\<exists>err. e = Io err"
proof -
  note R = rw_facts [OF assms(2,3)]
  let ?f = "i_file (s_mm s)"
  show lt: "lim < unat n"
    using granted_resize [OF assms(1-4,7,8)] assms(6) by (auto simp: not_less [symmetric])
  then have gt: "m_len m < n" using assms(5) by (simp add: word_less_unat)
  with assms(3,4,6-8) R(5) obtain s1 where g: "grow_locked env (ucast (m_len m)) n n s = Some (Inl e, s1)"
    and s': "s' = store_cached_len s1"
    by (auto simp: resize_def Let_def split: if_splits)
  have "length (w_data (s_world s1) ?f) = length (s_file_bytes s) \<and> i_file (s_mm s1) = ?f \<and> (\<exists>err. e = Io err)"
  proof (cases "fs_set_len env ?f n (s_world s)")
    case (Pair r1 w1)
    show ?thesis
    proof (cases r1)
      case (Inl e1)
      with Pair g have "e = from_io_error e1" "s1 = s\<lparr>s_world := w1\<rparr>" by (simp_all add: grow_locked_def)
      with Pair Inl show ?thesis by (simp add: fs_set_len_Inl from_io_error_def)
    next
      case (Inr u)
      with Pair g obtain e2 w2 where e: "e = from_io_error e2"
        and s1: "s1 = s\<lparr>s_world := snd (fs_set_len env ?f (ucast (m_len m)) w2)\<rparr>"
        by (auto simp: grow_locked_def split: prod.splits sum.splits)
      obtain w3 where "fs_set_len env ?f (m_len m) w2 = (Inr (), w3)"
        using granted_set_len [OF assms(1,5)] by blast
      moreover from this have "length (w_data w3 ?f) = length (s_file_bytes s)" using R(2) by (simp add: fs_set_len_Inr)
      ultimately show ?thesis by (simp add: s1 e from_io_error_def)
    qed
  qed
  then show "length (s_file_bytes s') = length (s_file_bytes s)" "\<exists>err. e = Io err" by (simp_all add: s')
qed

end
