(* ===== verification/Fuzz_Managed.thy ===== *)
theory Fuzz_Managed
  imports Granting Segment Mmap_Reader
begin

text \<open>
  \<open>fuzz/fuzz_targets/managed_ops.rs\<close>: the model-based harness for the managed mapping. An input is a list of
  operations; the harness runs each on the mapping and on a vector of bytes and asserts that results, errors and contents agree.
  Here the harness itself is a program: a failed assertion, an \<open>expect\<close> on an error, an index out of range
  and a call that never returns are \<open>None\<close>. The random input, the directory entry, the threads' shard and the moments at
  which the background flusher runs are arguments, so that a theorem about it speaks of every input a fuzzer can find.
\<close>

section \<open>Inputs\<close>

text \<open>Sizes stay below this so every step can compare the whole mapping.\<close>

definition MAX_SIZE :: u64 where
  "MAX_SIZE = 3 * 65536 + 64"

datatype fuzz_policy =
    Policy_Manual | Policy_Always | Policy_EveryBytes "16 word" | Policy_EveryWrites "8 word" | Policy_EveryMillis

datatype fuzz_advice = Advice_Normal | Advice_Random | Advice_Sequential | Advice_WillNeed | Advice_DontNeed

datatype fuzz_op =
    Op_Update u64 "byte list"
  | Op_ReadInto u64 "16 word"
  | Op_AsSlice u64 u64
  | Op_SliceMutFill u64 u64 byte
  | Op_Resize u64
  | Op_Flush
  | Op_FlushRange u64 u64
  | Op_SegmentWrite u64 u64 "byte list"
  | Op_SegmentRead u64 u64
  | Op_ChunkSum "32 word"
  | Op_ChunksMutFill "16 word" byte
  | Op_Advise u64 u64 fuzz_advice
  | Op_Touch u64 u64
  | Op_Prefetch u64 u64
  | Op_ReaderSeekRead "64 word" bool "16 word"

record fuzz_input =
  in_initial :: "32 word"
  in_policy :: fuzz_policy
  in_fold :: bool
  in_ops :: "fuzz_op list"

section \<open>Assertions\<close>

definition rust_assert :: "bool \<Rightarrow> 'a \<Rightarrow> 'a option" where
  "rust_assert b x = (if b then Some x else None)"

text \<open>\<open>Result::expect\<close> on the result of an operation.\<close>

definition expect_op :: "((mmap_io_error + 'a) \<times> sys) option \<Rightarrow> ('a \<times> sys) option" where
  "expect_op c = (case c of Some (Inr x, s) \<Rightarrow> Some (x, s) | _ \<Rightarrow> None)"

definition fuzz_in_bounds :: "u64 \<Rightarrow> u64 \<Rightarrow> nat \<Rightarrow> bool" where
  "fuzz_in_bounds off len sz \<longleftrightarrow>
     len = 0 \<or> (case checked_add off len of Some e \<Rightarrow> e \<le> of_nat sz | None \<Rightarrow> False)"

definition check_oob :: "mmap_io_error + 'a \<Rightarrow> u64 \<Rightarrow> u64 \<Rightarrow> nat \<Rightarrow> unit option" where
  "check_oob r off len sz =
     (case r of
        Inl (OutOfBounds o1 l t) \<Rightarrow> rust_assert ((o1, l, t) = (off, len, of_nat sz)) ()
      | Inl _ \<Rightarrow> None
      | Inr _ \<Rightarrow> None)"

definition check_result :: "mmap_io_error + 'a \<Rightarrow> u64 \<Rightarrow> u64 \<Rightarrow> nat \<Rightarrow> 'a option option" where
  "check_result r off len sz =
     (if fuzz_in_bounds off len sz
      then (case r of Inr v \<Rightarrow> Some (Some v) | Inl _ \<Rightarrow> None)
      else map_option (\<lambda>_. None) (check_oob r off len sz))"

section \<open>The vector\<close>

text \<open>\<open>model[o..o + data.len()].copy_from_slice(data)\<close>, \<open>model[b..e]\<close>, \<open>model[b..e].fill(byte)\<close> and
  \<open>model.iter().map(u64::from).sum()\<close>; \<open>model.resize(n, 0)\<close> is \<open>resize_bytes\<close>.\<close>

definition model_copy :: "nat \<Rightarrow> byte list \<Rightarrow> byte list \<Rightarrow> byte list option" where
  "model_copy b d model = rust_assert (b + length d \<le> length model) (splice_at model b d)"

definition model_range :: "nat \<Rightarrow> nat \<Rightarrow> byte list \<Rightarrow> byte list option" where
  "model_range b e model = rust_assert (b \<le> e \<and> e \<le> length model) (sub_slice model b e)"

definition model_fill :: "nat \<Rightarrow> nat \<Rightarrow> byte \<Rightarrow> byte list \<Rightarrow> byte list option" where
  "model_fill b e x model =
     rust_assert (b \<le> e \<and> e \<le> length model) (splice_at model b (replicate (e - b) x))"

definition byte_sum :: "byte list \<Rightarrow> nat" where
  "byte_sum bs = sum_list (map unat bs)"

text \<open>\<open>for (i, c) in model.chunks_mut(n).enumerate() { c.fill(seed.wrapping_add((i * n) as u8)) }\<close>\<close>

definition model_chunks_fill :: "nat \<Rightarrow> byte \<Rightarrow> byte list \<Rightarrow> byte list" where
  "model_chunks_fill n seed model =
     concat (map (\<lambda>(i, c). replicate (length c) (seed + of_nat (i * n))) (List.enumerate 0 (chunks_of n model)))"

text \<open>\<open>io::Cursor\<close> over the vector: \<open>seek\<close> gives the new position, or fails and keeps it; \<open>read\<close> copies what is left.\<close>

definition checked_add_signed :: "u64 \<Rightarrow> int \<Rightarrow> u64 option" where
  "checked_add_signed x d =
     (if 0 \<le> int (unat x) + d \<and> int (unat x) + d < 2 ^ 64 then Some (of_int (int (unat x) + d)) else None)"

definition cursor_seek :: "seek_from \<Rightarrow> byte list \<Rightarrow> u64 \<Rightarrow> (error_kind + u64) \<times> u64" where
  "cursor_seek sk model p =
     (let to = (\<lambda>base d. case checked_add_signed base d of Some q \<Rightarrow> (Inr q, q) | None \<Rightarrow> (Inl InvalidInput, p))
      in (case sk of
            Seek_Start n \<Rightarrow> (Inr n, n)
          | Seek_End d \<Rightarrow> to (of_nat (length model)) d
          | Seek_Current d \<Rightarrow> to p d))"

definition cursor_read :: "byte list \<Rightarrow> byte list \<Rightarrow> u64 \<Rightarrow> (nat \<times> byte list) \<times> u64" where
  "cursor_read model buf p =
     (let remaining = drop (min (unat p) (length model)) model;
          n = min (length buf) (length remaining)
      in ((n, take n remaining @ drop n buf), p + of_nat n))"

section \<open>The operations\<close>

type_synonym fuzz_state = "sys \<times> byte list"

text \<open>The closure \<open>fold\<close>: coordinates folded into the current size, when the input asks for it.\<close>

definition fuzz_fold :: "bool \<Rightarrow> nat \<Rightarrow> u64 \<Rightarrow> u64" where
  "fuzz_fold fl sz v = (if fl then v mod (of_nat sz + 2) else v)"

definition fuzz_update :: "env \<Rightarrow> bool \<Rightarrow> u64 \<Rightarrow> byte list \<Rightarrow> sys \<Rightarrow> byte list \<Rightarrow> fuzz_state option" where
  "fuzz_update env fl off0 data0 m model =
     (let sz = length model;
          off = fuzz_fold fl sz off0;
          data = take (min (length data0) 4096) data0
      in Option.bind (update_region env off data m) (\<lambda>(r, m').
         Option.bind (check_result r off (of_nat (length data)) sz) (\<lambda>c.
           if c \<noteq> None \<and> data \<noteq> [] then map_option (Pair m') (model_copy (unat off) data model)
           else Some (m', model))))"

definition fuzz_read_into :: "env \<Rightarrow> bool \<Rightarrow> u64 \<Rightarrow> 16 word \<Rightarrow> sys \<Rightarrow> byte list \<Rightarrow> fuzz_state option" where
  "fuzz_read_into env fl off0 len m model =
     (let sz = length model;
          off = fuzz_fold fl sz off0
      in Option.bind (read_into env off (replicate (unat len) 0) m) (\<lambda>(r, m').
         Option.bind (check_result r off (ucast len) sz) (\<lambda>c.
           case c of
             Some buf \<Rightarrow>
               if len > 0
               then Option.bind (model_range (unat off) (unat off + length buf) model) (\<lambda>x. rust_assert (buf = x) (m', model))
               else Some (m', model)
           | None \<Rightarrow> Some (m', model))))"

definition fuzz_as_slice :: "env \<Rightarrow> nat \<Rightarrow> bool \<Rightarrow> u64 \<Rightarrow> u64 \<Rightarrow> sys \<Rightarrow> byte list \<Rightarrow> fuzz_state option" where
  "fuzz_as_slice env sh fl off0 len0 m model =
     (let sz = length model;
          off = fuzz_fold fl sz off0;
          len = fuzz_fold fl sz len0
      in Option.bind (as_slice env sh off len m) (\<lambda>(r, m').
         Option.bind (check_result r off len sz) (\<lambda>c.
           case c of
             Some s \<Rightarrow>
               if of_nat (slice_len m' s) \<noteq> len then None
               else if len > 0
               then Option.bind (model_range (unat off) (unat (off + len)) model)
                      (\<lambda>x. rust_assert (slice_bytes m' s = x) (drop_slice s m', model))
               else Some (drop_slice s m', model)
           | None \<Rightarrow> Some (m', model))))"

definition fuzz_slice_mut_fill :: "bool \<Rightarrow> u64 \<Rightarrow> u64 \<Rightarrow> byte \<Rightarrow> sys \<Rightarrow> byte list \<Rightarrow> fuzz_state option" where
  "fuzz_slice_mut_fill fl off0 len0 x m model =
     (let sz = length model;
          off = fuzz_fold fl sz off0;
          len = fuzz_fold fl sz len0
      in Option.bind (as_slice_mut off len m) (\<lambda>(r0, m0).
         let (r, m') =
           (case r0 of
              Inl e \<Rightarrow> (Inl e, m0)
            | Inr s \<Rightarrow> (Inr (), drop_slice_mut s (slice_mut_store s 0 (replicate (slice_mut_len s) x) m0)))
         in Option.bind (check_result r off len sz) (\<lambda>c.
              if c \<noteq> None \<and> len > 0
              then map_option (Pair m') (model_fill (unat off) (unat (off + len)) x model)
              else Some (m', model))))"

definition fuzz_resize :: "env \<Rightarrow> bool \<Rightarrow> u64 \<Rightarrow> sys \<Rightarrow> byte list \<Rightarrow> fuzz_state option" where
  "fuzz_resize env fl new0 m model =
     (let new = (if fl then new0 mod (MAX_SIZE + 1) else new0)
      in Option.bind (resize env new m) (\<lambda>(r, m').
         case r of
           Inr _ \<Rightarrow>
             if \<not> (new > 0 \<and> new \<le> push_bit 40 128) then None
             else if new > 4 * MAX_SIZE
             then Option.bind (expect_op (resize env MAX_SIZE m')) (\<lambda>(_, m'').
                    Some (m'', resize_bytes (unat MAX_SIZE) model))
             else Some (m', resize_bytes (unat new) model)
         | Inl (ResizeFailed _) \<Rightarrow> rust_assert (new = 0 \<or> new > push_bit 40 128) (m', model)
         | Inl (Io _) \<Rightarrow> rust_assert (new > 4 * MAX_SIZE) (m', model)
         | Inl _ \<Rightarrow> None))"

definition fuzz_flush :: "env \<Rightarrow> sys \<Rightarrow> byte list \<Rightarrow> fuzz_state option" where
  "fuzz_flush env m model =
     Option.bind (expect_op (mmap_flush env m)) (\<lambda>(_, m'). rust_assert (pending_bytes m' = 0) (m', model))"

definition fuzz_flush_range :: "env \<Rightarrow> bool \<Rightarrow> u64 \<Rightarrow> u64 \<Rightarrow> sys \<Rightarrow> byte list \<Rightarrow> fuzz_state option" where
  "fuzz_flush_range env fl off0 len0 m model =
     (let sz = length model;
          off = fuzz_fold fl sz off0;
          len = fuzz_fold fl sz len0
      in Option.bind (flush_range env off len m) (\<lambda>(r, m').
         Option.bind (check_result r off len sz) (\<lambda>_. Some (m', model))))"

definition fuzz_segment_write :: "env \<Rightarrow> bool \<Rightarrow> u64 \<Rightarrow> u64 \<Rightarrow> byte list \<Rightarrow> sys \<Rightarrow> byte list \<Rightarrow> fuzz_state option" where
  "fuzz_segment_write env fl off0 len0 data0 m model =
     (let sz = length model;
          off = fuzz_fold fl sz off0;
          len = fuzz_fold fl sz len0;
          data = take (min (length data0) 4096) data0
      in Option.bind (check_result (segment_mut_new off len m) off len sz) (\<lambda>c.
         case c of
           Some seg \<Rightarrow>
             Option.bind (segment_write env seg data m) (\<lambda>(r, m').
               if of_nat (length data) > len
               then Option.bind (check_oob r 0 (of_nat (length data)) (unat len)) (\<lambda>_. Some (m', model))
               else
                 (case r of
                    Inl _ \<Rightarrow> None
                  | Inr _ \<Rightarrow>
                      if data \<noteq> [] then map_option (Pair m') (model_copy (unat off) data model)
                      else Some (m', model)))
         | None \<Rightarrow> Some (m, model)))"

definition fuzz_segment_read :: "env \<Rightarrow> nat \<Rightarrow> bool \<Rightarrow> u64 \<Rightarrow> u64 \<Rightarrow> sys \<Rightarrow> byte list \<Rightarrow> fuzz_state option" where
  "fuzz_segment_read env sh fl off0 len0 m model =
     (let sz = length model;
          off = fuzz_fold fl sz off0;
          len = fuzz_fold fl sz len0
      in Option.bind (check_result (segment_new off len m) off len sz) (\<lambda>c.
         case c of
           Some seg \<Rightarrow>
             Option.bind (expect_op (segment_as_slice env sh seg m)) (\<lambda>(s, m').
               if len > 0
               then Option.bind (model_range (unat off) (unat (off + len)) model)
                      (\<lambda>x. rust_assert (slice_bytes m' s = x) (drop_slice s m', model))
               else Some (drop_slice s m', model))
         | None \<Rightarrow> Some (m, model)))"

text \<open>The loop over \<open>m.chunks(chunk)\<close>: each item is summed and dropped; \<open>+=\<close> on the \<open>u64\<close> panics when it
  overflows. At the end the iterator is dropped.\<close>

fun chunk_sum_loop ::
  "nat \<Rightarrow> env \<Rightarrow> nat \<Rightarrow> chunk_iterator \<Rightarrow> nat \<Rightarrow> nat \<Rightarrow> sys \<Rightarrow> (nat \<times> nat \<times> sys) option" where
  "chunk_sum_loop 0 env sh it cnt acc s = None"
| "chunk_sum_loop (Suc k) env sh it cnt acc s =
     (case chunk_next env sh it s of
        None \<Rightarrow> None
      | Some (None, it', s') \<Rightarrow> Some (cnt, acc, chunk_iterator_drop it' s')
      | Some (Some c, it', s') \<Rightarrow>
          if acc + byte_sum (slice_bytes s' c) < 2 ^ 64
          then chunk_sum_loop k env sh it' (Suc cnt) (acc + byte_sum (slice_bytes s' c)) (drop_slice c s')
          else None)"

definition fuzz_chunk_sum :: "env \<Rightarrow> nat \<Rightarrow> 32 word \<Rightarrow> sys \<Rightarrow> byte list \<Rightarrow> fuzz_state option" where
  "fuzz_chunk_sum env sh chunk0 m model =
     (let sz = length model;
          chunk = ucast chunk0
      in Option.bind (chunk_iterator_new chunk m) (\<lambda>(it, m1).
         Option.bind (chunk_sum_loop (Suc sz) env sh it 0 0 m1) (\<lambda>(cnt, acc, m').
           rust_assert
             (if chunk = 0 then (cnt, acc) = (0, 0)
              else cnt = unat (div_ceil (of_nat sz) chunk) \<and> acc = byte_sum model) (m', model))))"

definition fuzz_chunks_mut_fill :: "16 word \<Rightarrow> byte \<Rightarrow> sys \<Rightarrow> byte list \<Rightarrow> fuzz_state option" where
  "fuzz_chunks_mut_fill chunk0 seed m model =
     (let chunk = ucast chunk0
      in (case for_each_mut (\<lambda>st off c. (Inr (), replicate (length c) (seed + ucast off), st)) chunk () m of
            Some (Inr _, _, m') \<Rightarrow>
              Some (m', if chunk > 0 then model_chunks_fill (unat chunk) seed model else model)
          | _ \<Rightarrow> None))"

definition fuzz_advise :: "env \<Rightarrow> bool \<Rightarrow> u64 \<Rightarrow> u64 \<Rightarrow> fuzz_advice \<Rightarrow> sys \<Rightarrow> byte list \<Rightarrow> fuzz_state option" where
  "fuzz_advise env fl off0 len0 adv m model =
     (let sz = length model;
          off = fuzz_fold fl sz off0;
          len = fuzz_fold fl sz len0;
          advice = (case adv of
            Advice_Normal \<Rightarrow> Adv_Normal | Advice_Random \<Rightarrow> Adv_Random | Advice_Sequential \<Rightarrow> Adv_Sequential
          | Advice_WillNeed \<Rightarrow> Adv_WillNeed | Advice_DontNeed \<Rightarrow> Adv_DontNeed)
      in Option.bind (advise env off len advice m) (\<lambda>(r, m').
         Option.bind (check_result r off len sz) (\<lambda>_. Some (m', model))))"

definition fuzz_touch :: "env \<Rightarrow> bool \<Rightarrow> u64 \<Rightarrow> u64 \<Rightarrow> sys \<Rightarrow> byte list \<Rightarrow> fuzz_state option" where
  "fuzz_touch env fl off0 len0 m model =
     (let sz = length model;
          off = fuzz_fold fl sz off0;
          len = fuzz_fold fl sz len0
      in Option.bind (touch_pages_range env off len m) (\<lambda>(r, m').
         Option.bind (check_result r off len sz) (\<lambda>_. Some (m', model))))"

definition fuzz_prefetch :: "env \<Rightarrow> bool \<Rightarrow> u64 \<Rightarrow> u64 \<Rightarrow> sys \<Rightarrow> byte list \<Rightarrow> fuzz_state option" where
  "fuzz_prefetch env fl off0 len0 m model =
     (let sz = length model;
          off = fuzz_fold fl sz off0;
          len = fuzz_fold fl sz len0
      in Option.bind (prefetch_range env off len m) (\<lambda>(r, m').
         Option.bind (check_result r off len sz) (\<lambda>_. Some (m', model))))"

definition fuzz_reader_seek_read :: "env \<Rightarrow> 64 word \<Rightarrow> bool \<Rightarrow> 16 word \<Rightarrow> sys \<Rightarrow> byte list \<Rightarrow> fuzz_state option" where
  "fuzz_reader_seek_read env p from_end len m model =
     (let target = (if from_end then Seek_End (sint p) else Seek_Current (sint p));
          buf = replicate (unat len) 0
      in (case reader_seek target mmap_reader m of
            (sr, r) \<Rightarrow>
              (case cursor_seek target model 0 of
                 (sc, c) \<Rightarrow>
                   if map_err io_kind sr \<noteq> sc then None
                   else
                     (case reader_read env buf r m of
                        Some (Inr (n, a), r') \<Rightarrow>
                          (case cursor_read model buf c of
                             ((n', b), c') \<Rightarrow> rust_assert (n = n' \<and> a = b \<and> reader_position r' = c') (m, model))
                      | _ \<Rightarrow> None))))"

section \<open>The harness\<close>

text \<open>One pass of the loop: the operation, then the two assertions behind the \<open>match\<close>.\<close>

fun fuzz_op_step :: "env \<Rightarrow> nat \<Rightarrow> bool \<Rightarrow> fuzz_op \<Rightarrow> sys \<Rightarrow> byte list \<Rightarrow> fuzz_state option" where
  "fuzz_op_step env sh fl (Op_Update off data) = fuzz_update env fl off data"
| "fuzz_op_step env sh fl (Op_ReadInto off len) = fuzz_read_into env fl off len"
| "fuzz_op_step env sh fl (Op_AsSlice off len) = fuzz_as_slice env sh fl off len"
| "fuzz_op_step env sh fl (Op_SliceMutFill off len x) = fuzz_slice_mut_fill fl off len x"
| "fuzz_op_step env sh fl (Op_Resize new) = fuzz_resize env fl new"
| "fuzz_op_step env sh fl Op_Flush = fuzz_flush env"
| "fuzz_op_step env sh fl (Op_FlushRange off len) = fuzz_flush_range env fl off len"
| "fuzz_op_step env sh fl (Op_SegmentWrite off len data) = fuzz_segment_write env fl off len data"
| "fuzz_op_step env sh fl (Op_SegmentRead off len) = fuzz_segment_read env sh fl off len"
| "fuzz_op_step env sh fl (Op_ChunkSum chunk) = fuzz_chunk_sum env sh chunk"
| "fuzz_op_step env sh fl (Op_ChunksMutFill chunk seed) = fuzz_chunks_mut_fill chunk seed"
| "fuzz_op_step env sh fl (Op_Advise off len adv) = fuzz_advise env fl off len adv"
| "fuzz_op_step env sh fl (Op_Touch off len) = fuzz_touch env fl off len"
| "fuzz_op_step env sh fl (Op_Prefetch off len) = fuzz_prefetch env fl off len"
| "fuzz_op_step env sh fl (Op_ReaderSeekRead p from_end len) = fuzz_reader_seek_read env p from_end len"

definition fuzz_whole :: "env \<Rightarrow> nat \<Rightarrow> sys \<Rightarrow> byte list \<Rightarrow> fuzz_state option" where
  "fuzz_whole env sh m model =
     (if mmap_len m \<noteq> of_nat (length model) then None
      else Option.bind (expect_op (as_slice env sh 0 (of_nat (length model)) m)) (\<lambda>(s, m').
             rust_assert (slice_bytes m' s = model) (drop_slice s m', model)))"

text \<open>The background flusher, when there is one and its time has come.\<close>

definition fuzz_tick :: "env \<Rightarrow> bool \<Rightarrow> sys \<Rightarrow> sys option" where
  "fuzz_tick env now m =
     (if now \<and> i_flusher (s_mm m) \<noteq> None then map_option snd (flusher_callback env m) else Some m)"

fun fuzz_loop :: "env \<Rightarrow> nat \<Rightarrow> bool \<Rightarrow> (nat \<Rightarrow> bool) \<Rightarrow> fuzz_op list \<Rightarrow> sys \<Rightarrow> byte list \<Rightarrow> fuzz_state option" where
  "fuzz_loop env sh fl ticks [] m model = Some (m, model)"
| "fuzz_loop env sh fl ticks (op # ops) m model =
     Option.bind (fuzz_tick env (ticks (length ops)) m) (\<lambda>m0.
     Option.bind (fuzz_op_step env sh fl op m0 model) (\<lambda>(m1, model1).
     Option.bind (fuzz_whole env sh m1 model1) (\<lambda>(m2, model2).
       fuzz_loop env sh fl ticks ops m2 model2)))"

text \<open>\<open>fs::read\<close>\<close>

definition fs_read :: "env \<Rightarrow> path \<Rightarrow> world \<Rightarrow> (io_error + byte list) \<times> world" where
  "fs_read env pth = bind_se (fs_open env pth opts_ro) (\<lambda>f w. (Inr (w_data w f), w))"

definition fuzz_setup :: "env \<Rightarrow> bool \<Rightarrow> path \<Rightarrow> fuzz_input \<Rightarrow> world \<Rightarrow> fuzz_state option" where
  "fuzz_setup env spawned pth input w =
     (let initial = ucast (in_initial input) mod MAX_SIZE + 1;
          policy = (case in_policy input of
            Policy_Manual \<Rightarrow> Manual | Policy_Always \<Rightarrow> Always
          | Policy_EveryBytes n \<Rightarrow> EveryBytes (ucast n) | Policy_EveryWrites n \<Rightarrow> EveryWrites (ucast n)
          | Policy_EveryMillis \<Rightarrow> EveryMillis 1);
          w0 = snd (fs_remove_file env pth w)
      in (case builder_create env spawned
             (builder_flush_policy policy (builder_size initial (builder_mode ReadWrite (builder_new pth)))) w0 of
            (Inl _, _) \<Rightarrow> None
          | (Inr (mm, _), w1) \<Rightarrow> Some (\<lparr>s_mm = mm, s_world = w1\<rparr>, replicate (unat initial) 0)))"

text \<open>After the sequence: flush, drop (the flusher is joined, the mapping released), read the file back.\<close>

definition fuzz_finish :: "env \<Rightarrow> (nat \<Rightarrow> bool) \<Rightarrow> path \<Rightarrow> sys \<Rightarrow> byte list \<Rightarrow> world option" where
  "fuzz_finish env ticks pth m model =
     Option.bind (expect_op (mmap_flush env m)) (\<lambda>(_, m1).
     Option.bind (fuzz_tick env (ticks 64) m1) (\<lambda>m2.
       let w = mapping_drop env (s_mapping m2) (s_world m2)
       in (case fs_read env pth w of
             (Inl _, _) \<Rightarrow> None
           | (Inr on_disk, w') \<Rightarrow> rust_assert (on_disk = model) (snd (fs_remove_file env pth w')))))"

definition fuzz_managed :: "env \<Rightarrow> nat \<Rightarrow> bool \<Rightarrow> (nat \<Rightarrow> bool) \<Rightarrow> path \<Rightarrow> fuzz_input \<Rightarrow> world \<Rightarrow> world option" where
  "fuzz_managed env sh spawned ticks pth input w =
     Option.bind (fuzz_setup env spawned pth input w) (\<lambda>(m, model).
     Option.bind (fuzz_loop env sh (in_fold input) ticks (take 64 (in_ops input)) m model) (\<lambda>(m', model').
       fuzz_finish env ticks pth m' model'))"

end
