(* ===== verification/Mirror.thy ===== *)
theory Mirror
  imports Granting
begin

text \<open>
  What a client with no view of the mapping relies on: the mapping shows a list of bytes, which reads return, writes
  splice and a resize cuts or extends. The programs around the library (the fuzz harnesses, the examples) are verified
  against this one relation.
\<close>

section \<open>The relation\<close>

text \<open>The mapping holds no view and nobody waits for it; it shows the bytes; the path still names its file; there are at most
  \<open>lim\<close> bytes.\<close>

definition mirrors :: "nat \<Rightarrow> env \<Rightarrow> path \<Rightarrow> sys \<Rightarrow> byte list \<Rightarrow> bool" where
  "mirrors lim env pth s model \<longleftrightarrow> session_ok env (session_start s) \<and> (\<exists>m. i_map (s_mm s) = Rw m)
     \<and> w_dir (s_world s) pth = Some (i_file (s_mm s)) \<and> s_bytes s = model \<and> length model \<le> lim"

abbreviation fits :: "u64 \<Rightarrow> u64 \<Rightarrow> byte list \<Rightarrow> bool" where
  "fits off len model \<equiv> len = 0 \<or> unat off + unat len \<le> length model"

lemma unat_ucast_up: "LENGTH('a) \<le> LENGTH('b) \<Longrightarrow> unat (ucast x :: 'b::len word) = unat (x :: 'a::len word)"
proof -
  assume "LENGTH('a) \<le> LENGTH('b)"
  then have "(2::nat) ^ LENGTH('a) \<le> 2 ^ LENGTH('b)" by (intro power_increasing) simp_all
  with unat_bound [of x] have "unat x < 2 ^ LENGTH('b)" by linarith
  then show ?thesis by (simp add: unsigned_ucast_eq unsigned_take_bit_eq take_bit_nat_eq_self)
qed

lemma session_start_idle:
  assumes "session_ok env (session_start s)"
  shows "sys_ok s" "write_free s" "read_free s" "atomics_fit s" "as_entries (vr_atomics (i_views (s_mm s))) = []"
proof -
  note S = session_okD(1-4) [OF assms]
  show ok: "sys_ok s" and "atomics_fit s" using S(1,2) by (simp_all add: session_start_def)
  show "write_free s" "read_free s" using S(3,4) by (simp_all add: session_start_def write_free_def read_free_def guards_def)
  have "dom (atomic_lookup (vr_atomics (i_views (s_mm s)))) = {}"
    using assms by (auto simp: session_ok_def session_start_def)
  with registry_no_entries sys_okD(4) [OF ok] show "as_entries (vr_atomics (i_views (s_mm s))) = []" by blast
qed

lemma set_sys_start [simp]:
  "set_sys s (session_start s0) = session_start s" "c_sys (session_start s) = s" "c_mut (session_start s) = None"
  "session_start s\<lparr>c_slices := []\<rparr> = session_start s" "session_start s\<lparr>c_iters := []\<rparr> = session_start s"
  "session_start s\<lparr>c_mut := None\<rparr> = session_start s" "c_slices (session_start s) = []" "c_iters (session_start s) = []" "c_atomics (session_start s) = []"
  by (simp_all add: session_start_def)

lemma mirrorsD:
  assumes "mirrors lim env pth s model"
  shows "sys_ok s" "write_free s" "read_free s" "atomics_fit s" "locked (i_map (s_mm s))" "s_bytes s = model"
    "unat (m_len (s_mapping s)) = length model" "m_len (s_mapping s) = of_nat (length model)"
    "mmap_len s = of_nat (length model)" "length model < 2 ^ 63" "model \<noteq> []" "length model \<le> lim"
    "unat (of_nat (length model) :: u64) = length model" "session_ok env (session_start s)"
    "as_entries (vr_atomics (i_views (s_mm s))) = []"
proof -
  have so: "session_ok env (session_start s)" and b: "s_bytes s = model" and l: "length model \<le> lim"
    using assms by (simp_all add: mirrors_def)
  obtain m where m: "i_map (s_mm s) = Rw m" using assms by (auto simp: mirrors_def)
  note I = session_start_idle [OF so]
  show "sys_ok s" "write_free s" "read_free s" "atomics_fit s" "as_entries (vr_atomics (i_views (s_mm s))) = []"
    by (rule I)+
  show "locked (i_map (s_mm s))" using m by simp
  show len: "unat (m_len (s_mapping s)) = length model" using sys_okD(5) [OF I(1)] b by simp
  then show w: "m_len (s_mapping s) = of_nat (length model)" by (simp flip: len)
  then show "mmap_len s = of_nat (length model)" using sys_okD(3) [OF I(1)] by (simp add: mmap_len_def)
  show "length model < 2 ^ 63" using sys_okD(6) [OF I(1)] len by simp
  show "unat (of_nat (length model) :: u64) = length model" using len w by simp
  show "model \<noteq> []" using rw_facts(3) [OF I(1) m] len m by (auto simp: unat_eq_zero)
  show "session_ok env (session_start s)" "s_bytes s = model" "length model \<le> lim" by (rule so b l)+
qed

text \<open>What an operation may change: not the path, the file or the mode.\<close>

definition same_entry :: "sys \<Rightarrow> sys \<Rightarrow> bool" where
  "same_entry s s' \<longleftrightarrow> w_dir (s_world s') = w_dir (s_world s) \<and> w_next (s_world s') = w_next (s_world s) \<and> i_file (s_mm s') = i_file (s_mm s)
     \<and> ((\<exists>m. i_map (s_mm s) = Rw m) \<longrightarrow> (\<exists>m. i_map (s_mm s') = Rw m))"

lemma same_entry_refl [simp]: "same_entry s s"
  by (simp add: same_entry_def)

lemma same_entry_trans: "same_entry s s' \<Longrightarrow> same_entry s' s'' \<Longrightarrow> same_entry s s''"
  by (simp add: same_entry_def)

lemma quiet_same_entry: "quiet_sys s s' \<Longrightarrow> same_entry s s'"
  by (simp add: quiet_sys_def same_files_def same_entry_def)

lemma store_same_entry: "same_entry s (store_at b d s)"
proof -
  have "w_dir (s_world (store_at b d s)) = w_dir (s_world s)" "w_next (s_world (store_at b d s)) = w_next (s_world s)"
    by (simp_all add: store_at_def mapping_store_def split: prod.splits mem_ref.splits)
  with store_at_map [of b d s] show ?thesis by (auto simp: same_entry_def)
qed

lemma mirrors_entry:
  assumes "mirrors lim env pth s model" "session_ok env (session_start s')" "same_entry s s'"
    and "s_bytes s' = model'" "length model' \<le> lim"
  shows "mirrors lim env pth s' model'"
  using assms by (simp add: mirrors_def same_entry_def)

lemma mirrors_quiet:
  assumes "mirrors lim env pth s model" "quiet_sys s s'"
  shows "mirrors lim env pth s' model"
  using session_quiet [OF mirrorsD(14) [OF assms(1)], of s'] assms(2) quiet_sys_bytes [OF assms(2)]
    mirrorsD(6,12) [OF assms(1)]
  by (intro mirrors_entry [OF assms(1) _ quiet_same_entry [OF assms(2)]]) simp_all

text \<open>A state with the same mapping in the same world, again without views.\<close>

lemma mirrors_same_map:
  assumes "mirrors lim env pth s model" "session_ok env (session_start s')"
    and "i_map (s_mm s') = i_map (s_mm s)" "s_world s' = s_world s"
  shows "mirrors lim env pth s' model"
proof -
  obtain m where m: "i_map (s_mm s) = Rw m" using assms(1) by (auto simp: mirrors_def)
  have "i_file (s_mm s') = i_file (s_mm s)"
    using rw_facts(1) [OF mirrorsD(1) [OF assms(1)] m] rw_facts(1) [OF session_start_idle(1) [OF assms(2)], of m] m assms(3)
    by simp
  then have "same_entry s s'" using assms(3,4) by (simp add: same_entry_def)
  then show ?thesis
    using mirrorsD(6,12) [OF assms(1)] assms(3,4) by (intro mirrors_entry [OF assms(1,2)]) simp_all
qed

section \<open>Reads\<close>

lemma view_register_free:
  assumes "registry_ok v" "as_entries (vr_atomics v) = []" "sh < SHARDS"
  shows "\<exists>reg v'. view_register env sh b e v = (Inr reg, v')"
proof (cases "e_atomic env")
  case True
  have "\<not> atomic_hit v b e" using assms(2) by (simp add: atomic_hit_def)
  from register_plain_succeeds [OF assms(1,3) this] True show ?thesis by (simp add: view_register_def)
next
  case False
  then show ?thesis by (simp add: view_register_def register_plain_untracked_def)
qed

text \<open>A slice of an idle mapping is granted for exactly the ranges inside it; dropping it leaves an idle mapping.\<close>

lemma idle_slice:
  assumes "session_ok env (session_start s)" "sh < SHARDS" "fits off len (s_bytes s)"
  shows "\<exists>v s'. as_slice env sh off len s = Some (Inr v, s') \<and> slice_bytes s' v = sub_slice (s_bytes s) (unat off) (unat off + unat len)
    \<and> session_ok env (session_start (drop_slice v s')) \<and> i_map (s_mm (drop_slice v s')) = i_map (s_mm s)
    \<and> s_world (drop_slice v s') = s_world s"
proof -
  note I = session_start_idle [OF assms(1)]
  have "\<exists>v s'. as_slice env sh off len s = Some (Inr v, s') \<and> slice_bytes s' v = sub_slice (s_bytes s) (unat off) (unat off + unat len)"
  proof (cases "len = 0")
    case True
    then show ?thesis by (simp add: as_slice_def op_return_def slice_bytes_def)
  next
    case False
    obtain reg v' where "view_register env sh (unat off) (unat off + unat len) (i_views (s_mm s)) = (Inr reg, v')"
      using view_register_free [OF sys_okD(4) [OF I(1)] I(5) assms(2)] by blast
    with False assms(3) I(3) sys_okD(5) [OF I(1)] show ?thesis
      by (cases "i_map (s_mm s)") (simp_all add: as_slice_eq into_view_def slice_bytes_def)
  qed
  then obtain v s' where a: "as_slice env sh off len s = Some (Inr v, s')"
    and b: "slice_bytes s' v = sub_slice (s_bytes s) (unat off) (unat off + unat len)" by blast
  let ?c = "session_start s'\<lparr>c_slices := [keep_slice v s']\<rparr>"
  have "session_step env (session_start s) ?c"
    using session_step.slice_taken [of env sh off len "session_start s" v s'] a assms(2) by simp
  from session_step_ok [OF this assms(1)] have "session_ok env ?c" .
  from slice_dropped_session [OF this, of "[]"] have "session_ok env (session_start (drop_slice v s'))"
    by (simp add: keep_slice_def)
  moreover have "i_map (s_mm (drop_slice v s')) = i_map (s_mm s)" "s_world (drop_slice v s') = s_world s"
    using as_slice_added(1) [OF I(1) assms(2) a] by (simp_all add: view_added_def drop_slice_def split: mapped_slice.splits)
  ultimately show ?thesis using a b by blast
qed

lemma slice_granted:
  assumes "mirrors lim env pth s model" "sh < SHARDS" "fits off len model"
  shows "\<exists>v s'. as_slice env sh off len s = Some (Inr v, s') \<and> slice_bytes s' v = sub_slice model (unat off) (unat off + unat len)
    \<and> mirrors lim env pth (drop_slice v s') model"
  using idle_slice [where env = env and s = s and off = off and len = len] mirrorsD(6,14) [OF assms(1)] assms(2,3) mirrors_same_map [OF assms(1)] by blast

lemma slice_refused:
  assumes "mirrors lim env pth s model" "\<not> fits off len model"
  shows "as_slice env sh off len s = Some (Inl (OutOfBounds off len (of_nat (length model))), s)"
  using assms(2) mirrorsD(3,7,8) [OF assms(1)] by (simp add: as_slice_eq)

section \<open>Writes\<close>

lemma wrote_sim:
  assumes "mirrors lim env pth s model" "wrote b d s s'" "same_entry s s'" "b + length d \<le> length model"
  shows "mirrors lim env pth s' (splice_at model b d)"
proof -
  note F = mirrorsD [OF assms(1)]
  have "session_ok env (session_start s')"
    by (rule session_start_ok) (use assms(2) F(2,15) in \<open>simp_all add: wrote_def write_free_def\<close>)
  then show ?thesis
    using assms(2,4) F(6,12) by (intro mirrors_entry [OF assms(1) _ assms(3)]) (simp_all add: wrote_def length_splice_at)
qed

lemma update_within_mirrors:
  assumes "mirrors lim env pth s model" "length d < 2 ^ 63" "unat off + max (unat span) (length d) \<le> length model"
  shows "\<exists>r s'. update_region_within env off d span s = Some (r, s') \<and> mirrors lim env pth s' (splice_at model (unat off) d)
    \<and> same_entry s s' \<and> (\<forall>glim. granting glim env \<longrightarrow> r = Inr ())"
proof -
  note F = mirrorsD [OF assms(1)]
  have fit: "unat off + max (unat span) (length d) \<le> unat (m_len (s_mapping s))" using assms(3) F(7) by simp
  note U = update_region_within_ok [OF F(1,5,2) assms(2) fit, of env]
  obtain r s' where a: "apply_flush_policy env (of_nat (length d)) (store_at (unat off) d s) = Some (r, s')"
    using apply_flush_policy_returns [of "store_at (unat off) d s" env] F(2) by fastforce
  note q = apply_flush_policy_quiet [OF a]
  have e: "same_entry s s'" by (rule same_entry_trans [OF store_same_entry quiet_same_entry [OF q]])
  have "wrote (unat off) d s s'" by (rule store_at_wrote [OF F(1,5) _ q]) (use fit in simp)
  from wrote_sim [OF assms(1) this e] assms(3) have "mirrors lim env pth s' (splice_at model (unat off) d)" by simp
  moreover have "r = Inr ()" if "granting glim env" for glim
    using granted_update_within [OF that F(1,5,2) assms(2) fit] U a by auto
  ultimately show ?thesis using U a e by auto
qed

lemma update_within_sim:
  assumes "granting glim env" "mirrors lim env pth s model" "length d < 2 ^ 63"
    and "unat off + max (unat span) (length d) \<le> length model"
  shows "\<exists>s'. update_region_within env off d span s = Some (Inr (), s') \<and> mirrors lim env pth s' (splice_at model (unat off) d)"
  using update_within_mirrors [OF assms(2-4)] assms(1) by blast

lemma update_mirrors:
  assumes "mirrors lim env pth s model" "length d < 2 ^ 63" "unat off + length d \<le> length model"
  shows "\<exists>r s'. update_region env off d s = Some (r, s') \<and> mirrors lim env pth s' (splice_at model (unat off) d)
    \<and> same_entry s s' \<and> (\<forall>glim. granting glim env \<longrightarrow> r = Inr ())"
  using update_within_mirrors [OF assms(1,2), of off "of_nat (length d)"] assms
  by (cases "d = []") (auto simp: update_region_def unat_of_nat)

lemma flush_mirrors:
  assumes "mirrors lim env pth s model"
  shows "\<exists>r s'. mmap_flush env s = Some (r, s') \<and> mirrors lim env pth s' model \<and> same_entry s s'
    \<and> (\<forall>glim. granting glim env \<longrightarrow> r = Inr ())"
proof -
  note F = mirrorsD [OF assms]
  obtain r s' where f: "mmap_flush env s = Some (r, s')"
    using F(3) by (cases "i_map (s_mm s)"; cases rule: flush_mapped_cases [of env s]) (auto simp: mmap_flush_def map_read_def)
  note q = mmap_flush_quiet [OF f]
  from granted_mmap_flush [OF _ F(1,3)] f mirrors_quiet [OF assms q] quiet_same_entry [OF q] show ?thesis by fastforce
qed

section \<open>Resizing\<close>

definition same_names :: "world \<Rightarrow> world \<Rightarrow> bool" where
  "same_names w w' \<longleftrightarrow> w_dir w' = w_dir w \<and> w_next w' = w_next w"

lemma same_names_refl [simp]: "same_names w w"
  by (simp add: same_names_def)

lemma same_names_trans: "same_names w w' \<Longrightarrow> same_names w' w'' \<Longrightarrow> same_names w w''"
  by (simp add: same_names_def)

lemma files_names: "same_files w w' \<Longrightarrow> same_names w w'"
  by (simp add: same_files_def same_names_def)

lemma set_len_names: "same_names w (snd (fs_set_len env f n w))"
  by (simp add: same_names_def fs_set_len_def bind_se_def os_call_def split: sum.splits)

lemma world_entry: "same_names (s_world s) w \<Longrightarrow> same_entry s (s\<lparr>s_world := w\<rparr>)"
  by (simp add: same_names_def same_entry_def)

lemma replace_map_entry: "same_names (s_world s) w \<Longrightarrow> same_entry s (replace_map env m (s\<lparr>s_world := w\<rparr>))"
  using mapping_drop_files [of w env "s_mapping s"] by (auto simp: same_entry_def replace_map_def same_files_def same_names_def)

lemma resize_entry:
  assumes "resize env n s = Some (r, s')" "e_target env \<noteq> Windows"
  shows "same_entry s s'"
proof (cases "s' = s")
  case False
  let ?f = "i_file (s_mm s)"
  have cached: "same_entry s (store_cached_len t)" if "same_entry s t" for t
    using that by (simp add: same_entry_def)
  have set_len: "same_names w w'" if "fs_set_len env ?f k w = (q, w')" for k w q w'
    using set_len_names [of w env ?f k] that by simp
  have mapped: "same_names w w'" if "map_file_rw env ?f k h w = (q, w')" for k h w q w'
    by (rule files_names [OF map_file_rw_files [OF that]])
  note names = same_names_trans files_names [OF mapping_drop_files] set_len_names
  have "same_entry s t" if "grow_locked env c n k s = Some (q, t)" for c k q t
    using that
    by (auto simp: grow_locked_def split: prod.splits sum.splits dest!: set_len mapped intro!: replace_map_entry world_entry
        intro: names)
  moreover have "same_entry s t" if "shrink_locked_unix env n k s = Some (q, t)" for k q t
    using that
    by (auto simp: shrink_locked_unix_def split: prod.splits sum.splits dest!: set_len mapped intro!: replace_map_entry world_entry
        intro: names)
  ultimately show ?thesis
    using assms False
    by (auto simp: resize_def Let_def shrink_locked_def split: if_splits option.splits map_variant.splits intro!: cached)
qed simp

lemma resized_sim:
  assumes "mirrors lim env pth s model" "resize env n s = Some (Inr (), s')" "e_target env \<noteq> Windows"
  shows "session_ok env (session_start s')" "same_entry s s'" "s_bytes s' = resize_bytes (unat n) model"
  using resize_session [of env "session_start s" n "Inr ()" s'] assms resize_entry [OF assms(2,3)] mirrorsD(1,6,14) [OF assms(1)]
    resize_ok [OF mirrorsD(1) [OF assms(1)] assms(2)]
  by (simp_all add: resized_def)

lemma resize_returns:
  assumes "write_free s" "e_target env \<noteq> Windows"
  shows "resize env n s \<noteq> None"
proof -
  have "grow_locked env c n k s \<noteq> None" for c k by (simp add: grow_locked_def split: prod.splits sum.splits)
  moreover have "shrink_locked_unix env n k s \<noteq> None" for k
    by (simp add: shrink_locked_unix_def split: prod.splits sum.splits)
  ultimately show ?thesis
    using assms by (simp add: resize_def Let_def shrink_locked_def split: option.splits map_variant.splits)
qed

text \<open>A resize within the limit.\<close>

lemma resize_mirrors:
  assumes "mirrors lim env pth s model" "e_target env \<noteq> Windows" "n \<noteq> 0" "unat n \<le> lim" "\<not> n > MAX_MMAP_SIZE"
  shows "\<exists>r s'. resize env n s = Some (r, s') \<and> same_entry s s'
    \<and> (r = Inr () \<longrightarrow> mirrors lim env pth s' (resize_bytes (unat n) model)) \<and> (granting lim env \<longrightarrow> r = Inr ())"
proof -
  note F = mirrorsD [OF assms(1)]
  obtain m where m: "i_map (s_mm s) = Rw m" using assms(1) by (auto simp: mirrors_def)
  obtain r s' where r: "resize env n s = Some (r, s')"
    using resize_returns [OF F(2) assms(2), of n] by (metis option.exhaust surj_pair)
  note e = resize_entry [OF r assms(2)]
  have "mirrors lim env pth s' (resize_bytes (unat n) model)" if "r = Inr ()"
    using resized_sim [OF assms(1) _ assms(2)] r that mirrors_entry [OF assms(1) _ e] assms(4) by simp
  moreover have "r = Inr ()" if "granting lim env"
    using granted_resize [OF that F(1) m F(2) assms(3,5,4)] r by auto
  ultimately show ?thesis using r e by blast
qed

section \<open>Files\<close>

lemma world_ok_entry:
  assumes "world_ok (s_world s)" "same_entry s s'" "sys_ok s'"
  shows "world_ok (s_world s')"
  using assms sys_ok_lengths [OF assms(3)] by (simp add: world_ok_def same_entry_def)

lemma removed_dir: "same_files w w' \<or> w_data w' = w_data w \<and> w_next w' = w_next w \<and> w_dir w' = (w_dir w)(pth := None)"
  if "fs_remove_file env pth w = (r, w')"
  using that by (auto simp: fs_remove_file_def bind_se_def os_call_def same_files_def split: sum.splits option.splits)

lemma world_ok_removed: "world_ok w \<Longrightarrow> fs_remove_file env pth w = (r, w') \<Longrightarrow> world_ok w'"
  using removed_dir [of env pth w r w'] by (auto simp: world_ok_def same_files_def split: if_splits)

lemma finish_rw_views: "finish_rw env sp b f len w = (Inr (mm, acc), w') \<Longrightarrow> i_views mm = registry_new"
  by (cases "b_policy b") (auto simp: finish_rw_def bind_se_Inr Let_def inner_new_def start_time_based_flusher_def)

text \<open>A mapping that the builder created.\<close>

lemma builder_created:
  assumes "builder_create env spawned b w = (Inr (mm, acc), w')" "world_ok w" "b_mode b = Some ReadWrite" "b_size b = Some n"
    and "unat n \<le> lim"
  shows "mirrors lim env (b_path b) \<lparr>s_mm = mm, s_world = w'\<rparr> (replicate (unat n) 0)" "world_ok w'"
proof -
  let ?s = "\<lparr>s_mm = mm, s_world = w'\<rparr>"
  obtain f w1 w2 where n: "n \<noteq> 0" "\<not> n > MAX_MMAP_SIZE" and o: "fs_open env (b_path b) opts_truncate w = (Inr f, w1)"
    and sl: "fs_set_len env f n w1 = (Inr (), w2)" and fin: "finish_rw env spawned b f n w2 = (Inr (mm, acc), w')"
    using assms(1,3,4) by (auto simp: builder_create_def validated_create_size_def bind_se_Inr split: if_splits)
  note O = fs_open_truncating(2) [OF o _ _ _ refl]
  note W = world_ok_create [OF assms(2) o _ sl n]
  have data: "w_data w2 f = replicate (unat n) 0" and dir: "w_dir w2 (b_path b) = Some f"
    using sl O by (auto simp: fs_set_len_Inr resize_bytes_def)
  note E = opened_finish [OF W(1) fin W(2) [symmetric] n(1)]
  have op: "sys_ok ?s" "write_free ?s" "s_bytes ?s = w_data w' f" using E(1,4) by (simp_all add: opened_ok_def)
  have "i_views mm = registry_new" by (rule finish_rw_views [OF fin])
  then have "session_ok env (session_start ?s)"
    using op by (intro session_start_ok) (simp_all add: write_free_def registry_new_def atomic_empty_def)
  moreover have "w_dir w' (b_path b) = Some f" "w_data w' f = replicate (unat n) 0"
    using E(2) dir data by (simp_all add: same_files_def)
  ultimately show "mirrors lim env (b_path b) ?s (replicate (unat n) 0)"
    using op(3) E(3,4) assms(5) by (auto simp: mirrors_def)
  show "world_ok w'" using E(1) by (simp add: opened_ok_def)
qed

lemma granted_builder_create:
  assumes "granting lim env" "b_mode b = Some ReadWrite" "b_size b = Some n" "n \<noteq> 0" "\<not> n > MAX_MMAP_SIZE" "unat n \<le> lim"
  shows "\<exists>mm acc w'. builder_create env spawned b w = (Inr (mm, acc), w')"
proof -
  obtain f w1 where o: "fs_open env (b_path b) opts_truncate w = (Inr f, w1)"
    using granted_open [OF assms(1), of opts_truncate w "b_path b"] by auto
  obtain w2 where sl: "fs_set_len env f n w1 = (Inr (), w2)" using granted_set_len [OF assms(1,6)] by blast
  then have "length (w_data w2 f) = unat n" by (simp add: fs_set_len_Inr)
  moreover have "unat n < 2 ^ 63" by (rule MAX_MMAP_SIZE_bound [OF assms(5)])
  ultimately obtain m w3 where "map_file_rw env f n (builder_huge_pages env b) w2 = (Inr m, w3)"
    using granted_map_rw [OF assms(1), of w2 f n "builder_huge_pages env b"] assms(6) by auto
  then obtain mm acc where "finish_rw env spawned b f n w2 = (Inr (mm, acc), w3)"
    by (auto simp: finish_rw_def io_try_def map_err_se_def bind_se_def Let_def)
  with o sl assms(2-5) show ?thesis
    by (simp add: builder_create_def validated_create_size_def io_try_def map_err_se_def bind_se_def)
qed

text \<open>A mapping that was just created: idle, zeroed, of the requested length.\<close>

definition fresh_sys :: "u64 \<Rightarrow> sys \<Rightarrow> bool" where
  "fresh_sys n s \<longleftrightarrow> sys_ok s \<and> write_free s \<and> atomics_fit s \<and> (\<exists>m. i_map (s_mm s) = Rw m) \<and> m_len (s_mapping s) = n
     \<and> s_bytes s = replicate (unat n) 0 \<and> i_policy (s_mm s) = Never \<and> i_views (s_mm s) = registry_new"

lemma created_fresh:
  assumes "world_ok w" "create_rw env pth n w = (Inr mm, w')"
  shows "fresh_sys n \<lparr>s_mm = mm, s_world = w'\<rparr>"
proof -
  let ?s = "\<lparr>s_mm = mm, s_world = w'\<rparr>"
  have op: "opened_ok ?s" using establishes_create_rw [of env pth n] assms by (auto simp: establishes_def)
  from assms(2) obtain f w1 w2 m where o: "fs_open env pth opts_truncate w = (Inr f, w1)"
    and sl: "fs_set_len env f n w1 = (Inr (), w2)" and m: "rawmmapmut_map_mut env f w2 = (Inr m, w')"
    and mm: "mm = inner_new pth f ReadWrite n (Rw m) Never False"
    by (rule create_rw_created)
  have "w_data w1 f = []" using fs_open_truncating(2) [OF o _ _ _ refl] by simp
  then have "w_data w2 f = replicate (unat n) 0" using sl by (auto simp: fs_set_len_Inr resize_bytes_def)
  moreover have "w_data w' = w_data w2"
    using m map_impl_data(1) by (auto simp: rawmmapmut_map_mut_def raw_map_mut_def)
  ultimately have b: "s_bytes ?s = replicate (unat n) 0" using op mm by (simp add: opened_ok_def inner_new_def)
  have "m_len (s_mapping ?s) = n"
    using sys_okD(3) [of ?s] op mm by (simp add: opened_ok_def inner_new_def)
  with op b mm show ?thesis by (auto simp: fresh_sys_def opened_ok_def inner_new_def)
qed

lemma freshD:
  assumes "fresh_sys n s"
  shows "sys_ok s" "write_free s" "read_free s" "atomics_fit s" "locked (i_map (s_mm s))" "m_len (s_mapping s) = n"
    "s_bytes s = replicate (unat n) 0" "i_policy (s_mm s) = Never" "i_views (s_mm s) = registry_new" "unat n < 2 ^ 63"
  using assms sys_okD(6) [of s] by (auto simp: fresh_sys_def write_free_def read_free_def)

end
