(* ===== verification/Fuzz_Managed_Props.thy ===== *)
theory Fuzz_Managed_Props
  imports Fuzz_Managed Mirror
begin

text \<open>
  The harness never fails: the mapping and the vector are related by a simulation that the set-up establishes, every
  operation keeps, and from which every assertion follows.
\<close>

section \<open>The simulation\<close>

text \<open>The mapping shows the vector.\<close>

abbreviation fuzz_sim :: "env \<Rightarrow> path \<Rightarrow> sys \<Rightarrow> byte list \<Rightarrow> bool" where
  "fuzz_sim \<equiv> mirrors (4 * unat MAX_SIZE)"

definition passes :: "env \<Rightarrow> path \<Rightarrow> fuzz_state option \<Rightarrow> bool" where
  "passes env pth c \<longleftrightarrow> (\<exists>m model. c = Some (m, model) \<and> fuzz_sim env pth m model)"

lemma unat_MAX_SIZE: "unat MAX_SIZE = 196672"
  by (simp add: MAX_SIZE_def)

section \<open>Assertions\<close>

lemma fuzz_in_bounds_iff:
  "unat (of_nat (length model) :: u64) = length model \<Longrightarrow> fuzz_in_bounds off len (length model) \<longleftrightarrow> fits off len model"
  using ensure_in_bounds_iff [of off len "of_nat (length model)"]
  by (auto simp: fuzz_in_bounds_def ensure_in_bounds_def split: option.splits if_splits)

lemma check_result_simps:
  assumes "unat (of_nat (length model) :: u64) = length model"
  shows "fits off len model \<Longrightarrow> check_result (Inr v) off len (length model) = Some (Some v)"
    and "\<not> fits off len model \<Longrightarrow>
      check_result (Inl (OutOfBounds off len (of_nat (length model)))) off len (length model) = Some None"
  using fuzz_in_bounds_iff [OF assms, of off len] by (simp_all add: check_result_def check_oob_def rust_assert_def)

lemma passes_Some [simp]: "passes env pth (Some (m, model)) = fuzz_sim env pth m model"
  by (simp add: passes_def)

text \<open>An operation that leaves the bytes alone: it succeeds on exactly the ranges inside the mapping.\<close>

definition answers :: "u64 \<Rightarrow> u64 \<Rightarrow> byte list \<Rightarrow> ((mmap_io_error + 'a) \<times> sys) option \<Rightarrow> sys \<Rightarrow> bool" where
  "answers off len model c s \<longleftrightarrow>
     (\<exists>v s'. c = Some (if fits off len model then Inr v else Inl (OutOfBounds off len (of_nat (length model))), s') \<and> quiet_sys s s')"

lemma answers_passes:
  assumes "fuzz_sim env pth s model" "answers off len model c s"
  shows "passes env pth (Option.bind c (\<lambda>(r, m'). Option.bind (check_result r off len (length model)) (\<lambda>_. Some (m', model))))"
  using assms(2) mirrors_quiet [OF assms(1)] mirrorsD(13) [OF assms(1)]
  by (cases "fits off len model") (auto simp: answers_def check_result_simps)

lemma answersI:
  assumes "len = 0 \<Longrightarrow> c = Some (Inr v, s)"
    and "len \<noteq> 0 \<Longrightarrow> \<not> unat off + unat len \<le> length model \<Longrightarrow> c = Some (Inl (OutOfBounds off len (of_nat (length model))), s)"
    and "len \<noteq> 0 \<Longrightarrow> unat off + unat len \<le> length model \<Longrightarrow> \<exists>v s'. c = Some (Inr v, s') \<and> quiet_sys s s'"
  shows "answers off len model c s"
  using assms by (cases "len = 0"; cases "unat off + unat len \<le> length model") (auto simp: answers_def)

lemma granted_io:
  assumes "\<exists>w'. m (s_world s) = (Inr v, w')" "quiet m"
  shows "\<exists>v s'. op_io g m s = Some (Inr v, s') \<and> quiet_sys s s'"
proof -
  obtain w' where "op_io g m s = Some (Inr v, s\<lparr>s_world := w'\<rparr>)" using assms(1) by (auto simp: op_io_def)
  with op_io_quiet [OF this assms(2)] show ?thesis by blast
qed

lemma flush_range_answers:
  assumes "granting lim env" "fuzz_sim env pth s model"
  shows "answers off len model (flush_range env off len s) s"
proof (rule answersI)
  note F = mirrorsD [OF assms(2)]
  show "len = 0 \<Longrightarrow> flush_range env off len s = Some (Inr (), s)"
    by (simp add: flush_range_def op_return_def)
  show "len \<noteq> 0 \<Longrightarrow> \<not> unat off + unat len \<le> length model \<Longrightarrow>
      flush_range env off len s = Some (Inl (OutOfBounds off len (of_nat (length model))), s)"
    using F(3,8,13) by (simp add: flush_range_def map_read_eq op_bind_def op_lift_def slice_range64_eq)
  assume a: "len \<noteq> 0" "unat off + unat len \<le> length model"
  obtain m where m: "i_map (s_mm s) = Rw m" using assms(2) by (auto simp: mirrors_def)
  have "\<exists>s'. flush_range env off len s = Some (Inr (), s')"
    by (rule granted_flush_range [OF assms(1) F(1) m F(3)]) (use a F(7) m in simp)
  then show "\<exists>v s'. flush_range env off len s = Some (Inr v, s') \<and> quiet_sys s s'" using flush_range_quiet by blast
qed

lemma granted_advise_span: "granting lim env \<Longrightarrow> \<exists>w'. advise_span env a n adv w = (Inr (), w')"
  using granted_call_unit [of lim env] by (auto simp: granting_def advise_span_def os_dispatch os_select_def unix_advise_def)

lemma advise_answers:
  assumes "granting lim env" "fuzz_sim env pth s model"
  shows "answers off len model (advise env off len adv s) s"
proof (rule answersI)
  note F = mirrorsD [OF assms(2)]
  have free: "advise_free adv s" using F(2,3) by (simp add: advise_free_def)
  show "len = 0 \<Longrightarrow> advise env off len adv s = Some (Inr (), s)" by (simp add: advise_eq)
  show "len \<noteq> 0 \<Longrightarrow> \<not> unat off + unat len \<le> length model \<Longrightarrow>
      advise env off len adv s = Some (Inl (OutOfBounds off len (of_nat (length model))), s)"
    using F(8,13) free by (simp add: advise_eq advise_mapped_def op_bind_def op_lift_def slice_range64_eq)
  assume "len \<noteq> 0" "unat off + unat len \<le> length model"
  then show "\<exists>v s'. advise env off len adv s = Some (Inr v, s') \<and> quiet_sys s s'"
    using F(7) free granted_io [OF granted_advise_span [OF assms(1)] quiet_spans(1)]
    by (simp add: advise_eq advise_mapped_def op_bind_def op_lift_def slice_range64_eq Let_def)
qed

lemma touch_answers:
  assumes "fuzz_sim env pth s model"
  shows "answers off len model (touch_pages_range env off len s) s"
proof (rule answersI)
  note F = mirrorsD [OF assms]
  show "len = 0 \<Longrightarrow> touch_pages_range env off len s = Some (Inr [], s)"
    by (simp add: touch_pages_range_def op_return_def)
  show "len \<noteq> 0 \<Longrightarrow> \<not> unat off + unat len \<le> length model \<Longrightarrow>
      touch_pages_range env off len s = Some (Inl (OutOfBounds off len (of_nat (length model))), s)"
    using F(3,8,13) by (simp add: touch_pages_range_def map_read_eq op_bind_def op_lift_def slice_range64_eq)
  assume "len \<noteq> 0" "unat off + unat len \<le> length model"
  then show "\<exists>v s'. touch_pages_range env off len s = Some (Inr v, s') \<and> quiet_sys s s'"
    using F(3,7) by (simp add: touch_pages_range_def map_read_eq op_bind_def op_lift_def slice_range64_eq Let_def)
qed

lemma prefetch_answers:
  assumes "granting lim env" "fuzz_sim env pth s model"
  shows "answers off len model (prefetch_range env off len s) s"
proof (rule answersI)
  note F = mirrorsD [OF assms(2)]
  show "len = 0 \<Longrightarrow> prefetch_range env off len s = Some (Inr (), s)"
    by (simp add: prefetch_range_def op_return_def)
  show "len \<noteq> 0 \<Longrightarrow> \<not> unat off + unat len \<le> length model \<Longrightarrow>
      prefetch_range env off len s = Some (Inl (OutOfBounds off len (of_nat (length model))), s)"
    using F(9,13) by (simp add: prefetch_range_def current_len_def op_bind_def op_lift_def ensure_in_bounds_iff)
  assume a: "len \<noteq> 0" "unat off + unat len \<le> length model"
  have "e_target env = Linux" using assms(1) by (simp add: granting_def)
  moreover have "quiet (os_call_unit env c)" for c
    by (auto simp: os_call_unit_def intro!: quiet_intro)
  ultimately show "\<exists>v s'. prefetch_range env off len s = Some (Inr v, s') \<and> quiet_sys s s'"
    using a F(9,13) granted_io [OF granted_call_unit [OF assms(1)]]
    by (simp add: prefetch_range_def current_len_def op_bind_def op_lift_def ensure_in_bounds_iff)
qed

lemma quiet_arms_pass:
  assumes "granting lim env" "fuzz_sim env pth s model"
  shows "passes env pth (fuzz_flush_range env fl off len s model)" "passes env pth (fuzz_advise env fl off len adv s model)"
    "passes env pth (fuzz_touch env fl off len s model)" "passes env pth (fuzz_prefetch env fl off len s model)"
  unfolding fuzz_flush_range_def fuzz_advise_def fuzz_touch_def fuzz_prefetch_def Let_def
  using flush_range_answers [OF assms] advise_answers [OF assms] touch_answers [OF assms(2)] prefetch_answers [OF assms]
  by (intro answers_passes [OF assms(2)]; blast)+

section \<open>Reads\<close>

lemma read_into_passes:
  assumes "fuzz_sim env pth s model"
  shows "passes env pth (fuzz_read_into env fl off0 len s model)"
proof -
  note F = mirrorsD [OF assms]
  let ?off = "fuzz_fold fl (length model) off0" and ?len = "ucast len :: u64"
  have u: "unat ?len = unat len" by (simp add: unat_ucast_up)
  show ?thesis
  proof (cases "len = 0")
    case True
    then show ?thesis using assms F(13) by (simp add: fuzz_read_into_def read_into_def op_return_def check_result_simps)
  next
    case False
    let ?buf = "replicate (unat len) 0 :: byte list"
    have l: "?len \<noteq> 0" using False u by (metis unat_eq_zero)
    have ne: "?buf \<noteq> []" "length ?buf < 2 ^ 63" using False unat_bound [of len] by (auto simp: unat_eq_zero)
    have w: "(of_nat (length ?buf) :: u64) = ?len" by (simp flip: u)
    note R = read_into_eq [OF F(1,4) ne(2,1), of env ?off]
    show ?thesis
    proof (cases "unat ?off + unat len \<le> length model")
      case True
      then have "fits ?off ?len model" using u by simp
      with True False R F(3,6,7,13) assms show ?thesis
        by (simp add: fuzz_read_into_def Let_def check_result_simps model_range_def rust_assert_def length_slice)
    next
      case c: False
      then have "\<not> fits ?off ?len model" using u l by simp
      moreover from c have "read_into env ?off ?buf s = Some (Inl (OutOfBounds ?off ?len (of_nat (length model))), s)"
        using R F(3,7,8) w by simp
      ultimately show ?thesis using F(13) assms by (simp add: fuzz_read_into_def Let_def check_result_simps)
    qed
  qed
qed

lemma model_range_fits:
  assumes "fits off len model" "len \<noteq> 0" "length model < 2 ^ 63"
  shows "unat (off + len) = unat off + unat len"
    "model_range (unat off) (unat (off + len)) model = Some (sub_slice model (unat off) (unat off + unat len))"
proof -
  show u: "unat (off + len) = unat off + unat len" using assms by (intro unat_add_exact) simp
  show "model_range (unat off) (unat (off + len)) model = Some (sub_slice model (unat off) (unat off + unat len))"
    unfolding u using assms by (simp add: model_range_def rust_assert_def)
qed

lemma as_slice_passes:
  assumes "fuzz_sim env pth s model" "sh < SHARDS"
  shows "passes env pth (fuzz_as_slice env sh fl off0 len0 s model)"
proof -
  note F = mirrorsD [OF assms(1)]
  let ?off = "fuzz_fold fl (length model) off0" and ?len = "fuzz_fold fl (length model) len0"
  show ?thesis
  proof (cases "fits ?off ?len model")
    case True
    from slice_granted [OF assms True, of ] obtain v s' where a: "as_slice env sh ?off ?len s = Some (Inr v, s')"
      and b: "slice_bytes s' v = sub_slice model (unat ?off) (unat ?off + unat ?len)"
      and sim: "fuzz_sim env pth (drop_slice v s') model" by blast
    have "of_nat (slice_len s' v) = ?len" using True by (auto simp: slice_len_def b length_slice)
    with True a b sim F(10,13) model_range_fits [OF True] show ?thesis
      by (simp add: fuzz_as_slice_def Let_def check_result_simps rust_assert_def)
  next
    case False
    with slice_refused [OF assms(1) False] F(13) assms(1) show ?thesis
      by (simp add: fuzz_as_slice_def Let_def check_result_simps)
  qed
qed

lemma segment_new_eq:
  assumes "fuzz_sim env pth s model"
  shows "segment_new off len s = (if fits off len model then Inr \<lparr>seg_offset = off, seg_len = len\<rparr>
      else Inl (OutOfBounds off len (of_nat (length model))))"
    and "segment_mut_new off len s = segment_new off len s"
  using mirrorsD(9,13) [OF assms]
  by (auto simp: segment_new_def segment_mut_new_def validate_segment_def slice_range64_eq)

lemma segment_read_passes:
  assumes "fuzz_sim env pth s model" "sh < SHARDS"
  shows "passes env pth (fuzz_segment_read env sh fl off0 len0 s model)"
proof -
  note F = mirrorsD [OF assms(1)]
  let ?off = "fuzz_fold fl (length model) off0" and ?len = "fuzz_fold fl (length model) len0"
  show ?thesis
  proof (cases "fits ?off ?len model")
    case True
    from slice_granted [OF assms True] obtain v s' where a: "as_slice env sh ?off ?len s = Some (Inr v, s')"
      and b: "slice_bytes s' v = sub_slice model (unat ?off) (unat ?off + unat ?len)"
      and sim: "fuzz_sim env pth (drop_slice v s') model" by blast
    with True F(10,13) model_range_fits [OF True] segment_new_eq(1) [OF assms(1)] show ?thesis
      by (simp add: fuzz_segment_read_def Let_def check_result_simps rust_assert_def expect_op_def segment_as_slice_def)
  next
    case False
    with segment_new_eq(1) [OF assms(1)] F(13) assms(1) show ?thesis
      by (simp add: fuzz_segment_read_def Let_def check_result_simps)
  qed
qed

lemma whole_passes:
  assumes "fuzz_sim env pth s model" "sh < SHARDS"
  shows "passes env pth (fuzz_whole env sh s model)"
proof -
  note F = mirrorsD [OF assms(1)]
  have "fits 0 (of_nat (length model)) model" using F(13) by simp
  from slice_granted [OF assms this] obtain v s' where "as_slice env sh 0 (of_nat (length model)) s = Some (Inr v, s')"
    "slice_bytes s' v = model" "fuzz_sim env pth (drop_slice v s') model"
    using F(13) by auto
  with F(9) show ?thesis by (simp add: fuzz_whole_def expect_op_def rust_assert_def)
qed

lemma flush_passes:
  assumes "granting lim env" "fuzz_sim env pth s model"
  shows "\<exists>s'. mmap_flush env s = Some (Inr (), s') \<and> fuzz_sim env pth s' model"
    and "passes env pth (fuzz_flush env s model)"
proof -
  note F = mirrorsD [OF assms(2)]
  obtain m where m: "i_map (s_mm s) = Rw m" using assms(2) by (auto simp: mirrors_def)
  obtain s' where f: "mmap_flush env s = Some (Inr (), s')" using granted_mmap_flush [OF assms(1) F(1,3)] by blast
  have sim: "fuzz_sim env pth s' model" by (rule mirrors_quiet [OF assms(2) mmap_flush_quiet [OF f]])
  with f show "\<exists>s'. mmap_flush env s = Some (Inr (), s') \<and> fuzz_sim env pth s' model" by blast
  have "flush_mapped env s = Some (Inr (), s')" using f m F(3) by (simp add: mmap_flush_def map_read_eq)
  then have "pending_bytes s' = 0" using flush_mapped_Inr by (auto simp: pending_bytes_def)
  with f sim show "passes env pth (fuzz_flush env s model)"
    by (simp add: fuzz_flush_def expect_op_def rust_assert_def)
qed

lemma tick_keeps:
  assumes "granting lim env" "fuzz_sim env pth s model"
  shows "\<exists>s'. fuzz_tick env now s = Some s' \<and> fuzz_sim env pth s' model"
  using flush_passes(1) [OF assms] assms(2) by (auto simp: fuzz_tick_def flusher_callback_def)

lemma cursor_seek_same:
  assumes "unat (of_nat (length model) :: u64) = length model" "mmap_len s = of_nat (length model)"
    and "sk = Seek_End d \<or> sk = Seek_Current d" "\<bar>d\<bar> < 2 ^ 64" "reader_seek sk mmap_reader s = (sr, r)" "cursor_seek sk model 0 = (sc, c)"
  shows "map_err io_kind sr = sc" "r_pos r = c"
proof -
  have "\<exists>base. sk = Seek_End d \<and> base = mmap_len s \<or> sk = Seek_Current d \<and> base = r_pos mmap_reader" using assms(3) by blast
  then obtain base where b: "sk = Seek_End d \<and> base = mmap_len s \<or> sk = Seek_Current d \<and> base = r_pos mmap_reader" ..
  have "map_err io_kind sr = sc \<and> r_pos r = c"
    using reader_seek_exact [OF b assms(4)] assms(2,5,6) b
    by (auto simp: cursor_seek_def checked_add_signed_def Let_def mmap_reader_def io_new_def split: if_splits)
  then show "map_err io_kind sr = sc" "r_pos r = c" by simp_all
qed

lemma reader_passes:
  assumes "fuzz_sim env pth s model"
  shows "passes env pth (fuzz_reader_seek_read env p from_end len s model)"
proof -
  note F = mirrorsD [OF assms]
  let ?sk = "if from_end then Seek_End (sint p) else Seek_Current (sint p)" and ?buf = "replicate (unat len) 0 :: byte list"
  have rd: "readable s" using F(1,3,4) by (simp add: readable_def)
  obtain sr r where sr: "reader_seek ?sk mmap_reader s = (sr, r)" by fastforce
  obtain sc c where sc: "cursor_seek ?sk model 0 = (sc, c)" by fastforce
  have d: "\<bar>sint p\<bar> < 2 ^ 64" using sint_range_size [of p] by (auto simp: word_size)
  note C = cursor_seek_same [OF F(13,9) _ d sr sc]
  have kind: "map_err io_kind sr = sc" and pos: "r_pos r = c" using C by simp_all
  have "length ?buf < 2 ^ 63" using unat_bound [of len] by simp
  note R = reader_read_exact [OF rd this, of env r]
  have eq: "drop (min (unat c) (length model)) model = drop (unat c) model" by (simp add: min_def)
  have "take n (drop (unat c) model) = sub_slice model (unat c) (unat c + n)" for n by (simp add: sub_slice_def)
  with assms sr sc kind pos R F(6) show ?thesis
    by (simp add: fuzz_reader_seek_read_def Let_def cursor_read_def eq rust_assert_def reader_position_def)
qed

section \<open>Writes\<close>

lemma model_copy_fits: "b + length d \<le> length model \<Longrightarrow> model_copy b d model = Some (splice_at model b d)"
  by (simp add: model_copy_def rust_assert_def)

lemma update_passes:
  assumes "granting lim env" "fuzz_sim env pth s model"
  shows "passes env pth (fuzz_update env fl off0 data0 s model)"
proof -
  note F = mirrorsD [OF assms(2)]
  have arm: "passes env pth (Option.bind (update_region env off d s) (\<lambda>(r, m').
      Option.bind (check_result r off (of_nat (length d)) (length model)) (\<lambda>c.
        if c \<noteq> None \<and> d \<noteq> [] then map_option (Pair m') (model_copy (unat off) d model) else Some (m', model))))"
    if "length d \<le> 4096" for off d
  proof -
    have l: "length d < 2 ^ 63" "unat (of_nat (length d) :: u64) = length d" using that by (simp_all add: unat_of_nat)
    consider (none) "d = []" | (fit) "d \<noteq> []" "unat off + length d \<le> length model"
      | (out) "d \<noteq> []" "\<not> unat off + length d \<le> length model" by blast
    then show ?thesis
    proof cases
      case none
      then show ?thesis using assms(2) F(13) by (simp add: update_region_def check_result_simps)
    next
      case fit
      obtain s' where "update_region env off d s = Some (Inr (), s')" "fuzz_sim env pth s' (splice_at model (unat off) d)"
        using update_within_sim [OF assms l(1), of off "of_nat (length d)"] fit l(2) by (auto simp: update_region_def)
      then show ?thesis using fit F(13) l(2) model_copy_fits [OF fit(2)] by (simp add: check_result_simps)
    next
      case out
      have z: "of_nat (length d) \<noteq> (0 :: u64)" using out(1) l(2) by (metis length_0_conv unat_0)
      have "update_region env off d s = Some (Inl (OutOfBounds off (of_nat (length d)) (of_nat (length model))), s)"
        using out update_region_within_refused(3) [OF l(1) F(5,2), of off "of_nat (length d)" env] F(7,8) l(2)
        by (simp add: update_region_def)
      then show ?thesis using out F(13) l(2) z assms(2) by (simp add: check_result_simps)
    qed
  qed
  show ?thesis unfolding fuzz_update_def Let_def by (rule arm) simp
qed

lemma segment_write_outcome:
  assumes "granting lim env" "fuzz_sim env pth s model" "fits off len model" "length d \<le> 4096" "g = \<lparr>seg_offset = off, seg_len = len\<rparr>"
  shows "of_nat (length d) > len \<Longrightarrow> segment_write env g d s = Some (Inl (OutOfBounds 0 (of_nat (length d)) len), s)"
    and "\<not> of_nat (length d) > len \<Longrightarrow> d = [] \<Longrightarrow> segment_write env g d s = Some (Inr (), s)"
    and "\<not> of_nat (length d) > len \<Longrightarrow> d \<noteq> [] \<Longrightarrow> model_copy (unat off) d model = Some (splice_at model (unat off) d)
      \<and> (\<exists>s'. segment_write env g d s = Some (Inr (), s') \<and> fuzz_sim env pth s' (splice_at model (unat off) d))"
proof -
  have l: "length d < 2 ^ 63" "unat (of_nat (length d) :: u64) = length d" using assms(4) by (simp_all add: unat_of_nat)
  show "of_nat (length d) > len \<Longrightarrow> segment_write env g d s = Some (Inl (OutOfBounds 0 (of_nat (length d)) len), s)"
    "\<not> of_nat (length d) > len \<Longrightarrow> d = [] \<Longrightarrow> segment_write env g d s = Some (Inr (), s)"
    by (simp_all add: segment_write_def assms(5))
  assume a: "\<not> of_nat (length d) > len" "d \<noteq> []"
  have le: "length d \<le> unat len" using a(1) l(2) by (simp add: word_less_unat not_less)
  then have "unat off + max (unat len) (length d) \<le> length model" using a(2) assms(3) by (auto simp: max_absorb1)
  with update_within_sim [OF assms(1,2) l(1) this] a
  show "model_copy (unat off) d model = Some (splice_at model (unat off) d)
      \<and> (\<exists>s'. segment_write env g d s = Some (Inr (), s') \<and> fuzz_sim env pth s' (splice_at model (unat off) d))"
    by (simp add: segment_write_def assms(5) model_copy_fits)
qed

lemma segment_write_passes:
  assumes "granting lim env" "fuzz_sim env pth s model"
  shows "passes env pth (fuzz_segment_write env fl off0 len0 data0 s model)"
proof -
  note F = mirrorsD [OF assms(2)]
  have arm: "passes env pth (Option.bind (check_result (segment_mut_new off len s) off len (length model)) (\<lambda>c.
      case c of
        Some seg \<Rightarrow>
          Option.bind (segment_write env seg d s) (\<lambda>(r, m').
            if of_nat (length d) > len
            then Option.bind (check_oob r 0 (of_nat (length d)) (unat len)) (\<lambda>_. Some (m', model))
            else (case r of Inl _ \<Rightarrow> None
               | Inr _ \<Rightarrow> if d \<noteq> [] then map_option (Pair m') (model_copy (unat off) d model) else Some (m', model)))
      | None \<Rightarrow> Some (s, model)))" if "length d \<le> 4096" for off len d
  proof (cases "fits off len model")
    case False
    then show ?thesis using assms(2) segment_new_eq [OF assms(2)] F(13) by (simp add: check_result_simps)
  next
    case True
    note W = segment_write_outcome [OF assms True that refl]
    have new: "check_result (segment_mut_new off len s) off len (length model) = Some (Some \<lparr>seg_offset = off, seg_len = len\<rparr>)"
      using True segment_new_eq [OF assms(2)] F(13) by (simp add: check_result_simps)
    consider "of_nat (length d) > len" | "\<not> of_nat (length d) > len" "d = []" | "\<not> of_nat (length d) > len" "d \<noteq> []" by blast
    then show ?thesis
      by cases (use new W assms(2) in \<open>auto simp: check_oob_def rust_assert_def\<close>)
  qed
  show ?thesis unfolding fuzz_segment_write_def Let_def by (rule arm) simp
qed

lemma slice_mut_filled:
  assumes "fuzz_sim env pth s model" "as_slice_mut off len s = Some (Inr sm, s1)" "sm = Slice_Mut b (b + n)"
    and "b + n \<le> length model" "s1 = mm_upd (\<lambda>mm. mm\<lparr>i_writer := True\<rparr>) s"
  shows "fuzz_sim env pth (drop_slice_mut sm (slice_mut_store sm 0 (replicate n x) s1)) (splice_at model b (replicate n x))"
proof -
  note F = mirrorsD [OF assms(1)]
  let ?s2 = "slice_mut_store sm 0 (replicate n x) s1"
  let ?s3 = "drop_slice_mut sm ?s2"
  have so1: "session_ok env (session_start s1\<lparr>c_mut := Some sm\<rparr>)"
    using mut_taken_session [OF F(14), of off len sm s1] assms(2) by simp
  then have ok1: "sys_ok s1" using session_okD(1) by fastforce
  have upd: "set_sys t (session_start s1\<lparr>c_mut := Some sm\<rparr>) = session_start t\<lparr>c_mut := Some sm\<rparr>" for t
    by (simp add: session_start_def)
  have "session_ok env (session_start ?s2\<lparr>c_mut := Some sm\<rparr>)"
    using mut_stored_session [OF so1, of sm 0 "replicate n x"] by (simp add: assms(3) slice_mut_len_def upd [unfolded assms(3)])
  from mut_dropped_session [OF this, of sm] have so3: "session_ok env (session_start ?s3)"
    by (simp add: session_start_def)
  have fit: "b + length (replicate n x) \<le> length (s_bytes s1)" using assms(4,5) F(6) by simp
  have bytes: "s_bytes ?s3 = splice_at model b (replicate n x)"
    using managed.contents_store [OF ok1 fit] F(6) assms(5)
    by (simp add: drop_slice_mut_def slice_mut_store_def record_write_def assms(3))
  have "same_entry ?s2 ?s3" "same_entry s s1"
    by (simp_all add: same_entry_def drop_slice_mut_def record_write_def assms(5))
  moreover have "same_entry s1 ?s2" by (simp add: slice_mut_store_def store_same_entry)
  ultimately have "same_entry s ?s3" using same_entry_trans by blast
  from mirrors_entry [OF assms(1) so3 this bytes] show ?thesis
    using F(6,12) assms(4) by (simp add: length_splice_at)
qed

lemma slice_mut_passes:
  assumes "fuzz_sim env pth s model"
  shows "passes env pth (fuzz_slice_mut_fill fl off0 len0 x s model)"
proof -
  note F = mirrorsD [OF assms]
  define off where "off = fuzz_fold fl (length model) off0"
  define len where "len = fuzz_fold fl (length model) len0"
  note D = fuzz_slice_mut_fill_def Let_def off_def [symmetric] len_def [symmetric] check_result_simps [OF F(13)]
  let ?s1 = "mm_upd (\<lambda>mm. mm\<lparr>i_writer := True\<rparr>) s"
  consider (out) "\<not> fits off len model" | (none) "len = 0" | (fit) "len \<noteq> 0" "unat off + unat len \<le> length model" by blast
  then show ?thesis
  proof cases
    case out
    then have "as_slice_mut off len s = Some (Inl (OutOfBounds off len (of_nat (length model))), s)"
      using as_slice_mut_eq [OF F(5)] F(2,7,8) by simp
    with out assms show ?thesis by (simp add: D)
  next
    case none
    then have a: "as_slice_mut off len s = Some (Inr (Slice_Mut 0 0), ?s1)" using as_slice_mut_eq [OF F(5)] F(2) by simp
    from slice_mut_filled [OF assms a, of 0 0 x] have "fuzz_sim env pth (drop_slice_mut (Slice_Mut 0 0) (slice_mut_store (Slice_Mut 0 0) 0 [] ?s1)) model"
      by (simp add: splice_at_def)
    with none a show ?thesis by (simp add: D slice_mut_len_def)
  next
    case fit
    then have a: "as_slice_mut off len s = Some (Inr (Slice_Mut (unat off) (unat off + unat len)), ?s1)"
      using as_slice_mut_eq [OF F(5)] F(2,7) by simp
    have "model_fill (unat off) (unat (off + len)) x model = Some (splice_at model (unat off) (replicate (unat len) x))"
      using model_range_fits(1) [OF disjI2 [OF fit(2)] fit(1) F(10)] fit(2) by (simp add: model_fill_def rust_assert_def)
    with slice_mut_filled [OF assms a refl fit(2), of x] fit a show ?thesis
      by (simp add: D slice_mut_len_def word_neq_0_conv)
  qed
qed

section \<open>Iteration\<close>

lemma byte_sum_append [simp]: "byte_sum (xs @ ys) = byte_sum xs + byte_sum ys"
  by (simp add: byte_sum_def)

lemma byte_sum_bound: "byte_sum xs \<le> 255 * length xs"
proof (induction xs)
  case (Cons x xs)
  have "unat x < 2 ^ 8" using unat_bound [of x] by simp
  with Cons show ?case by (simp add: byte_sum_def)
qed (simp add: byte_sum_def)

lemma chunk_sum_loop_ok:
  assumes "sh < SHARDS"
  shows "session_ok env (session_start s\<lparr>c_iters := [it]\<rparr>) \<Longrightarrow> ci_chunk_size it \<noteq> 0 \<Longrightarrow>
    length (s_bytes s) - unat (ci_offset it) < k \<Longrightarrow> acc + byte_sum (drop (unat (ci_offset it)) (s_bytes s)) < 2 ^ 64 \<Longrightarrow>
    \<exists>s'. chunk_sum_loop k env sh it cnt acc s =
        Some (cnt + length (chunks_of (unat (ci_chunk_size it)) (drop (unat (ci_offset it)) (s_bytes s))),
              acc + byte_sum (drop (unat (ci_offset it)) (s_bytes s)), s')
      \<and> session_ok env (session_start s') \<and> i_map (s_mm s') = i_map (s_mm s) \<and> s_world s' = s_world s"
proof (induction k arbitrary: it cnt acc s)
  case (Suc k)
  let ?B = "s_bytes s" and ?o = "unat (ci_offset it)" and ?n = "unat (ci_chunk_size it)"
  let ?c = "session_start s\<lparr>c_iters := [it]\<rparr>"
  note S = session_okD [OF Suc.prems(1)]
  have ok: "sys_ok s" "atomics_fit s" "read_free s" using S(1,2,4) by (simp_all add: read_free_def session_start_def)
  have io: "iter_ok s it" using S(7) [of it] by (simp add: session_start_def)
  have tot: "unat (ci_total_len it) = length ?B" using io sys_okD(5) [OF ok(1)] by (simp add: iter_ok_def)
  have iok: "iterator_ok it s" using ok io tot Suc.prems(2) by (simp add: iterator_ok_def iter_ok_def)
  show ?case
  proof (cases "length ?B \<le> ?o")
    case True
    then have "chunk_next env sh it s = Some (None, it, s)" using tot by (simp add: chunk_next_def word_le_unat)
    moreover have "session_ok env (session_start (chunk_iterator_drop it s))"
      using iterator_dropped_session [OF Suc.prems(1), of "[]" it "[]"] by (simp add: session_start_def)
    ultimately show ?thesis using True by (simp add: chunk_iterator_drop_def byte_sum_def)
  next
    case False
    then have lt: "?o < length ?B" by simp
    from chunk_next_ok [OF iok assms lt, of env] obtain v it' s' where n: "chunk_next env sh it s = Some (Some v, it', s')"
      and same: "same_mapping s s'" and off: "unat (ci_offset it') = ?o + min (length ?B - ?o) ?n"
      and sz: "ci_chunk_size it' = ci_chunk_size it" and v: "slice_bytes s' v = sub_slice ?B ?o (unat (ci_offset it'))" by blast
    let ?t = "drop_slice v s'" and ?e = "unat (ci_offset it')"
    have upd: "set_sys s' ?c\<lparr>c_iters := [it'], c_slices := [keep_slice v s']\<rparr> =
        session_start s'\<lparr>c_iters := [it'], c_slices := [keep_slice v s']\<rparr>"
      "set_sys ?t (session_start s'\<lparr>c_iters := [it'], c_slices := [keep_slice v s']\<rparr>)\<lparr>c_slices := []\<rparr> =
        session_start ?t\<lparr>c_iters := [it']\<rparr>" by (simp_all add: session_start_def)
    have "session_ok env (session_start s'\<lparr>c_iters := [it'], c_slices := [keep_slice v s']\<rparr>)"
      using iterator_item_session [OF Suc.prems(1), of "[]" it "[]" sh v it' s'] assms n upd(1) by (simp add: session_start_def)
    from slice_dropped_session [OF this, of "[]"] upd(2)
    have so: "session_ok env (session_start ?t\<lparr>c_iters := [it']\<rparr>)" by (simp add: keep_slice_def session_start_def)
    have t: "i_map (s_mm ?t) = i_map (s_mm s)" "s_world ?t = s_world s"
      using same by (simp_all add: same_mapping_def drop_slice_def split: mapped_slice.splits)
    have pos: "0 < ?n" using Suc.prems(2) by (simp add: unat_gt_0)
    have e: "?e \<le> length ?B" "?o < ?e" using off lt pos by auto
    have parts: "sub_slice ?B ?o ?e @ drop ?e ?B = drop ?o ?B" using sub_slice_drop [of ?o "?e - ?o" ?B] e by simp
    then have sum: "byte_sum (drop ?o ?B) = byte_sum (sub_slice ?B ?o ?e) + byte_sum (drop ?e ?B)"
      by (metis byte_sum_append)
    have chunks: "chunks_of ?n (drop ?o ?B) = sub_slice ?B ?o ?e # chunks_of ?n (drop ?e ?B)"
      using chunks_of_drop [OF lt pos] off by simp
    have B: "s_bytes ?t = ?B" using t by simp
    have "length ?B - ?e < k" using Suc.prems(3) e by linarith
    then obtain s'' where "chunk_sum_loop k env sh it' (Suc cnt) (acc + byte_sum (slice_bytes s' v)) ?t =
        Some (Suc cnt + length (chunks_of ?n (drop ?e ?B)), acc + byte_sum (slice_bytes s' v) + byte_sum (drop ?e ?B), s'')"
      and "session_ok env (session_start s'')" "i_map (s_mm s'') = i_map (s_mm ?t)" "s_world s'' = s_world ?t"
      using Suc.IH [OF so, of "acc + byte_sum (slice_bytes s' v)" "Suc cnt"] Suc.prems(2-4) sz B v sum e by auto
    then show ?thesis using n v sum chunks t Suc.prems(4) by simp
  qed
qed simp

lemma chunk_sum_passes:
  assumes "fuzz_sim env pth s model" "sh < SHARDS"
  shows "passes env pth (fuzz_chunk_sum env sh chunk0 s model)"
proof -
  note F = mirrorsD [OF assms(1)]
  define n where "n = (ucast chunk0 :: usize)"
  let ?it = "\<lparr>ci_locked = True, ci_total_len = m_len (s_mapping s), ci_chunk_size = n, ci_offset = 0\<rparr>"
  let ?s1 = "mm_upd (\<lambda>mm. mm\<lparr>i_readers := Suc (i_readers mm)\<rparr>) s"
  have new: "chunk_iterator_new n s = Some (?it, ?s1)"
    using F(3,5) by (cases "i_map (s_mm s)") (simp_all add: chunk_iterator_new_def)
  from iterator_taken_session [OF F(14), of n ?it ?s1] this
  have so: "session_ok env (session_start ?s1\<lparr>c_iters := [?it]\<rparr>)" by (simp add: session_start_def)
  have "\<exists>s'. chunk_sum_loop (Suc (length model)) env sh ?it 0 0 ?s1 =
      Some (if n = 0 then 0 else unat (div_ceil (of_nat (length model)) n), if n = 0 then 0 else byte_sum model, s')
      \<and> fuzz_sim env pth s' model"
  proof (cases "n = 0")
    case True
    have "session_ok env (session_start (chunk_iterator_drop ?it ?s1))"
      using iterator_dropped_session [OF so, of "[]" ?it "[]"] by (simp add: session_start_def)
    from mirrors_same_map [OF assms(1) this] True show ?thesis by (simp add: chunk_next_def chunk_iterator_drop_def)
  next
    case False
    have "byte_sum model < 2 ^ 64" using byte_sum_bound [of model] F(12) by (simp add: unat_MAX_SIZE)
    then obtain s' where "chunk_sum_loop (Suc (length model)) env sh ?it 0 0 ?s1 =
        Some (length (chunks_of (unat n) model), byte_sum model, s')" "session_ok env (session_start s')"
      "i_map (s_mm s') = i_map (s_mm s)" "s_world s' = s_world s"
      using chunk_sum_loop_ok [OF assms(2) so, of "Suc (length model)" 0 0] False F(6) by auto
    moreover have "length (chunks_of (unat n) model) = unat (div_ceil (of_nat (length model)) n)"
      using False F(13) length_chunks_of [of "unat n" model] unat_div_ceil_mod [of n "of_nat (length model)"] by (simp add: unat_gt_0)
    ultimately show ?thesis using False mirrors_same_map [OF assms(1)] by simp
  qed
  then show ?thesis using new by (auto simp: fuzz_chunk_sum_def n_def [symmetric] rust_assert_def)
qed

text \<open>The closure of \<open>chunks_mut\<close> fills every chunk with the byte of its offset.\<close>

lemma ucast_of_nat_byte: "(ucast (of_nat k :: u64) :: byte) = of_nat k"
  by (rule bit_eqI) (simp add: bit_simps)

lemma chunk_map_fill:
  assumes "f = (\<lambda>st off c. (Inr (), replicate (length c) (seed + ucast off), st))" "0 < n"
  shows "chunk_map f n (i * n) () xs = (Inr (), i * n + length xs, (),
    concat (map (\<lambda>(j, c). replicate (length c) (seed + of_nat (j * n))) (List.enumerate i (chunks_of n xs))))"
  using assms(2)
proof (induction n xs arbitrary: i rule: chunks_of.induct)
  case (1 n xs)
  show ?case
  proof (cases "xs = []")
    case True
    then show ?thesis by (simp add: chunk_map.simps)
  next
    case False
    show ?thesis
    proof (cases "length xs \<le> n")
      case True
      then show ?thesis using False 1(2)
        by (subst chunk_map.simps, subst chunks_of.simps) (simp add: assms(1) ucast_of_nat_byte chunk_map.simps del: of_nat_mult)
    next
      case long: False
      have "chunk_map f n (i * n + n) () (drop n xs) = (Inr (), i * n + length xs, (),
          concat (map (\<lambda>(j, c). replicate (length c) (seed + of_nat (j * n))) (List.enumerate (Suc i) (chunks_of n (drop n xs)))))"
        using 1(1) [of "Suc i"] 1(2) False long by (simp add: add.commute)
      then show ?thesis using False 1(2) long
        by (subst chunk_map.simps, subst chunks_of.simps) (simp add: assms(1) ucast_of_nat_byte del: of_nat_mult)
    qed
  qed
qed

lemma length_chunks_fill:
  "0 < n \<Longrightarrow> length (concat (map (\<lambda>(j, c). replicate (length c) (g j)) (List.enumerate i (chunks_of n xs)))) = length xs"
proof (induction n xs arbitrary: i rule: chunks_of.induct)
  case (1 n xs)
  then show ?case by (cases "xs = []") (simp, subst chunks_of.simps, simp)
qed

lemma drive_loop_entry: "drive_loop f n tot off st s = (q, off', st', s') \<Longrightarrow> same_entry s s'"
proof (induction f n tot off st s rule: drive_loop.induct)
  case (1 f n tot off st s)
  show ?case
  proof (cases "n = 0 \<or> tot \<le> off")
    case True
    with 1(2) show ?thesis by (subst (asm) drive_loop.simps) auto
  next
    case False
    let ?e = "off + min (tot - off) n"
    obtain r d st1 where f: "f st (of_nat off) (sub_slice (mapping_bytes (s_world s) (s_mapping s)) off ?e) = (r, d, st1)"
      by (metis surj_pair)
    show ?thesis
    proof (cases r)
      case (Inl e)
      with 1(2) False f show ?thesis by (subst (asm) drive_loop.simps) (auto intro: store_same_entry)
    next
      case (Inr u)
      with 1(2) False f have "drive_loop f n tot ?e st1 (store_at off d s) = (q, off', st', s')"
        by (subst (asm) drive_loop.simps) simp
      from 1(1) [OF False refl f [symmetric] Inr refl this] show ?thesis
        by (rule same_entry_trans [OF store_same_entry])
    qed
  qed
qed

lemma chunks_mut_passes:
  assumes "fuzz_sim env pth s model"
  shows "passes env pth (fuzz_chunks_mut_fill chunk0 seed s model)"
proof -
  note F = mirrorsD [OF assms]
  define n where "n = (ucast chunk0 :: usize)"
  define f where "f = (\<lambda>(st :: unit) (off :: u64) (c :: byte list).
    (Inr () :: mmap_io_error + unit, replicate (length c) (seed + ucast off), st))"
  show ?thesis
  proof (cases "n = 0")
    case True
    then show ?thesis using assms F(5)
      by (simp add: fuzz_chunks_mut_fill_def n_def [symmetric] for_each_mut_def chunks_drive_def write_lock_def)
  next
    case False
    then have pos: "0 < unat n" by (simp add: unat_gt_0)
    obtain q off' st' s' where d: "drive_loop f (unat n) (length model) 0 () s = (q, off', st', s')" by (metis surj_pair)
    have k: "keeps_length f" by (simp add: keeps_length_def f_def)
    from drive_loop_map [OF k pos F(1) _ _ _ d, of s] F(6)
    obtain ys where c: "chunk_map f (unat n) 0 () model = (q, off', st', ys)" and b: "s_bytes s' = ys"
      and ok: "sys_ok s'" and ctl: "same_control s s'"
      by (auto simp: same_control_def)
    have ys: "q = Inr ()" "ys = model_chunks_fill (unat n) seed model"
      using c chunk_map_fill [OF f_def pos, of 0 model] by (simp_all add: model_chunks_fill_def)
    let ?t = "mm_upd (record_write (of_nat off')) s'"
    have fe: "for_each_mut f n () s = Some (Inr (), st', ?t)"
      using False F(2,5,7) d ys(1) by (simp add: for_each_mut_def chunks_drive_def write_lock_def)
    have t: "s_world ?t = s_world s'" "i_map (s_mm ?t) = i_map (s_mm s')" "i_file (s_mm ?t) = i_file (s_mm s')"
      "i_views (s_mm ?t) = i_views (s_mm s')" "i_readers (s_mm ?t) = i_readers (s_mm s')" "i_writer (s_mm ?t) = i_writer (s_mm s')"
      "i_mode (s_mm ?t) = i_mode (s_mm s')" "i_cached_len (s_mm ?t) = i_cached_len (s_mm s')"
      by (simp_all add: record_write_def)
    have "sys_ok ?t" by (rule sys_ok_cong [OF ok]) (use t ok in \<open>simp_all add: sys_ok_def\<close>)
    then have so: "session_ok env (session_start ?t)"
      using ctl F(2,15) t by (intro session_start_ok) (simp_all add: same_control_def write_free_def)
    have en: "same_entry s ?t" using drive_loop_entry [OF d] t by (simp add: same_entry_def)
    have "length ys = length model"
      unfolding ys(2) model_chunks_fill_def by (rule length_chunks_fill [OF pos])
    then have "fuzz_sim env pth ?t ys" using mirrors_entry [OF assms so en] b t F(12) by simp
    then show ?thesis
      unfolding fuzz_chunks_mut_fill_def Let_def n_def [symmetric] f_def [symmetric]
      using fe False ys(2) by (simp add: word_neq_0_conv)
  qed
qed

section \<open>Resizing\<close>

lemma unresized_sim:
  assumes "granting (4 * unat MAX_SIZE) env" "fuzz_sim env pth s model" "resize env n s = Some (Inl e, s')"
    and "n \<noteq> 0" "\<not> n > MAX_MMAP_SIZE"
  shows "fuzz_sim env pth s' model" "4 * unat MAX_SIZE < unat n" "\<exists>err. e = Io err"
proof -
  note F = mirrorsD [OF assms(2)]
  have t: "e_target env \<noteq> Windows" using assms(1) by (simp add: granting_def)
  obtain m where m: "i_map (s_mm s) = Rw m" using assms(2) by (auto simp: mirrors_def)
  then have "unat (m_len m) \<le> 4 * unat MAX_SIZE" using F(7,12) by simp
  note G = granted_resize_fails [OF assms(1) F(1) m F(2) this assms(3-5)]
  show "4 * unat MAX_SIZE < unat n" "\<exists>err. e = Io err" by (rule G)+
  have "session_ok env (session_start s')"
    using resize_session [of env "session_start s" n "Inl e" s'] assms(3) F(14) t G(2) by simp
  moreover have "s_bytes s' = s_bytes s" using resize_failed [OF F(1) t assms(3)] unfolding unresized_def by (elim conjE)
  ultimately show "fuzz_sim env pth s' model"
    using mirrors_entry [OF assms(2) _ resize_entry [OF assms(3) t]] F(6,12) by metis
qed

lemma resize_bytes_resized: "k \<le> n \<Longrightarrow> resize_bytes k (resize_bytes n xs) = resize_bytes k xs"
  by (rule nth_equalityI) (simp_all add: nth_resize_bytes)

lemma resize_passes:
  assumes "granting (4 * unat MAX_SIZE) env" "fuzz_sim env pth s model"
  shows "passes env pth (fuzz_resize env fl new0 s model)"
proof -
  note F = mirrorsD [OF assms(2)]
  define new where "new = (if fl then new0 mod (MAX_SIZE + 1) else new0)"
  note D = fuzz_resize_def Let_def new_def [symmetric]
  have t: "e_target env \<noteq> Windows" using assms(1) by (simp add: granting_def)
  obtain m where m: "i_map (s_mm s) = Rw m" using assms(2) by (auto simp: mirrors_def)
  have mode: "i_mode (s_mm s) = ReadWrite" by (rule rw_facts(5) [OF F(1) m])
  have four: "new > 4 * MAX_SIZE \<longleftrightarrow> 4 * unat MAX_SIZE < unat new" by (simp add: word_less_unat MAX_SIZE_def)
  consider (bad) "new = 0 \<or> new > MAX_MMAP_SIZE" | (ok) "new \<noteq> 0" "\<not> new > MAX_MMAP_SIZE" by blast
  then show ?thesis
  proof cases
    case bad
    then obtain msg where "resize env new s = Some (Inl (ResizeFailed msg), s)" using mode by (cases "new = 0") (auto simp: resize_def)
    then show ?thesis using bad assms(2) by (auto simp: D rust_assert_def MAX_MMAP_SIZE_def)
  next
    case ok
    have le: "new \<le> push_bit 40 128" using ok(2) by (simp add: MAX_MMAP_SIZE_def not_less)
    obtain q s1 where r: "resize env new s = Some (q, s1)"
      using resize_returns [OF F(2) t, of new] by (metis option.exhaust surj_pair)
    show ?thesis
    proof (cases q)
      case (Inl e)
      note U = unresized_sim [OF assms r [unfolded Inl] ok]
      from U(3) obtain err where "e = Io err" ..
      with U(1,2) Inl r show ?thesis by (simp add: D rust_assert_def four)
    next
      case (Inr u)
      with r have r1: "resize env new s = Some (Inr (), s1)" by simp
      note R = resized_sim [OF assms(2) r1 t]
      show ?thesis
      proof (cases "new > 4 * MAX_SIZE")
        case False
        then have "fuzz_sim env pth s1 (resize_bytes (unat new) model)"
          using mirrors_entry [OF assms(2) R] four by (simp add: not_less)
        with r1 False ok(1) le show ?thesis by (simp add: D word_neq_0_conv)
      next
        case True
        note I = session_start_idle [OF R(1)]
        obtain m1 where m1: "i_map (s_mm s1) = Rw m1" using R(2) m by (auto simp: same_entry_def)
        obtain s2 where r2: "resize env MAX_SIZE s1 = Some (Inr (), s2)"
          using granted_resize [OF assms(1) I(1) m1 I(2), of MAX_SIZE] by (auto simp: MAX_SIZE_def MAX_MMAP_SIZE_def)
        have "session_ok env (session_start s2)"
          using resize_session [of env "session_start s1" MAX_SIZE "Inr ()" s2] R(1) r2 by simp
        moreover have "same_entry s s2" by (rule same_entry_trans [OF R(2) resize_entry [OF r2 t]])
        moreover have "s_bytes s2 = resize_bytes (unat MAX_SIZE) model"
          using resize_ok [OF I(1) r2] R(3) True four by (simp add: resized_def resize_bytes_resized)
        ultimately have "fuzz_sim env pth s2 (resize_bytes (unat MAX_SIZE) model)"
          using mirrors_entry [OF assms(2)] by simp
        with r1 r2 True ok(1) le show ?thesis by (simp add: D word_neq_0_conv expect_op_def)
      qed
    qed
  qed
qed

section \<open>The harness\<close>

lemma fuzz_op_passes:
  assumes "granting (4 * unat MAX_SIZE) env" "fuzz_sim env pth s model" "sh < SHARDS"
  shows "passes env pth (fuzz_op_step env sh fl op s model)"
  by (cases op)
    (simp_all add: update_passes [OF assms(1,2)] read_into_passes [OF assms(2)] as_slice_passes [OF assms(2,3)]
      slice_mut_passes [OF assms(2)] resize_passes [OF assms(1,2)] flush_passes(2) [OF assms(1,2)]
      quiet_arms_pass [OF assms(1,2)] segment_write_passes [OF assms(1,2)] segment_read_passes [OF assms(2,3)]
      chunk_sum_passes [OF assms(2,3)] chunks_mut_passes [OF assms(2)] reader_passes [OF assms(2)])

lemma fuzz_loop_passes:
  assumes "granting (4 * unat MAX_SIZE) env" "sh < SHARDS"
  shows "fuzz_sim env pth s model \<Longrightarrow> passes env pth (fuzz_loop env sh fl ticks ops s model)"
proof (induction ops arbitrary: s model)
  case (Cons op ops)
  obtain s0 where 0: "fuzz_tick env (ticks (length ops)) s = Some s0" "fuzz_sim env pth s0 model"
    using tick_keeps [OF assms(1) Cons.prems] by blast
  obtain s1 model1 where 1: "fuzz_op_step env sh fl op s0 model = Some (s1, model1)" "fuzz_sim env pth s1 model1"
    using fuzz_op_passes [OF assms(1) 0(2) assms(2)] unfolding passes_def by blast
  obtain s2 model2 where 2: "fuzz_whole env sh s1 model1 = Some (s2, model2)" "fuzz_sim env pth s2 model2"
    using whole_passes [OF 1(2) assms(2)] unfolding passes_def by blast
  from Cons.IH [OF 2(2)] 0 1 2 show ?case by simp
qed simp

lemma fuzz_setup_passes:
  assumes "granting (4 * unat MAX_SIZE) env" "world_ok w"
  shows "passes env pth (fuzz_setup env spawned pth input w)"
proof -
  define n where "n = (ucast (in_initial input) mod MAX_SIZE + 1 :: u64)"
  define pol where "pol = (case in_policy input of Policy_Manual \<Rightarrow> Manual | Policy_Always \<Rightarrow> Always
          | Policy_EveryBytes n \<Rightarrow> EveryBytes (ucast n) | Policy_EveryWrites n \<Rightarrow> EveryWrites (ucast n)
          | Policy_EveryMillis \<Rightarrow> EveryMillis 1)"
  let ?b = "builder_flush_policy pol (builder_size n (builder_mode ReadWrite (builder_new pth)))"
  obtain r0 w0 where w0: "fs_remove_file env pth w = (r0, w0)" by fastforce
  have ok0: "world_ok w0" by (rule world_ok_removed [OF assms(2) w0])
  have "unat (ucast (in_initial input) mod MAX_SIZE :: u64) < unat MAX_SIZE"
    by (simp add: unat_mod_distrib unat_MAX_SIZE)
  then have n: "0 < unat n" "unat n \<le> unat MAX_SIZE"
    unfolding n_def by (subst unat_add_exact; simp add: unat_MAX_SIZE)+
  have n0: "n \<noteq> 0" "\<not> n > MAX_MMAP_SIZE" "unat n \<le> 4 * unat MAX_SIZE"
    using n by (auto simp: word_less_unat unat_MAX_SIZE MAX_MMAP_SIZE_def)
  have b: "b_mode ?b = Some ReadWrite" "b_size ?b = Some n" "b_path ?b = pth"
    by (simp_all add: builder_flush_policy_def builder_size_def builder_mode_def builder_new_def)
  obtain mm acc w3 where c: "builder_create env spawned ?b w0 = (Inr (mm, acc), w3)"
    using granted_builder_create [OF assms(1) b(1,2) n0] by blast
  then have "fuzz_setup env spawned pth input w = Some (\<lparr>s_mm = mm, s_world = w3\<rparr>, replicate (unat n) 0)"
    by (simp add: fuzz_setup_def Let_def w0 n_def [symmetric] pol_def [symmetric])
  with builder_created(1) [OF c ok0 b(1,2) n0(3)] show ?thesis by (simp add: b)
qed

lemma fuzz_finish_passes:
  assumes "granting lim env" "fuzz_sim env pth s model"
  shows "\<exists>w. fuzz_finish env ticks pth s model = Some w \<and> w_dir w pth = None"
proof -
  obtain s1 where 1: "mmap_flush env s = Some (Inr (), s1)" "fuzz_sim env pth s1 model"
    using flush_passes(1) [OF assms] by blast
  obtain s2 where 2: "fuzz_tick env (ticks 64) s1 = Some s2" "fuzz_sim env pth s2 model"
    using tick_keeps [OF assms(1) 1(2)] by blast
  note F = mirrorsD [OF 2(2)]
  obtain m where m: "i_map (s_mm s2) = Rw m" using 2(2) by (auto simp: mirrors_def)
  let ?w = "mapping_drop env (s_mapping s2) (s_world s2)" and ?f = "i_file (s_mm s2)"
  have w: "w_dir ?w pth = Some ?f" "w_data ?w ?f = model"
    using mapping_drop_files [of "s_world s2" env "s_mapping s2"] 2(2) rw_facts(4) [OF F(1) m] F(6)
    by (simp_all add: same_files_def mirrors_def)
  obtain f w' where o: "fs_open env pth opts_ro ?w = (Inr f, w')" using granted_open [OF assms(1), of opts_ro ?w pth] w(1) by auto
  with fs_open_plain [OF o] w have f: "f = ?f" "w_data w' f = model" "w_dir w' pth = Some f"
    by (auto simp: same_files_def)
  have "w_dir (snd (fs_remove_file env pth w')) pth = None"
    using granted_call [OF assms(1), of "Fs_remove_file pth" w'] f(3)
    by (auto simp: fs_remove_file_def bind_se_def)
  with 1 2 o f show ?thesis
    by (simp add: fuzz_finish_def expect_op_def Let_def fs_read_def rust_assert_def)
qed

section \<open>Properties\<close>

text \<open>C3. No input makes the fuzz harness for the managed mapping fail. On a system that refuses nothing up to the sizes the
  harness asks for, and whatever it answers beyond them, for every initial size, flush policy and sequence of the fifteen
  operations with arbitrary arguments, in range or not, and whenever the background flusher runs: every call returns,
  valid requests succeed, invalid ones report exactly the documented error, length and bytes equal those of the vector after each operation, and the file
  read back after the drop equals the vector.\<close>

theorem fuzz_managed_never_fails:
  assumes "granting (4 * unat MAX_SIZE) env" "world_ok w" "sh < SHARDS"
  shows "\<exists>w'. fuzz_managed env sh spawned ticks pth input w = Some w' \<and> w_dir w' pth = None"
proof -
  obtain s model where 1: "fuzz_setup env spawned pth input w = Some (s, model)" "fuzz_sim env pth s model"
    using fuzz_setup_passes [OF assms(1,2)] unfolding passes_def by blast
  obtain s' model' where 2: "fuzz_loop env sh (in_fold input) ticks (take 64 (in_ops input)) s model = Some (s', model')"
      "fuzz_sim env pth s' model'"
    using fuzz_loop_passes [OF assms(1,3) 1(2)] unfolding passes_def by blast
  from fuzz_finish_passes [OF assms(1) 2(2)] 1 2 show ?thesis by (simp add: fuzz_managed_def)
qed

theorem fuzz_managed_never_fails_witness:
  "\<exists>w'. fuzz_managed sample_env 0 True (\<lambda>_. True) ''fuzz''
     \<lparr>in_initial = 7, in_policy = Policy_EveryMillis, in_fold = False,
      in_ops = [Op_Update 3 [1, 2], Op_Resize 100, Op_ChunksMutFill 3 9, Op_AsSlice 99 2, Op_ReaderSeekRead (- 1) True 4]\<rparr>
     sample_world = Some w' \<and> w_dir w' ''fuzz'' = None"
  by (rule fuzz_managed_never_fails [OF sample_granting sample_world_ok]) (simp add: SHARDS_def)

end
