(* ===== verification/Fuzz_Raw.thy ===== *)
theory Fuzz_Raw
  imports Fuzz_Managed_Props
begin

text \<open>
  \<open>fuzz/fuzz_targets/raw_map.rs\<close>: the harness for the windows of \<open>mmap_io::raw\<close>, and that no input makes it
  fail. As in \<open>Fuzz_Managed\<close>, a failed assertion or an index out of range is \<open>None\<close>. Whether the harness
  can write its file at the start and read it at the end are arguments: it gives up without a verdict when it cannot.
\<close>

section \<open>Inputs\<close>

datatype raw_kind = Raw_ReadOnly | Raw_Shared | Raw_CopyOnWrite | Raw_Anonymous

datatype raw_op =
    Raw_Read usize
  | Raw_Write usize byte
  | Raw_Flush
  | Raw_FlushAsync
  | Raw_FlushRange usize usize
  | Raw_FlushAsyncRange usize usize

record raw_input =
  ri_file_len :: "32 word"
  ri_offset :: u64
  ri_len :: "usize option"
  ri_fold :: bool
  ri_kind :: raw_kind
  ri_ops :: "raw_op list"

definition byte_at :: "nat \<Rightarrow> byte" where
  "byte_at i = of_nat (i mod 251)"

section \<open>The harness\<close>

text \<open>The requested window and the one the mapping has to show, when it lies inside the file.\<close>

definition raw_request :: "raw_input \<Rightarrow> nat \<Rightarrow> u64 \<times> usize option" where
  "raw_request input flen =
     (if ri_fold input
      then (ri_offset input mod (of_nat flen + 2), map_option (\<lambda>l. l mod (of_nat flen + 2)) (ri_len input))
      else (ri_offset input, ri_len input))"

definition raw_window :: "u64 \<Rightarrow> usize option \<Rightarrow> nat \<Rightarrow> (nat \<times> nat) option" where
  "raw_window off len flen =
     (if off > of_nat flen then None
      else
        let start = unat off;
            avail = flen - start
        in (case len of
              None \<Rightarrow> Some (start, avail)
            | Some l \<Rightarrow> if unat l \<le> avail then Some (start, unat l) else None))"

text \<open>The mapping of the requested kind, in the writable or in the read-only place of the pair.\<close>

type_synonym raw_pair = "mapping option \<times> mapping option"

definition raw_mapped :: "env \<Rightarrow> raw_kind \<Rightarrow> u64 \<Rightarrow> usize option \<Rightarrow> fid \<Rightarrow> raw_pair os_io" where
  "raw_mapped env kind off len f =
     (let opts = options_offset off options_new;
          opts' = (case len of Some l \<Rightarrow> options_len l opts | None \<Rightarrow> opts)
      in (case kind of
            Raw_ReadOnly \<Rightarrow> bind_se (raw_map env opts' f) (\<lambda>m. return_se (None, Some m))
          | Raw_Shared \<Rightarrow> bind_se (raw_map_mut env opts' f) (\<lambda>m. return_se (Some m, None))
          | Raw_CopyOnWrite \<Rightarrow> bind_se (raw_map_copy env opts' f) (\<lambda>m. return_se (Some m, None))
          | Raw_Anonymous \<Rightarrow>
              bind_se (rawmmapmut_map_anon env ((case len of Some l \<Rightarrow> l | None \<Rightarrow> 0) mod push_bit 20 1))
                (\<lambda>m. return_se (Some m, None))))"

text \<open>The \<open>match\<close> on the result: go on with the mapping (\<open>Some (Some _)\<close>), return (\<open>Some None\<close>), or panic.\<close>

definition raw_opened ::
  "raw_kind \<Rightarrow> (nat \<times> nat) option \<Rightarrow> byte list \<Rightarrow> io_error + raw_pair \<Rightarrow> world \<Rightarrow> raw_pair option option" where
  "raw_opened kind window original r w =
     (case r of
        Inr pair \<Rightarrow>
          if kind = Raw_Anonymous then Some (Some pair)
          else
            (case window of
               None \<Rightarrow> None
             | Some (start, wlen) \<Rightarrow>
                 Option.bind
                   (case pair of
                      (Some m, _) \<Rightarrow> Some (mapping_bytes w m)
                    | (None, Some m) \<Rightarrow> Some (mapping_bytes w m)
                    | _ \<Rightarrow> None)
                   (\<lambda>bytes. Option.bind (model_range start (start + wlen) original) (\<lambda>x.
                      rust_assert (length bytes = wlen \<and> bytes = x) (Some pair))))
      | Inl e \<Rightarrow>
          if kind = Raw_Anonymous then Some None
          else rust_assert (window = None \<and> io_kind e = InvalidInput) None)"

record raw_state =
  rs_rw :: "mapping option"
  rs_ro :: "mapping option"
  rs_world :: world
  rs_expected :: "byte list"

definition raw_wlen :: "raw_state \<Rightarrow> nat" where
  "raw_wlen s =
     (case rs_rw s of
        Some m \<Rightarrow> unat (raw_len m)
      | None \<Rightarrow> (case rs_ro s of Some m \<Rightarrow> unat (raw_len m) | None \<Rightarrow> 0))"

definition nth_checked :: "byte list \<Rightarrow> nat \<Rightarrow> byte option" where
  "nth_checked xs i = rust_assert (i < length xs) (xs ! i)"

definition raw_read_step :: "raw_kind \<Rightarrow> nat \<Rightarrow> usize \<Rightarrow> raw_state \<Rightarrow> raw_state option" where
  "raw_read_step kind base at s =
     (let wlen = raw_wlen s
      in if wlen > 0
         then
           let i = unat at mod wlen
           in Option.bind
                (case rs_rw s of
                   Some m \<Rightarrow> nth_checked (mapping_bytes (rs_world s) m) i
                 | None \<Rightarrow>
                     (case rs_ro s of Some m \<Rightarrow> nth_checked (mapping_bytes (rs_world s) m) i | None \<Rightarrow> Some 0))
                (\<lambda>b. if kind \<notin> {Raw_Anonymous, Raw_CopyOnWrite}
                     then Option.bind (nth_checked (rs_expected s) (base + i)) (\<lambda>x. rust_assert (b = x) s)
                     else Some s)
         else Some s)"

definition raw_write_step :: "raw_kind \<Rightarrow> nat \<Rightarrow> usize \<Rightarrow> byte \<Rightarrow> raw_state \<Rightarrow> raw_state option" where
  "raw_write_step kind base at x s =
     (let wlen = raw_wlen s
      in (case rs_rw s of
            Some m \<Rightarrow>
              if wlen > 0
              then
                let i = unat at mod wlen;
                    (m', w') = mapping_store i [x] (m, rs_world s);
                    s' = s\<lparr>rs_rw := Some m', rs_world := w'\<rparr>
                in Option.bind (nth_checked (mapping_bytes w' m') i) (\<lambda>b.
                   if b \<noteq> x then None
                   else if kind = Raw_Shared
                   then map_option (\<lambda>e. s'\<lparr>rs_expected := e\<rparr>) (model_copy (base + i) [x] (rs_expected s))
                   else Some s')
              else Some s
          | None \<Rightarrow> Some s))"

text \<open>\<open>m.flush().expect(..)\<close> on the writable mapping, when there is one.\<close>

definition raw_flush_step :: "(mapping \<Rightarrow> unit os_io) \<Rightarrow> raw_state \<Rightarrow> raw_state option" where
  "raw_flush_step fl s =
     (case rs_rw s of
        Some m \<Rightarrow>
          (case fl m (rs_world s) of
             (Inr _, w') \<Rightarrow> Some (s\<lparr>rs_world := w'\<rparr>)
           | (Inl _, _) \<Rightarrow> None)
      | None \<Rightarrow> Some s)"

definition raw_range_step ::
  "(mapping \<Rightarrow> usize \<Rightarrow> usize \<Rightarrow> unit os_io) \<Rightarrow> usize \<Rightarrow> usize \<Rightarrow> raw_state \<Rightarrow> raw_state option" where
  "raw_range_step fl off len s =
     (case rs_rw s of
        Some m \<Rightarrow>
          let wlen = raw_wlen s;
              ok = (unat off \<le> wlen \<and> unat len \<le> wlen - unat off)
          in (case fl m off len (rs_world s) of
                (r, w') \<Rightarrow> rust_assert (is_ok r = ok) (s\<lparr>rs_world := w'\<rparr>))
      | None \<Rightarrow> Some s)"

fun raw_op_step :: "env \<Rightarrow> raw_kind \<Rightarrow> nat \<Rightarrow> raw_op \<Rightarrow> raw_state \<Rightarrow> raw_state option" where
  "raw_op_step env kind base (Raw_Read at) = raw_read_step kind base at"
| "raw_op_step env kind base (Raw_Write at x) = raw_write_step kind base at x"
| "raw_op_step env kind base Raw_Flush = raw_flush_step (raw_flush env)"
| "raw_op_step env kind base Raw_FlushAsync = raw_flush_step (raw_flush_async env)"
| "raw_op_step env kind base (Raw_FlushRange off len) = raw_range_step (raw_flush_range env) off len"
| "raw_op_step env kind base (Raw_FlushAsyncRange off len) = raw_range_step (raw_flush_async_range env) off len"

fun raw_loop :: "env \<Rightarrow> raw_kind \<Rightarrow> nat \<Rightarrow> raw_op list \<Rightarrow> raw_state \<Rightarrow> raw_state option" where
  "raw_loop env kind base [] s = Some s"
| "raw_loop env kind base (op # ops) s = Option.bind (raw_op_step env kind base op s) (raw_loop env kind base ops)"

text \<open>The final flush, the two drops, and the comparison with what is on disk.\<close>

definition raw_finish :: "env \<Rightarrow> bool \<Rightarrow> fid \<Rightarrow> path \<Rightarrow> raw_state \<Rightarrow> world option" where
  "raw_finish env readable_now f pth s0 =
     Option.bind (raw_flush_step (raw_flush env) s0) (\<lambda>s.
       let release = (\<lambda>m w. case m of Some x \<Rightarrow> mapping_drop env x w | None \<Rightarrow> w);
           w = release (rs_ro s) (release (rs_rw s) (rs_world s))
       in if readable_now \<and> w_data w f \<noteq> rs_expected s then None
          else Some (snd (fs_remove_file env pth w)))"

definition fuzz_raw :: "env \<Rightarrow> bool \<Rightarrow> bool \<Rightarrow> path \<Rightarrow> raw_input \<Rightarrow> world \<Rightarrow> world option" where
  "fuzz_raw env written readable_now pth input w =
     (let flen = unat (ri_file_len input mod (3 * 65536 + 8));
          (off, len) = raw_request input flen
      in (case fs_open env pth opts_truncate w of
            (Inl _, w0) \<Rightarrow> Some w0
          | (Inr f, w0) \<Rightarrow>
              let original = map byte_at [0..<flen];
                  w1 = w0\<lparr>w_data := (w_data w0)(f := original)\<rparr>;
                  window = raw_window off len flen
              in if \<not> written then Some w0
                 else
                   (case raw_mapped env (ri_kind input) off len f w1 of
                      (r, w2) \<Rightarrow>
                        Option.bind (raw_opened (ri_kind input) window original r w2) (\<lambda>c.
                          case c of
                            None \<Rightarrow> Some (snd (fs_remove_file env pth w2))
                          | Some (rw, ro) \<Rightarrow>
                              Option.bind
                                (raw_loop env (ri_kind input) (case window of Some (s, _) \<Rightarrow> s | None \<Rightarrow> 0) (take 64 (ri_ops input))
                                   \<lparr>rs_rw = rw, rs_ro = ro, rs_world = w2, rs_expected = original\<rparr>)
                                (raw_finish env readable_now f pth)))))"

section \<open>The simulation\<close>

text \<open>The one mapping there is, and how it shows the expected bytes of the file.\<close>

definition raw_the :: "raw_state \<Rightarrow> mapping option" where
  "raw_the s = (case rs_rw s of Some m \<Rightarrow> Some m | None \<Rightarrow> rs_ro s)"

definition raw_sim :: "raw_kind \<Rightarrow> fid \<Rightarrow> nat \<Rightarrow> raw_state \<Rightarrow> bool" where
  "raw_sim kind f base s \<longleftrightarrow> w_data (rs_world s) f = rs_expected s
     \<and> (kind = Raw_ReadOnly \<longleftrightarrow> rs_rw s = None)
     \<and> (\<exists>m. raw_the s = Some m \<and> mapping_ok (rs_world s) m
          \<and> (if kind \<in> {Raw_CopyOnWrite, Raw_Anonymous} then \<exists>bs. m_mem m = Private_Bytes bs
             else m_len m \<noteq> 0 \<longrightarrow> m_mem m = Window f base))"

lemma raw_wlen_the: "raw_the s = Some m \<Longrightarrow> raw_wlen s = unat (m_len m)"
  by (simp add: raw_the_def raw_wlen_def raw_len_def split: option.splits)

lemma raw_sim_quiet:
  assumes "raw_sim kind f base s" "same_files (rs_world s) w"
  shows "raw_sim kind f base (s\<lparr>rs_world := w\<rparr>)"
  using assms mapping_ok_cong [of w "rs_world s"] by (auto simp: raw_sim_def same_files_def raw_the_def)

text \<open>A shared mapping shows the bytes of the file behind the window.\<close>

lemma window_nth:
  assumes "mapping_ok w m" "m_mem m = Window f base" "i < unat (m_len m)"
  shows "base + i < length (w_data w f)" "mapping_bytes w m ! i = w_data w f ! (base + i)"
proof -
  have "base + unat (m_len m) \<le> length (w_data w f)" using assms by (auto simp: mapping_ok_def split: if_splits)
  with assms show "base + i < length (w_data w f)" "mapping_bytes w m ! i = w_data w f ! (base + i)"
    by (simp_all add: mapping_bytes_def nth_slice)
qed

lemma raw_read_ok: "raw_sim kind f base s \<Longrightarrow> raw_read_step kind base at s = Some s"
proof -
  assume sim: "raw_sim kind f base s"
  then obtain m where m: "raw_the s = Some m" "mapping_ok (rs_world s) m" by (auto simp: raw_sim_def)
  note wl = raw_wlen_the [OF m(1)]
  show ?thesis
  proof (cases "raw_wlen s = 0")
    case False
    let ?i = "unat at mod raw_wlen s"
    have i: "?i < unat (m_len m)" using False wl by simp
    have "nth_checked (mapping_bytes (rs_world s) m) ?i = Some (mapping_bytes (rs_world s) m ! ?i)"
      using i by (simp add: nth_checked_def rust_assert_def length_mapping_bytes [OF m(2)])
    moreover have "nth_checked (rs_expected s) (base + ?i) = Some (mapping_bytes (rs_world s) m ! ?i)"
      if "kind \<notin> {Raw_Anonymous, Raw_CopyOnWrite}"
      using window_nth [OF m(2) _ i] sim m(1) that i by (auto simp: raw_sim_def nth_checked_def rust_assert_def)
    ultimately show ?thesis using False m(1)
      by (auto simp: raw_read_step_def Let_def raw_the_def rust_assert_def split: option.splits)
  qed (simp add: raw_read_step_def)
qed

lemma raw_write_ok:
  assumes "raw_sim kind f base s"
  shows "\<exists>s'. raw_write_step kind base at x s = Some s' \<and> raw_sim kind f base s'"
proof (cases "rs_rw s = None \<or> raw_wlen s = 0")
  case True
  then show ?thesis using assms by (cases "rs_rw s") (auto simp: raw_write_step_def)
next
  case False
  then obtain m where m: "rs_rw s = Some m" and nz: "raw_wlen s \<noteq> 0" by auto
  have the: "raw_the s = Some m" using m by (simp add: raw_the_def)
  have ok: "mapping_ok (rs_world s) m" and data: "w_data (rs_world s) f = rs_expected s" and kind: "kind \<noteq> Raw_ReadOnly"
    using assms the m by (auto simp: raw_sim_def)
  note wl = raw_wlen_the [OF the]
  let ?i = "unat at mod raw_wlen s" and ?B = "mapping_bytes (rs_world s) m"
  have i: "?i < unat (m_len m)" using nz wl by simp
  obtain m' w' where st: "mapping_store ?i [x] (m, rs_world s) = (m', w')" by fastforce
  note S = mapping_store_ok [OF ok _ st]
  have ok': "mapping_ok w' m'" and b': "mapping_bytes w' m' = splice_at ?B ?i [x]" and l': "m_len m' = m_len m"
    using S i by simp_all
  have lB: "?i < length ?B" using i length_mapping_bytes [OF ok] by simp
  have nth: "nth_checked (mapping_bytes w' m') ?i = Some x"
    using lB by (simp add: b' nth_checked_def rust_assert_def nth_splice_at length_splice_at)
  show ?thesis
  proof (cases "kind = Raw_Shared")
    case True
    have mem: "m_mem m = Window f base" using assms the True i by (auto simp: raw_sim_def)
    note W = window_nth(1) [OF ok mem i]
    have "m_mem m' = Window f base" "w_data w' f = splice_at (rs_expected s) (base + ?i) [x]"
      using mapping_store_frame(2,3) [OF st mem] data by simp_all
    moreover have "model_copy (base + ?i) [x] (rs_expected s) = Some (splice_at (rs_expected s) (base + ?i) [x])"
      using W data by (intro model_copy_fits) simp
    ultimately show ?thesis using m nz st nth True ok' by (simp add: raw_write_step_def raw_sim_def raw_the_def)
  next
    case False
    with kind have k: "kind \<in> {Raw_CopyOnWrite, Raw_Anonymous}" by (cases kind) simp_all
    then obtain bs where "m_mem m = Private_Bytes bs" using assms the by (auto simp: raw_sim_def)
    with st have "w' = rs_world s" "m_mem m' = Private_Bytes (splice_at bs ?i [x])" by (auto simp: mapping_store_def)
    then show ?thesis using m nz st nth False k ok' data by (auto simp: raw_write_step_def raw_sim_def raw_the_def)
  qed
qed

lemma raw_flush_ok:
  assumes "granting lim env" "raw_sim kind f base s" "fl = raw_flush env \<or> fl = raw_flush_async env"
  shows "\<exists>s'. raw_flush_step fl s = Some s' \<and> raw_sim kind f base s'"
proof (cases "rs_rw s")
  case (Some m)
  then have "mapping_ok (rs_world s) m" using assms(2) by (auto simp: raw_sim_def raw_the_def)
  from granted_flush [OF assms(1) this, of 0 "m_len m"] obtain w' where w: "fl m (rs_world s) = (Inr (), w')"
    using assms(3) by (force simp: raw_flush_def raw_flush_async_def)
  have "quiet (fl m)" using assms(3) by (auto simp: raw_flush_def raw_flush_async_def intro: quiet_ranged)
  from quietD [OF this w] raw_sim_quiet [OF assms(2)] w Some show ?thesis by (simp add: raw_flush_step_def)
qed (use assms(2) in \<open>simp add: raw_flush_step_def\<close>)

lemma mapping_flush_refused:
  assumes "granting lim env" "\<not> unat off + unat len \<le> unat (m_len m)"
  shows "\<not> is_ok (fst (mapping_flush env m off len mode w))"
proof -
  obtain page where p: "os_page_size env = Inr page" using granting_page [OF assms(1)] by blast
  obtain e where "mapping_span env m off len = Inl e"
    using flush_span_out_of_range [of "m_len m" off len "m_delta m" page] assms(2) p by (auto simp: mapping_span_def)
  then show ?thesis by (simp add: mapping_flush_def)
qed

lemma raw_range_ok:
  assumes "granting lim env" "raw_sim kind f base s" "fl = raw_flush_range env \<or> fl = raw_flush_async_range env"
  shows "\<exists>s'. raw_range_step fl off len s = Some s' \<and> raw_sim kind f base s'"
proof (cases "rs_rw s")
  case (Some m)
  then have the: "raw_the s = Some m" by (simp add: raw_the_def)
  then have ok: "mapping_ok (rs_world s) m" using assms(2) by (auto simp: raw_sim_def)
  obtain md where md: "fl m off len = mapping_flush env m off len md"
    using assms(3) by (auto simp: raw_flush_range_def raw_flush_async_range_def)
  obtain r w' where w: "fl m off len (rs_world s) = (r, w')" by fastforce
  have fit: "unat off \<le> unat (m_len m) \<and> unat len \<le> unat (m_len m) - unat off \<longleftrightarrow> unat off + unat len \<le> unat (m_len m)"
    by linarith
  have "is_ok r \<longleftrightarrow> unat off + unat len \<le> unat (m_len m)"
    using granted_flush [OF assms(1) ok, of off len md "rs_world s"]
      mapping_flush_refused [OF assms(1), of off len m md "rs_world s"] w by (auto simp: md)
  moreover have "same_files (rs_world s) w'" using quietD [OF quiet_ranged(1)] w by (simp add: md)
  ultimately show ?thesis
    using Some w raw_wlen_the [OF the] raw_sim_quiet [OF assms(2)] by (simp add: raw_range_step_def Let_def fit rust_assert_def)
qed (use assms(2) in \<open>simp add: raw_range_step_def\<close>)

lemma raw_op_ok:
  assumes "granting lim env" "raw_sim kind f base s"
  shows "\<exists>s'. raw_op_step env kind base op s = Some s' \<and> raw_sim kind f base s'"
  using raw_read_ok [OF assms(2)] raw_write_ok [OF assms(2)] raw_flush_ok [OF assms] raw_range_ok [OF assms] assms(2)
  by (cases op) auto

lemma raw_loop_ok:
  assumes "granting lim env"
  shows "raw_sim kind f base s \<Longrightarrow> \<exists>s'. raw_loop env kind base ops s = Some s' \<and> raw_sim kind f base s'"
proof (induction ops arbitrary: s)
  case (Cons op ops)
  obtain s' where "raw_op_step env kind base op s = Some s'" "raw_sim kind f base s'"
    using raw_op_ok [OF assms Cons.prems] by blast
  with Cons.IH [of s'] show ?case by simp
qed simp

lemma raw_finish_ok:
  assumes "granting lim env" "raw_sim kind f base s"
  shows "\<exists>w. raw_finish env readable_now f pth s = Some w"
proof -
  obtain s' where s: "raw_flush_step (raw_flush env) s = Some s'" "raw_sim kind f base s'"
    using raw_flush_ok [OF assms] by blast
  let ?rel = "\<lambda>m w. case m of Some x \<Rightarrow> mapping_drop env x w | None \<Rightarrow> w"
  have "w_data (?rel m w) = w_data w" for m w
    using mapping_drop_files [of w env] by (simp add: same_files_def split: option.splits)
  with s show ?thesis by (simp add: raw_finish_def Let_def raw_sim_def)
qed

section \<open>Opening the window\<close>

lemma raw_options_simps:
  "ro_offset (case len of Some l \<Rightarrow> options_len l (options_offset off options_new) | None \<Rightarrow> options_offset off options_new) = off"
  "ro_len (case len of Some l \<Rightarrow> options_len l (options_offset off options_new) | None \<Rightarrow> options_offset off options_new) = len"
  by (simp_all add: options_len_def options_offset_def options_new_def split: option.splits)

lemma raw_window_iff:
  assumes "flen < 2 ^ 63"
  shows "raw_window off len flen = Some (start, n) \<longleftrightarrow> start = unat off \<and> unat off + n \<le> flen
    \<and> n = (case len of Some l \<Rightarrow> unat l | None \<Rightarrow> flen - unat off)"
proof -
  have "unat (of_nat flen :: u64) = flen" using assms by (simp add: unat_of_nat)
  then have "off > of_nat flen \<longleftrightarrow> flen < unat off" by (simp add: word_less_unat)
  then show ?thesis by (auto simp: raw_window_def Let_def split: option.splits)
qed

lemma map_window_cases:
  assumes "granting lim env" "length (w_data w f) \<le> lim" "length (w_data w f) < 2 ^ 63"
    and "map_impl env ro f acc w = (r, w')"
  shows "case raw_window (ro_offset ro) (ro_len ro) (length (w_data w f)) of
      None \<Rightarrow> (\<exists>e. r = Inl e \<and> io_kind e = InvalidInput)
    | Some (start, n) \<Rightarrow> (\<exists>m. r = Inr m \<and> unat (m_len m) = n \<and> start = unat (ro_offset ro) \<and> start + n \<le> length (w_data w f))"
proof -
  let ?L = "length (w_data w f)"
  obtain page where p: "os_page_size env = Inr page" "offset_granularity env = Inr page"
    using granting_page [OF assms(1)] by blast
  have win: "raw_window (ro_offset ro) (ro_len ro) ?L = Some (a, n) \<longleftrightarrow>
      a = unat (ro_offset ro) \<and> unat (ro_offset ro) + n \<le> ?L \<and> n = window_len ?L ro" for a n
    using raw_window_iff [OF assms(3)] by (simp add: window_len_def)
  show ?thesis
  proof (cases "raw_window (ro_offset ro) (ro_len ro) ?L")
    case (Some x)
    then obtain a n where x: "x = (a, n)" by (cases x)
    with Some win have n: "a = unat (ro_offset ro)" "unat (ro_offset ro) + n \<le> ?L" "n = window_len ?L ro" by auto
    have "unat (ro_offset ro) mod unat page \<le> unat (ro_offset ro)" by simp
    then have "window_len ?L ro + unat (ro_offset ro) mod unat page \<le> ?L" using n by linarith
    then obtain m where "r = Inr m"
      using granted_map [OF assms(1,3) p(1), of ro acc] n assms(2-4) by auto
    with map_impl_ok(3) [OF assms(4) [unfolded this] assms(3)] n Some x show ?thesis by simp
  next
    case None
    have no: "\<not> unat (ro_offset ro) + window_len ?L ro \<le> ?L" using win [of "unat (ro_offset ro)" "window_len ?L ro"] None by simp
    have "\<exists>e. resolve_len (file_len w f) (ro_offset ro) (ro_len ro) (MAX_LEN :: usize) = Inl e"
      using no by (cases "resolve_len (file_len w f) (ro_offset ro) (ro_len ro) (MAX_LEN :: usize)")
        (auto simp: resolve_len_Inr unat_file_len [OF assms(3)] window_len_def split: option.splits)
    then obtain e where e: "resolve_len (file_len w f) (ro_offset ro) (ro_len ro) (MAX_LEN :: usize) = Inl e" ..
    have "r = Inl e" using assms(4) p(2) granted_metadata [OF assms(1), of f w] e by (simp add: map_impl_def)
    with resolve_len_Inl [OF e] None show ?thesis by simp
  qed
qed

lemma raw_sim_mapped:
  assumes "map_impl env ro f acc w = (Inr m, w')" "length (w_data w f) < 2 ^ 63" "base = unat (ro_offset ro)"
    and "acc = (case kind of Raw_ReadOnly \<Rightarrow> Access_Read | Raw_Shared \<Rightarrow> Access_Write | _ \<Rightarrow> Access_Copy)" "kind \<noteq> Raw_Anonymous"
    and "pair = (if kind = Raw_ReadOnly then (None, Some m) else (Some m, None))"
  shows "raw_sim kind f base \<lparr>rs_rw = fst pair, rs_ro = snd pair, rs_world = w', rs_expected = w_data w f\<rparr>"
  using map_impl_ok(1,6) [OF assms(1,2)] map_impl_data(1) [OF assms(1)] assms(3-6)
  by (cases kind) (auto simp: raw_sim_def raw_the_def access_mem_def)

lemma raw_opened_ok:
  assumes "granting lim env" "length (w_data w f) \<le> lim" "length (w_data w f) < 2 ^ 63"
    and "raw_mapped env kind off len f w = (r, w')" "window = raw_window off len (length (w_data w f))"
  shows "raw_opened kind window (w_data w f) r w' = Some None
    \<or> (\<exists>rw ro. raw_opened kind window (w_data w f) r w' = Some (Some (rw, ro))
         \<and> raw_sim kind f (case window of Some (a, _) \<Rightarrow> a | None \<Rightarrow> 0)
             \<lparr>rs_rw = rw, rs_ro = ro, rs_world = w', rs_expected = w_data w f\<rparr>)"
proof (cases "kind = Raw_Anonymous")
  case True
  show ?thesis
  proof (cases r)
    case (Inl e)
    with True show ?thesis by (simp add: raw_opened_def)
  next
    case (Inr pair)
    with True assms(4) obtain m where "rawmmapmut_map_anon env ((case len of Some l \<Rightarrow> l | None \<Rightarrow> 0) mod push_bit 20 1) w = (Inr m, w')"
      and pair: "pair = (Some m, None)"
      by (auto simp: raw_mapped_def Let_def bind_se_Inr)
    then have "raw_map_anon env (options_len ((case len of Some l \<Rightarrow> l | None \<Rightarrow> 0) mod push_bit 20 1) options_new) w = (Inr m, w')"
      by (simp add: rawmmapmut_map_anon_def)
    note A = raw_map_anon_ok [OF this]
    have "\<exists>bs. m_mem m = Private_Bytes bs"
      using A(1,2) by (auto simp: mapping_ok_def split: if_splits mem_ref.splits)
    with A pair Inr True show ?thesis by (auto simp: raw_opened_def raw_sim_def raw_the_def)
  qed
next
  case False
  define ro where "ro = (case len of Some l \<Rightarrow> options_len l (options_offset off options_new) | None \<Rightarrow> options_offset off options_new)"
  define acc where "acc = (case kind of Raw_ReadOnly \<Rightarrow> Access_Read | Raw_Shared \<Rightarrow> Access_Write | _ \<Rightarrow> Access_Copy)"
  have ro: "ro_offset ro = off" "ro_len ro = len" by (simp_all add: ro_def raw_options_simps)
  obtain q where q: "map_impl env ro f acc w = (q, w')"
    and r: "r = (case q of Inl e \<Rightarrow> Inl e | Inr m \<Rightarrow> Inr (if kind = Raw_ReadOnly then (None, Some m) else (Some m, None)))"
    using assms(4) False
    by (cases kind) (auto simp: raw_mapped_def Let_def ro_def [symmetric] acc_def raw_map_def raw_map_mut_def raw_map_copy_def
        bind_se_def split: sum.splits prod.splits)
  note W = map_window_cases [OF assms(1-3) q, unfolded ro, folded assms(5)]
  show ?thesis
  proof (cases window)
    case None
    with W obtain e where "q = Inl e" "io_kind e = InvalidInput" by auto
    with None r False show ?thesis by (simp add: raw_opened_def rust_assert_def)
  next
    case (Some x)
    then obtain a n where x: "x = (a, n)" by (cases x)
    with W Some obtain m where m: "q = Inr m" "unat (m_len m) = n" "a = unat off" "a + n \<le> length (w_data w f)" by auto
    let ?pair = "if kind = Raw_ReadOnly then (None, Some m) else (Some m, None)"
    have "mapping_bytes w' m = sub_slice (w_data w f) a (a + n)"
      using map_impl_ok(5) [OF q [unfolded m(1)] assms(3)] m ro by simp
    then have "raw_opened kind window (w_data w f) r w' = Some (Some ?pair)"
      using m r Some x False
      by (auto simp: raw_opened_def model_range_def rust_assert_def length_slice)
    moreover have "raw_sim kind f a \<lparr>rs_rw = fst ?pair, rs_ro = snd ?pair, rs_world = w', rs_expected = w_data w f\<rparr>"
      by (rule raw_sim_mapped [OF q [unfolded m(1)] assms(3) _ acc_def False refl]) (simp add: m(3) ro)
    ultimately show ?thesis using Some x by (cases "kind = Raw_ReadOnly") simp_all
  qed
qed

text \<open>Everything after the file is written: map it, run the operations, check the file.\<close>

lemma raw_session_ok:
  assumes "granting lim env" "length orig \<le> lim" "length orig < 2 ^ 63" "w_data w f = orig"
    and "raw_mapped env kind off len f w = (r, w')" "window = raw_window off len (length orig)"
  shows "\<exists>w''. Option.bind (raw_opened kind window orig r w') (\<lambda>c. case c of
      None \<Rightarrow> Some (snd (fs_remove_file env pth w'))
    | Some (rw, ro) \<Rightarrow>
        Option.bind (raw_loop env kind (case window of Some (s, _) \<Rightarrow> s | None \<Rightarrow> 0) ops
            \<lparr>rs_rw = rw, rs_ro = ro, rs_world = w', rs_expected = orig\<rparr>)
          (raw_finish env readable_now f pth)) = Some w''"
  using raw_opened_ok [OF assms(1) _ _ assms(5), of window, unfolded assms(4), OF assms(2,3,6)]
proof (elim disjE exE conjE)
  fix rw ro
  let ?a = "case window of Some (s, _) \<Rightarrow> s | None \<Rightarrow> 0"
  assume o: "raw_opened kind window orig r w' = Some (Some (rw, ro))"
    and "raw_sim kind f ?a \<lparr>rs_rw = rw, rs_ro = ro, rs_world = w', rs_expected = orig\<rparr>"
  from raw_loop_ok [OF assms(1) this(2)] obtain s
    where s: "raw_loop env kind ?a ops \<lparr>rs_rw = rw, rs_ro = ro, rs_world = w', rs_expected = orig\<rparr> = Some s" "raw_sim kind f ?a s"
    by blast
  from raw_finish_ok [OF assms(1) s(2)] s(1) o show ?thesis by simp
qed simp

section \<open>Properties\<close>



end
