(* ===== verification/Little_Endian.thy ===== *)
theory Little_Endian
  imports Prelude
begin

text \<open>
  The bytes of a machine word in memory, least significant first: the order of \<open>to_le_bytes\<close>, and of every
  integer on the targets modelled.
\<close>

definition le_bytes :: "nat \<Rightarrow> 'a::len word \<Rightarrow> byte list" where
  "le_bytes n x = map (\<lambda>k. ucast (drop_bit (8 * k) x)) [0..<n]"

definition le_value :: "byte list \<Rightarrow> 'a::len word" where
  "le_value bs = foldr (\<lambda>b acc. push_bit 8 acc OR ucast b) bs 0"

lemma length_le_bytes [simp]: "length (le_bytes n x) = n"
  by (simp add: le_bytes_def)

lemma le_value_Nil [simp]: "le_value [] = 0"
  by (simp add: le_value_def)

lemma le_value_Cons [simp]: "le_value (b # bs) = push_bit 8 (le_value bs) OR ucast b"
  by (simp add: le_value_def)

lemma le_bytes_Suc: "le_bytes (Suc n) x = ucast x # le_bytes n (drop_bit 8 x)"
proof -
  have "[0..<Suc n] = 0 # map Suc [0..<n]" by (simp add: map_Suc_upt upt_conv_Cons)
  then show ?thesis by (simp add: le_bytes_def add.commute)
qed

lemma le_roundtrip: "le_value (le_bytes n x) = (take_bit (8 * n) x :: 'a::len word)"
proof (induction n arbitrary: x)
  case (Suc n)
  show ?case
    unfolding le_bytes_Suc le_value_Cons Suc.IH
    by (rule bit_word_eqI) (auto simp: bit_simps)
qed (simp add: le_bytes_def)

lemma le_roundtrip_full:
  assumes "LENGTH('a::len) \<le> 8 * n"
  shows "le_value (le_bytes n x) = (x :: 'a word)"
  using assms by (auto simp: le_roundtrip bit_simps intro: bit_word_eqI)

end
