(* ===== verification/Fuzz_Small.thy ===== *)
theory Fuzz_Small
  imports Fuzz_Raw Little_Endian
begin

text \<open>
  The four single-call fuzz targets: \<open>bounds_checks.rs\<close>, \<open>read_into.rs\<close>, \<open>update_region.rs\<close> and \<open>atomic_view.rs\<close>.
  The last three discard what the call returns; the model hands the discarded result back beside the
  world, so that the contract their comments state can be a theorem. \<open>None\<close> is a panic or a call that does not return.
\<close>

section \<open>\<open>bounds_checks.rs\<close>\<close>

definition fuzz_bounds :: "u64 \<Rightarrow> u64 \<Rightarrow> u64 \<Rightarrow> unit option" where
  "fuzz_bounds off len tot =
     (let result = ensure_in_bounds off len tot;
          valid = (off \<le> tot \<and> (case checked_add off len of Some e \<Rightarrow> e \<le> tot | None \<Rightarrow> False));
          slice_result = slice_range64 off len tot
      in Option.bind (case result of Inr _ \<Rightarrow> rust_assert valid () | Inl _ \<Rightarrow> rust_assert (\<not> valid) ()) (\<lambda>_.
         case (is_ok result, is_ok slice_result) of
           (True, True) \<Rightarrow>
             (case slice_result of
                Inr (start, fin) \<Rightarrow> rust_assert (start = off \<and> fin = off + len) ()
              | Inl _ \<Rightarrow> None)
         | (False, False) \<Rightarrow> Some ()
         | _ \<Rightarrow> None))"

section \<open>\<open>read_into.rs\<close>, \<open>update_region.rs\<close>\<close>

text \<open>What the three harnesses around a mapping share: create it, run the calls, drop it, remove the file.\<close>

definition with_created :: "env \<Rightarrow> path \<Rightarrow> u64 \<Rightarrow> (sys \<Rightarrow> ('r \<times> sys) option) \<Rightarrow> world \<Rightarrow> ('r option \<times> world) option" where
  "with_created env pth sz calls w =
     (case create_rw env pth sz (snd (fs_remove_file env pth w)) of
        (Inl _, w1) \<Rightarrow> Some (None, snd (fs_remove_file env pth w1))
      | (Inr mm, w1) \<Rightarrow>
          map_option (\<lambda>(r, s). (Some r, snd (fs_remove_file env pth (mapping_drop env (s_mapping s) (s_world s)))))
            (calls \<lparr>s_mm = mm, s_world = w1\<rparr>))"

definition fuzz_size :: "32 word \<Rightarrow> u64" where
  "fuzz_size file_size = ucast file_size mod (64 * 1024) + 1"

definition fuzz_read :: "env \<Rightarrow> path \<Rightarrow> 32 word \<Rightarrow> u64 \<Rightarrow> 16 word \<Rightarrow> world \<Rightarrow>
    ((mmap_io_error + byte list) option \<times> world) option" where
  "fuzz_read env pth file_size off buf_len =
     with_created env pth (fuzz_size file_size) (read_into env off (replicate (unat buf_len) 0))"

definition fuzz_update_region :: "env \<Rightarrow> path \<Rightarrow> 32 word \<Rightarrow> u64 \<Rightarrow> byte list \<Rightarrow> world \<Rightarrow>
    (((mmap_io_error + unit) \<times> (mmap_io_error + unit)) option \<times> world) option" where
  "fuzz_update_region env pth file_size off data =
     (let payload = (if length data > 8 * 1024 then take (8 * 1024) data else data)
      in with_created env pth (fuzz_size file_size) (\<lambda>s.
           Option.bind (update_region env off payload s) (\<lambda>(r1, s1).
           Option.bind (flush_range env off (of_nat (length payload)) s1) (\<lambda>(r2, s2). Some ((r1, r2), s2)))))"

section \<open>\<open>atomic_view.rs\<close>\<close>

text \<open>The bytes of a value in memory (the target is little-endian).\<close>

definition cell_bytes :: "atomic_cell \<Rightarrow> u64 \<Rightarrow> byte list" where
  "cell_bytes c x = le_bytes (unat (cell_size c)) x"

text \<open>A single view: store, load, drop. The result is the value loaded.\<close>

definition single_roundtrip :: "atomic_cell \<Rightarrow> u64 \<Rightarrow> (mmap_io_error + atomic_view) \<times> sys \<Rightarrow> (mmap_io_error + byte list) \<times> sys" where
  "single_roundtrip c x rs =
     (case rs of
        (Inl e, s) \<Rightarrow> (Inl e, s)
      | (Inr v, s) \<Rightarrow>
          let s1 = cell_store (view_deref v) (cell_bytes c x) s
          in (Inr (cell_load c (view_deref v) s1), drop_atomic_view v s1))"

text \<open>\<open>for (i, slot) in view.iter().enumerate() { slot.store(i) }\<close>\<close>

fun store_slots :: "atomic_slice_view \<Rightarrow> nat list \<Rightarrow> sys \<Rightarrow> sys option" where
  "store_slots v [] s = Some s"
| "store_slots v (i # is) s =
     Option.bind (slice_deref v i) (\<lambda>p. store_slots v is (cell_store p (cell_bytes (av_cell v) (of_nat i)) s))"

definition slice_stores :: "(mmap_io_error + atomic_slice_view) \<times> sys \<Rightarrow> ((mmap_io_error + byte list) \<times> sys) option" where
  "slice_stores rs =
     (case rs of
        (Inl e, s) \<Rightarrow> Some (Inl e, s)
      | (Inr v, s) \<Rightarrow> map_option (\<lambda>s1. (Inr [], drop_atomic_slice v s1)) (store_slots v [0..<unat (av_len v)] s))"

definition fuzz_atomic :: "env \<Rightarrow> path \<Rightarrow> u64 \<Rightarrow> byte \<Rightarrow> byte \<Rightarrow> world \<Rightarrow> ((mmap_io_error + byte list) option \<times> world) option" where
  "fuzz_atomic env pth off slot_kind slice_count =
     with_created env pth 4096 (\<lambda>s.
       if slot_kind mod 4 = 0 then map_option (single_roundtrip AtomicU32 0xDEADBEEF) (atomic_u32 off s)
       else if slot_kind mod 4 = 1 then map_option (single_roundtrip AtomicU64 0xDEADBEEFCAFEBABE) (atomic_u64 off s)
       else if slot_kind mod 4 = 2 then Option.bind (atomic_u32_slice off (ucast slice_count mod 32) s) slice_stores
       else Option.bind (atomic_u64_slice off (ucast slice_count mod 16) s) slice_stores)"

section \<open>Facts\<close>

text \<open>The calls answer as \<open>P\<close> says exactly when the mapping was created.\<close>

definition if_created :: "env \<Rightarrow> path \<Rightarrow> u64 \<Rightarrow> world \<Rightarrow> ('r \<Rightarrow> bool) \<Rightarrow> 'r option \<Rightarrow> bool" where
  "if_created env pth sz w P q \<longleftrightarrow>
     (case fst (create_rw env pth sz (snd (fs_remove_file env pth w))) of
        Inl _ \<Rightarrow> q = None
      | Inr _ \<Rightarrow> (case q of Some r \<Rightarrow> P r | None \<Rightarrow> False))"

lemma with_created_cases:
  assumes "world_ok w" "\<And>s. fresh_sys sz s \<Longrightarrow> \<exists>r s'. calls s = Some (r, s') \<and> P r"
  shows "\<exists>q w'. with_created env pth sz calls w = Some (q, w') \<and> if_created env pth sz w P q"
proof -
  obtain r0 w0 where w0: "fs_remove_file env pth w = (r0, w0)" by fastforce
  have ok: "world_ok w0" by (rule world_ok_removed [OF assms(1) w0])
  obtain q w1 where c: "create_rw env pth sz w0 = (q, w1)" by fastforce
  show ?thesis
  proof (cases q)
    case (Inl e)
    then show ?thesis using w0 c by (simp add: with_created_def if_created_def)
  next
    case (Inr mm)
    obtain r s' where "calls \<lparr>s_mm = mm, s_world = w1\<rparr> = Some (r, s')" "P r"
      using assms(2) [OF created_fresh [OF ok c [unfolded Inr]]] by blast
    then show ?thesis using w0 c Inr by (simp add: with_created_def if_created_def)
  qed
qed

lemma fresh_read:
  assumes "fresh_sys n s" "length buf < 2 ^ 63"
  shows "read_into env off buf s = Some (if buf = [] \<or> unat off + length buf \<le> unat n then Inr (replicate (length buf) 0)
      else Inl (OutOfBounds off (of_nat (length buf)) n), s)"
proof (cases "buf = []")
  case True
  then show ?thesis by (simp add: read_into_def op_return_def)
next
  case False
  note F = freshD [OF assms(1)]
  have "sub_slice (replicate (unat n) 0) (unat off) (unat off + length buf) = replicate (length buf) (0 :: byte)"
    if "unat off + length buf \<le> unat n" using that by (simp add: sub_slice_def)
  with read_into_eq [OF F(1,4) assms(2) False, of env off] False F(3,6,7) show ?thesis by simp
qed

lemma never_counts: "i_policy (s_mm s) = Never \<Longrightarrow> \<exists>s'. apply_flush_policy env n s = Some (Inr (), s')"
  by (simp add: apply_flush_policy_def count_update_def Let_def)

lemma fresh_update:
  assumes "fresh_sys n s" "length d < 2 ^ 63"
  shows "\<exists>r1 s1 r2 s2. update_region env off d s = Some (r1, s1) \<and> flush_range env off (of_nat (length d)) s1 = Some (r2, s2)
    \<and> (if d = [] \<or> unat off + length d \<le> unat n then r1 = Inr () \<and> (r2 = Inr () \<or> (\<exists>msg. r2 = Inl (FlushFailed msg)))
       else r1 = Inl (OutOfBounds off (of_nat (length d)) n) \<and> r2 = r1)"
proof -
  note F = freshD [OF assms(1)]
  have u: "unat (of_nat (length d) :: u64) = length d" by (rule unat_of_length [OF assms(2)])
  consider (none) "d = []" | (out) "d \<noteq> []" "\<not> unat off + length d \<le> unat n" | (fit) "d \<noteq> []" "unat off + length d \<le> unat n" by blast
  then show ?thesis
  proof cases
    case none
    then show ?thesis by (simp add: update_region_def flush_range_def op_return_def)
  next
    case out
    have "update_region env off d s = Some (Inl (OutOfBounds off (of_nat (length d)) n), s)"
      using out update_region_within_refused(3) [OF assms(2) F(5,2), of off "of_nat (length d)" env] F(6) u
      by (simp add: update_region_def)
    moreover have "(of_nat (length d) :: u64) \<noteq> 0" using out(1) u by (metis length_0_conv unat_0)
    then have "flush_range env off (of_nat (length d)) s = Some (Inl (OutOfBounds off (of_nat (length d)) n), s)"
      using out u F(3,6) by (simp add: flush_range_def map_read_eq op_bind_def op_lift_def slice_range64_eq)
    ultimately show ?thesis using out by simp
  next
    case fit
    let ?t = "store_at (unat off) d s"
    have fits: "unat off + max (unat (of_nat (length d) :: u64)) (length d) \<le> unat (m_len (s_mapping s))" using fit(2) u F(6) by simp
    obtain s1 where a: "apply_flush_policy env (of_nat (length d)) ?t = Some (Inr (), s1)"
      using never_counts [of ?t] F(8) by auto
    then have up: "update_region env off d s = Some (Inr (), s1)"
      using update_region_within_ok [OF F(1,5,2) assms(2) fits] fit(1) by (simp add: update_region_def)
    have q: "quiet_sys ?t s1" by (rule apply_flush_policy_quiet [OF a])
    have f1: "read_free s1" "m_len (s_mapping s1) = n"
      using q F(2,6) store_at_ok(3) [OF F(1), of "unat off" d] fit(2)
      by (auto simp: quiet_sys_def read_free_def write_free_def)
    have nz: "(of_nat (length d) :: u64) \<noteq> 0" using fit(1) u by (metis length_0_conv unat_0)
    have "\<exists>r2 s2. flush_range env off (of_nat (length d)) s1 = Some (r2, s2) \<and> (r2 = Inr () \<or> (\<exists>msg. r2 = Inl (FlushFailed msg)))"
    proof (cases "\<exists>m. i_map (s_mm s1) = Rw m \<and> off = 0 \<and> off + of_nat (length d) = m_len m")
      case True
      then obtain m where m: "i_map (s_mm s1) = Rw m" "off = 0" "off + of_nat (length d) = m_len m" by blast
      then have "flush_range env off (of_nat (length d)) s1 = flush_mapped env s1"
        using nz f1 fit(2) u
        by (auto simp: flush_range_def map_read_eq op_bind_def op_lift_def slice_range64_eq mmap_flush_def)
      moreover obtain r2 s2 where "flush_mapped env s1 = Some (r2, s2)" "mmap_flush env s1 = Some (r2, s2)"
        using m(1) f1(1) by (cases rule: flush_mapped_cases [of env s1]) (auto simp: mmap_flush_def map_read_eq)
      ultimately show ?thesis using mmap_flush_result by metis
    next
      case False
      then show ?thesis
        using nz f1 fit(2) u
        by (cases "i_map (s_mm s1)")
          (auto simp: flush_range_def map_read_eq op_bind_def op_lift_def slice_range64_eq op_io_def map_err_def
            split: prod.splits sum.splits)
    qed
    then show ?thesis using up fit by auto
  qed
qed

text \<open>A fresh mapping grants every aligned atomic view that fits.\<close>

lemma fresh_registers: "\<exists>reg v. register_atomic b e sz registry_new = (Inr reg, v)"
proof (cases "register_atomic b e sz registry_new")
  case (Pair r v)
  have "plain_lookup registry_new h = None" for h
    by (cases h) (auto simp: registry_new_def slab_empty_def slab_lookup_def)
  then show ?thesis
    using register_atomic_refused(2) [OF registry_ok_new, of b e sz] Pair
    by (cases r) (auto simp: mixed_hit_def registry_new_def atomic_empty_def)
qed

lemma fresh_parts:
  assumes "fresh_sys sz s"
  shows "\<not> unat (cell_size c) dvd unat off \<Longrightarrow> atomic_parts c off n s = Some (Inl (Misaligned (cell_size c) off), s)"
    and "unat (cell_size c) dvd unat off \<Longrightarrow> \<not> request_fits c off n sz \<Longrightarrow>
      atomic_parts c off n s = Some (Inl (OutOfBounds off (saturating_mul (cell_size c) n) sz), s)"
    and "unat (cell_size c) dvd unat off \<Longrightarrow> request_fits c off n sz \<Longrightarrow>
      \<exists>reg s1. atomic_parts c off n s = Some (Inr (reg, raw_as_ptr (s_mapping s) + off), s1) \<and> granted c off n reg s s1"
proof -
  note F = freshD [OF assms]
  show "\<not> unat (cell_size c) dvd unat off \<Longrightarrow> atomic_parts c off n s = Some (Inl (Misaligned (cell_size c) off), s)"
    "unat (cell_size c) dvd unat off \<Longrightarrow> \<not> request_fits c off n sz \<Longrightarrow>
      atomic_parts c off n s = Some (Inl (OutOfBounds off (saturating_mul (cell_size c) n) sz), s)"
    using F(3,5,6) by (simp_all add: atomic_parts_eq [OF F(1)])
  assume a: "unat (cell_size c) dvd unat off" "request_fits c off n sz"
  obtain reg v where "register_atomic (unat off) (unat off + unat (cell_size c) * unat n) (unat (cell_size c)) registry_new = (Inr reg, v)"
    using fresh_registers by blast
  then obtain s1 where p: "atomic_parts c off n s = Some (Inr (reg, raw_as_ptr (s_mapping s) + off), s1)"
    using a F(3,5,6,9) by (simp add: atomic_parts_eq [OF F(1)])
  have "atomic_room (vr_atomics (i_views (s_mm s)))" using F(9) by simp
  from atomic_parts_granted(1) [OF F(1,4) this p] p
  show "\<exists>reg s1. atomic_parts c off n s = Some (Inr (reg, raw_as_ptr (s_mapping s) + off), s1) \<and> granted c off n reg s s1"
    by blast
qed

lemma length_cell_bytes [simp]: "length (cell_bytes c x) = unat (cell_size c)"
  by (simp add: cell_bytes_def)

text \<open>The contract of the request: alignment first, then bounds, then success.\<close>

definition view_answer :: "atomic_cell \<Rightarrow> u64 \<Rightarrow> usize \<Rightarrow> u64 \<Rightarrow> byte list \<Rightarrow> mmap_io_error + byte list \<Rightarrow> bool" where
  "view_answer c off n sz bs r \<longleftrightarrow>
     r = (if \<not> unat (cell_size c) dvd unat off then Inl (Misaligned (cell_size c) off)
          else if \<not> unat off + unat (cell_size c) * unat n \<le> unat sz
          then Inl (OutOfBounds off (saturating_mul (cell_size c) n) sz)
          else Inr bs)"

lemma single_roundtrip_ok:
  assumes "fresh_sys sz s"
  shows "\<exists>r s'. map_option (single_roundtrip c x) (atomic_single c off s) = Some (r, s') \<and> view_answer c off 1 sz (cell_bytes c x) r"
proof -
  note F = freshD [OF assms]
  note P = fresh_parts [OF assms, of c off 1]
  consider "\<not> unat (cell_size c) dvd unat off" | "unat (cell_size c) dvd unat off" "\<not> request_fits c off 1 sz"
    | (ok) "unat (cell_size c) dvd unat off" "request_fits c off 1 sz" by blast
  then show ?thesis
  proof cases
    case ok
    from P(3) [OF ok] obtain reg s1 where p: "atomic_parts c off 1 s = Some (Inr (reg, raw_as_ptr (s_mapping s) + off), s1)"
      and g: "granted c off 1 reg s s1" by blast
    let ?p = "raw_as_ptr (s_mapping s) + off"
    have s1: "sys_ok s1" "atomics_fit s1" "locked (i_map (s_mm s1))" "s_mapping s1 = s_mapping s"
      using g F(5) by (simp_all add: granted_def)
    have "cell_offset ?p s1 + unat (cell_size c) \<le> unat (m_len (s_mapping s1))"
      using ok(2) F(6) s1(4) by (simp add: cell_offset_def request_fits_def)
    from cell_store_ok(3) [OF s1(1-3) length_cell_bytes this, of x] p ok show ?thesis
      by (simp add: atomic_single_def op_bind_def single_def single_roundtrip_def view_deref_def view_answer_def request_fits_def Let_def)
  qed (use P in \<open>simp_all add: atomic_single_def op_bind_def single_roundtrip_def view_answer_def request_fits_def\<close>)
qed

lemma store_slots_returns:
  "(\<And>i. i \<in> set is \<Longrightarrow> i < unat (av_len v)) \<Longrightarrow> \<exists>s'. store_slots v is s = Some s'"
  by (induction v "is" s rule: store_slots.induct) (simp_all add: slice_deref_def)

lemma slice_stores_ok:
  assumes "fresh_sys sz s"
  shows "\<exists>r s'. Option.bind (atomic_slice c off n s) slice_stores = Some (r, s') \<and> view_answer c off n sz [] r"
proof -
  note P = fresh_parts [OF assms, of c off n]
  consider "\<not> unat (cell_size c) dvd unat off" | "unat (cell_size c) dvd unat off" "\<not> request_fits c off n sz"
    | (ok) "unat (cell_size c) dvd unat off" "request_fits c off n sz" by blast
  then show ?thesis
  proof cases
    case ok
    from P(3) [OF ok] obtain reg s1 where "atomic_parts c off n s = Some (Inr (reg, raw_as_ptr (s_mapping s) + off), s1)" by blast
    then obtain v where v: "atomic_slice c off n s = Some (Inr v, s1)" by (simp add: atomic_slice_Some)
    obtain s2 where "store_slots v [0..<unat (av_len v)] s1 = Some s2" using store_slots_returns [of "[0..<unat (av_len v)]" v s1] by auto
    with v ok show ?thesis by (simp add: slice_stores_def view_answer_def request_fits_def)
  qed (use P in \<open>simp_all add: atomic_slice_def op_bind_def slice_stores_def view_answer_def request_fits_def\<close>)
qed

lemma branches:
  assumes "b \<Longrightarrow> \<exists>r s. x = Some (r, s) \<and> P r" "\<not> b \<Longrightarrow> \<exists>r s. y = Some (r, s) \<and> Q r"
  shows "\<exists>r s. (if b then x else y) = Some (r, s) \<and> (if b then P r else Q r)"
  using assms by (cases b) simp_all

lemma fuzz_bounds_ok: "fuzz_bounds off len tot = Some ()"
proof -
  have "(off \<le> tot \<and> (case checked_add off len of Some e \<Rightarrow> e \<le> tot | None \<Rightarrow> False)) \<longleftrightarrow> unat off + unat len \<le> unat tot"
    using ensure_in_bounds_iff [of off len tot]
    by (auto simp: ensure_in_bounds_def word_le_unat split: option.splits if_splits)
  then show ?thesis
    by (simp add: fuzz_bounds_def Let_def ensure_in_bounds_iff slice_range64_eq rust_assert_def)
qed

lemma fuzz_read_ok:
  assumes "world_ok w"
  shows "\<exists>q w'. fuzz_read env pth file_size off buf_len w = Some (q, w') \<and> if_created env pth (fuzz_size file_size) w
        (\<lambda>r. r = (if buf_len = 0 \<or> unat off + unat buf_len \<le> unat (fuzz_size file_size) then Inr (replicate (unat buf_len) 0)
             else Inl (OutOfBounds off (ucast buf_len) (fuzz_size file_size)))) q"
proof -
  have z: "unat buf_len = 0 \<longleftrightarrow> buf_len = 0" by (simp add: unat_eq_zero)
  have b: "length (replicate (unat buf_len) (0 :: byte)) < 2 ^ 63" using unat_bound [of buf_len] by simp
  have w: "(of_nat (unat buf_len) :: u64) = ucast buf_len" by simp
  show ?thesis unfolding fuzz_read_def
    by (rule with_created_cases [OF assms]) (use fresh_read [OF _ b] z w in auto)
qed

text \<open>What one update followed by a flush of the same range answers.\<close>

definition update_answer :: "u64 \<Rightarrow> nat \<Rightarrow> u64 \<Rightarrow> mmap_io_error + unit \<Rightarrow> mmap_io_error + unit \<Rightarrow> bool" where
  "update_answer off n sz r1 r2 \<longleftrightarrow>
     (if n = 0 \<or> unat off + n \<le> unat sz then r1 = Inr () \<and> (r2 = Inr () \<or> (\<exists>msg. r2 = Inl (FlushFailed msg)))
      else r1 = Inl (OutOfBounds off (of_nat n) sz) \<and> r2 = r1)"

lemma fuzz_update_region_ok:
  assumes "world_ok w"
  shows "\<exists>q w'. fuzz_update_region env pth file_size off data w = Some (q, w') \<and> if_created env pth (fuzz_size file_size) w
        (\<lambda>(r1, r2). update_answer off (min (length data) 8192) (fuzz_size file_size) r1 r2) q"
proof -
  define d where "d = (if length data > 8 * 1024 then take (8 * 1024) data else data)"
  have d: "length d = min (length data) 8192" "length d < 2 ^ 63" by (auto simp: d_def)
  have "\<exists>r s'. Option.bind (update_region env off d s) (\<lambda>(r1, s1).
        Option.bind (flush_range env off (of_nat (length d)) s1) (\<lambda>(r2, s2). Some ((r1, r2), s2))) = Some (r, s')
      \<and> (case r of (r1, r2) \<Rightarrow> update_answer off (length d) (fuzz_size file_size) r1 r2)"
    if "fresh_sys (fuzz_size file_size) s" for s
    using fresh_update [OF that d(2), of env off] by (fastforce simp: update_answer_def)
  from with_created_cases [OF assms, where P = "\<lambda>(r1, r2). update_answer off (length d) (fuzz_size file_size) r1 r2", OF this]
  show ?thesis unfolding fuzz_update_region_def Let_def d_def [symmetric] d(1) [symmetric] .
qed

lemma fuzz_atomic_ok:
  assumes "world_ok w"
  shows "\<exists>q w'. fuzz_atomic env pth off slot_kind slice_count w = Some (q, w') \<and> if_created env pth 4096 w
        (\<lambda>r. if slot_kind mod 4 = 0 then view_answer AtomicU32 off 1 4096 (cell_bytes AtomicU32 0xDEADBEEF) r
         else if slot_kind mod 4 = 1 then view_answer AtomicU64 off 1 4096 (cell_bytes AtomicU64 0xDEADBEEFCAFEBABE) r
         else if slot_kind mod 4 = 2 then view_answer AtomicU32 off (ucast slice_count mod 32) 4096 [] r
         else view_answer AtomicU64 off (ucast slice_count mod 16) 4096 [] r) q"
  unfolding fuzz_atomic_def
  by (rule with_created_cases [OF assms], unfold atomic_u32_def atomic_u64_def atomic_u32_slice_def atomic_u64_slice_def)
      (intro branches single_roundtrip_ok slice_stores_ok)

section \<open>Properties\<close>

text \<open>The single-call fuzz targets, on every input and whatever calls the kernel refuses. The bounds harness
  never fails. When the mapping can be created the calls are made and return: \<open>read_into\<close> returns zeros or exactly \<open>OutOfBounds\<close>; \<open>update_region\<close> and
  \<open>flush_range\<close> accept the same ranges, report \<open>OutOfBounds\<close> for the others, and only the flush can fail otherwise; and an atomic view is \<open>Misaligned\<close>,
  \<open>OutOfBounds\<close> or granted, in this order, with the stored value loaded back and every slot of a slice written without a panic.\<close>

lemma single_call_targets:
  assumes "world_ok w"
  shows "fuzz_bounds off len tot = Some ()
    \<and> (\<exists>q w'. fuzz_read env pth file_size off buf_len w = Some (q, w') \<and> if_created env pth (fuzz_size file_size) w
        (\<lambda>r. r = (if buf_len = 0 \<or> unat off + unat buf_len \<le> unat (fuzz_size file_size) then Inr (replicate (unat buf_len) 0)
             else Inl (OutOfBounds off (ucast buf_len) (fuzz_size file_size)))) q)
    \<and> (\<exists>q w'. fuzz_update_region env pth file_size off data w = Some (q, w') \<and> if_created env pth (fuzz_size file_size) w
        (\<lambda>(r1, r2). update_answer off (min (length data) 8192) (fuzz_size file_size) r1 r2) q)
    \<and> (\<exists>q w'. fuzz_atomic env pth off slot_kind slice_count w = Some (q, w') \<and> if_created env pth 4096 w
        (\<lambda>r. if slot_kind mod 4 = 0 then view_answer AtomicU32 off 1 4096 (cell_bytes AtomicU32 0xDEADBEEF) r
         else if slot_kind mod 4 = 1 then view_answer AtomicU64 off 1 4096 (cell_bytes AtomicU64 0xDEADBEEFCAFEBABE) r
         else if slot_kind mod 4 = 2 then view_answer AtomicU32 off (ucast slice_count mod 32) 4096 [] r
         else view_answer AtomicU64 off (ucast slice_count mod 16) 4096 [] r) q)"
  using fuzz_bounds_ok fuzz_read_ok [OF assms] fuzz_update_region_ok [OF assms] fuzz_atomic_ok [OF assms] by (intro conjI)

lemma single_call_targets_witness:
  "\<exists>w'. fuzz_atomic sample_env ''atomic'' 8 1 0 sample_world
     = Some (Some (Inr [0xBE, 0xBA, 0xFE, 0xCA, 0xEF, 0xBE, 0xAD, 0xDE]), w')"
proof -
  have k: "(1 :: byte) mod 4 = 1" by simp
  have b: "cell_bytes AtomicU64 0xDEADBEEFCAFEBABE = [0xBE, 0xBA, 0xFE, 0xCA, 0xEF, 0xBE, 0xAD, 0xDE]"
    by code_simp
  obtain mm w1 where c: "create_rw sample_env ''atomic'' 4096 (snd (fs_remove_file sample_env ''atomic'' sample_world)) = (Inr mm, w1)"
    using granted_create_rw [OF sample_granting, of 4096 4096] by (fastforce simp: MAX_MMAP_SIZE_def)
  from single_call_targets [OF sample_world_ok, where off = 8 and slot_kind = 1 and slice_count = 0
      and env = sample_env and pth = "''atomic''" and len = 0 and tot = 0 and file_size = 0 and buf_len = 0 and data = "[]"] k b
  obtain q w' where "fuzz_atomic sample_env ''atomic'' 8 1 0 sample_world = Some (q, w')"
    "if_created sample_env ''atomic'' 4096 sample_world (\<lambda>r. r = Inr [0xBE, 0xBA, 0xFE, 0xCA, 0xEF, 0xBE, 0xAD, 0xDE]) q"
    by (auto simp: view_answer_def)
  with c show ?thesis by (auto simp: if_created_def split: option.splits)
qed

end
