(* ===== verification/Example_Log.thy ===== *)
theory Example_Log
  imports Mirror Little_Endian
begin

text \<open>
  The append-only log of \<open>examples/05_log_appender.rs\<close>: length-prefixed records written at the tail of a
  mapping that grows on demand, flushed, dropped, and walked again through a read-only mapping. The program
  is modelled whole, over any list of records (the source has four); what it prints is the list of records
  it reads back.
\<close>

section \<open>The program\<close>

text \<open>\<open>u32::to_le_bytes\<close> and \<open>u32::from_le_bytes\<close>\<close>

definition to_le_bytes :: "32 word \<Rightarrow> byte list" where
  "to_le_bytes x = le_bytes 4 x"

definition from_le_bytes :: "byte list \<Rightarrow> 32 word" where
  "from_le_bytes bs = le_value bs"

definition initial_size :: u64 where
  "initial_size = 4 * 1024"

definition grow_step :: u64 where
  "grow_step = 64 * 1024"

definition log_messages :: "byte list list" where
  "log_messages = map (map of_char)
     [''first log entry'', ''second entry with more bytes'',
      ''third entry that is significantly longer to exercise growth across a chunk boundary'', ''fourth and final'']"

text \<open>\<open>Grow if the next write would exceed the mapping\<close>\<close>

definition log_grow :: "env \<Rightarrow> u64 \<Rightarrow> u64 \<Rightarrow> unit op" where
  "log_grow env tail needed s =
     (if tail + needed > mmap_len s then resize env (mmap_len s + grow_step) s else op_return () s)"

definition log_append :: "env \<Rightarrow> byte list \<Rightarrow> u64 \<Rightarrow> u64 op" where
  "log_append env msg tail =
     (let len_bytes = to_le_bytes (of_nat (length msg));
          needed = of_nat (length len_bytes + length msg)
      in op_bind (log_grow env tail needed) (\<lambda>_.
         op_bind (update_region env tail len_bytes) (\<lambda>_.
         op_bind (update_region env (tail + 4) msg) (\<lambda>_.
           op_return (tail + needed)))))"

fun log_appends :: "env \<Rightarrow> byte list list \<Rightarrow> u64 \<Rightarrow> u64 op" where
  "log_appends env [] tail = op_return tail"
| "log_appends env (msg # msgs) tail = op_bind (log_append env msg tail) (log_appends env msgs)"

text \<open>The \<open>while\<close> over the records.\<close>

partial_function (option) log_walk :: "env \<Rightarrow> nat \<Rightarrow> u64 \<Rightarrow> u64 \<Rightarrow> sys \<Rightarrow> ((mmap_io_error + byte list list) \<times> sys) option" where
  "log_walk env sh tail cursor s =
     (if cursor < tail
      then Option.bind (as_slice env sh cursor 4 s) (\<lambda>(r, s1).
             case r of
               Inl e \<Rightarrow> Some (Inl e, s1)
             | Inr header \<Rightarrow>
                 let len = ucast (from_le_bytes (slice_bytes s1 header))
                 in Option.bind (as_slice env sh (cursor + 4) len (drop_slice header s1)) (\<lambda>(r', s2).
                      case r' of
                        Inl e \<Rightarrow> Some (Inl e, s2)
                      | Inr body \<Rightarrow>
                          Option.bind (log_walk env sh tail (cursor + 4 + len) (drop_slice body s2)) (\<lambda>(r'', s3).
                            Some (map_sum id (Cons (slice_bytes s2 body)) r'', s3))))
      else Some (Inr [], s))"

text \<open>The read-back, over the mapping of the file that \<open>open_ro\<close> gives.\<close>

definition log_read :: "env \<Rightarrow> nat \<Rightarrow> path \<Rightarrow> u64 \<Rightarrow> world \<Rightarrow> ((mmap_io_error + byte list list) \<times> world) option" where
  "log_read env sh pth tail w =
     (case open_ro env pth w of
        (Inl e, w1) \<Rightarrow> Some (Inl e, w1)
      | (Inr ro, w1) \<Rightarrow>
          map_option (\<lambda>(r, s). (r, mapping_drop env (s_mapping s) (s_world s)))
            (log_walk env sh tail 0 \<lparr>s_mm = ro, s_world = w1\<rparr>))"

text \<open>Everything after the mapping is created: append, flush, drop, read back, remove.\<close>

definition log_run :: "env \<Rightarrow> nat \<Rightarrow> path \<Rightarrow> byte list list \<Rightarrow> sys \<Rightarrow> ((mmap_io_error + byte list list) \<times> world) option" where
  "log_run env sh pth msgs s =
     Option.bind (op_bind (log_appends env msgs 0) (\<lambda>tail. op_bind (mmap_flush env) (\<lambda>_. op_return tail)) s) (\<lambda>(r, s1).
       let w = mapping_drop env (s_mapping s1) (s_world s1)
       in (case r of
             Inl e \<Rightarrow> Some (Inl e, w)
           | Inr tail \<Rightarrow>
               Option.bind (log_read env sh pth tail w) (\<lambda>(r', w1).
                 Some (r', case r' of Inl _ \<Rightarrow> w1 | Inr _ \<Rightarrow> snd (fs_remove_file env pth w1)))))"

definition log_main :: "env \<Rightarrow> nat \<Rightarrow> bool \<Rightarrow> path \<Rightarrow> byte list list \<Rightarrow> world \<Rightarrow> ((mmap_io_error + byte list list) \<times> world) option" where
  "log_main env sh spawned pth msgs w =
     (case builder_create env spawned
             (builder_flush_policy (EveryBytes (8 * 1024)) (builder_size initial_size (builder_mode ReadWrite (builder_new pth))))
             (snd (fs_remove_file env pth w)) of
        (Inl e, w1) \<Rightarrow> Some (Inl e, w1)
      | (Inr (mm, _), w1) \<Rightarrow> log_run env sh pth msgs \<lparr>s_mm = mm, s_world = w1\<rparr>)"

section \<open>The encoding\<close>

definition log_record :: "byte list \<Rightarrow> byte list" where
  "log_record msg = to_le_bytes (of_nat (length msg)) @ msg"

abbreviation log_bytes :: "byte list list \<Rightarrow> byte list" where
  "log_bytes msgs \<equiv> concat (map log_record msgs)"

lemma length_to_le_bytes [simp]: "length (to_le_bytes x) = 4"
  by (simp add: to_le_bytes_def)

lemma length_log_record [simp]: "length (log_record msg) = 4 + length msg"
  by (simp add: log_record_def)

lemma from_to_le_bytes [simp]: "from_le_bytes (to_le_bytes x) = x"
  by (simp add: from_le_bytes_def to_le_bytes_def le_roundtrip_full)

lemma splice_record:
  assumes "b + length h + length d \<le> length xs"
  shows "take (b + length h + length d) (splice_at (splice_at xs b h) (b + length h) d) = take b xs @ h @ d"
    "length (splice_at (splice_at xs b h) (b + length h) d) = length xs"
  using assms by (simp_all add: splice_at_def)

text \<open>The four records of the source fit the initial mapping: with them the program never grows it.\<close>

lemma example_never_grows: "length (log_bytes log_messages) = 158" "158 \<le> unat initial_size"
  by (simp_all add: log_messages_def initial_size_def)

section \<open>Appending\<close>

text \<open>The mapping starts with the records written so far, which end at the tail.\<close>

definition log_shows :: "nat \<Rightarrow> env \<Rightarrow> path \<Rightarrow> byte list \<Rightarrow> u64 \<Rightarrow> sys \<Rightarrow> bool" where
  "log_shows lim env pth bs tail s \<longleftrightarrow> world_ok (s_world s) \<and> unat tail = length bs
     \<and> (\<exists>model. mirrors lim env pth s model \<and> unat tail \<le> length model \<and> take (unat tail) model = bs)"

text \<open>Room for one more record: the mapping is extended by one step when the record does not fit.\<close>

lemma log_room:
  assumes "e_target env \<noteq> Windows" "log_shows lim env pth bs tail s" "n \<le> 65536"
    and "length bs + n + 65536 \<le> lim" "lim \<le> unat MAX_MMAP_SIZE"
  shows "\<exists>r s'. log_grow env tail (of_nat n) s = Some (r, s')
    \<and> (granting lim env \<longrightarrow> r = Inr ())
    \<and> (r = Inr () \<longrightarrow> world_ok (s_world s')
         \<and> (\<exists>model. mirrors lim env pth s' model \<and> unat tail + n \<le> length model \<and> take (unat tail) model = bs))"
proof -
  obtain model where m: "mirrors lim env pth s model" "unat tail \<le> length model" "take (unat tail) model = bs"
    and w: "world_ok (s_world s)" and t: "unat tail = length bs" using assms(2) by (auto simp: log_shows_def)
  note F = mirrorsD [OF m(1)]
  have big: "unat MAX_MMAP_SIZE < 2 ^ 62" by (simp add: MAX_MMAP_SIZE_def)
  have un: "unat (of_nat n :: u64) = n" using assms(3) by (simp add: unat_of_nat)
  have "unat (tail + of_nat n) = unat tail + n"
    using t assms(4,5) big by (subst unat_add_exact) (simp_all add: un)
  then have lt: "tail + of_nat n > mmap_len s \<longleftrightarrow> unat tail + n > length model"
    using F(9,13) by (simp add: word_less_unat)
  show ?thesis
  proof (cases "unat tail + n > length model")
    case False
    with lt m w show ?thesis by (auto simp: log_grow_def op_return_def)
  next
    case True
    let ?n = "mmap_len s + grow_step"
    have n: "unat ?n = length model + 65536"
      using F(9,10,13) by (subst unat_add_exact) (simp_all add: grow_step_def)
    have le: "unat ?n \<le> lim" using n True t assms(4) by simp
    have ok: "?n \<noteq> 0" "\<not> ?n > MAX_MMAP_SIZE" using n le assms(5) by (auto simp: word_less_unat)
    from resize_mirrors [OF m(1) assms(1) ok(1) le ok(2)] obtain r s' where r: "resize env ?n s = Some (r, s')"
      "same_entry s s'" "r = Inr () \<longrightarrow> mirrors lim env pth s' (resize_bytes (unat ?n) model)" "granting lim env \<longrightarrow> r = Inr ()"
      by blast
    have "world_ok (s_world s')" if "r = Inr ()"
      using world_ok_entry [OF w r(2)] mirrorsD(1) r(3) that by blast
    moreover have "take (unat tail) (resize_bytes (unat ?n) model) = bs" "unat tail + n \<le> length (resize_bytes (unat ?n) model)"
      using m(2,3) n assms(3) True by (simp_all add: take_resize_bytes)
    ultimately show ?thesis using r(1,3,4) True lt by (auto simp: log_grow_def)
  qed
qed

lemma log_append_ok:
  assumes "e_target env \<noteq> Windows" "log_shows lim env pth bs tail s" "4 + length msg \<le> 65536"
    and "length bs + (4 + length msg) + 65536 \<le> lim" "lim \<le> unat MAX_MMAP_SIZE"
  shows "\<exists>r s'. log_append env msg tail s = Some (r, s') \<and> (granting lim env \<longrightarrow> is_ok r)
    \<and> (\<forall>t. r = Inr t \<longrightarrow> log_shows lim env pth (bs @ log_record msg) t s')"
proof -
  let ?h = "to_le_bytes (of_nat (length msg))" and ?n = "4 + length msg"
  have t: "unat tail = length bs" using assms(2) by (simp add: log_shows_def)
  have big: "unat MAX_MMAP_SIZE < 2 ^ 62" by (simp add: MAX_MMAP_SIZE_def)
  from log_room [OF assms] obtain r1 s1
    where 1: "log_grow env tail (of_nat ?n) s = Some (r1, s1)"
      "granting lim env \<longrightarrow> r1 = Inr ()"
      "r1 = Inr () \<longrightarrow> world_ok (s_world s1)
         \<and> (\<exists>model. mirrors lim env pth s1 model \<and> unat tail + ?n \<le> length model \<and> take (unat tail) model = bs)" by blast
  note A = log_append_def Let_def length_to_le_bytes op_bind_def 1(1)
  show ?thesis
  proof (cases r1)
    case (Inl e)
    with 1(2) show ?thesis unfolding A by auto
  next
    case (Inr u)
    then obtain model where m: "mirrors lim env pth s1 model" "unat tail + ?n \<le> length model" "take (unat tail) model = bs"
      and w1: "world_ok (s_world s1)" using 1(3) by auto
    obtain r2 s2 where 2: "update_region env tail ?h s1 = Some (r2, s2)" "same_entry s1 s2"
      "mirrors lim env pth s2 (splice_at model (unat tail) ?h)" "\<forall>g. granting g env \<longrightarrow> r2 = Inr ()"
      using update_mirrors [OF m(1), of ?h tail] m(2) by auto
    have off: "unat (tail + 4) = unat tail + 4" using t assms(4,5) big by (subst unat_add_exact) simp_all
    have "unat tail + length ?h + length msg \<le> length model" using m(2) by simp
    note S = splice_record [OF this, unfolded length_to_le_bytes]
    obtain r3 s3 where 3: "update_region env (tail + 4) msg s2 = Some (r3, s3)" "same_entry s2 s3"
      "mirrors lim env pth s3 (splice_at (splice_at model (unat tail) ?h) (unat tail + 4) msg)" "\<forall>g. granting g env \<longrightarrow> r3 = Inr ()"
      using update_mirrors [OF 2(3), of msg "tail + 4"] m(2) off assms(3) by (auto simp: length_splice_at)
    have "world_ok (s_world s3)"
      using world_ok_entry [OF w1 same_entry_trans [OF 2(2) 3(2)]] mirrorsD(1) [OF 3(3)] by blast
    moreover have "unat (of_nat ?n :: u64) = ?n" using assms(3) by (simp add: unat_of_nat del: of_nat_add)
    then have "unat (tail + of_nat ?n) = unat tail + ?n"
      using t assms(4,5) big by (subst unat_add_exact) simp_all
    ultimately have "log_shows lim env pth (bs @ log_record msg) (tail + of_nat ?n) s3"
      using 3(3) S m(2,3) t by (auto simp: log_shows_def log_record_def add.assoc)
    with Inr 2(1,4) 3(1,4) show ?thesis
      unfolding A by (auto simp: op_return_def split: sum.splits)
  qed
qed

lemma log_appends_ok:
  assumes "e_target env \<noteq> Windows" "\<forall>msg \<in> set msgs. 4 + length msg \<le> 65536" "lim \<le> unat MAX_MMAP_SIZE"
  shows "log_shows lim env pth bs tail s \<Longrightarrow> length bs + length (log_bytes msgs) + 65536 \<le> lim \<Longrightarrow>
    \<exists>r s'. log_appends env msgs tail s = Some (r, s') \<and> (granting lim env \<longrightarrow> is_ok r)
      \<and> (\<forall>t. r = Inr t \<longrightarrow> log_shows lim env pth (bs @ log_bytes msgs) t s')"
  using assms(2)
proof (induction msgs arbitrary: bs tail s)
  case Nil
  then show ?case by (simp add: op_return_def)
next
  case (Cons msg msgs)
  have "4 + length msg \<le> 65536" "length bs + (4 + length msg) + 65536 \<le> lim" using Cons.prems(2,3) by simp_all
  from log_append_ok [OF assms(1) Cons.prems(1) this assms(3)] obtain r s1
    where 1: "log_append env msg tail s = Some (r, s1)" "granting lim env \<longrightarrow> is_ok r"
      "\<forall>t. r = Inr t \<longrightarrow> log_shows lim env pth (bs @ log_record msg) t s1" by blast
  show ?case
  proof (cases r)
    case (Inl e)
    with 1(1,2) show ?thesis by (auto simp: op_bind_def)
  next
    case (Inr t)
    with 1(3) Cons.IH [of "bs @ log_record msg" t s1] Cons.prems(2,3) 1(1) show ?thesis by (auto simp: op_bind_def)
  qed
qed

section \<open>Reading back\<close>

lemma sub_slice_mid: "length ys = n \<Longrightarrow> sub_slice (xs @ ys @ zs) (length xs) (length xs + n) = ys"
  by (simp add: sub_slice_def)

lemma log_walk_ok:
  assumes "sh < SHARDS" "\<forall>msg \<in> set msgs. length msg < 2 ^ 32" "unat tail < 2 ^ 63"
  shows "session_ok env (session_start s) \<Longrightarrow> s_bytes s = bs @ log_bytes msgs @ rest \<Longrightarrow> unat cursor = length bs \<Longrightarrow>
    unat tail = length (bs @ log_bytes msgs) \<Longrightarrow>
    \<exists>s'. log_walk env sh tail cursor s = Some (Inr msgs, s') \<and> s_world s' = s_world s"
  using assms(2)
proof (induction msgs arbitrary: bs cursor s)
  case Nil
  then have "\<not> cursor < tail" by (simp add: word_less_unat)
  then show ?case by (subst log_walk.simps) simp
next
  case (Cons msg msgs)
  let ?h = "to_le_bytes (of_nat (length msg))" and ?tl = "log_bytes msgs @ rest"
  have bytes: "s_bytes s = bs @ ?h @ msg @ ?tl" using Cons.prems(2) by (simp add: log_record_def [of msg])
  have lt: "cursor < tail" using Cons.prems(3,4) by (simp add: word_less_unat)
  have "fits cursor 4 (s_bytes s)" using Cons.prems(3) bytes by simp
  from idle_slice [OF Cons.prems(1) assms(1) this] obtain v s1 where 1: "as_slice env sh cursor 4 s = Some (Inr v, s1)"
    "slice_bytes s1 v = sub_slice (s_bytes s) (unat cursor) (unat cursor + 4)" "session_ok env (session_start (drop_slice v s1))"
    "i_map (s_mm (drop_slice v s1)) = i_map (s_mm s)" "s_world (drop_slice v s1) = s_world s" by auto
  have hd: "slice_bytes s1 v = ?h" unfolding 1(2) bytes Cons.prems(3) by (rule sub_slice_mid) simp
  have small: "length msg < 2 ^ 32" using Cons.prems(5) by simp
  define len where "len = (ucast (of_nat (length msg) :: 32 word) :: u64)"
  have len: "unat len = length msg" unfolding len_def using small by (simp add: unat_ucast_up unat_of_nat)
  have c4: "unat (cursor + 4) = length bs + 4"
    using Cons.prems(3,4) assms(3) by (subst unat_add_exact) simp_all
  have cl: "unat (cursor + 4 + len) = length (bs @ log_record msg)"
    using Cons.prems(4) assms(3) c4 len by (subst unat_add_exact) simp_all
  let ?s1 = "drop_slice v s1"
  have b1: "s_bytes ?s1 = (bs @ ?h) @ msg @ ?tl" using bytes 1(4,5) by simp
  have "fits (cursor + 4) len (s_bytes ?s1)" using c4 len b1 by simp
  from idle_slice [OF 1(3) assms(1) this] obtain u s2 where 2: "as_slice env sh (cursor + 4) len ?s1 = Some (Inr u, s2)"
    "slice_bytes s2 u = sub_slice (s_bytes ?s1) (unat (cursor + 4)) (unat (cursor + 4) + unat len)"
    "session_ok env (session_start (drop_slice u s2))"
    "i_map (s_mm (drop_slice u s2)) = i_map (s_mm ?s1)" "s_world (drop_slice u s2) = s_world ?s1" by blast
  have body: "slice_bytes s2 u = msg" unfolding 2(2) b1 len using sub_slice_mid [of msg _ "bs @ ?h" ?tl] c4 by simp
  have "s_bytes (drop_slice u s2) = (bs @ log_record msg) @ log_bytes msgs @ rest"
    using bytes 1(4,5) 2(4,5) by (simp add: log_record_def [of msg])
  from Cons.IH [OF 2(3) this cl] Cons.prems(4,5) obtain s' where
    3: "log_walk env sh tail (cursor + 4 + len) (drop_slice u s2) = Some (Inr msgs, s')" "s_world s' = s_world s"
    using 1(5) 2(5) by auto
  have "from_le_bytes (slice_bytes s1 v) = of_nat (length msg)" by (simp add: hd)
  with lt 1(1) 2(1) 3 body show ?case
    by (subst log_walk.simps) (simp add: Let_def len_def [symmetric])
qed

lemma open_ro_cases:
  assumes "world_ok w" "w_dir w pth = Some f" "open_ro env pth w = (r, w')"
  shows "same_files w w'"
    and "r = Inr mm \<Longrightarrow> session_ok env (session_start \<lparr>s_mm = mm, s_world = w'\<rparr>) \<and> s_bytes \<lparr>s_mm = mm, s_world = w'\<rparr> = w_data w f"
    and "granting lim env \<Longrightarrow> w_data w f \<noteq> [] \<Longrightarrow> length (w_data w f) \<le> lim \<Longrightarrow> is_ok r"
proof -
  obtain q1 w1 where o: "fs_open env pth opts_ro w = (q1, w1)" by fastforce
  have sf1: "same_files w w1" and f1: "q1 = Inr f \<or> (\<exists>e. q1 = Inl e)"
    using fs_open_plain [OF o] assms(2) by (cases q1, auto)+
  obtain q2 w2 where md: "fs_metadata_len env f w1 = (q2, w2)" by fastforce
  have sf2: "same_files w1 w2" using md by (auto simp: fs_metadata_len_def bind_se_def os_call_def same_files_def split: sum.splits)
  obtain q3 w3 where mp: "rawmmap_map env f w2 = (q3, w3)" by fastforce
  have sf3: "same_files w2 w3" using mp map_impl_data by (auto simp: rawmmap_map_def raw_map_def same_files_def)
  note D = open_ro_def io_try_def map_err_se_def bind_se_def return_se_def
  show "same_files w w'"
    using assms(3) o md mp f1 sf1 sf2 sf3 by (auto simp: D same_files_def split: sum.splits)
  show "is_ok r" if g: "granting lim env" "w_data w f \<noteq> []" "length (w_data w f) \<le> lim"
  proof -
    have "q1 = Inr f" using granted_open [OF g(1), of opts_ro w pth] o assms(2) f1 by auto
    moreover have "is_ok q2" using granted_metadata [OF g(1), of f w1] md by auto
    moreover obtain page where "os_page_size env = Inr page" using granting_page [OF g(1)] by blast
    then have "is_ok q3"
      using granted_map [OF g(1), of w2 f page options_new Access_Read] g(2,3) mp sf1 sf2 assms(1)
      by (auto simp: window_len_def options_new_def rawmmap_map_def raw_map_def same_files_def world_ok_def)
    ultimately show ?thesis using assms(3) o md mp by (auto simp: D is_ok_iff)
  qed
  show "session_ok env (session_start \<lparr>s_mm = mm, s_world = w'\<rparr>) \<and> s_bytes \<lparr>s_mm = mm, s_world = w'\<rparr> = w_data w f"
    if r: "r = Inr mm"
  proof -
    have op: "opened_ok \<lparr>s_mm = mm, s_world = w'\<rparr>"
      using establishes_direct(1) [of env pth] assms(1,3) r by (auto simp: establishes_def)
    have "i_file mm = f" "i_views mm = registry_new" "w_data w' = w_data w"
      using assms(3) r o md mp f1 sf1 sf2 sf3 by (auto simp: D inner_new_def same_files_def split: sum.splits)
    with op show ?thesis
      by (auto simp: opened_ok_def write_free_def registry_new_def atomic_empty_def intro!: session_start_ok)
  qed
qed

lemma log_read_ok:
  assumes "world_ok w" "w_dir w pth = Some f" "w_data w f = log_bytes msgs @ rest" "unat tail = length (log_bytes msgs)"
    and "sh < SHARDS" "\<forall>msg \<in> set msgs. length msg < 2 ^ 32"
  shows "\<exists>r w'. log_read env sh pth tail w = Some (r, w') \<and> (r = Inr msgs \<or> (\<exists>e. r = Inl e))
    \<and> (\<forall>lim. granting lim env \<longrightarrow> w_data w f \<noteq> [] \<longrightarrow> length (w_data w f) \<le> lim \<longrightarrow> r = Inr msgs)"
proof -
  obtain q w1 where o: "open_ro env pth w = (q, w1)" by fastforce
  note O = open_ro_cases [OF assms(1,2) o]
  have "length (w_data w f) < 2 ^ 63" using assms(1) by (simp add: world_ok_def)
  then have t: "unat tail < 2 ^ 63" using assms(3,4) by simp
  show ?thesis
  proof (cases q)
    case (Inl e)
    with o O(3) show ?thesis by (auto simp: log_read_def)
  next
    case (Inr mm)
    have "\<exists>s'. log_walk env sh tail 0 \<lparr>s_mm = mm, s_world = w1\<rparr> = Some (Inr msgs, s')"
      using log_walk_ok [OF assms(5,6) t, of env "\<lparr>s_mm = mm, s_world = w1\<rparr>" "[]" rest 0] O(2) [OF Inr] assms(3,4) by auto
    with o Inr show ?thesis by (auto simp: log_read_def)
  qed
qed

lemma log_flushed_ok:
  assumes "log_shows lim env pth (log_bytes msgs) tail s" "sh < SHARDS" "\<forall>msg \<in> set msgs. length msg < 2 ^ 32"
    and "w = mapping_drop env (s_mapping s) (s_world s)"
  shows "\<exists>r w'. log_read env sh pth tail w = Some (r, w') \<and> (r = Inr msgs \<or> (\<exists>e. r = Inl e)) \<and> (granting lim env \<longrightarrow> r = Inr msgs)"
proof -
  let ?f = "i_file (s_mm s)"
  obtain model where m: "mirrors lim env pth s model" "take (unat tail) model = log_bytes msgs"
    and w: "world_ok (s_world s)" and t: "unat tail = length (log_bytes msgs)"
    using assms(1) by (auto simp: log_shows_def)
  note F = mirrorsD [OF m(1)]
  obtain x where x: "i_map (s_mm s) = Rw x" using m(1) by (auto simp: mirrors_def)
  have sf: "same_files (s_world s) w" unfolding assms(4) by (rule mapping_drop_files)
  have dir: "w_dir w pth = Some ?f" and data: "w_data w ?f = model"
    using sf m(1) rw_facts(4) [OF F(1) x] F(6) by (auto simp: same_files_def mirrors_def)
  have ok: "world_ok w" using w sf by (auto simp: world_ok_def same_files_def)
  have "w_data w ?f = log_bytes msgs @ drop (unat tail) model" unfolding data m(2) [symmetric] by simp
  from log_read_ok [OF ok dir this t assms(2,3), of env] data F(11,12) show ?thesis by blast
qed

lemma log_run_ok:
  assumes "e_target env \<noteq> Windows" "sh < SHARDS" "\<forall>msg \<in> set msgs. 4 + length msg \<le> 65536"
    and "length (log_bytes msgs) + 65536 \<le> lim" "lim \<le> unat MAX_MMAP_SIZE" "log_shows lim env pth [] 0 s"
  shows "\<exists>r w'. log_run env sh pth msgs s = Some (r, w') \<and> (r = Inr msgs \<or> (\<exists>e. r = Inl e)) \<and> (granting lim env \<longrightarrow> r = Inr msgs)"
proof -
  from log_appends_ok [OF assms(1,3,5,6)] assms(4) obtain r s1
    where 1: "log_appends env msgs 0 s = Some (r, s1)" "granting lim env \<longrightarrow> is_ok r"
      "\<forall>t. r = Inr t \<longrightarrow> log_shows lim env pth (log_bytes msgs) t s1" by auto
  show ?thesis
  proof (cases r)
    case (Inl e)
    with 1(1,2) show ?thesis by (auto simp: log_run_def op_bind_def Let_def)
  next
    case (Inr tail)
    with 1(3) obtain model where m: "mirrors lim env pth s1 model" "unat tail \<le> length model" "take (unat tail) model = log_bytes msgs"
      and w: "world_ok (s_world s1)" and t: "unat tail = length (log_bytes msgs)" by (auto simp: log_shows_def)
    from flush_mirrors [OF m(1)] obtain q s2 where 2: "mmap_flush env s1 = Some (q, s2)" "mirrors lim env pth s2 model"
      "same_entry s1 s2" "\<forall>glim. granting glim env \<longrightarrow> q = Inr ()" by blast
    have "log_shows lim env pth (log_bytes msgs) tail s2"
      using 2(2) m t world_ok_entry [OF w 2(3)] mirrorsD(1) [OF 2(2)] by (auto simp: log_shows_def)
    moreover have "\<forall>msg \<in> set msgs. length msg < 2 ^ 32" using assms(3) by force
    ultimately obtain r' w' where 3: "log_read env sh pth tail (mapping_drop env (s_mapping s2) (s_world s2)) = Some (r', w')"
      "r' = Inr msgs \<or> (\<exists>e. r' = Inl e)" "granting lim env \<longrightarrow> r' = Inr msgs"
      using log_flushed_ok [OF _ assms(2)] by blast
    show ?thesis
    proof (cases q)
      case (Inl e)
      with Inr 1(1) 2(1,4) show ?thesis by (auto simp: log_run_def op_bind_def Let_def)
    next
      case _: (Inr u)
      with Inr 1(1) 2(1) 3 show ?thesis by (auto simp: log_run_def op_bind_def op_return_def Let_def)
    qed
  qed
qed

section \<open>Properties\<close>



end
