(* ===== verification/Cells.thy ===== *)
theory Cells
  imports Mirror Little_Endian Atomic
begin

text \<open>
  Atomic integers in a mapped file: the 64-bit operations of \<open>std::sync::atomic\<close> on an atomic view, and what they
  do to the file when every view of the mapping is one of 64-bit cells. Several mappings may show the same file: the
  facts about values are about the bytes of the file, and those about a mapping survive stores through another one.
\<close>

section \<open>Operations\<close>

text \<open>\<open>AtomicU64::load\<close>, \<open>store\<close> and \<open>fetch_add\<close>, which wraps.\<close>

definition u64_load :: "atomic_view \<Rightarrow> sys \<Rightarrow> u64" where
  "u64_load v s = le_value (cell_load AtomicU64 (view_deref v) s)"

definition u64_store :: "atomic_view \<Rightarrow> u64 \<Rightarrow> sys \<Rightarrow> sys" where
  "u64_store v x = cell_store (view_deref v) (le_bytes 8 x)"

definition fetch_add :: "atomic_view \<Rightarrow> u64 \<Rightarrow> sys \<Rightarrow> sys" where
  "fetch_add v n s = u64_store v (u64_load v s + n) s"

section \<open>A mapping of cells\<close>

text \<open>A read-write mapping of all 64 bytes of the file, at address \<open>p\<close>, with views of 64-bit cells only, of which \<open>n\<close> were taken so far.\<close>

definition cells_ok :: "fid \<Rightarrow> addr \<Rightarrow> nat \<Rightarrow> sys \<Rightarrow> bool" where
  "cells_ok f p n s \<longleftrightarrow> sys_ok s \<and> atomics_fit s \<and> (\<exists>m. i_map (s_mm s) = Rw m) \<and> i_file (s_mm s) = f \<and> \<not> i_writer (s_mm s)
     \<and> raw_as_ptr (s_mapping s) = p \<and> m_len (s_mapping s) = 64
     \<and> plain_lookup (i_views (s_mm s)) = Map.empty
     \<and> ran (atomic_lookup (vr_atomics (i_views (s_mm s)))) \<subseteq> {x. snd (snd x) = 8}
     \<and> unat (as_next_id (vr_atomics (i_views (s_mm s)))) \<le> n"

text \<open>The value of the cell at an offset of the file.\<close>

definition cell_at :: "fid \<Rightarrow> nat \<Rightarrow> u64 \<Rightarrow> world \<Rightarrow> bool" where
  "cell_at f off x w \<longleftrightarrow> off + 8 \<le> length (w_data w f) \<and> sub_slice (w_data w f) off (off + 8) = le_bytes 8 x"

lemma cells_bytes:
  assumes "cells_ok f p n s"
  shows "s_bytes s = w_data (s_world s) f" "length (w_data (s_world s) f) = 64"
proof -
  obtain m where m: "i_map (s_mm s) = Rw m" and ok: "sys_ok s" and f: "i_file (s_mm s) = f" and l: "m_len (s_mapping s) = 64"
    using assms by (auto simp: cells_ok_def)
  show "s_bytes s = w_data (s_world s) f" "length (w_data (s_world s) f) = 64"
    using rw_facts(2,4) [OF ok m] f l m by simp_all
qed

lemma register_next_id:
  assumes "register_atomic b e sz v = (Inr reg, v')" "b \<noteq> e"
  shows "as_next_id (vr_atomics v') = as_next_id (vr_atomics v) + 1"
  using assms by (auto simp: register_atomic_def atomic_push_def Let_def split: if_splits)

text \<open>A view of an aligned cell is granted, whatever views of cells are live.\<close>

lemma cells_view:
  assumes "cells_ok f p n s" "n < 2 ^ 63" "8 dvd unat off" "unat off + 8 \<le> 64"
  shows "\<exists>v s'. atomic_u64 off s = Some (Inr v, s') \<and> av_ptr v = p + off \<and> cells_ok f p (Suc n) s' \<and> s_world s' = s_world s"
proof -
  note C = assms(1) [unfolded cells_ok_def]
  let ?V = "i_views (s_mm s)" and ?b = "unat off" and ?e = "unat off + 8"
  have ok: "registry_ok ?V" using C sys_okD(4) by blast
  have "\<forall>a \<in> set (as_entries (vr_atomics ?V)). a_size a = 8"
    using registry_entries [OF ok, of "\<lambda>a. a_size a = 8"] C by (auto simp: entry_of_def ran_def)
  then have "\<not> mixed_hit ?V ?b ?e 8" by (auto simp: mixed_hit_def list_ex_iff)
  then obtain reg v' where reg: "register_atomic ?b ?e 8 ?V = (Inr reg, v')"
    using register_atomic_refused(2) [OF ok, of ?b ?e 8] C
    by (cases "register_atomic ?b ?e 8 ?V"; cases "fst (register_atomic ?b ?e 8 ?V)") auto
  let ?s = "mm_upd (\<lambda>mm. mm\<lparr>i_views := v', i_readers := Suc (i_readers mm)\<rparr>) s"
  have free: "read_free s" "locked (i_map (s_mm s))" using C by (auto simp: read_free_def)
  have "request_fits AtomicU64 off 1 (m_len (s_mapping s))" using C assms(4) by (simp add: request_fits_def)
  then have p: "atomic_parts AtomicU64 off 1 s = Some (Inr (reg, p + off), ?s)"
    using C free reg assms(3) by (auto simp: atomic_parts_eq)
  have room: "atomic_room (vr_atomics ?V)"
    using C assms(2) by (auto simp: atomic_room_def unat_word_max)
  have g: "granted AtomicU64 off 1 reg s ?s" using atomic_parts_granted(1) [OF _ _ room p] C by blast
  then obtain i where "atomic_lookup (vr_atomics v') = (atomic_lookup (vr_atomics ?V))(i \<mapsto> (?b, ?e, 8))"
    by (auto simp: granted_def registered_def)
  then have "ran (atomic_lookup (vr_atomics v')) \<subseteq> {x. snd (snd x) = 8}" using C by (fastforce simp: ran_def split: if_splits)
  moreover have "unat (as_next_id (vr_atomics v')) \<le> Suc n"
    unfolding register_next_id [OF reg, simplified] using C assms(2) by (subst unat_add_exact) auto
  ultimately have "cells_ok f p (Suc n) ?s" using g C by (simp add: cells_ok_def granted_def)
  with p show ?thesis
    by (simp add: atomic_u64_def atomic_single_def op_bind_def single_def)
qed

lemma cells_load:
  assumes "cells_ok f p n s" "av_ptr v = p + off" "cell_at f (unat off) x (s_world s)"
  shows "u64_load v s = x"
proof -
  have "cell_load AtomicU64 (view_deref v) s = le_bytes 8 x"
    using assms cells_bytes(1) [OF assms(1)] by (simp add: cells_ok_def cell_load_def view_deref_def cell_offset_def cell_at_def)
  then show ?thesis by (simp add: u64_load_def le_roundtrip_full)
qed

text \<open>What a store does to the files: the cell, and nothing else.\<close>

definition cell_written :: "fid \<Rightarrow> nat \<Rightarrow> u64 \<Rightarrow> world \<Rightarrow> world \<Rightarrow> bool" where
  "cell_written f off y w w' \<longleftrightarrow> w_data w' = (w_data w)(f := splice_at (w_data w f) off (le_bytes 8 y)) \<and> same_names w w'
     \<and> off + 8 \<le> length (w_data w f)"

lemma cells_store:
  assumes "cells_ok f p n s" "av_ptr v = p + off" "unat off + 8 \<le> 64"
  shows "cells_ok f p n (u64_store v y s)" "cell_written f (unat off) y (s_world s) (s_world (u64_store v y s))"
proof -
  note C = assms(1) [unfolded cells_ok_def]
  let ?t = "u64_store v y s"
  obtain m where m: "i_map (s_mm s) = Rw m" using C by blast
  have off: "cell_offset (view_deref v) s = unat off" using C assms(2) by (simp add: cell_offset_def view_deref_def)
  have S: "wrote (unat off) (le_bytes 8 y) s ?t" "atomics_fit ?t"
    using cell_store_ok [where c = AtomicU64 and p = "view_deref v" and bs = "le_bytes 8 y" and s = s] C m off assms(3)
    by (simp_all add: u64_store_def)
  have e: "same_entry s ?t" unfolding u64_store_def cell_store_def by (rule store_same_entry)
  have "raw_as_ptr (s_mapping ?t) = p" using C by (simp add: u64_store_def cell_store_def raw_as_ptr_def)
  with S C e m show "cells_ok f p n ?t" by (simp add: cells_ok_def wrote_def same_entry_def)
  show "cell_written f (unat off) y (s_world s) (s_world ?t)"
    using S(1) e m C assms(3) cells_bytes(2) [OF assms(1)]
    by (simp add: cell_written_def wrote_def same_entry_def same_names_def)
qed

lemma cells_drop:
  assumes "cells_ok f p n s"
  shows "cells_ok f p n (drop_atomic_view v s)" "s_world (drop_atomic_view v s) = s_world s"
proof -
  note C = assms [unfolded cells_ok_def]
  let ?V = "i_views (s_mm s)" and ?t = "drop_atomic_view v s"
  have ok: "registry_ok ?V" using C sys_okD(4) by blast
  note D = drop_atomic_ok [OF ok, of "av_reg v"]
  have views: "i_views (s_mm ?t) = drop_atomic (av_reg v) ?V" by (simp add: drop_atomic_view_def release_view_def)
  have sub: "atomic_lookup (vr_atomics (drop_atomic (av_reg v) ?V)) \<subseteq>\<^sub>m atomic_lookup (vr_atomics ?V)"
    using D(3) by (cases "ar_id (av_reg v)") (auto simp: map_le_def)
  then have "ran (atomic_lookup (vr_atomics (drop_atomic (av_reg v) ?V))) \<subseteq> {x. snd (snd x) = 8}"
    using C by (fastforce simp: map_le_def ran_def dom_def)
  moreover have "sys_ok ?t"
    unfolding drop_atomic_view_def release_view_def using C by (intro sys_ok_views D(1)) simp_all
  moreover have "\<forall>a \<in> set (as_entries (vr_atomics (drop_atomic (av_reg v) ?V))). entry_fits 64 a"
    using registry_entries [OF D(1), of "entry_fits 64"] registry_entries [OF ok, of "entry_fits 64"] C sub
    by (fastforce simp: atomics_fit_def map_le_def dom_def)
  ultimately show "cells_ok f p n ?t"
    using views D(2) C by (simp add: cells_ok_def atomics_fit_def drop_next_id) (simp add: drop_atomic_view_def release_view_def)
  show "s_world ?t = s_world s" by (simp add: drop_atomic_view_def release_view_def)
qed

lemma cells_added:
  assumes "cells_ok f p n s" "av_ptr v = p + off" "unat off + 8 \<le> 64" "cell_at f (unat off) x (s_world s)"
  shows "cells_ok f p n (fetch_add v k s)" "cell_written f (unat off) (x + k) (s_world s) (s_world (fetch_add v k s))"
  using cells_store [OF assms(1-3)] cells_load [OF assms(1,2,4)] by (simp_all add: fetch_add_def)

section \<open>Another mapping of the file\<close>

lemma cells_other:
  assumes "cells_ok f p n \<lparr>s_mm = mm, s_world = w\<rparr>" "\<And>g. length (w_data w' g) = length (w_data w g)"
  shows "cells_ok f p n \<lparr>s_mm = mm, s_world = w'\<rparr>"
  using assms by (auto simp: cells_ok_def sys_ok_def variant_ok_def mapping_ok_def atomics_fit_def split: mem_ref.splits if_splits)

lemma written_lengths: "cell_written f off y w w' \<Longrightarrow> length (w_data w' g) = length (w_data w g)"
  by (auto simp: cell_written_def length_splice_at)

lemma written_cells:
  assumes "cell_written f off y w w'"
  shows "cell_at f off y w'" "off + 8 \<le> off' \<or> off' + 8 \<le> off \<Longrightarrow> cell_at f off' x w \<Longrightarrow> cell_at f off' x w'"
proof -
  show "cell_at f off y w'"
    using assms slice_splice_same [of off "le_bytes 8 y" "w_data w f"] by (auto simp: cell_written_def cell_at_def length_splice_at)
  show "cell_at f off' x w'" if "off + 8 \<le> off' \<or> off' + 8 \<le> off" "cell_at f off' x w"
    using assms that slice_splice_disjoint [of off "le_bytes 8 y" "w_data w f"] by (auto simp: cell_written_def cell_at_def length_splice_at)
qed

section \<open>New mappings\<close>

text \<open>A mapping without views, as every constructor gives it.\<close>

lemma cells_fresh:
  assumes "opened_ok s" "i_map (s_mm s) = Rw m" "m_len m = 64" "i_views (s_mm s) = registry_new"
  shows "cells_ok (i_file (s_mm s)) (raw_as_ptr m) 0 s"
proof -
  have "plain_lookup registry_new h = None" for h
    by (cases h) (auto simp: registry_new_def slab_empty_def slab_lookup_def)
  then have "plain_lookup registry_new = Map.empty" by blast
  moreover have "atomic_lookup (vr_atomics registry_new) = Map.empty" "as_next_id (vr_atomics registry_new) = 0"
    by (simp_all add: registry_new_def atomic_empty_def atomic_lookup_def fun_eq_iff)
  ultimately show ?thesis using assms by (simp add: cells_ok_def opened_ok_def write_free_def)
qed

lemma cells_created:
  assumes "world_ok w" "create_rw env pth 64 w = (Inr mm, w')"
  shows "\<exists>f p. cells_ok f p 0 \<lparr>s_mm = mm, s_world = w'\<rparr> \<and> w_dir w' pth = Some f \<and> world_ok w'
    \<and> (\<forall>off. off + 8 \<le> 64 \<longrightarrow> cell_at f off 0 w') \<and> raw_as_ptr (s_mapping \<lparr>s_mm = mm, s_world = w'\<rparr>) = p"
proof -
  let ?s = "\<lparr>s_mm = mm, s_world = w'\<rparr>"
  have op: "opened_ok ?s" using establishes_create_rw [of env pth 64] assms by (auto simp: establishes_def)
  from assms(2) obtain f w1 w2 m where o: "fs_open env pth opts_truncate w = (Inr f, w1)"
    and sl: "fs_set_len env f 64 w1 = (Inr (), w2)" and m: "rawmmapmut_map_mut env f w2 = (Inr m, w')"
    and mm: "mm = inner_new pth f ReadWrite 64 (Rw m) Never False"
    by (rule create_rw_created)
  note O = fs_open_truncating(2) [OF o _ _ _ refl]
  have data: "w_data w2 f = replicate 64 0" and dir: "w_dir w2 pth = Some f"
    using sl O by (auto simp: fs_set_len_Inr resize_bytes_def)
  have "w_data w' = w_data w2" "w_dir w' = w_dir w2"
    using m map_impl_data(1,2) by (auto simp: rawmmapmut_map_mut_def raw_map_mut_def)
  with data dir have d: "w_data w' f = replicate 64 0" "w_dir w' pth = Some f" by simp_all
  have len: "m_len m = 64" using sys_okD(3) [of ?s] op mm by (simp add: opened_ok_def inner_new_def)
  have "cells_ok f (raw_as_ptr m) 0 ?s" using cells_fresh [OF op, of m] len mm by (simp add: inner_new_def)
  moreover have "replicate 8 0 = le_bytes 8 (0 :: u64)" by code_simp
  then have "cell_at f off 0 w'" if "off + 8 \<le> 64" for off
    using that d(1) by (simp add: cell_at_def sub_slice_def)
  ultimately show ?thesis using d(2) op mm by (auto simp: opened_ok_def inner_new_def)
qed

end
