(* ===== verification/Example_Counter.thy ===== *)
theory Example_Counter
  imports Cells
begin

text \<open>
  The shared counter of \<open>examples/04_atomic_counter.rs\<close>: threads that each take an atomic view of the same eight
  bytes and add to them. The threads are a step relation that interleaves their calls in every order; each
  atomic operation is one step. The number of threads and of additions are parameters (the source has 8 and 10000).
\<close>

section \<open>The program\<close>

text \<open>A thread: about to take its view; adding, with the additions left; returned.\<close>

datatype adder = Spawned | Adding atomic_view nat | Returned "mmap_io_error + unit"

inductive adder_step :: "nat \<Rightarrow> adder list \<times> sys \<Rightarrow> adder list \<times> sys \<Rightarrow> bool" for adds where
  view_taken:
    "i < length ts \<Longrightarrow> ts ! i = Spawned \<Longrightarrow> atomic_u64 0 s = Some (Inr v, s') \<Longrightarrow>
       adder_step adds (ts, s) (ts[i := Adding v adds], s')"
| view_refused:
    "i < length ts \<Longrightarrow> ts ! i = Spawned \<Longrightarrow> atomic_u64 0 s = Some (Inl e, s') \<Longrightarrow>
       adder_step adds (ts, s) (ts[i := Returned (Inl e)], s')"
| added:
    "i < length ts \<Longrightarrow> ts ! i = Adding v (Suc k) \<Longrightarrow> adder_step adds (ts, s) (ts[i := Adding v k], fetch_add v 1 s)"
| view_dropped:
    "i < length ts \<Longrightarrow> ts ! i = Adding v 0 \<Longrightarrow> adder_step adds (ts, s) (ts[i := Returned (Inr ())], drop_atomic_view v s)"

text \<open>Runs, with the number of their steps.\<close>

inductive adder_run :: "nat \<Rightarrow> adder list \<times> sys \<Rightarrow> nat \<Rightarrow> adder list \<times> sys \<Rightarrow> bool" for adds c0 where
  spawned: "adder_run adds c0 0 c0"
| stepped: "adder_run adds c0 m c \<Longrightarrow> adder_step adds c c' \<Longrightarrow> adder_run adds c0 (Suc m) c'"

text \<open>Creating the mapping and setting the counter to zero; an early return drops the mapping.\<close>

definition counter_init :: "env \<Rightarrow> path \<Rightarrow> world \<Rightarrow> (mmap_io_error \<times> world + sys) option" where
  "counter_init env pth w =
     (case create_rw env pth 64 (snd (fs_remove_file env pth w)) of
        (Inl e, w1) \<Rightarrow> Some (Inl (e, w1))
      | (Inr mm, w1) \<Rightarrow>
          map_option (\<lambda>(r, s).
              case r of
                Inl e \<Rightarrow> Inl (e, mapping_drop env (s_mapping s) (s_world s))
              | Inr v \<Rightarrow> Inr (drop_atomic_view v (u64_store v 0 s)))
            (atomic_u64 0 \<lparr>s_mm = mm, s_world = w1\<rparr>))"

text \<open>\<open>for h in handles { h.join().expect(..)?; }\<close>: \<open>None\<close> while a thread runs.\<close>

fun counter_join :: "adder list \<Rightarrow> (mmap_io_error + unit) option" where
  "counter_join [] = Some (Inr ())"
| "counter_join (Returned (Inr _) # ts) = counter_join ts"
| "counter_join (Returned (Inl e) # ts) = Some (Inl e)"
| "counter_join (_ # ts) = None"

text \<open>The final load and the assertion (\<open>None\<close> where it panics), then the drop and the removal.\<close>

definition counter_final :: "env \<Rightarrow> u64 \<Rightarrow> path \<Rightarrow> sys \<Rightarrow> ((mmap_io_error + unit) \<times> world) option" where
  "counter_final env expected pth s =
     Option.bind (atomic_u64 0 s) (\<lambda>(r, s1).
       case r of
         Inl e \<Rightarrow> Some (Inl e, mapping_drop env (s_mapping s1) (s_world s1))
       | Inr v \<Rightarrow>
           let final_value = u64_load v s1; s2 = drop_atomic_view v s1
           in if final_value = expected
              then Some (Inr (), snd (fs_remove_file env pth (mapping_drop env (s_mapping s2) (s_world s2))))
              else None)"

definition counter_end :: "env \<Rightarrow> u64 \<Rightarrow> path \<Rightarrow> adder list \<Rightarrow> sys \<Rightarrow> ((mmap_io_error + unit) \<times> world) option" where
  "counter_end env expected pth ts s =
     Option.bind (counter_join ts) (\<lambda>r.
       case r of
         Inl e \<Rightarrow> Some (Inl e, mapping_drop env (s_mapping s) (s_world s))
       | Inr _ \<Rightarrow> counter_final env expected pth s)"

section \<open>The invariant of the mapping\<close>

text \<open>The counter at the start of the file has the value \<open>x\<close>; \<open>n\<close> views were taken so far.\<close>

definition counter_ok :: "addr \<Rightarrow> nat \<Rightarrow> u64 \<Rightarrow> sys \<Rightarrow> bool" where
  "counter_ok p n x s \<longleftrightarrow> (\<exists>f. cells_ok f p n s \<and> cell_at f 0 x (s_world s))"

lemma counter_view:
  assumes "counter_ok p n x s" "n < 2 ^ 63"
  shows "\<exists>v s'. atomic_u64 0 s = Some (Inr v, s') \<and> av_ptr v = p \<and> counter_ok p (Suc n) x s'"
proof -
  obtain f where f: "cells_ok f p n s" "cell_at f 0 x (s_world s)" using assms(1) by (auto simp: counter_ok_def)
  from cells_view [OF f(1) assms(2), of 0] f(2) show ?thesis by (auto simp: counter_ok_def)
qed

lemma counter_value: "counter_ok p n x s \<Longrightarrow> av_ptr v = p \<Longrightarrow> u64_load v s = x"
  using cells_load [of _ p n s v 0 x] by (auto simp: counter_ok_def)

lemma counter_stored: "counter_ok p n x s \<Longrightarrow> av_ptr v = p \<Longrightarrow> counter_ok p n y (u64_store v y s)"
  using cells_store [of _ p n s v 0 y] written_cells(1) by (fastforce simp: counter_ok_def)

lemma counter_dropped: "counter_ok p n x s \<Longrightarrow> counter_ok p n x (drop_atomic_view v s)"
  using cells_drop by (fastforce simp: counter_ok_def)

lemma counter_added: "counter_ok p n x s \<Longrightarrow> av_ptr v = p \<Longrightarrow> counter_ok p n (x + k) (fetch_add v k s)"
  by (simp add: fetch_add_def counter_value counter_stored)

section \<open>The invariant of the threads\<close>

fun adder_steps :: "nat \<Rightarrow> adder \<Rightarrow> nat" where
  "adder_steps adds Spawned = 0"
| "adder_steps adds (Adding v k) = Suc (adds - k)"
| "adder_steps adds (Returned r) = adds + 2"

fun adder_added :: "nat \<Rightarrow> adder \<Rightarrow> nat" where
  "adder_added adds Spawned = 0"
| "adder_added adds (Adding v k) = adds - k"
| "adder_added adds (Returned r) = adds"

fun adder_started :: "adder \<Rightarrow> nat" where
  "adder_started Spawned = 0"
| "adder_started _ = 1"

fun adder_ok :: "addr \<Rightarrow> nat \<Rightarrow> adder \<Rightarrow> bool" where
  "adder_ok p adds Spawned = True"
| "adder_ok p adds (Adding v k) = (av_ptr v = p \<and> k \<le> adds)"
| "adder_ok p adds (Returned r) = (r = Inr ())"

definition adders_ok :: "addr \<Rightarrow> nat \<Rightarrow> nat \<Rightarrow> nat \<Rightarrow> adder list \<times> sys \<Rightarrow> bool" where
  "adders_ok p adds n m c \<longleftrightarrow> length (fst c) = n \<and> (\<forall>t \<in> set (fst c). adder_ok p adds t)
     \<and> m = sum_list (map (adder_steps adds) (fst c))
     \<and> counter_ok p (1 + sum_list (map adder_started (fst c))) (of_nat (sum_list (map (adder_added adds) (fst c)))) (snd c)"

lemma sum_list_changed:
  fixes f :: "'a \<Rightarrow> nat"
  assumes "i < length ts" "f t = f (ts ! i) + d"
  shows "sum_list (map f (ts[i := t])) = sum_list (map f ts) + d"
  using assms
proof (induction ts arbitrary: i)
  case (Cons a ts)
  then show ?case by (cases i) simp_all
qed simp

lemma sum_list_all:
  fixes f :: "'a \<Rightarrow> nat"
  assumes "\<forall>t \<in> set ts. f t \<le> k"
  shows "sum_list (map f ts) \<le> length ts * k" "sum_list (map f ts) = length ts * k \<longleftrightarrow> (\<forall>t \<in> set ts. f t = k)"
proof -
  have le: "sum_list (map f xs) \<le> length xs * k" if "\<forall>t \<in> set xs. f t \<le> k" for xs
    using that by (induction xs) auto
  show "sum_list (map f ts) \<le> length ts * k" by (rule le [OF assms])
  show "sum_list (map f ts) = length ts * k \<longleftrightarrow> (\<forall>t \<in> set ts. f t = k)"
    using assms
  proof (induction ts)
    case (Cons a ts)
    then show ?case using le [of ts] by auto
  qed simp
qed

lemma adder_step_ok:
  assumes "adder_step adds (ts, s) c'" "adders_ok p adds n m (ts, s)" "n < 2 ^ 62"
  shows "adders_ok p adds n (Suc m) c'"
proof -
  have len: "length ts = n" and ok: "\<forall>t \<in> set ts. adder_ok p adds t" and m: "m = sum_list (map (adder_steps adds) ts)"
    and C: "counter_ok p (1 + sum_list (map adder_started ts)) (of_nat (sum_list (map (adder_added adds) ts))) s"
    using assms(2) by (simp_all add: adders_ok_def)
  note step = sum_list_changed [where ts = ts and f = "adder_steps adds"] sum_list_changed [where ts = ts and f = "adder_added adds"]
    sum_list_changed [where ts = ts and f = adder_started]
  have keep: "\<forall>t \<in> set (ts[i := t']). adder_ok p adds t" if "adder_ok p adds t'" for i t'
    using ok that set_update_subset_insert [of ts i t'] by blast
  have "adder_started t \<le> 1" for t by (cases t) simp_all
  then have "1 + sum_list (map adder_started ts) < 2 ^ 63" using sum_list_all(1) [of ts adder_started 1] len assms(3) by simp
  note V = counter_view [OF C this]
  from assms(1) show ?thesis
  proof cases
    case (view_taken i v s')
    with V step(1) [of i "Adding v adds" 1] step(2) [of i "Adding v adds" 0] step(3) [of i "Adding v adds" 1]
      keep [of "Adding v adds" i] len m show ?thesis by (auto simp: adders_ok_def)
  next
    case (view_refused i e s')
    with V show ?thesis by simp
  next
    case (added i v k)
    then have v: "av_ptr v = p" "Suc k \<le> adds" using ok nth_mem [of i ts] by fastforce+
    have d: "adder_steps adds (Adding v k) = adder_steps adds (ts ! i) + 1" "adder_added adds (Adding v k) = adder_added adds (ts ! i) + 1"
      "adder_started (Adding v k) = adder_started (ts ! i) + 0" using added(3) v(2) by simp_all
    from counter_added [OF C v(1), of 1] step(1) [OF added(2) d(1)] step(2) [OF added(2) d(2)] step(3) [OF added(2) d(3)]
      keep [of "Adding v k" i] v len m added(1) show ?thesis by (simp add: adders_ok_def add.commute)
  next
    case (view_dropped i v)
    have d: "adder_steps adds (Returned (Inr ())) = adder_steps adds (ts ! i) + 1"
      "adder_added adds (Returned (Inr ())) = adder_added adds (ts ! i) + 0"
      "adder_started (Returned (Inr ())) = adder_started (ts ! i) + 0" using view_dropped(3) by simp_all
    from counter_dropped [OF C, of v] step(1) [OF view_dropped(2) d(1)] step(2) [OF view_dropped(2) d(2)] step(3) [OF view_dropped(2) d(3)]
      keep [of "Returned (Inr ())" i] len m view_dropped(1) show ?thesis by (simp add: adders_ok_def)
  qed
qed

lemma adder_run_ok:
  assumes "adders_ok p adds n 0 c0" "n < 2 ^ 62"
  shows "adder_run adds c0 m c \<Longrightarrow> adders_ok p adds n m c"
proof (induction rule: adder_run.induct)
  case (stepped m c c')
  then show ?case using adder_step_ok [of adds "fst c" "snd c" c' p n m] assms(2) by simp
qed (rule assms(1))

lemma adder_progress:
  assumes "counter_ok p k x s" "k < 2 ^ 63" "t \<in> set ts" "\<not> (\<exists>r. t = Returned r)"
  shows "\<exists>c'. adder_step adds (ts, s) c'"
proof -
  obtain i where i: "i < length ts" "ts ! i = t" using assms(3) by (auto simp: in_set_conv_nth)
  show ?thesis
  proof (cases t)
    case Spawned
    with i counter_view [OF assms(1,2)] show ?thesis by (blast intro: adder_step.view_taken)
  next
    case (Adding v j)
    with i show ?thesis by (cases j) (blast intro: adder_step.intros)+
  qed (use assms(4) in blast)
qed

lemma counter_join_eq:
  "\<forall>t \<in> set ts. adder_ok p adds t \<Longrightarrow>
     counter_join ts = (if \<forall>t \<in> set ts. \<exists>r. t = Returned r then Some (Inr ()) else None)"
proof (induction ts)
  case (Cons t ts)
  then show ?case by (cases t) auto
qed simp

lemma counter_final_ok:
  assumes "counter_ok p n x s" "n < 2 ^ 63"
  shows "\<exists>w. counter_final env x pth s = Some (Inr (), w)"
proof -
  obtain v s1 where "atomic_u64 0 s = Some (Inr v, s1)" "av_ptr v = p" "counter_ok p (Suc n) x s1"
    using counter_view [OF assms] by blast
  then show ?thesis using counter_value [of p "Suc n" x s1 v] by (simp add: counter_final_def Let_def)
qed

lemma counter_created:
  assumes "world_ok w" "create_rw env pth 64 w = (Inr mm, w1)"
  shows "\<exists>v s. atomic_u64 0 \<lparr>s_mm = mm, s_world = w1\<rparr> = Some (Inr v, s) \<and> counter_ok (av_ptr v) 1 0 s"
proof -
  let ?s = "\<lparr>s_mm = mm, s_world = w1\<rparr>"
  have "counter_ok (raw_as_ptr (s_mapping ?s)) 0 0 ?s"
    using cells_created [OF assms] by (auto simp: counter_ok_def)
  from counter_view [OF this] show ?thesis by auto
qed

lemma counter_init_cases:
  assumes "world_ok w"
  shows "(\<exists>e w'. counter_init env pth w = Some (Inl (e, w')) \<and> \<not> granting 64 env)
    \<or> (\<exists>p s. counter_init env pth w = Some (Inr s) \<and> counter_ok p 1 0 s)"
proof -
  obtain q w1 where c: "create_rw env pth 64 (snd (fs_remove_file env pth w)) = (q, w1)" by fastforce
  have ok: "world_ok (snd (fs_remove_file env pth w))"
    using world_ok_removed [OF assms, of env pth] by (cases "fs_remove_file env pth w") simp
  show ?thesis
  proof (cases q)
    case (Inl e)
    have "\<not> granting 64 env"
      using granted_create_rw [of 64 env 64 pth "snd (fs_remove_file env pth w)"] c Inl by (auto simp: MAX_MMAP_SIZE_def)
    with c Inl show ?thesis by (simp add: counter_init_def)
  next
    case (Inr mm)
    from counter_created [OF ok c [unfolded Inr]] obtain v s
      where v: "atomic_u64 0 \<lparr>s_mm = mm, s_world = w1\<rparr> = Some (Inr v, s)" "counter_ok (av_ptr v) 1 0 s" by blast
    from counter_dropped [OF counter_stored [OF v(2) refl], where v = v] c Inr v(1) show ?thesis
      by (auto simp: counter_init_def)
  qed
qed

section \<open>Properties\<close>

text \<open>C12. The counter example counts exactly. In every interleaving of any number of threads that each take an atomic view of the counter, add
  to it and drop the view: no request is refused, no thread blocks the others, after at most one step per call every
  thread has returned successfully, and then the counter holds the number of all additions modulo 2^64, so that the assertion at the end of the
  program holds; before that the joins still wait.\<close>

theorem counter_exact:
  assumes "world_ok w" "counter_init env pth w = Some (Inr s0)" "n < 2 ^ 62"
    and "adder_run adds (replicate n Spawned, s0) m (ts, s)"
  shows "m \<le> n * (adds + 2)
    \<and> (if m < n * (adds + 2) then (\<exists>c'. adder_step adds (ts, s) c') \<and> counter_end env expected pth ts s = None
       else \<exists>w'. counter_end env (of_nat (n * adds)) pth ts s = Some (Inr (), w'))"
proof -
  obtain p where "counter_ok p 1 0 s0" using counter_init_cases [OF assms(1), of env pth] assms(2) by auto
  then have "adders_ok p adds n 0 (replicate n Spawned, s0)" by (simp add: adders_ok_def sum_list_replicate)
  from adder_run_ok [OF this assms(3,4)]
  have len: "length ts = n" and ok: "\<forall>t \<in> set ts. adder_ok p adds t" and m: "m = sum_list (map (adder_steps adds) ts)"
    and C: "counter_ok p (1 + sum_list (map adder_started ts)) (of_nat (sum_list (map (adder_added adds) ts))) s"
    by (simp_all add: adders_ok_def)
  have "adder_started t \<le> 1" for t by (cases t) simp_all
  then have k: "1 + sum_list (map adder_started ts) < 2 ^ 63" using sum_list_all(1) [of ts adder_started 1] len assms(3) by simp
  have "adder_steps adds t \<le> adds + 2" for t by (cases t) simp_all
  note S = sum_list_all [of ts "adder_steps adds" "adds + 2", unfolded len m [symmetric]]
  show ?thesis
  proof (cases "m < n * (adds + 2)")
    case True
    then obtain t where "t \<in> set ts" "adder_steps adds t \<noteq> adds + 2" using S \<open>\<And>t. adder_steps adds t \<le> adds + 2\<close> by auto
    then have "\<not> (\<exists>r. t = Returned r)" by auto
    with adder_progress [OF C k \<open>t \<in> set ts\<close>, of adds] counter_join_eq [OF ok] True \<open>t \<in> set ts\<close> show ?thesis
      by (auto simp: counter_end_def)
  next
    case False
    then have full: "m = n * (adds + 2)" "\<forall>t \<in> set ts. adder_steps adds t = adds + 2"
      using S \<open>\<And>t. adder_steps adds t \<le> adds + 2\<close> by auto
    have "t = Returned (Inr ())" if "adder_ok p adds t" "adder_steps adds t = adds + 2" for t using that by (cases t) auto
    with full(2) ok have ret: "\<forall>t \<in> set ts. t = Returned (Inr ())" by blast
    then have "\<forall>t \<in> set ts. adder_added adds t = adds" by auto
    then have "sum_list (map (adder_added adds) ts) = n * adds" using sum_list_all(2) [of ts "adder_added adds" adds] len by simp
    moreover have "counter_join ts = Some (Inr ())" unfolding counter_join_eq [OF ok] using ret by auto
    ultimately show ?thesis using counter_final_ok [OF C k] full(1) by (simp add: counter_end_def)
  qed
qed

text \<open>The program of the example runs to its end on the sample system.\<close>

theorem counter_exact_witness:
  "\<exists>s0 ts s w'. counter_init sample_env ''example_04_counter.bin'' sample_world = Some (Inr s0)
     \<and> adder_run 10000 (replicate 8 Spawned, s0) (8 * 10002) (ts, s)
     \<and> counter_end sample_env 80000 ''example_04_counter.bin'' ts s = Some (Inr (), w')"
proof -
  obtain s0 where i: "counter_init sample_env ''example_04_counter.bin'' sample_world = Some (Inr s0)"
    using counter_init_cases [OF sample_world_ok, of sample_env "''example_04_counter.bin''"] sample_granting by blast
  note T = counter_exact [OF sample_world_ok i, where n = 8 and adds = 10000]
  have "\<exists>ts s. adder_run 10000 (replicate 8 Spawned, s0) m (ts, s)" if "m \<le> 8 * 10002" for m
    using that
  proof (induction m)
    case (Suc m)
    then obtain ts s where r: "adder_run 10000 (replicate 8 Spawned, s0) m (ts, s)" by auto
    with T [OF _ r] Suc.prems show ?case by (force intro: adder_run.stepped)
  qed (blast intro: adder_run.spawned)
  then obtain ts s where r: "adder_run 10000 (replicate 8 Spawned, s0) (8 * 10002) (ts, s)" by blast
  with T [OF _ r] i show ?thesis by auto
qed

end
