(* ===== verification/Example_Shared.thy ===== *)
theory Example_Shared
  imports Cells
begin

text \<open>
  Shared state between processes, \<open>examples/10_ipc_shared_state.rs\<close>: a writer and a reader that each open the same file
  and meet in two atomic cells of it, a flag and a counter. Both are step relations over one world; every call of the
  library is one step, the steps of the two interleave in every order, and the reader's deadline may pass at any
  time. The number of increments is a parameter (the source has 20).
\<close>

section \<open>The program\<close>

text \<open>The first three calls of both threads: open the file, view the flag, view the counter. A failure drops what was taken.\<close>

datatype attaching =
    At_Open | At_Flag inner | At_Counter inner atomic_view
  | At_Done inner atomic_view atomic_view | At_Failed mmap_io_error

fun attach_step :: "env \<Rightarrow> path \<Rightarrow> attaching \<Rightarrow> world \<Rightarrow> (attaching \<times> world) option" where
  "attach_step env pth At_Open w =
     (case open_rw env pth w of
        (Inl e, w1) \<Rightarrow> Some (At_Failed e, w1)
      | (Inr mm, w1) \<Rightarrow> Some (At_Flag mm, w1))"
| "attach_step env pth (At_Flag mm) w =
     map_option (\<lambda>(r, s).
         case r of
           Inl e \<Rightarrow> (At_Failed e, mapping_drop env (s_mapping s) (s_world s))
         | Inr ready \<Rightarrow> (At_Counter (s_mm s) ready, s_world s))
       (atomic_u64 0 \<lparr>s_mm = mm, s_world = w\<rparr>)"
| "attach_step env pth (At_Counter mm ready) w =
     map_option (\<lambda>(r, s).
         case r of
           Inl e \<Rightarrow> let s1 = drop_atomic_view ready s in (At_Failed e, mapping_drop env (s_mapping s1) (s_world s1))
         | Inr counter \<Rightarrow> (At_Done (s_mm s) ready counter, s_world s))
       (atomic_u64 8 \<lparr>s_mm = mm, s_world = w\<rparr>)"
| "attach_step env pth _ w = None"

text \<open>Leaving: the views go in reverse order, then the mapping.\<close>

definition detach :: "env \<Rightarrow> atomic_view \<Rightarrow> atomic_view \<Rightarrow> sys \<Rightarrow> world" where
  "detach env ready counter s =
     (let s1 = drop_atomic_view ready (drop_atomic_view counter s) in mapping_drop env (s_mapping s1) (s_world s1))"

datatype ipc_writer =
    W_Attaching attaching | W_Adding inner atomic_view atomic_view nat | W_Returned "mmap_io_error + unit"

datatype ipc_reader =
    R_Attaching attaching | R_Polling inner atomic_view atomic_view u64
  | R_Reporting inner atomic_view atomic_view | R_Returned "mmap_io_error + unit"

type_synonym ipc = "world \<times> ipc_writer \<times> ipc_reader"

inductive ipc_step :: "env \<Rightarrow> path \<Rightarrow> nat \<Rightarrow> ipc \<Rightarrow> ipc \<Rightarrow> bool" for env pth writes where
  writer_attaches:
    "attach_step env pth a w = Some (a', w') \<Longrightarrow> ipc_step env pth writes (w, W_Attaching a, r) (w', W_Attaching a', r)"
| writer_fails:
    "ipc_step env pth writes (w, W_Attaching (At_Failed e), r) (w, W_Returned (Inl e), r)"
| writer_signals:
    "s = u64_store ready 1 \<lparr>s_mm = mm, s_world = w\<rparr> \<Longrightarrow>
     ipc_step env pth writes (w, W_Attaching (At_Done mm ready counter), r) (s_world s, W_Adding (s_mm s) ready counter writes, r)"
| writer_adds:
    "s = fetch_add counter 1 \<lparr>s_mm = mm, s_world = w\<rparr> \<Longrightarrow>
     ipc_step env pth writes (w, W_Adding mm ready counter (Suc k), r) (s_world s, W_Adding (s_mm s) ready counter k, r)"
| writer_returns:
    "ipc_step env pth writes (w, W_Adding mm ready counter 0, r)
       (detach env ready counter \<lparr>s_mm = mm, s_world = w\<rparr>, W_Returned (Inr ()), r)"
| reader_attaches:
    "attach_step env pth a w = Some (a', w') \<Longrightarrow> ipc_step env pth writes (w, t, R_Attaching a) (w', t, R_Attaching a')"
| reader_fails:
    "ipc_step env pth writes (w, t, R_Attaching (At_Failed e)) (w, t, R_Returned (Inl e))"
| reader_waits:
    "u64_load ready \<lparr>s_mm = mm, s_world = w\<rparr> = 0 \<Longrightarrow>
     ipc_step env pth writes (w, t, R_Attaching (At_Done mm ready counter)) (w, t, R_Attaching (At_Done mm ready counter))"
| reader_starts:
    "u64_load ready \<lparr>s_mm = mm, s_world = w\<rparr> \<noteq> 0 \<Longrightarrow>
     ipc_step env pth writes (w, t, R_Attaching (At_Done mm ready counter)) (w, t, R_Polling mm ready counter 0)"
| reader_polls:
    "v = u64_load counter \<lparr>s_mm = mm, s_world = w\<rparr> \<Longrightarrow>
     ipc_step env pth writes (w, t, R_Polling mm ready counter last_seen)
       (w, t, if v \<noteq> last_seen \<and> v \<ge> of_nat writes then R_Reporting mm ready counter else R_Polling mm ready counter v)"
| reader_deadline:
    "ipc_step env pth writes (w, t, R_Polling mm ready counter last_seen) (w, t, R_Reporting mm ready counter)"
| reader_returns:
    "ipc_step env pth writes (w, t, R_Reporting mm ready counter)
       (detach env ready counter \<lparr>s_mm = mm, s_world = w\<rparr>, t, R_Returned (Inr ()))"

inductive ipc_run :: "env \<Rightarrow> path \<Rightarrow> nat \<Rightarrow> ipc \<Rightarrow> ipc \<Rightarrow> bool" for env pth writes c0 where
  spawned: "ipc_run env pth writes c0 c0"
| stepped: "ipc_run env pth writes c0 c \<Longrightarrow> ipc_step env pth writes c c' \<Longrightarrow> ipc_run env pth writes c0 c'"

text \<open>Creating the file and clearing the flag; then the joins, the final load and the assertion (\<open>None\<close> where it panics or a join still waits).\<close>

definition ipc_init :: "env \<Rightarrow> path \<Rightarrow> world \<Rightarrow> (mmap_io_error \<times> world + sys) option" where
  "ipc_init env pth w =
     (case create_rw env pth 64 (snd (fs_remove_file env pth w)) of
        (Inl e, w1) \<Rightarrow> Some (Inl (e, w1))
      | (Inr mm, w1) \<Rightarrow>
          map_option (\<lambda>(r, s).
              case r of
                Inl e \<Rightarrow> Inl (e, mapping_drop env (s_mapping s) (s_world s))
              | Inr ready \<Rightarrow> Inr (drop_atomic_view ready (u64_store ready 0 s)))
            (atomic_u64 0 \<lparr>s_mm = mm, s_world = w1\<rparr>))"

fun ipc_join :: "ipc_writer \<Rightarrow> ipc_reader \<Rightarrow> (mmap_io_error + unit) option" where
  "ipc_join (W_Returned (Inl e)) r = Some (Inl e)"
| "ipc_join (W_Returned (Inr _)) (R_Returned q) = Some q"
| "ipc_join _ _ = None"

definition ipc_end :: "env \<Rightarrow> path \<Rightarrow> nat \<Rightarrow> inner \<Rightarrow> ipc \<Rightarrow> ((mmap_io_error + unit) \<times> world) option" where
  "ipc_end env pth expected mm c =
     (case c of (w, t, r) \<Rightarrow>
        Option.bind (ipc_join t r) (\<lambda>q.
          case q of
            Inl e \<Rightarrow> Some (Inl e, mapping_drop env (s_mapping \<lparr>s_mm = mm, s_world = w\<rparr>) w)
          | Inr _ \<Rightarrow>
              Option.bind (atomic_u64 8 \<lparr>s_mm = mm, s_world = w\<rparr>) (\<lambda>(q', s).
                case q' of
                  Inl e \<Rightarrow> Some (Inl e, mapping_drop env (s_mapping s) (s_world s))
                | Inr v \<Rightarrow>
                    let final_count = u64_load v s; s1 = drop_atomic_view v s
                    in if final_count = of_nat expected
                       then Some (Inr (), snd (fs_remove_file env pth (mapping_drop env (s_mapping s1) (s_world s1))))
                       else None)))"

section \<open>Attaching\<close>

text \<open>Both views are held.\<close>

definition attached :: "fid \<Rightarrow> inner \<Rightarrow> atomic_view \<Rightarrow> atomic_view \<Rightarrow> world \<Rightarrow> bool" where
  "attached f mm ready counter w \<longleftrightarrow>
     (\<exists>p. cells_ok f p 2 \<lparr>s_mm = mm, s_world = w\<rparr> \<and> av_ptr ready = p + 0 \<and> av_ptr counter = p + 8)"

fun attach_ok :: "fid \<Rightarrow> attaching \<Rightarrow> world \<Rightarrow> bool" where
  "attach_ok f (At_Flag mm) w = (\<exists>p. cells_ok f p 0 \<lparr>s_mm = mm, s_world = w\<rparr>)"
| "attach_ok f (At_Counter mm ready) w = (\<exists>p. cells_ok f p 1 \<lparr>s_mm = mm, s_world = w\<rparr> \<and> av_ptr ready = p + 0)"
| "attach_ok f (At_Done mm ready counter) w = attached f mm ready counter w"
| "attach_ok f _ w = True"

text \<open>The file is there, 64 bytes long, and stays so.\<close>

definition ipc_file :: "path \<Rightarrow> fid \<Rightarrow> world \<Rightarrow> bool" where
  "ipc_file pth f w \<longleftrightarrow> world_ok w \<and> w_dir w pth = Some f \<and> length (w_data w f) = 64"

lemma ipc_file_keeps:
  assumes "ipc_file pth f w" "same_names w w'" "\<And>g. length (w_data w' g) = length (w_data w g)"
  shows "ipc_file pth f w'"
  using assms by (simp add: ipc_file_def world_ok_def same_names_def)

lemma attach_ok_other:
  assumes "attach_ok f a w" "\<And>g. length (w_data w' g) = length (w_data w g)"
  shows "attach_ok f a w'"
  using assms(1) cells_other [OF _ assms(2)] by (cases a) (simp_all add: attached_def, blast+)

lemma open_rw_cells:
  assumes "ipc_file pth f w" "open_rw env pth w = (r, w')"
  shows "same_files w w'" "r = Inr mm \<Longrightarrow> \<exists>p. cells_ok f p 0 \<lparr>s_mm = mm, s_world = w'\<rparr>"
proof -
  obtain q1 w1 where o: "fs_open env pth opts_rw w = (q1, w1)" by fastforce
  have sf1: "same_files w w1" and f1: "q1 = Inr f \<or> (\<exists>e. q1 = Inl e)"
    using fs_open_plain [OF o] assms(1) by (cases q1, auto simp: ipc_file_def)+
  obtain q2 w2 where md: "fs_metadata_len env f w1 = (q2, w2)" by fastforce
  have sf2: "same_files w1 w2" using md by (auto simp: fs_metadata_len_def bind_se_def os_call_def same_files_def split: sum.splits)
  have l2: "q2 = Inr n \<Longrightarrow> n = 64" for n
    using md sf1 assms(1) by (auto simp: fs_metadata_len_Inr file_len_def same_files_def ipc_file_def)
  obtain q3 w3 where mp: "rawmmapmut_map_mut env f w2 = (q3, w3)" by fastforce
  have sf3: "same_files w2 w3" using mp map_impl_data by (auto simp: rawmmapmut_map_mut_def raw_map_mut_def same_files_def)
  note D = open_rw_def io_try_def map_err_se_def bind_se_def return_se_def fail_se_def
  show "same_files w w'"
    using assms(2) o md mp f1 sf1 sf2 sf3 by (auto simp: D same_files_def split: sum.splits if_splits)
  show "\<exists>p. cells_ok f p 0 \<lparr>s_mm = mm, s_world = w'\<rparr>" if r: "r = Inr mm"
  proof -
    have op: "opened_ok \<lparr>s_mm = mm, s_world = w'\<rparr>"
      using establishes_direct(2) [of env pth] assms r by (auto simp: establishes_def ipc_file_def)
    obtain m where m: "mm = inner_new pth f ReadWrite 64 (Rw m) Never False"
      using assms(2) r o md mp f1 l2 by (auto simp: D split: sum.splits if_splits)
    have "m_len m = 64" using sys_okD(3) [of "\<lparr>s_mm = mm, s_world = w'\<rparr>"] op m by (simp add: opened_ok_def inner_new_def)
    with cells_fresh [OF op, of m] m show ?thesis by (auto simp: inner_new_def)
  qed
qed

lemma files_lengths: "same_files w w' \<Longrightarrow> length (w_data w' g) = length (w_data w g)"
  by (simp add: same_files_def)

lemma attach_step_ok:
  assumes "attach_ok f a w" "ipc_file pth f w"
  shows "attach_step env pth a w = Some (a', w') \<Longrightarrow> attach_ok f a' w' \<and> same_files w w'"
    and "\<not> (\<exists>mm r c. a = At_Done mm r c) \<Longrightarrow> \<not> (\<exists>e. a = At_Failed e) \<Longrightarrow> attach_step env pth a w \<noteq> None"
proof -
  have view: "\<exists>v s'. atomic_u64 off \<lparr>s_mm = mm, s_world = w\<rparr> = Some (Inr v, s') \<and> av_ptr v = p + off
      \<and> cells_ok f p (Suc n) \<lparr>s_mm = s_mm s', s_world = w\<rparr> \<and> s_world s' = w"
    if "cells_ok f p n \<lparr>s_mm = mm, s_world = w\<rparr>" "n < 2" "off = 0 \<or> off = 8" for mm p n off
  proof -
    from cells_view [OF that(1), of off] that(2,3) obtain v s' where v: "atomic_u64 off \<lparr>s_mm = mm, s_world = w\<rparr> = Some (Inr v, s')"
      "av_ptr v = p + off" "cells_ok f p (Suc n) s'" "s_world s' = w" by auto
    then show ?thesis by (intro exI [of _ v] exI [of _ s']) (cases s', simp)
  qed
  show "attach_ok f a' w' \<and> same_files w w'" if "attach_step env pth a w = Some (a', w')"
  proof (cases a)
    case At_Open
    with that show ?thesis using open_rw_cells [OF assms(2)] by (auto split: prod.splits sum.splits)
  next
    case (At_Flag mm)
    with assms(1) obtain p where "cells_ok f p 0 \<lparr>s_mm = mm, s_world = w\<rparr>" by auto
    from view [OF this, of 0] that At_Flag show ?thesis by (auto simp: same_files_def)
  next
    case (At_Counter mm r)
    with assms(1) obtain p where "cells_ok f p 1 \<lparr>s_mm = mm, s_world = w\<rparr>" "av_ptr r = p" by auto
    from view [OF this(1), of 8] this(2) that At_Counter show ?thesis by (auto simp: attached_def same_files_def numeral_2_eq_2)
  qed (use that in simp_all)
  show "attach_step env pth a w \<noteq> None" if "\<not> (\<exists>mm r c. a = At_Done mm r c)" "\<not> (\<exists>e. a = At_Failed e)"
  proof (cases a)
    case (At_Flag mm)
    with assms(1) obtain p where "cells_ok f p 0 \<lparr>s_mm = mm, s_world = w\<rparr>" by auto
    from view [OF this, of 0] At_Flag show ?thesis by auto
  next
    case (At_Counter mm r)
    with assms(1) obtain p where "cells_ok f p 1 \<lparr>s_mm = mm, s_world = w\<rparr>" by auto
    from view [OF this, of 8] At_Counter show ?thesis by auto
  qed (use that in \<open>auto split: prod.splits sum.splits\<close>)
qed

lemma detach_files: "same_files w (detach env ready counter \<lparr>s_mm = mm, s_world = w\<rparr>)"
proof -
  have "s_world (drop_atomic_view ready (drop_atomic_view counter \<lparr>s_mm = mm, s_world = w\<rparr>)) = w"
    by (simp add: drop_atomic_view_def release_view_def)
  with mapping_drop_files show ?thesis unfolding detach_def Let_def by metis
qed

section \<open>The invariant\<close>

text \<open>The value of the counter when \<open>k\<close> of the increments are left.\<close>

definition added :: "nat \<Rightarrow> nat \<Rightarrow> u64" where
  "added writes k = of_nat (writes - k)"

lemma added_simps: "added writes writes = 0" "Suc k \<le> writes \<Longrightarrow> added writes (Suc k) + 1 = added writes k"
  "writes < 2 ^ 64 \<Longrightarrow> unat (added writes k) \<le> writes" "added writes 0 = of_nat writes"
  by (simp_all add: added_def unat_of_nat)

fun writer_ok :: "fid \<Rightarrow> nat \<Rightarrow> ipc_writer \<Rightarrow> world \<Rightarrow> bool" where
  "writer_ok f writes (W_Attaching a) w = (attach_ok f a w \<and> cell_at f 8 (added writes writes) w)"
| "writer_ok f writes (W_Adding mm ready counter k) w =
     (attached f mm ready counter w \<and> k \<le> writes \<and> cell_at f 8 (added writes k) w \<and> cell_at f 0 1 w)"
| "writer_ok f writes (W_Returned r) w =
     (cell_at f 8 (added writes (if r = Inr () then 0 else writes)) w \<and> (r = Inr () \<longrightarrow> cell_at f 0 1 w))"

fun reader_ok :: "fid \<Rightarrow> nat \<Rightarrow> ipc_reader \<Rightarrow> world \<Rightarrow> bool" where
  "reader_ok f writes (R_Attaching a) w = attach_ok f a w"
| "reader_ok f writes (R_Polling mm ready counter x) w = (attached f mm ready counter w \<and> unat x \<le> writes)"
| "reader_ok f writes (R_Reporting mm ready counter) w = attached f mm ready counter w"
| "reader_ok f writes (R_Returned r) w = True"

definition ipc_ok :: "path \<Rightarrow> fid \<Rightarrow> nat \<Rightarrow> inner \<Rightarrow> ipc \<Rightarrow> bool" where
  "ipc_ok pth f writes mm c \<longleftrightarrow> (case c of (w, t, r) \<Rightarrow>
     ipc_file pth f w \<and> (\<exists>p. cells_ok f p 1 \<lparr>s_mm = mm, s_world = w\<rparr>) \<and> writer_ok f writes t w \<and> reader_ok f writes r w)"

text \<open>What one thread does to the file leaves the other's mapping and that of the main thread as they are.\<close>

lemma ipc_frame:
  assumes "\<And>g. length (w_data w' g) = length (w_data w g)"
  shows "reader_ok f writes r w \<Longrightarrow> reader_ok f writes r w'"
    "\<exists>p. cells_ok f p 1 \<lparr>s_mm = mm, s_world = w\<rparr> \<Longrightarrow> \<exists>p. cells_ok f p 1 \<lparr>s_mm = mm, s_world = w'\<rparr>"
proof -
  have "attached f m ready counter w'" if "attached f m ready counter w" for m ready counter
    using attach_ok_other [OF _ assms, of f "At_Done m ready counter"] that by simp
  then show "reader_ok f writes r w \<Longrightarrow> reader_ok f writes r w'"
    using attach_ok_other [OF _ assms, of f] by (cases r) auto
qed (use cells_other [OF _ assms] in blast)

lemma writer_ok_files:
  assumes "writer_ok f writes t w" "same_files w w'"
  shows "writer_ok f writes t w'"
proof -
  have "cell_at f off x w' = cell_at f off x w" for off x using assms(2) by (simp add: cell_at_def same_files_def)
  with assms(1) attach_ok_other [OF _ files_lengths [OF assms(2)], of f]
    attach_ok_other [OF _ files_lengths [OF assms(2)], of f "At_Done mm ready counter" for mm ready counter]
  show ?thesis by (cases t) simp_all
qed

lemma ipc_okI:
  assumes "ipc_ok pth f writes mm (w, t, r)" "same_names w w'" "\<And>g. length (w_data w' g) = length (w_data w g)"
    and "writer_ok f writes t' w'" "reader_ok f writes r' w'"
  shows "ipc_ok pth f writes mm (w', t', r')"
  using assms(1,4,5) ipc_frame(2) [OF assms(3)] ipc_file_keeps [OF _ assms(2,3)] by (simp add: ipc_ok_def)

text \<open>A step that changes no file.\<close>

lemma ipc_ok_files:
  assumes "ipc_ok pth f writes mm (w, t, r)" "same_files w w'"
  shows "writer_ok f writes t' w' \<Longrightarrow> ipc_ok pth f writes mm (w', t', r)"
    "reader_ok f writes r' w' \<Longrightarrow> ipc_ok pth f writes mm (w', t, r')"
proof -
  note K = ipc_okI [OF assms(1) files_names [OF assms(2)] files_lengths [OF assms(2)]]
  have "writer_ok f writes t w'" "reader_ok f writes r w'"
    using assms(1) writer_ok_files [OF _ assms(2)] ipc_frame(1) [OF files_lengths [OF assms(2)]] by (simp_all add: ipc_ok_def)
  then show "writer_ok f writes t' w' \<Longrightarrow> ipc_ok pth f writes mm (w', t', r)" "reader_ok f writes r' w' \<Longrightarrow> ipc_ok pth f writes mm (w', t, r')"
    using K by blast+
qed

text \<open>A step of the writer that stores to a cell.\<close>

lemma attached_written:
  fixes off :: u64
  assumes "attached f mm ready counter w" "v = ready \<and> off = 0 \<or> v = counter \<and> off = 8"
    and "s = u64_store v y \<lparr>s_mm = mm, s_world = w\<rparr>"
  shows "attached f (s_mm s) ready counter (s_world s)" "cell_written f (unat off) y w (s_world s)"
proof -
  obtain p where p: "cells_ok f p 2 \<lparr>s_mm = mm, s_world = w\<rparr>" "av_ptr ready = p + 0" "av_ptr counter = p + 8"
    using assms(1) by (auto simp: attached_def)
  have "av_ptr v = p + off" "unat off + 8 \<le> 64" using assms(2) p by auto
  note S = cells_store [OF p(1) this, of y, folded assms(3)]
  have "cells_ok f p 2 \<lparr>s_mm = s_mm s, s_world = s_world s\<rparr>" using S(1) by (cases s) simp
  with S(2) p show "attached f (s_mm s) ready counter (s_world s)" "cell_written f (unat off) y w (s_world s)"
    by (auto simp: attached_def)
qed

lemma attached_load:
  assumes "attached f mm ready counter w"
  shows "cell_at f 8 x w \<Longrightarrow> u64_load counter \<lparr>s_mm = mm, s_world = w\<rparr> = x"
    "cell_at f 0 x w \<Longrightarrow> u64_load ready \<lparr>s_mm = mm, s_world = w\<rparr> = x"
  using assms cells_load [where v = counter and off = 8] cells_load [where v = ready and off = 0] by (fastforce simp: attached_def)+

lemma ipc_written:
  fixes off :: u64
  assumes "ipc_ok pth f writes mm0 (w, t, r)" "attached f mm ready counter w"
    and "v = ready \<and> off = 0 \<or> v = counter \<and> off = 8" "s = u64_store v y \<lparr>s_mm = mm, s_world = w\<rparr>"
    and "k \<le> writes" "off = 0 \<Longrightarrow> cell_at f 8 (added writes k) w \<and> y = 1"
    and "off = 8 \<Longrightarrow> y = added writes k \<and> cell_at f 0 1 w"
  shows "ipc_ok pth f writes mm0 (s_world s, W_Adding (s_mm s) ready counter k, r)"
proof -
  note A = attached_written [OF assms(2-4)]
  have "cell_at f 8 (added writes k) (s_world s)" "cell_at f 0 1 (s_world s)"
    using written_cells(1) [OF A(2)] written_cells(2) [OF A(2), of 8] written_cells(2) [OF A(2), of 0] assms(3,6,7) by auto
  with A(1) assms(5) have "writer_ok f writes (W_Adding (s_mm s) ready counter k) (s_world s)" by simp
  moreover have "same_names w (s_world s)" using A(2) by (simp add: cell_written_def)
  moreover have "reader_ok f writes r (s_world s)"
    using assms(1) ipc_frame(1) [OF written_lengths [OF A(2)]] by (simp add: ipc_ok_def)
  ultimately show ?thesis using ipc_okI [OF assms(1) _ written_lengths [OF A(2)]] by blast
qed

lemma writer_count: "writer_ok f writes t w \<Longrightarrow> \<exists>k. cell_at f 8 (added writes k) w"
  by (cases t) auto

lemma ipc_step_ok:
  assumes "ipc_step env pth writes c c'" "ipc_ok pth f writes mm c" "writes < 2 ^ 64"
  shows "ipc_ok pth f writes mm c'"
  using assms(1)
proof cases
  case (writer_attaches a w a' w' r)
  then have I: "ipc_ok pth f writes mm (w, W_Attaching a, r)" using assms(2) by simp
  then have "attach_ok f a' w'" and sf: "same_files w w'"
    using attach_step_ok(1) [of f a w pth env a' w'] writer_attaches(3) by (auto simp: ipc_ok_def)
  moreover have "cell_at f 8 (added writes writes) w'" using I sf by (simp add: ipc_ok_def cell_at_def same_files_def)
  ultimately show ?thesis using ipc_ok_files(1) [OF I sf] writer_attaches(2) by simp
next
  case (writer_signals s ready m w counter r)
  then have I: "ipc_ok pth f writes mm (w, W_Attaching (At_Done m ready counter), r)" using assms(2) by simp
  then have "attached f m ready counter w" "cell_at f 8 (added writes writes) w" by (simp_all add: ipc_ok_def)
  then show ?thesis using ipc_written [OF I _ _ writer_signals(3), where off = 0 and k = writes] writer_signals(2) by simp
next
  case (writer_adds s counter m w ready k r)
  then have I: "ipc_ok pth f writes mm (w, W_Adding m ready counter (Suc k), r)" using assms(2) by simp
  then have A: "attached f m ready counter w" "Suc k \<le> writes" "cell_at f 8 (added writes (Suc k)) w" "cell_at f 0 1 w"
    by (simp_all add: ipc_ok_def)
  have "s = u64_store counter (added writes k) \<lparr>s_mm = m, s_world = w\<rparr>"
    using writer_adds(3) attached_load(1) [OF A(1,3)] added_simps(2) [OF A(2)] by (simp add: fetch_add_def)
  then show ?thesis using ipc_written [OF I A(1), of counter 8 s] A(2,4) writer_adds by simp
next
  case (writer_returns w m ready counter r)
  then have I: "ipc_ok pth f writes mm (w, W_Adding m ready counter 0, r)" using assms(2) by simp
  let ?w = "detach env ready counter \<lparr>s_mm = m, s_world = w\<rparr>"
  have sf: "same_files w ?w" by (rule detach_files)
  have "writer_ok f writes (W_Returned (Inr ())) ?w" using I sf by (simp add: ipc_ok_def cell_at_def same_files_def)
  then show ?thesis using ipc_ok_files(1) [OF I sf] writer_returns(2) by simp
next
  case (reader_attaches a w a' w' t)
  then have I: "ipc_ok pth f writes mm (w, t, R_Attaching a)" using assms(2) by simp
  then have "attach_ok f a' w'" "same_files w w'"
    using attach_step_ok(1) [of f a w pth env a' w'] reader_attaches(3) by (auto simp: ipc_ok_def)
  then show ?thesis using ipc_ok_files(2) [OF I, of w' "R_Attaching a'"] reader_attaches(2) by simp
next
  case (reader_polls v counter m w t ready last_seen)
  then have I: "ipc_ok pth f writes mm (w, t, R_Polling m ready counter last_seen)" using assms(2) by simp
  then obtain k where "cell_at f 8 (added writes k) w" and at: "attached f m ready counter w"
    using writer_count [of f writes t w] by (auto simp: ipc_ok_def)
  then have "unat v \<le> writes" using attached_load(1) reader_polls(3) added_simps(3) [OF assms(3)] by metis
  then show ?thesis using I at reader_polls(2) by (simp add: ipc_ok_def)
next
  case (reader_returns w t m ready counter)
  then have I: "ipc_ok pth f writes mm (w, t, R_Reporting m ready counter)" using assms(2) by simp
  then show ?thesis using ipc_ok_files(2) [OF I detach_files, of "R_Returned (Inr ())"] reader_returns(2) by simp
qed (use assms(2) in \<open>simp_all add: ipc_ok_def\<close>)

lemma ipc_run_ok:
  assumes "ipc_ok pth f writes mm c0" "writes < 2 ^ 64"
  shows "ipc_run env pth writes c0 c \<Longrightarrow> ipc_ok pth f writes mm c"
  by (induction rule: ipc_run.induct) (use assms ipc_step_ok in blast)+

section \<open>Start, progress and end\<close>

lemma ipc_started:
  assumes "world_ok w" "ipc_init env pth w = Some (Inr s0)"
  shows "\<exists>f. ipc_ok pth f writes (s_mm s0) (s_world s0, W_Attaching At_Open, R_Attaching At_Open)"
proof -
  obtain q w1 where c: "create_rw env pth 64 (snd (fs_remove_file env pth w)) = (q, w1)" by fastforce
  have ok: "world_ok (snd (fs_remove_file env pth w))"
    using world_ok_removed [OF assms(1), of env pth] by (cases "fs_remove_file env pth w") simp
  obtain mm where q: "q = Inr mm" using assms(2) c by (cases q) (auto simp: ipc_init_def)
  from cells_created [OF ok c [unfolded q]] obtain f p where C: "cells_ok f p 0 \<lparr>s_mm = mm, s_world = w1\<rparr>"
    and w1: "w_dir w1 pth = Some f" "world_ok w1" and z: "cell_at f 8 0 w1" by auto
  from cells_view [OF C, of 0] obtain v s where v: "atomic_u64 0 \<lparr>s_mm = mm, s_world = w1\<rparr> = Some (Inr v, s)" "av_ptr v = p + 0"
    "cells_ok f p 1 s" "s_world s = w1" by auto
  note S = cells_store [OF v(3,2), of 0]
  have s0: "s0 = drop_atomic_view v (u64_store v 0 s)" using assms(2) c q v(1) by (simp add: ipc_init_def)
  have D: "cells_ok f p 1 s0" "s_world s0 = s_world (u64_store v 0 s)" using cells_drop S(1) by (simp_all add: s0)
  have W: "cell_written f 0 0 w1 (s_world s0)" using S(2) D(2) v(4) by simp
  have "ipc_file pth f w1" using w1 cells_bytes(2) [OF C] by (simp add: ipc_file_def)
  then have "ipc_file pth f (s_world s0)"
    by (rule ipc_file_keeps [OF _ _ written_lengths [OF W]]) (use W in \<open>simp add: cell_written_def\<close>)
  moreover have "cell_at f 8 0 (s_world s0)" using written_cells(2) [OF W, of 8] z by simp
  moreover have "cells_ok f p 1 \<lparr>s_mm = s_mm s0, s_world = s_world s0\<rparr>" using D(1) by (cases s0) simp
  ultimately show ?thesis by (auto simp: ipc_ok_def added_simps(1))
qed

lemma ipc_init_granted:
  assumes "granting 64 env" "world_ok w"
  shows "\<exists>s. ipc_init env pth w = Some (Inr s)"
proof -
  have ok: "world_ok (snd (fs_remove_file env pth w))"
    using world_ok_removed [OF assms(2), of env pth] by (cases "fs_remove_file env pth w") simp
  obtain mm w1 where c: "create_rw env pth 64 (snd (fs_remove_file env pth w)) = (Inr mm, w1)"
    using granted_create_rw [OF assms(1), of 64 pth "snd (fs_remove_file env pth w)"] by (auto simp: MAX_MMAP_SIZE_def)
  from cells_created [OF ok c] cells_view [where n = 0 and off = 0 and s = "\<lparr>s_mm = mm, s_world = w1\<rparr>"] c
  show ?thesis by (fastforce simp: ipc_init_def)
qed

lemma attach_progress:
  assumes "attach_ok f a w" "ipc_file pth f w"
  obtains mm ready counter where "a = At_Done mm ready counter" | e where "a = At_Failed e"
    | a' w' where "attach_step env pth a w = Some (a', w')"
  using attach_step_ok(2) [OF assms, of env] by (metis not_None_eq surj_pair)

lemma writer_progress:
  assumes "ipc_ok pth f writes mm (w, t, r)" "\<not> (\<exists>q. t = W_Returned q)"
  shows "\<exists>c'. ipc_step env pth writes (w, t, r) c'"
proof (cases t)
  case (W_Attaching a)
  then have "attach_ok f a w" "ipc_file pth f w" using assms(1) by (simp_all add: ipc_ok_def)
  then show ?thesis by (rule attach_progress [where env = env]) (use W_Attaching in \<open>blast intro: ipc_step.intros\<close>)+
next
  case (W_Adding m ready counter k)
  then show ?thesis by (cases k) (blast intro: ipc_step.intros)+
qed (use assms(2) in blast)

lemma reader_progress:
  assumes "ipc_ok pth f writes mm (w, t, r)" "\<not> (\<exists>q. r = R_Returned q)"
  shows "\<exists>c'. ipc_step env pth writes (w, t, r) c'"
proof (cases r)
  case (R_Attaching a)
  then have "attach_ok f a w" "ipc_file pth f w" using assms(1) by (simp_all add: ipc_ok_def)
  then show ?thesis by (rule attach_progress [where env = env]) (use R_Attaching in \<open>blast intro: ipc_step.intros\<close>)+
qed (use assms(2) in \<open>blast intro: ipc_step.intros\<close>)+

lemma ipc_ends:
  assumes "ipc_ok pth f writes mm (w, W_Returned (Inr ()), R_Returned (Inr ()))"
  shows "\<exists>w'. ipc_end env pth writes mm (w, W_Returned (Inr ()), R_Returned (Inr ())) = Some (Inr (), w')"
proof -
  obtain p where C: "cells_ok f p 1 \<lparr>s_mm = mm, s_world = w\<rparr>" and x: "cell_at f 8 (of_nat writes) w"
    using assms by (auto simp: ipc_ok_def added_simps(4))
  from cells_view [OF C, of 8] obtain v s where v: "atomic_u64 8 \<lparr>s_mm = mm, s_world = w\<rparr> = Some (Inr v, s)" "av_ptr v = p + 8"
    "cells_ok f p (Suc 1) s" "s_world s = w" by auto
  have "u64_load v s = of_nat writes" using cells_load [OF v(3,2)] x v(4) by simp
  with v(1) show ?thesis by (simp add: ipc_end_def Let_def)
qed

text \<open>On a system that grants what is asked for, the program can run to its end.\<close>

lemma granted_open_rw:
  assumes "granting 64 env" "ipc_file pth f w"
  shows "\<exists>mm w'. open_rw env pth w = (Inr mm, w')"
proof -
  have w: "w_dir w pth = Some f" "length (w_data w f) = 64" using assms(2) by (simp_all add: ipc_file_def)
  obtain q w1 where o: "fs_open env pth opts_rw w = (Inr q, w1)"
    using granted_open [OF assms(1), of opts_rw w pth] w(1) by auto
  then have q: "q = f" "same_files w w1" using fs_open_plain [OF o] w(1) by auto
  obtain n w2 where md: "fs_metadata_len env f w1 = (Inr n, w2)" using granted_metadata [OF assms(1)] by fastforce
  then have n: "n = 64" "same_files w w2" using q w(2) by (auto simp: fs_metadata_len_Inr file_len_def same_files_def)
  obtain page where "os_page_size env = Inr page" using granting_page [OF assms(1)] by blast
  from granted_map [OF assms(1) _ this, of w2 f options_new Access_Write] n(2) w(2)
  obtain m w3 where "rawmmapmut_map_mut env f w2 = (Inr m, w3)"
    by (auto simp: window_len_def options_new_def rawmmapmut_map_mut_def raw_map_mut_def same_files_def)
  with o q md n show ?thesis by (simp add: open_rw_def io_try_def map_err_se_def bind_se_def return_se_def)
qed

lemma ipc_run_trans:
  "ipc_run env pth writes c1 c2 \<Longrightarrow> ipc_run env pth writes c0 c1 \<Longrightarrow> ipc_run env pth writes c0 c2"
  by (induction rule: ipc_run.induct) (auto intro: ipc_run.stepped)

lemma ipc_run_step: "ipc_step env pth writes c c' \<Longrightarrow> ipc_run env pth writes c c'"
  by (blast intro: ipc_run.intros)

lemma attach_runs:
  assumes "granting 64 env" "ipc_file pth f w"
  shows "\<exists>mm1 w1 mm2 v1 w2 mm3 v2 w3. attach_step env pth At_Open w = Some (At_Flag mm1, w1)
    \<and> attach_step env pth (At_Flag mm1) w1 = Some (At_Counter mm2 v1, w2)
    \<and> attach_step env pth (At_Counter mm2 v1) w2 = Some (At_Done mm3 v1 v2, w3)"
proof -
  obtain mm1 w1 where 1: "attach_step env pth At_Open w = Some (At_Flag mm1, w1)" using granted_open_rw [OF assms] by auto
  have "attach_ok f (At_Flag mm1) w1" "same_files w w1" using attach_step_ok(1) [OF _ assms(2) 1] by simp_all
  then obtain p where "cells_ok f p 0 \<lparr>s_mm = mm1, s_world = w1\<rparr>" by auto
  from cells_view [OF this, of 0] obtain v1 s1 where v1: "atomic_u64 0 \<lparr>s_mm = mm1, s_world = w1\<rparr> = Some (Inr v1, s1)" "cells_ok f p 1 s1" by auto
  from cells_view [OF v1(2), of 8] obtain v2 s2 where "atomic_u64 8 s1 = Some (Inr v2, s2)" by auto
  then have "atomic_u64 8 \<lparr>s_mm = s_mm s1, s_world = s_world s1\<rparr> = Some (Inr v2, s2)" by (cases s1) simp
  with 1 v1(1) show ?thesis by auto
qed

lemma adding_runs: "\<exists>w'. ipc_run env pth writes (w, W_Adding mm ready counter k, r) (w', W_Returned (Inr ()), r)"
proof (induction k arbitrary: w mm)
  case 0
  then show ?case by (blast intro: ipc_run_step ipc_step.writer_returns)
next
  case (Suc k)
  show ?case using Suc.IH ipc_run_trans [OF _ ipc_run_step [OF ipc_step.writer_adds [OF refl]]] by blast
qed

lemma ipc_completes:
  assumes "granting 64 env" "ipc_ok pth f writes mm (w, W_Attaching At_Open, R_Attaching At_Open)" "writes < 2 ^ 64"
  shows "\<exists>w'. ipc_run env pth writes (w, W_Attaching At_Open, R_Attaching At_Open) (w', W_Returned (Inr ()), R_Returned (Inr ()))"
proof -
  let ?c = "(w, W_Attaching At_Open, R_Attaching At_Open)" and ?run = "ipc_run env pth writes"
  note T = ipc_run_trans [OF ipc_run_step]
  obtain m1 m2 m3 v1 v2 w1 w2 w3 where a: "attach_step env pth At_Open w = Some (At_Flag m1, w1)"
    "attach_step env pth (At_Flag m1) w1 = Some (At_Counter m2 v1, w2)"
    "attach_step env pth (At_Counter m2 v1) w2 = Some (At_Done m3 v1 v2, w3)"
    using attach_runs [OF assms(1)] assms(2) by (fastforce simp: ipc_ok_def)
  have "?run ?c (w3, W_Attaching (At_Done m3 v1 v2), R_Attaching At_Open)"
    by (rule T [OF ipc_step.writer_attaches [OF a(3)]], rule T [OF ipc_step.writer_attaches [OF a(2)]],
        rule ipc_run_step [OF ipc_step.writer_attaches [OF a(1)]])
  then obtain w4 m4 where 4: "?run ?c (w4, W_Adding m4 v1 v2 writes, R_Attaching At_Open)"
    using T [OF ipc_step.writer_signals [OF refl]] by blast
  obtain w5 where "?run (w4, W_Adding m4 v1 v2 writes, R_Attaching At_Open) (w5, W_Returned (Inr ()), R_Attaching At_Open)"
    using adding_runs by blast
  note 5 = ipc_run_trans [OF this 4]
  from ipc_run_ok [OF assms(2,3) 5] have "ipc_file pth f w5" by (simp add: ipc_ok_def)
  then obtain n1 n2 n3 u1 u2 x1 x2 x3 where b: "attach_step env pth At_Open w5 = Some (At_Flag n1, x1)"
    "attach_step env pth (At_Flag n1) x1 = Some (At_Counter n2 u1, x2)"
    "attach_step env pth (At_Counter n2 u1) x2 = Some (At_Done n3 u1 u2, x3)"
    using attach_runs [OF assms(1)] by fastforce
  have 6: "?run ?c (x3, W_Returned (Inr ()), R_Attaching (At_Done n3 u1 u2))"
    by (rule T [OF ipc_step.reader_attaches [OF b(3)]], rule T [OF ipc_step.reader_attaches [OF b(2)]],
        rule T [OF ipc_step.reader_attaches [OF b(1)] 5])
  from ipc_run_ok [OF assms(2,3) 6] have "attached f n3 u1 u2 x3" "cell_at f 0 1 x3" by (simp_all add: ipc_ok_def)
  then have "u64_load u1 \<lparr>s_mm = n3, s_world = x3\<rparr> \<noteq> 0" using attached_load(2) by fastforce
  from T [OF ipc_step.reader_starts [OF this] 6] have "?run ?c (x3, W_Returned (Inr ()), R_Polling n3 u1 u2 0)" .
  from T [OF ipc_step.reader_returns T [OF ipc_step.reader_deadline this]] show ?thesis by blast
qed

section \<open>Properties\<close>

text \<open>C10. Processes that share a file through their own mappings agree on it. In every interleaving of the writer and the reader, whatever calls the kernel refuses:
  what the reader sees of the counter is never more than the writer will add; once the writer has returned without an error the reader sees the flag and waits no longer; until both have
  returned one of them can go on; and when both have returned without an error the main thread, through a third mapping, finds exactly the
  number of increments, so that its assertion holds.\<close>

theorem shared_counter_exact:
  assumes "world_ok w" "ipc_init env pth w = Some (Inr s0)" "writes < 2 ^ 64"
    and "ipc_run env pth writes (s_world s0, W_Attaching At_Open, R_Attaching At_Open) (w1, t, r)"
  shows "(\<forall>m ready counter x. r = R_Polling m ready counter x \<longrightarrow> unat x \<le> writes)
    \<and> (\<forall>m ready counter. t = W_Returned (Inr ()) \<and> r = R_Attaching (At_Done m ready counter) \<longrightarrow>
         u64_load ready \<lparr>s_mm = m, s_world = w1\<rparr> = 1)
    \<and> (if (\<exists>q. t = W_Returned q) \<and> (\<exists>q. r = R_Returned q)
       then t = W_Returned (Inr ()) \<and> r = R_Returned (Inr ()) \<longrightarrow> (\<exists>w'. ipc_end env pth writes (s_mm s0) (w1, t, r) = Some (Inr (), w'))
       else \<exists>c'. ipc_step env pth writes (w1, t, r) c')"
proof -
  obtain f where "ipc_ok pth f writes (s_mm s0) (s_world s0, W_Attaching At_Open, R_Attaching At_Open)"
    using ipc_started [OF assms(1,2)] by blast
  from ipc_run_ok [OF this assms(3,4)] have I: "ipc_ok pth f writes (s_mm s0) (w1, t, r)" .
  then have "\<forall>m ready counter x. r = R_Polling m ready counter x \<longrightarrow> unat x \<le> writes" by (auto simp: ipc_ok_def)
  moreover have "u64_load ready \<lparr>s_mm = m, s_world = w1\<rparr> = 1" if "t = W_Returned (Inr ())" "r = R_Attaching (At_Done m ready counter)" for m ready counter
    using I that attached_load(2) [of f m ready counter w1 1] by (simp add: ipc_ok_def)
  moreover have "\<exists>w'. ipc_end env pth writes (s_mm s0) (w1, t, r) = Some (Inr (), w')" if "t = W_Returned (Inr ())" "r = R_Returned (Inr ())"
    using ipc_ends [OF I [unfolded that]] that by simp
  ultimately show ?thesis using writer_progress [OF I] reader_progress [OF I] by auto
qed

theorem shared_counter_exact_witness:
  "\<exists>s0 w1 w2. ipc_init sample_env ''example_10_shared.bin'' sample_world = Some (Inr s0)
     \<and> ipc_run sample_env ''example_10_shared.bin'' 20 (s_world s0, W_Attaching At_Open, R_Attaching At_Open)
         (w1, W_Returned (Inr ()), R_Returned (Inr ()))
     \<and> ipc_end sample_env ''example_10_shared.bin'' 20 (s_mm s0) (w1, W_Returned (Inr ()), R_Returned (Inr ())) = Some (Inr (), w2)"
proof -
  let ?p = "''example_10_shared.bin''"
  obtain s0 where i: "ipc_init sample_env ?p sample_world = Some (Inr s0)"
    using ipc_init_granted [OF sample_granting sample_world_ok] by blast
  from ipc_started [OF sample_world_ok i, of 20] obtain f
    where "ipc_ok ?p f 20 (s_mm s0) (s_world s0, W_Attaching At_Open, R_Attaching At_Open)" by blast
  from ipc_completes [OF sample_granting this] obtain w1
    where r: "ipc_run sample_env ?p 20 (s_world s0, W_Attaching At_Open, R_Attaching At_Open) (w1, W_Returned (Inr ()), R_Returned (Inr ()))" by auto
  with shared_counter_exact [OF sample_world_ok i _ r] i show ?thesis by auto
qed

end
