(* ===== verification/Programs.thy ===== *)
theory Programs
  imports Mirror Example_Log Mmap_Smaps
begin

text \<open>
  A program logic for the clients of the library. A program is a computation on a state that may wait for ever (\<open>None\<close>), end
  with an error, or return; a triple says that it does not wait, that what it returns satisfies the postcondition, and that
  on a system that refuses nothing it does return. There is one rule for each way the examples compose calls, and one for each call they make.
\<close>

section \<open>Programs over the file system\<close>

type_synonym 'a prog = "world \<Rightarrow> ((mmap_io_error + 'a) \<times> world) option"

definition prog_return :: "'a \<Rightarrow> 's \<Rightarrow> ((mmap_io_error + 'a) \<times> 's) option" where
  "prog_return x w = Some (Inr x, w)"

definition prog_bind ::
  "('s \<Rightarrow> ((mmap_io_error + 'a) \<times> 's) option) \<Rightarrow> ('a \<Rightarrow> 's \<Rightarrow> ((mmap_io_error + 'b) \<times> 's) option) \<Rightarrow>
    's \<Rightarrow> ((mmap_io_error + 'b) \<times> 's) option" where
  "prog_bind m f w =
     (case m w of
        None \<Rightarrow> None
      | Some (Inl e, w') \<Rightarrow> Some (Inl e, w')
      | Some (Inr x, w') \<Rightarrow> f x w')"

text \<open>\<open>let _ = std::fs::remove_file(&path)\<close>\<close>

definition ignore_remove :: "env \<Rightarrow> path \<Rightarrow> unit prog" where
  "ignore_remove env pth w = Some (Inr (), snd (fs_remove_file env pth w))"

text \<open>The examples remove their file before and after, and keep it on an error.\<close>

definition temp_file :: "env \<Rightarrow> path \<Rightarrow> 'a prog \<Rightarrow> 'a prog" where
  "temp_file env pth body =
     prog_bind (ignore_remove env pth) (\<lambda>_.
     prog_bind body (\<lambda>shown.
     prog_bind (ignore_remove env pth) (\<lambda>_. prog_return shown)))"

text \<open>A handle from its construction to its drop, at the end of the scope or on an early return.\<close>

definition with_mmap :: "env \<Rightarrow> inner open_io \<Rightarrow> 'a op \<Rightarrow> 'a prog" where
  "with_mmap env mk body w =
     (case mk w of
        (Inl e, w1) \<Rightarrow> Some (Inl e, w1)
      | (Inr mm, w1) \<Rightarrow>
          map_option (\<lambda>(r, s). (r, mapping_drop env (s_mapping s) (s_world s))) (body \<lparr>s_mm = mm, s_world = w1\<rparr>))"

text \<open>The builder's terminal method, without the record of the touched bytes.\<close>

definition created :: "env \<Rightarrow> bool \<Rightarrow> builder \<Rightarrow> inner open_io" where
  "created env spawned b = bind_se (builder_create env spawned b) (\<lambda>(mm, _). return_se mm)"

text \<open>A slice from \<open>as_slice\<close> to its drop.\<close>

definition with_slice :: "mapped_slice op \<Rightarrow> (mapped_slice \<Rightarrow> 'a op) \<Rightarrow> 'a op" where
  "with_slice mk body s =
     (case mk s of
        None \<Rightarrow> None
      | Some (Inl e, s1) \<Rightarrow> Some (Inl e, s1)
      | Some (Inr v, s1) \<Rightarrow> map_option (\<lambda>(r, s2). (r, drop_slice v s2)) (body v s1))"

text \<open>The bytes of a slice that is dropped at once.\<close>

definition slice_copied :: "mapped_slice \<Rightarrow> byte list op" where
  "slice_copied v s = Some (Inr (slice_bytes s v), s)"

section \<open>Triples\<close>

definition runs ::
  "bool \<Rightarrow> ('s \<Rightarrow> bool) \<Rightarrow> ('s \<Rightarrow> ((mmap_io_error + 'a) \<times> 's) option) \<Rightarrow> ('a \<Rightarrow> 's \<Rightarrow> bool) \<Rightarrow> bool" where
  "runs g P m Q \<longleftrightarrow>
     (\<forall>s. P s \<longrightarrow> (\<exists>r s'. m s = Some (r, s') \<and> (\<forall>x. r = Inr x \<longrightarrow> Q x s') \<and> (g \<longrightarrow> is_ok r)))"

lemma runsI:
  assumes "\<And>s. P s \<Longrightarrow> \<exists>r s'. m s = Some (r, s') \<and> (\<forall>x. r = Inr x \<longrightarrow> Q x s') \<and> (g \<longrightarrow> is_ok r)"
  shows "runs g P m Q"
  using assms by (simp add: runs_def)

lemma runsE:
  assumes "runs g P m Q" "P s"
  obtains e s' where "m s = Some (Inl e, s')" "\<not> g" | x s' where "m s = Some (Inr x, s')" "Q x s'"
proof -
  from assms obtain r s' where r: "m s = Some (r, s')" "\<forall>x. r = Inr x \<longrightarrow> Q x s'" "g \<longrightarrow> is_ok r" by (auto simp: runs_def)
  then show thesis using that by (cases r) auto
qed

lemma runs_error: "m s = Some (Inl e, s') \<Longrightarrow> \<not> g \<Longrightarrow> \<exists>r s'. m s = Some (r, s') \<and> (\<forall>x. r = Inr x \<longrightarrow> Q x s') \<and> (g \<longrightarrow> is_ok r)"
  by simp

lemma runs_value: "m s = Some (Inr x, s') \<Longrightarrow> Q x s' \<Longrightarrow> \<exists>r s'. m s = Some (r, s') \<and> (\<forall>x. r = Inr x \<longrightarrow> Q x s') \<and> (g \<longrightarrow> is_ok r)"
  by simp

lemma runs_conseq:
  assumes "runs g P m Q" "\<And>s. P' s \<Longrightarrow> P s" "\<And>x s. Q x s \<Longrightarrow> Q' x s"
  shows "runs g P' m Q'"
  using assms by (fastforce simp: runs_def)

lemma runs_pre: "runs g P m Q \<Longrightarrow> (\<And>s. P' s \<Longrightarrow> P s) \<Longrightarrow> runs g P' m Q"
  by (rule runs_conseq)

lemma runs_post: "runs g P m Q \<Longrightarrow> (\<And>x s. Q x s \<Longrightarrow> Q' x s) \<Longrightarrow> runs g P m Q'"
  by (rule runs_conseq)

text \<open>A program may be replaced by one that does the same wherever the precondition holds.\<close>

lemma runs_cong: "(\<And>s. P s \<Longrightarrow> m s = m' s) \<Longrightarrow> runs g P m' Q \<Longrightarrow> runs g P m Q"
  by (simp add: runs_def)

lemma runs_return: "(\<And>s. P s \<Longrightarrow> Q x s) \<Longrightarrow> runs g P (op_return x) Q"
  by (simp add: runs_def op_return_def)

lemma runs_prog_return: "(\<And>s. P s \<Longrightarrow> Q x s) \<Longrightarrow> runs g P (prog_return x) Q"
  by (simp add: runs_def prog_return_def)

lemma runs_prog_bind:
  assumes "runs g P m R" "\<And>x. runs g (R x) (f x) Q"
  shows "runs g P (prog_bind m f) Q"
proof (rule runsI)
  fix s assume "P s"
  from assms(1) this show "\<exists>r s'. prog_bind m f s = Some (r, s') \<and> (\<forall>x. r = Inr x \<longrightarrow> Q x s') \<and> (g \<longrightarrow> is_ok r)"
  proof (cases rule: runsE)
    case 1
    then show ?thesis by (simp add: prog_bind_def)
  next
    case (2 x s1)
    with assms(2) [of x] show ?thesis by (simp add: prog_bind_def runs_def)
  qed
qed

text \<open>The sequence of calls on one mapping is the same combinator.\<close>

lemma op_bind_prog: "op_bind m f = prog_bind m f"
  by (simp add: fun_eq_iff op_bind_def prog_bind_def)

lemma runs_bind: "runs g P m R \<Longrightarrow> (\<And>x. runs g (R x) (f x) Q) \<Longrightarrow> runs g P (op_bind m f) Q"
  unfolding op_bind_prog by (rule runs_prog_bind)

lemma runs_bind_value:
  assumes "runs g P m (\<lambda>x s. x = v \<and> R s)" "runs g R (f v) Q"
  shows "runs g P (op_bind m f) Q"
  by (rule runs_bind [OF assms(1)]) (use assms(2) in \<open>auto simp: runs_def\<close>)

text \<open>A loop over a list of steps.\<close>

fun op_for :: "('i \<Rightarrow> unit op) \<Rightarrow> 'i list \<Rightarrow> unit op" where
  "op_for f [] = op_return ()"
| "op_for f (i # is) = op_bind (f i) (\<lambda>_. op_for f is)"

section \<open>Calls on a read-write mapping\<close>

lemma unat_small: "k < 2 ^ 63 \<Longrightarrow> unat (of_nat k :: u64) = k"
  by (simp add: unat_of_nat)

definition on_file :: "nat \<Rightarrow> env \<Rightarrow> path \<Rightarrow> byte list \<Rightarrow> sys \<Rightarrow> bool" where
  "on_file lim env pth bs s \<longleftrightarrow> mirrors lim env pth s bs \<and> world_ok (s_world s)"

lemma on_file_entry: "on_file lim env pth bs s \<Longrightarrow> mirrors lim env pth s' bs' \<Longrightarrow> same_entry s s' \<Longrightarrow> on_file lim env pth bs' s'"
  using mirrorsD(1) [of lim env pth s' bs'] by (auto simp: on_file_def intro: world_ok_entry)

lemma update_runs:
  assumes "unat off + length d \<le> length bs"
  shows "runs (granting lim env) (on_file lim env pth bs) (update_region env off d) (\<lambda>_. on_file lim env pth (splice_at bs (unat off) d))"
proof (rule runsI)
  fix s assume s: "on_file lim env pth bs s"
  then have m: "mirrors lim env pth s bs" by (simp add: on_file_def)
  have "length d < 2 ^ 63" using assms mirrorsD(10) [OF m] by simp
  from update_mirrors [OF m this assms] on_file_entry [OF s]
  show "\<exists>r s'. update_region env off d s = Some (r, s') \<and> (\<forall>x. r = Inr x \<longrightarrow> on_file lim env pth (splice_at bs (unat off) d) s')
    \<and> (granting lim env \<longrightarrow> is_ok r)" by fastforce
qed

lemma flush_runs: "runs (granting lim env) (on_file lim env pth bs) (mmap_flush env) (\<lambda>_. on_file lim env pth bs)"
proof (rule runsI)
  fix s assume s: "on_file lim env pth bs s"
  then have m: "mirrors lim env pth s bs" by (simp add: on_file_def)
  from flush_mirrors [OF m] on_file_entry [OF s]
  show "\<exists>r s'. mmap_flush env s = Some (r, s') \<and> (\<forall>x. r = Inr x \<longrightarrow> on_file lim env pth bs s') \<and> (granting lim env \<longrightarrow> is_ok r)"
    by fastforce
qed

lemma resize_runs:
  assumes "e_target env \<noteq> Windows" "n \<noteq> 0" "unat n \<le> lim" "\<not> n > MAX_MMAP_SIZE"
  shows "runs (granting lim env) (on_file lim env pth bs) (resize env n) (\<lambda>_. on_file lim env pth (resize_bytes (unat n) bs))"
proof (rule runsI)
  fix s assume s: "on_file lim env pth bs s"
  then have m: "mirrors lim env pth s bs" by (simp add: on_file_def)
  from resize_mirrors [OF m assms] on_file_entry [OF s]
  show "\<exists>r s'. resize env n s = Some (r, s') \<and> (\<forall>x. r = Inr x \<longrightarrow> on_file lim env pth (resize_bytes (unat n) bs) s')
    \<and> (granting lim env \<longrightarrow> is_ok r)" by fastforce
qed

lemma slice_runs:
  assumes "sh < SHARDS" "fits off len bs"
  shows "runs g (on_file lim env pth bs) (with_slice (as_slice env sh off len) slice_copied)
    (\<lambda>x s. x = sub_slice bs (unat off) (unat off + unat len) \<and> on_file lim env pth bs s)"
proof (rule runsI)
  fix s assume s: "on_file lim env pth bs s"
  then have m: "mirrors lim env pth s bs" by (simp add: on_file_def)
  note I = idle_slice [OF mirrorsD(14) [OF m] assms(1), unfolded mirrorsD(6) [OF m], OF assms(2)]
  then obtain v s' where v: "as_slice env sh off len s = Some (Inr v, s')"
    "slice_bytes s' v = sub_slice bs (unat off) (unat off + unat len)" "session_ok env (session_start (drop_slice v s'))"
    "i_map (s_mm (drop_slice v s')) = i_map (s_mm s)" "s_world (drop_slice v s') = s_world s" by blast
  have "on_file lim env pth bs (drop_slice v s')"
    using mirrors_same_map [OF m v(3-5)] s v(5) by (simp add: on_file_def)
  with v(1,2) show "\<exists>r s'. with_slice (as_slice env sh off len) slice_copied s = Some (r, s') \<and>
      (\<forall>x. r = Inr x \<longrightarrow> x = sub_slice bs (unat off) (unat off + unat len) \<and> on_file lim env pth bs s') \<and> (g \<longrightarrow> is_ok r)"
    by (simp add: with_slice_def slice_copied_def)
qed

lemma read_into_runs:
  assumes "buf \<noteq> []" "unat off + length buf \<le> length bs"
  shows "runs g (on_file lim env pth bs) (read_into env off buf)
    (\<lambda>x s. x = sub_slice bs (unat off) (unat off + length buf) \<and> on_file lim env pth bs s)"
proof (rule runsI)
  fix s assume s: "on_file lim env pth bs s"
  then have "mirrors lim env pth s bs" by (simp add: on_file_def)
  note F = mirrorsD [OF this]
  have "length buf < 2 ^ 63" using assms(2) F(10) by simp
  from read_into_eq [OF F(1,4) this assms(1), of env off] F(3,6,7) assms(2) s
  show "\<exists>r s'. read_into env off buf s = Some (r, s') \<and>
      (\<forall>x. r = Inr x \<longrightarrow> x = sub_slice bs (unat off) (unat off + length buf) \<and> on_file lim env pth bs s') \<and> (g \<longrightarrow> is_ok r)"
    by simp
qed

lemma on_file_sys:
  assumes "on_file lim env pth bs s"
  shows "sys_ok s" "s_bytes s = bs" "mirrors lim env pth s bs"
  using assms mirrorsD(1,6) by (auto simp: on_file_def)

text \<open>Reading back what was written.\<close>

lemma slice_written: "length d = n \<Longrightarrow> s + n \<le> length xs \<Longrightarrow> e = s + n \<Longrightarrow> sub_slice (splice_at xs s d) s e = d"
  using slice_splice_same [of s d xs] by simp

lemmas written = slice_written slice_splice_disjoint length_splice_at

lemma hugepage_answer:
  assumes "on_file lim env pth bs s"
  shows "\<exists>huge. is_hugepage_backed env s = Some huge"
  using mirrorsD(3) [OF on_file_sys(3) [OF assms]] by (simp add: is_hugepage_backed_def base_addr_def)

text \<open>The calls as first statements of a program.\<close>

lemmas update_then = runs_bind [OF update_runs]
lemmas flush_then = runs_bind [OF flush_runs]
lemmas resize_then = runs_bind [OF resize_runs]

section \<open>Filling page by page\<close>

text \<open>The first \<open>k\<close> pages of the bytes are replaced.\<close>

definition paged :: "(nat \<Rightarrow> byte list) \<Rightarrow> nat \<Rightarrow> byte list \<Rightarrow> nat \<Rightarrow> byte list" where
  "paged page p xs k = concat (map page [0..<k]) @ drop (k * p) xs"

lemma length_pages: "(\<And>i. length (page i) = p) \<Longrightarrow> length (concat (map page [0..<k])) = k * p"
  by (induction k) simp_all

lemma paged_start [simp]: "paged page p xs 0 = xs"
  by (simp add: paged_def)

lemma paged_all: "length xs = k * p \<Longrightarrow> paged page p xs k = concat (map page [0..<k])"
  by (simp add: paged_def)

lemma length_paged: "(\<And>i. length (page i) = p) \<Longrightarrow> k * p \<le> length xs \<Longrightarrow> length (paged page p xs k) = length xs"
  by (simp add: paged_def length_pages)

lemma page_written:
  assumes "\<And>i. length (page i) = p" "Suc k * p \<le> length xs"
  shows "splice_at (paged page p xs k) (k * p) (page k) = paged page p xs (Suc k)"
  by (simp add: splice_at_def paged_def length_pages [OF assms(1)] assms(1) add.commute)

text \<open>What a loop of writes relies on: a judgement that says which bytes a program leaves where it found others, that holds of doing
  nothing and of one write, and composes.\<close>

locale byte_program =
  fixes leaves :: "byte list \<Rightarrow> unit op \<Rightarrow> byte list \<Rightarrow> bool"
    and upd :: "u64 \<Rightarrow> byte list \<Rightarrow> unit op"
  assumes skip: "leaves bs (op_return ()) bs"
    and andthen: "leaves bs m bs1 \<Longrightarrow> leaves bs1 m' bs2 \<Longrightarrow> leaves bs (op_bind m (\<lambda>_. m')) bs2"
    and one_write: "unat off + length d \<le> length bs \<Longrightarrow> leaves bs (upd off d) (splice_at bs (unat off) d)"
begin

lemma for_each:
  assumes "\<And>k. k < length is \<Longrightarrow> leaves (B k) (f (is ! k)) (B (Suc k))"
  shows "leaves (B 0) (op_for f is) (B (length is))"
  using assms
proof (induction "is" arbitrary: B)
  case Nil
  show ?case by simp (rule skip)
next
  case (Cons i "is")
  have "leaves (B 0) (f i) (B (Suc 0))" using Cons.prems [of 0] by simp
  moreover have "leaves (B (Suc 0)) (op_for f is) (B (Suc (length is)))"
    using Cons.IH [of "\<lambda>k. B (Suc k)"] Cons.prems [of "Suc _"] by simp
  ultimately show ?case by simp (rule andthen)
qed

lemma write_page:
  assumes "\<And>i. length (page i) = p" "Suc k * p \<le> length xs" "unat off = k * p"
  shows "leaves (paged page p xs k) (upd off (page k)) (paged page p xs (Suc k))"
proof -
  have "k * p + p \<le> length (paged page p xs k)" using assms(2) length_paged [of page p k xs, OF assms(1)] by simp
  with one_write [of off "page k" "paged page p xs k"] page_written [of page p k xs, OF assms(1,2)] show ?thesis
    by (simp add: assms(1,3))
qed

lemma fill_pages:
  assumes "\<And>i. length (page i) = p" "n * p \<le> length xs" "n * p < 2 ^ 63"
  shows "leaves xs (op_for (\<lambda>i. upd (of_nat (i * p)) (page i)) [0..<n]) (paged page p xs n)"
proof -
  have "leaves (paged page p xs k) (upd (of_nat ([0..<n] ! k * p)) (page ([0..<n] ! k))) (paged page p xs (Suc k))"
    if k: "k < length [0..<n]" for k
  proof -
    have le: "Suc k * p \<le> n * p" using k by (intro mult_le_mono1) simp
    then have "k * p < 2 ^ 63" using assms(3) by simp
    then have "unat (of_nat (k * p) :: u64) = k * p" by (rule unat_small)
    with write_page [OF assms(1) _ this, where xs = xs] le assms(2) k show ?thesis by simp
  qed
  from for_each [of "[0..<n]" "paged page p xs", OF this] show ?thesis by simp
qed

end

lemma op_for_map: "op_for f (map g is) = op_for (\<lambda>i. f (g i)) is"
  by (induction "is") simp_all

lemma op_for_cong: "(\<And>i. i \<in> set is \<Longrightarrow> f i = g i) \<Longrightarrow> op_for f is = op_for g is"
  by (induction "is") simp_all

text \<open>The triples on one mapping are such a judgement.\<close>

interpretation on_one: byte_program
  "\<lambda>bs m bs'. runs (granting lim env) (on_file lim env pth bs) m (\<lambda>_. on_file lim env pth bs')" "update_region env" for lim env pth
  by unfold_locales (auto intro: runs_return runs_bind update_runs)

section \<open>Handles\<close>

text \<open>The path names a file with these bytes.\<close>

definition has_file :: "path \<Rightarrow> byte list \<Rightarrow> world \<Rightarrow> bool" where
  "has_file pth bs w \<longleftrightarrow> world_ok w \<and> (\<exists>f. w_dir w pth = Some f \<and> w_data w f = bs)"

lemma has_file_same: "has_file pth bs w \<Longrightarrow> same_files w w' \<Longrightarrow> has_file pth bs w'"
  by (auto simp: has_file_def same_files_def world_ok_def)

lemma dropped_file:
  assumes "on_file lim env pth bs s"
  shows "has_file pth bs (mapping_drop env (s_mapping s) (s_world s))"
proof -
  have m: "mirrors lim env pth s bs" and w: "world_ok (s_world s)" using assms by (simp_all add: on_file_def)
  obtain x where x: "i_map (s_mm s) = Rw x" and d: "w_dir (s_world s) pth = Some (i_file (s_mm s))"
    using m by (auto simp: mirrors_def)
  have "w_data (s_world s) (i_file (s_mm s)) = bs"
    using rw_facts(4) [OF mirrorsD(1) [OF m] x] mirrorsD(6) [OF m] x by simp
  with w d have "has_file pth bs (s_world s)" by (simp add: has_file_def)
  then show ?thesis by (rule has_file_same [OF _ mapping_drop_files])
qed

lemma create_on_file:
  assumes "world_ok w" "create_rw env pth n w = (Inr mm, w')" "unat n \<le> lim"
  shows "on_file lim env pth (replicate (unat n) 0) \<lparr>s_mm = mm, s_world = w'\<rparr>"
proof -
  let ?s = "\<lparr>s_mm = mm, s_world = w'\<rparr>"
  note F = created_fresh [OF assms(1,2)]
  from assms(2) obtain f w1 w2 m where o: "fs_open env pth opts_truncate w = (Inr f, w1)"
    and sl: "fs_set_len env f n w1 = (Inr (), w2)" and m: "rawmmapmut_map_mut env f w2 = (Inr m, w')"
    and mm: "mm = inner_new pth f ReadWrite n (Rw m) Never False" by (rule create_rw_created)
  have "w_dir w1 pth = Some f" using fs_open_truncating(2) [OF o _ _ _ refl] by simp
  moreover have "w_dir w2 = w_dir w1" using set_len_names [of w1 env f n] sl by (simp add: same_names_def)
  moreover have "same_files w2 w'" using m map_impl_data by (auto simp: rawmmapmut_map_mut_def raw_map_mut_def same_files_def)
  ultimately have "w_dir w' pth = Some (i_file mm)" using mm by (simp add: same_files_def inner_new_def)
  moreover have "session_ok env (session_start ?s)"
    using freshD [OF F] by (intro session_start_ok) (simp_all add: write_free_def registry_new_def atomic_empty_def)
  moreover have "world_ok w'" using establishes_create_rw [of env pth n] assms(1,2) by (auto simp: establishes_def opened_ok_def)
  ultimately show ?thesis using freshD(7) [OF F] assms(3) mm by (simp add: on_file_def mirrors_def inner_new_def)
qed

text \<open>A scope around a mapping. When the constructor fails the program ends with its error.\<close>

lemma runs_with_mmap:
  assumes "\<And>w mm w'. P w \<Longrightarrow> mk w = (Inr mm, w') \<Longrightarrow> R \<lparr>s_mm = mm, s_world = w'\<rparr>"
    and "\<And>w. g \<Longrightarrow> P w \<Longrightarrow> is_ok (fst (mk w))"
    and "runs g R body (\<lambda>x s. Q x (mapping_drop env (s_mapping s) (s_world s)))"
  shows "runs g P (with_mmap env mk body) Q"
proof (rule runsI)
  fix w assume P: "P w"
  obtain q w1 where mk: "mk w = (q, w1)" by fastforce
  show "\<exists>r w'. with_mmap env mk body w = Some (r, w') \<and> (\<forall>x. r = Inr x \<longrightarrow> Q x w') \<and> (g \<longrightarrow> is_ok r)"
  proof (cases q)
    case (Inl e)
    with mk assms(2) [OF _ P] show ?thesis by (auto simp: with_mmap_def)
  next
    case (Inr mm)
    have "R \<lparr>s_mm = mm, s_world = w1\<rparr>" using assms(1) [OF P] mk Inr by simp
    from assms(3) this show ?thesis by (cases rule: runsE) (auto simp: with_mmap_def mk Inr)
  qed
qed

lemma create_runs:
  assumes "n \<noteq> 0" "\<not> n > MAX_MMAP_SIZE" "unat n \<le> lim"
    and "runs (granting lim env) (on_file lim env pth (replicate (unat n) 0)) body
      (\<lambda>x s. \<exists>bs. on_file lim env pth bs s \<and> (\<forall>w. has_file pth bs w \<longrightarrow> Q x w))"
  shows "runs (granting lim env) world_ok (with_mmap env (create_rw env pth n) body) Q"
proof (rule runs_with_mmap [where R = "on_file lim env pth (replicate (unat n) 0)"])
  show "is_ok (fst (create_rw env pth n w))" if "granting lim env" for w
    using granted_create_rw [OF that assms(1-3), of pth w] by auto
  show "runs (granting lim env) (on_file lim env pth (replicate (unat n) 0)) body
      (\<lambda>x s. Q x (mapping_drop env (s_mapping s) (s_world s)))"
    by (rule runs_post [OF assms(4)]) (use dropped_file in blast)
qed (rule create_on_file [OF _ _ assms(3)])

text \<open>A mapping from the builder.\<close>

lemma created_runs:
  assumes "b_mode b = Some ReadWrite" "b_size b = Some n" "b_path b = pth" "n \<noteq> 0" "\<not> n > MAX_MMAP_SIZE" "unat n \<le> lim"
    and "runs (granting lim env) (on_file lim env pth (replicate (unat n) 0)) body
      (\<lambda>x s. \<exists>bs. on_file lim env pth bs s \<and> (\<forall>w. has_file pth bs w \<longrightarrow> Q x w))"
  shows "runs (granting lim env) world_ok (with_mmap env (created env spawned b) body) Q"
proof (rule runs_with_mmap [where R = "on_file lim env pth (replicate (unat n) 0)"])
  show "is_ok (fst (created env spawned b w))" if "granting lim env" for w
    using granted_builder_create [OF that assms(1,2,4-6), of spawned w] by (auto simp: created_def bind_se_def return_se_def)
  show "on_file lim env pth (replicate (unat n) 0) \<lparr>s_mm = mm, s_world = w'\<rparr>"
    if "world_ok w" "created env spawned b w = (Inr mm, w')" for w mm w'
    using builder_created [OF _ that(1) assms(1,2,6), of env spawned mm _ w'] that(2) assms(3)
    by (auto simp: created_def bind_se_Inr return_se_def on_file_def)
  show "runs (granting lim env) (on_file lim env pth (replicate (unat n) 0)) body
      (\<lambda>x s. Q x (mapping_drop env (s_mapping s) (s_world s)))"
    by (rule runs_post [OF assms(7)]) (use dropped_file in blast)
qed

text \<open>A read-only mapping: reading leaves its state as it is.\<close>

definition reading :: "env \<Rightarrow> byte list \<Rightarrow> world \<Rightarrow> sys \<Rightarrow> bool" where
  "reading env bs w s \<longleftrightarrow> session_ok env (session_start s) \<and> s_bytes s = bs \<and> (\<exists>m. i_map (s_mm s) = Ro m) \<and> same_files w (s_world s)"

lemma open_runs:
  assumes "bs \<noteq> []" "length bs \<le> lim"
    and "\<And>w. has_file pth bs w \<Longrightarrow> runs (granting lim env) (reading env bs w) body (\<lambda>x s. reading env bs w s \<and> R x)"
  shows "runs (granting lim env) (has_file pth bs) (with_mmap env (open_ro env pth) body) (\<lambda>x w. has_file pth bs w \<and> R x)"
proof (rule runsI)
  fix w assume h: "has_file pth bs w"
  then obtain f where f: "world_ok w" "w_dir w pth = Some f" "w_data w f = bs" by (auto simp: has_file_def)
  have "runs (granting lim env) (\<lambda>w'. w' = w) (with_mmap env (open_ro env pth) body) (\<lambda>x w. has_file pth bs w \<and> R x)"
  proof (rule runs_with_mmap)
    fix w0 mm w' assume "w0 = w" and o: "open_ro env pth w0 = (Inr mm, w')"
    with open_ro_cases(1,2) [OF f(1,2)] f(3) have "same_files w w'"
      "session_ok env (session_start \<lparr>s_mm = mm, s_world = w'\<rparr>) \<and> s_bytes \<lparr>s_mm = mm, s_world = w'\<rparr> = bs" by blast+
    moreover have "\<exists>m. i_map mm = Ro m"
      using o by (auto simp: open_ro_def bind_se_Inr return_se_def inner_new_def)
    ultimately show "reading env bs w \<lparr>s_mm = mm, s_world = w'\<rparr>" by (simp add: reading_def)
  next
    fix w0 assume "granting lim env" "w0 = w"
    with open_ro_cases(3) [OF f(1,2), of env _ _ lim] assms(1,2) f(3) show "is_ok (fst (open_ro env pth w0))"
      by (cases "open_ro env pth w") auto
  next
    show "runs (granting lim env) (reading env bs w) body
        (\<lambda>x s. has_file pth bs (mapping_drop env (s_mapping s) (s_world s)) \<and> R x)"
    proof (rule runs_post [OF assms(3) [OF h]], intro conjI)
      fix x s assume a: "reading env bs w s \<and> R x"
      then have "has_file pth bs (s_world s)" using has_file_same [OF h] by (simp add: reading_def)
      then show "has_file pth bs (mapping_drop env (s_mapping s) (s_world s))" by (rule has_file_same [OF _ mapping_drop_files])
      show "R x" using a by simp
    qed
  qed
  then show "\<exists>r w'. with_mmap env (open_ro env pth) body w = Some (r, w') \<and>
      (\<forall>x. r = Inr x \<longrightarrow> has_file pth bs w' \<and> R x) \<and> (granting lim env \<longrightarrow> is_ok r)" by (simp add: runs_def)
qed

lemma reading_slice_runs:
  assumes "len \<noteq> 0" "unat off + unat len \<le> length bs"
    and "runs g (reading env bs w) (body (Slice_Owned (unat off) (unat off + unat len))) Q"
  shows "runs g (reading env bs w) (with_slice (as_slice env sh off len) body) Q"
proof (rule runsI)
  fix s assume s: "reading env bs w s"
  then obtain m where m: "i_map (s_mm s) = Ro m" by (auto simp: reading_def)
  note I = session_start_idle [of env s]
  have ok: "sys_ok s" "read_free s" "s_bytes s = bs" using s I(1,3) by (simp_all add: reading_def)
  have "as_slice env sh off len s = Some (Inr (Slice_Owned (unat off) (unat off + unat len)), s)"
    using assms(1,2) ok sys_okD(5) [OF ok(1)] m by (simp add: as_slice_eq into_view_def)
  moreover from assms(3) s obtain r s' where "body (Slice_Owned (unat off) (unat off + unat len)) s = Some (r, s')"
    "\<forall>x. r = Inr x \<longrightarrow> Q x s'" "g \<longrightarrow> is_ok r" unfolding runs_def by blast
  ultimately show "\<exists>r s'. with_slice (as_slice env sh off len) body s = Some (r, s') \<and> (\<forall>x. r = Inr x \<longrightarrow> Q x s') \<and> (g \<longrightarrow> is_ok r)"
    by (simp add: with_slice_def drop_slice_def)
qed

lemma reading_len:
  assumes "reading env bs w s"
  shows "mmap_len s = of_nat (length bs)" "length bs < 2 ^ 63"
proof -
  have ok: "sys_ok s" "s_bytes s = bs" using assms session_start_idle(1) by (auto simp: reading_def)
  show "length bs < 2 ^ 63" using sys_okD(5,6) [OF ok(1)] ok(2) by simp
  have "length bs = unat (mmap_len s)" using sys_okD(3,5) [OF ok(1)] ok(2) by (simp add: mmap_len_def)
  then show "mmap_len s = of_nat (length bs)" by simp
qed

lemma slice_copied_runs:
  "(\<And>s. P s \<Longrightarrow> Q (slice_bytes s v) s) \<Longrightarrow> runs g P (slice_copied v) Q"
  by (simp add: runs_def slice_copied_def)


text \<open>The file is removed at the end.\<close>

definition no_file :: "path \<Rightarrow> world \<Rightarrow> bool" where
  "no_file pth w \<longleftrightarrow> w_dir w pth = None"

lemma removed_ok: "world_ok w \<Longrightarrow> world_ok (snd (fs_remove_file env pth w))"
  using world_ok_removed by (metis prod.collapse)

lemma remove_runs: "runs g world_ok (ignore_remove env pth) (\<lambda>_. world_ok)"
  by (simp add: runs_def ignore_remove_def removed_ok)

lemma final_remove_runs:
  "runs (granting lim env) (\<lambda>w. world_ok w \<and> R) (ignore_remove env pth)
    (\<lambda>_ w. world_ok w \<and> R \<and> (granting lim env \<longrightarrow> no_file pth w))"
proof -
  have "no_file pth (snd (fs_remove_file env pth w))" if g: "granting lim env" for w
    using granted_call [OF g, of "Fs_remove_file pth" w]
    by (auto simp: fs_remove_file_def bind_se_def no_file_def split: option.splits)
  then show ?thesis by (simp add: runs_def ignore_remove_def removed_ok)
qed

text \<open>A program on a temporary file.\<close>

lemma temp_file_runs:
  assumes "runs (granting lim env) world_ok body (\<lambda>x w. has_file pth bs w \<and> R x)"
  shows "runs (granting lim env) world_ok (temp_file env pth body) (\<lambda>x w. R x \<and> (granting lim env \<longrightarrow> no_file pth w))"
proof -
  have "runs (granting lim env) world_ok body (\<lambda>x w. world_ok w \<and> R x)"
    by (rule runs_post [OF assms]) (simp add: has_file_def)
  moreover have "runs (granting lim env) (\<lambda>w. world_ok w \<and> R x) (prog_bind (ignore_remove env pth) (\<lambda>_. prog_return x))
      (\<lambda>x w. R x \<and> (granting lim env \<longrightarrow> no_file pth w))" for x
    by (rule runs_prog_bind [OF final_remove_runs runs_prog_return]) blast
  ultimately have "runs (granting lim env) world_ok (prog_bind body (\<lambda>shown. prog_bind (ignore_remove env pth) (\<lambda>_. prog_return shown)))
      (\<lambda>x w. R x \<and> (granting lim env \<longrightarrow> no_file pth w))" by (rule runs_prog_bind)
  then show ?thesis unfolding temp_file_def by (rule runs_prog_bind [OF remove_runs])
qed

text \<open>What a triple says of one run.\<close>

lemma runsD:
  assumes "runs g P m Q" "P s"
  shows "\<exists>r s'. m s = Some (r, s') \<and> (\<forall>x. r = Inr x \<longrightarrow> Q x s') \<and> (g \<longrightarrow> is_ok r)"
  using assms by (simp add: runs_def)

end
