(* ===== verification/Example_Basics.thy ===== *)
theory Example_Basics
  imports Programs Segment Mmap_Async
begin

text \<open>
  Four short programs of \<open>examples/\<close>: \<open>01_read_a_file.rs\<close>, \<open>02_create_and_write.rs\<close>, \<open>03_segment_views.rs\<close> and
  \<open>09_async_writes.rs\<close>. Each is modelled whole; its value is what it prints. Printing and the conversion to text are left out.
\<close>

section \<open>The programs\<close>

definition bytes_of :: "string \<Rightarrow> byte list" where
  "bytes_of cs = map of_char cs"

subsection \<open>Reading a file\<close>

text \<open>The length of the file and its first bytes. An empty preview is the branch that prints \<open>(file is empty)\<close>.\<close>

definition read_a_file :: "env \<Rightarrow> nat \<Rightarrow> path \<Rightarrow> (u64 \<times> byte list) prog" where
  "read_a_file env sh pth =
     with_mmap env (open_ro env pth) (\<lambda>s.
       let len = mmap_len s;
           preview_len = min len 64
       in (if preview_len > 0
           then op_bind (with_slice (as_slice env sh 0 preview_len) slice_copied) (\<lambda>preview. op_return (len, preview))
           else op_return (len, [])) s)"

subsection \<open>Creating and writing\<close>

definition greeting :: "byte list" where
  "greeting = bytes_of ''hello, mmap-io''"

definition again :: "byte list" where
  "again = bytes_of ''...and again at offset 64''"

definition create_and_write :: "env \<Rightarrow> nat \<Rightarrow> path \<Rightarrow> (byte list \<times> byte list) prog" where
  "create_and_write env sh pth =
     temp_file env pth
       (prog_bind (with_mmap env (create_rw env pth 1024)
          (op_bind (update_region env 0 greeting) (\<lambda>_.
           op_bind (update_region env 64 again) (\<lambda>_.
             mmap_flush env)))) (\<lambda>_.
        with_mmap env (open_ro env pth)
          (with_slice (as_slice env sh 0 14) (\<lambda>head.
           with_slice (as_slice env sh 64 25) (\<lambda>mid s.
             op_return (slice_bytes s head, slice_bytes s mid) s)))))"

subsection \<open>Segments\<close>

definition header_text :: "byte list" where
  "header_text = bytes_of ''HEADER..........''"

definition body_a_text :: "byte list" where
  "body_a_text = bytes_of ''BODY-A-CONTENT-1''"

definition body_b_text :: "byte list" where
  "body_b_text = bytes_of ''BODY-B-CONTENT-2''"

text \<open>\<open>Segment::new\<close> as a step on the mapping it bookmarks.\<close>

definition bookmark :: "u64 \<Rightarrow> u64 \<Rightarrow> segment op" where
  "bookmark off len s = Some (segment_new off len s, s)"

text \<open>The loop that prints each segment: its name, offset and bytes.\<close>

fun show_segments :: "env \<Rightarrow> nat \<Rightarrow> (string \<times> segment) list \<Rightarrow> (string \<times> u64 \<times> byte list) list op" where
  "show_segments env sh [] = op_return []"
| "show_segments env sh ((name, seg) # segs) =
     op_bind (with_slice (segment_as_slice env sh seg) slice_copied) (\<lambda>bytes.
     op_bind (show_segments env sh segs) (\<lambda>rest.
       op_return ((name, segment_offset seg, bytes) # rest)))"

text \<open>The \<open>match\<close> at the end: a segment that can still be read is a panic.\<close>

definition expect_unreadable :: "env \<Rightarrow> nat \<Rightarrow> segment \<Rightarrow> mmap_io_error op" where
  "expect_unreadable env sh seg s =
     (case segment_as_slice env sh seg s of
        Some (Inl e, s') \<Rightarrow> Some (Inr e, s')
      | _ \<Rightarrow> None)"

definition seed_regions :: "env \<Rightarrow> unit op" where
  "seed_regions env =
     op_bind (update_region env 0 header_text) (\<lambda>_.
     op_bind (update_region env 64 body_a_text) (\<lambda>_.
     op_bind (update_region env 128 body_b_text) (\<lambda>_.
       mmap_flush env)))"

text \<open>What is printed after the shrink: which segments are still valid, and the error of the last.\<close>

definition after_shrink :: "env \<Rightarrow> nat \<Rightarrow> segment \<Rightarrow> segment \<Rightarrow> segment \<Rightarrow> (bool list \<times> mmap_io_error) op" where
  "after_shrink env sh header body_a body_b s =
     (let valid = map (\<lambda>g. segment_is_valid g s) [header, body_a, body_b]
      in op_bind (expect_unreadable env sh body_b) (\<lambda>e. op_return (valid, e)) s)"

definition segment_session ::
  "env \<Rightarrow> nat \<Rightarrow> ((string \<times> u64 \<times> byte list) list \<times> bool list \<times> mmap_io_error) op" where
  "segment_session env sh =
     op_bind (seed_regions env) (\<lambda>_.
     op_bind (bookmark 0 16) (\<lambda>header.
     op_bind (bookmark 64 16) (\<lambda>body_a.
     op_bind (bookmark 128 16) (\<lambda>body_b.
     op_bind (show_segments env sh [(''header'', header), (''body_a'', body_a), (''body_b'', body_b)]) (\<lambda>shown.
     op_bind (resize env 80) (\<lambda>_.
     op_bind (after_shrink env sh header body_a body_b) (\<lambda>rest.
       op_return (shown, rest))))))))"

definition segment_views ::
  "env \<Rightarrow> nat \<Rightarrow> path \<Rightarrow> ((string \<times> u64 \<times> byte list) list \<times> bool list \<times> mmap_io_error) prog" where
  "segment_views env sh pth =
     temp_file env pth (with_mmap env (create_rw env pth 4096) (segment_session env sh))"

subsection \<open>Asynchronous writes\<close>

definition block_1 :: "byte list" where
  "block_1 = bytes_of ''async-write-block-1''"

definition block_2 :: "byte list" where
  "block_2 = bytes_of ''async-write-block-2''"

definition async_writes :: "env \<Rightarrow> path \<Rightarrow> byte list prog" where
  "async_writes env pth =
     temp_file env pth
       (with_mmap env (create_rw env pth 4096)
          (op_bind (update_region_async env 0 block_1) (\<lambda>_.
           op_bind (update_region_async env 128 block_2) (\<lambda>_.
           op_bind (flush_async env) (\<lambda>_.
             read_into env 0 (replicate 19 0))))))"

section \<open>What they show\<close>

lemma length_texts [simp]:
  "length greeting = 14" "length again = 25" "length header_text = 16" "length body_a_text = 16" "length body_b_text = 16"
  "length block_1 = 19" "length block_2 = 19"
  by (simp_all add: greeting_def again_def header_text_def body_a_text_def body_b_text_def block_1_def block_2_def bytes_of_def)

lemma read_a_file_runs:
  assumes "bs \<noteq> []" "length bs \<le> lim"
  shows "runs (granting lim env) (has_file pth bs) (read_a_file env sh pth)
    (\<lambda>x w. has_file pth bs w \<and> x = (of_nat (length bs), take 64 bs))"
  unfolding read_a_file_def
proof (rule open_runs [OF assms])
  fix w assume h: "has_file pth bs w"
  then have len: "length bs < 2 ^ 63" by (auto simp: has_file_def world_ok_def)
  define n :: u64 where "n = min (of_nat (length bs)) 64"
  have un: "unat n = min (length bs) 64"
    using len by (simp add: n_def min_def word_le_unat unat_of_length)
  then have "n \<noteq> 0" using assms(1) by (auto simp: min_def split: if_splits)
  then have n: "n \<noteq> 0" "n > 0" by (simp_all add: word_neq_0_conv)
  let ?read = "op_bind (with_slice (as_slice env sh 0 n) slice_copied) (\<lambda>preview. op_return (of_nat (length bs) :: u64, preview))"
  show "runs (granting lim env) (reading env bs w)
      (\<lambda>s. let len = mmap_len s; preview_len = min len 64
        in (if preview_len > 0
            then op_bind (with_slice (as_slice env sh 0 preview_len) slice_copied) (\<lambda>preview. op_return (len, preview))
            else op_return (len, [])) s)
      (\<lambda>x s. reading env bs w s \<and> x = (of_nat (length bs), take 64 bs))"
  proof (rule runs_cong [where m' = ?read], goal_cases)
    case (1 s)
    with reading_len(1) n show ?case by (simp add: Let_def n_def)
  next
    case 2
    show ?case
    proof (rule runs_bind [where R = "\<lambda>x s. reading env bs w s \<and> x = take 64 bs"], rule reading_slice_runs)
      show "n \<noteq> 0" "unat (0::u64) + unat n \<le> length bs" using n un by simp_all
      show "runs (granting lim env) (reading env bs w) (slice_copied (Slice_Owned (unat (0::u64)) (unat (0::u64) + unat n)))
          (\<lambda>x s. reading env bs w s \<and> x = take 64 bs)"
        by (rule slice_copied_runs) (auto simp: reading_def slice_bytes_def sub_slice_def un min_def)
    qed (auto intro: runs_return)
  qed
qed

definition written_02 :: "byte list" where
  "written_02 = splice_at (splice_at (replicate 1024 0) 0 greeting) 64 again"

lemma written_02:
  "length written_02 = 1024" "sub_slice written_02 0 14 = greeting" "sub_slice written_02 64 89 = again"
  by (simp_all add: written_02_def written)

lemma create_and_write_runs:
  assumes "1024 \<le> lim"
  shows "runs (granting lim env) world_ok (create_and_write env sh pth)
    (\<lambda>x w. x = (greeting, again) \<and> (granting lim env \<longrightarrow> no_file pth w))"
proof -
  have wr: "runs (granting lim env) world_ok
      (with_mmap env (create_rw env pth 1024) (op_bind (update_region env 0 greeting) (\<lambda>_.
        op_bind (update_region env 64 again) (\<lambda>_. mmap_flush env)))) (\<lambda>_. has_file pth written_02)"
  proof (rule create_runs)
    show "runs (granting lim env) (on_file lim env pth (replicate (unat (1024::u64)) 0))
        (op_bind (update_region env 0 greeting) (\<lambda>_. op_bind (update_region env 64 again) (\<lambda>_. mmap_flush env)))
        (\<lambda>_ s. \<exists>bs. on_file lim env pth bs s \<and> (\<forall>w. has_file pth bs w \<longrightarrow> has_file pth written_02 w))"
      by (rule update_then, simp, rule update_then, simp add: written, rule runs_post [OF flush_runs])
        (auto simp: written_02_def)
  qed (use assms in \<open>simp_all add: MAX_MMAP_SIZE_def\<close>)
  have rd: "runs (granting lim env) (has_file pth written_02) (with_mmap env (open_ro env pth)
      (with_slice (as_slice env sh 0 14) (\<lambda>head. with_slice (as_slice env sh 64 25) (\<lambda>mid s.
         op_return (slice_bytes s head, slice_bytes s mid) s))))
      (\<lambda>x w. has_file pth written_02 w \<and> x = (greeting, again))"
  proof (rule open_runs, goal_cases)
    case (3 w)
    show ?case
      by (rule reading_slice_runs, simp, simp add: written_02, rule reading_slice_runs, simp, simp add: written_02)
        (auto simp: runs_def op_return_def reading_def slice_bytes_def written_02)
  qed (use assms written_02(1) in auto)
  show ?thesis
    unfolding create_and_write_def
    by (rule temp_file_runs [OF runs_prog_bind [OF wr rd]])
qed


text \<open>The mapping of the segments: three regions in zeros, then cut at 80 bytes.\<close>

definition written_03 :: "byte list" where
  "written_03 = splice_at (splice_at (splice_at (replicate 4096 0) 0 header_text) 64 body_a_text) 128 body_b_text"

lemma written_03:
  "length written_03 = 4096" "sub_slice written_03 0 16 = header_text" "sub_slice written_03 64 80 = body_a_text"
  "sub_slice written_03 128 144 = body_b_text"
  by (simp_all add: written_03_def written)

lemma bookmark_runs:
  assumes "fits off len bs"
  shows "runs g (on_file lim env pth bs) (bookmark off len) (\<lambda>x s. x = \<lparr>seg_offset = off, seg_len = len\<rparr> \<and> on_file lim env pth bs s)"
proof (rule runsI)
  fix s assume s: "on_file lim env pth bs s"
  from segment_new_iff [OF on_file_sys(1) [OF s]] assms on_file_sys(2) [OF s] have "is_ok (segment_new off len s)"
    by (auto simp: segment_fits_def)
  then have "segment_new off len s = Inr \<lparr>seg_offset = off, seg_len = len\<rparr>"
    by (cases "validate_segment off len s") (simp_all add: segment_new_def)
  with s show "\<exists>r s'. bookmark off len s = Some (r, s') \<and>
      (\<forall>x. r = Inr x \<longrightarrow> x = \<lparr>seg_offset = off, seg_len = len\<rparr> \<and> on_file lim env pth bs s') \<and> (g \<longrightarrow> is_ok r)"
    by (simp add: bookmark_def)
qed

lemma show_segments_runs:
  assumes "sh < SHARDS" "\<forall>(name, seg) \<in> set segs. fits (seg_offset seg) (seg_len seg) bs"
  shows "runs g (on_file lim env pth bs) (show_segments env sh segs)
    (\<lambda>x s. x = map (\<lambda>(name, seg). (name, seg_offset seg,
        sub_slice bs (unat (seg_offset seg)) (unat (seg_offset seg) + unat (seg_len seg)))) segs \<and> on_file lim env pth bs s)"
  using assms(2)
proof (induction segs)
  case Nil
  then show ?case by (simp add: runs_return)
next
  case (Cons a segs)
  obtain name seg where a: "a = (name, seg)" by (cases a)
  have fit: "fits (seg_offset seg) (seg_len seg) bs" using Cons.prems a by simp
  show ?case
    unfolding a show_segments.simps segment_as_slice_def
    by (rule runs_bind_value [OF slice_runs [OF assms(1) fit]], rule runs_bind_value [OF Cons.IH])
      (use Cons.prems in \<open>auto simp: segment_offset_def intro: runs_return\<close>)
qed

lemma seed_regions_runs:
  "runs (granting lim env) (on_file lim env pth (replicate 4096 0)) (seed_regions env) (\<lambda>_. on_file lim env pth written_03)"
  unfolding seed_regions_def
  by (rule update_then, simp, rule update_then, simp add: written, rule update_then, simp add: written,
      rule runs_post [OF flush_runs]) (simp add: written_03_def)

lemma after_shrink_runs:
  "runs g (on_file lim env pth (take 80 written_03))
    (after_shrink env sh \<lparr>seg_offset = 0, seg_len = 16\<rparr> \<lparr>seg_offset = 64, seg_len = 16\<rparr> \<lparr>seg_offset = 128, seg_len = 16\<rparr>)
    (\<lambda>x s. x = ([True, True, False], OutOfBounds 128 16 80) \<and> on_file lim env pth (take 80 written_03) s)"
proof (rule runs_cong [OF _ runs_return])
  fix s assume s: "on_file lim env pth (take 80 written_03) s"
  note S = on_file_sys [OF s]
  have len: "length (take 80 written_03) = 80" by (simp add: written_03(1))
  have "as_slice env sh 128 16 s = Some (Inl (OutOfBounds 128 16 80), s)" using slice_refused [OF S(3), of 16 128] len by simp
  with S(2) len
  show "after_shrink env sh \<lparr>seg_offset = 0, seg_len = 16\<rparr> \<lparr>seg_offset = 64, seg_len = 16\<rparr> \<lparr>seg_offset = 128, seg_len = 16\<rparr> s =
      op_return ([True, True, False], OutOfBounds 128 16 80) s"
    by (simp add: after_shrink_def expect_unreadable_def segment_as_slice_def op_bind_def op_return_def
        segment_is_valid_iff [OF S(1)] segment_fits_def)
qed simp

lemma segment_session_runs:
  assumes "sh < SHARDS" "e_target env \<noteq> Windows" "4096 \<le> lim"
  shows "runs (granting lim env) (on_file lim env pth (replicate 4096 0)) (segment_session env sh)
    (\<lambda>x s. x = ([(''header'', 0, header_text), (''body_a'', 64, body_a_text), (''body_b'', 128, body_b_text)],
        [True, True, False], OutOfBounds 128 16 80) \<and> on_file lim env pth (take 80 written_03) s)"
proof -
  let ?segs = "[(''header'', \<lparr>seg_offset = 0, seg_len = 16\<rparr>), (''body_a'', \<lparr>seg_offset = 64, seg_len = 16\<rparr>),
    (''body_b'', \<lparr>seg_offset = 128, seg_len = 16\<rparr>)]"
  have shown: "runs (granting lim env) (on_file lim env pth written_03) (show_segments env sh ?segs)
      (\<lambda>x s. x = [(''header'', 0, header_text), (''body_a'', 64, body_a_text), (''body_b'', 128, body_b_text)]
        \<and> on_file lim env pth written_03 s)"
    using show_segments_runs [OF assms(1), of ?segs written_03] by (simp add: written_03)
  have shrunk: "runs (granting lim env) (on_file lim env pth written_03) (resize env 80) (\<lambda>_. on_file lim env pth (take 80 written_03))"
    using resize_runs [OF assms(2), of 80 lim pth written_03] assms(3)
    by (simp add: resize_bytes_def written_03(1) MAX_MMAP_SIZE_def)
  have fit: "fits 0 16 written_03" "fits 64 16 written_03" "fits 128 16 written_03" by (simp_all add: written_03(1))
  show ?thesis
    unfolding segment_session_def
    by (rule runs_bind [OF seed_regions_runs], rule runs_bind_value [OF bookmark_runs [OF fit(1)]],
        rule runs_bind_value [OF bookmark_runs [OF fit(2)]], rule runs_bind_value [OF bookmark_runs [OF fit(3)]],
        rule runs_bind_value [OF shown], rule runs_bind [OF shrunk], rule runs_bind_value [OF after_shrink_runs], rule runs_return) simp
qed

lemma segment_views_runs:
  assumes "sh < SHARDS" "e_target env \<noteq> Windows" "4096 \<le> lim"
  shows "runs (granting lim env) world_ok (segment_views env sh pth)
    (\<lambda>x w. x = ([(''header'', 0, header_text), (''body_a'', 64, body_a_text), (''body_b'', 128, body_b_text)],
        [True, True, False], OutOfBounds 128 16 80) \<and> (granting lim env \<longrightarrow> no_file pth w))"
  unfolding segment_views_def
proof (rule temp_file_runs [where bs = "take 80 written_03"], rule create_runs, goal_cases)
  case 4
  show ?case
    by (rule runs_conseq [OF segment_session_runs [OF assms, where pth = pth]]) auto
qed (use assms(3) in \<open>simp_all add: MAX_MMAP_SIZE_def\<close>)

text \<open>An asynchronous update is an update and a flush.\<close>

lemma async_update_runs:
  assumes "unat off + length d \<le> length bs"
  shows "runs (granting lim env) (on_file lim env pth bs) (update_region_async env off d)
    (\<lambda>_. on_file lim env pth (splice_at bs (unat off) d))"
  unfolding update_region_async_def by (rule update_then [OF assms flush_runs])

lemma async_writes_runs:
  assumes "4096 \<le> lim"
  shows "runs (granting lim env) world_ok (async_writes env pth) (\<lambda>x w. x = block_1 \<and> (granting lim env \<longrightarrow> no_file pth w))"
  unfolding async_writes_def flush_async_def
proof (rule temp_file_runs [where bs = "splice_at (splice_at (replicate 4096 0) 0 block_1) 128 block_2"], rule create_runs, goal_cases)
  case 4
  let ?bs = "splice_at (splice_at (replicate 4096 0) 0 block_1) 128 block_2"
  have "runs (granting lim env) (on_file lim env pth ?bs) (read_into env 0 (replicate 19 0))
      (\<lambda>x s. x = block_1 \<and> on_file lim env pth ?bs s)"
    using read_into_runs [of "replicate 19 0" 0 ?bs "granting lim env" lim env pth] by (simp add: written)
  then have "runs (granting lim env) (on_file lim env pth ?bs) (read_into env 0 (replicate 19 0))
      (\<lambda>x s. \<exists>bs. on_file lim env pth bs s \<and> (\<forall>w. has_file pth bs w \<longrightarrow> has_file pth ?bs w \<and> x = block_1))"
    by (rule runs_post) auto
  then show ?case
    by (intro runs_bind [OF async_update_runs] flush_then) (simp_all add: written)
qed (use assms in \<open>simp_all add: MAX_MMAP_SIZE_def\<close>)

section \<open>Properties\<close>

text \<open>The write example round-trips. Whatever calls the kernel refuses, the program returns; when it does not end with an
  error, the two texts it reads through a new read-only mapping are the two it wrote before the flush and the drop; and on a
  system that grants its calls it ends without an error and its file is gone.\<close>

lemma create_and_write_roundtrip:
  assumes "world_ok w" "1024 \<le> lim"
  shows "\<exists>r w'. create_and_write env sh pth w = Some (r, w') \<and> (\<forall>x. r = Inr x \<longrightarrow> x = (greeting, again))
    \<and> (granting lim env \<longrightarrow> is_ok r \<and> no_file pth w')"
  using runsD [OF create_and_write_runs [OF assms(2), of env sh pth] assms(1)] by (auto simp: is_ok_iff)

text \<open>Segments follow a resize. In the segment example each bookmark shows the bytes of its region; after the shrink to 80 bytes
  those that end inside the mapping are still valid, the one that does not is reported invalid and its read is the out-of-bounds error with
  the segment's range and the new length, never the panic of the last branch.\<close>

lemma segments_follow_resize:
  assumes "world_ok w" "sh < SHARDS" "e_target env \<noteq> Windows" "4096 \<le> lim"
  shows "\<exists>r w'. segment_views env sh pth w = Some (r, w')
    \<and> (\<forall>x. r = Inr x \<longrightarrow> x = ([(''header'', 0, header_text), (''body_a'', 64, body_a_text), (''body_b'', 128, body_b_text)],
          [True, True, False], OutOfBounds 128 16 80))
    \<and> (granting lim env \<longrightarrow> is_ok r \<and> no_file pth w')"
  using runsD [OF segment_views_runs [OF assms(2-4), of pth] assms(1)] by (auto simp: is_ok_iff)

lemma segments_follow_resize_witness:
  "\<exists>w' shown. segment_views sample_env 0 ''example_03_segments.bin'' sample_world =
    Some (Inr (shown, [True, True, False], OutOfBounds 128 16 80), w')"
proof -
  have "0 < SHARDS" "e_target sample_env \<noteq> Windows" by (simp_all add: SHARDS_def)
  from segments_follow_resize [OF sample_world_ok this order_refl, of "''example_03_segments.bin''"] sample_granting [of 4096]
  show ?thesis by (auto simp: is_ok_iff)
qed

end
