(* ===== verification/Example_Bulk.thy ===== *)
theory Example_Bulk
  imports Programs Fuzz_Managed_Props Mmap_Smaps
begin

text \<open>
  The two bulk examples: \<open>examples/06_chunked_processing.rs\<close> fills a file page by page, reopens it and scans it in chunks;
  \<open>examples/08_huge_pages_simulation.rs\<close> fills a mapping made with the huge-page hint and eager touching. Both are modelled whole,
  over any number of pages; an overflow of a counter, which panics, is \<open>None\<close>. Clocks and printing are left out.
\<close>

section \<open>The programs\<close>

text \<open>\<open>(0..tot).step_by(n)\<close>\<close>

definition step_by :: "nat \<Rightarrow> nat \<Rightarrow> nat list" where
  "step_by n tot = map (\<lambda>i. i * n) [0..<(tot + n - 1) div n]"

definition seed_page :: "env \<Rightarrow> nat \<Rightarrow> nat \<Rightarrow> unit op" where
  "seed_page env total_bytes offset =
     (let len = min 4096 (total_bytes - offset);
          val = (of_nat (offset div 4096) :: byte) * 7
      in update_region env (of_nat offset) (replicate len val))"

text \<open>The loop over the chunks: chunks and bytes seen, and the wrapping sum.\<close>

partial_function (option) scan_chunks ::
  "env \<Rightarrow> nat \<Rightarrow> chunk_iterator \<Rightarrow> 32 word \<Rightarrow> u64 \<Rightarrow> u64 \<Rightarrow> sys \<Rightarrow> ((mmap_io_error + 32 word \<times> u64 \<times> u64) \<times> sys) option" where
  "scan_chunks env sh it chunks_seen total_bytes_seen acc s =
     Option.bind (chunk_next env sh it s) (\<lambda>(item, it', s').
       case item of
         None \<Rightarrow> Some (Inr (chunks_seen, total_bytes_seen, acc), chunk_iterator_drop it' s')
       | Some chunk \<Rightarrow>
           Option.bind (checked_add chunks_seen 1) (\<lambda>chunks_seen'.
           Option.bind (checked_add total_bytes_seen (of_nat (slice_len s' chunk))) (\<lambda>total_bytes_seen'.
             scan_chunks env sh it' chunks_seen' total_bytes_seen'
               (fold (\<lambda>b a. a + ucast b) (slice_bytes s' chunk) acc) (drop_slice chunk s'))))"

definition scan_mapping :: "env \<Rightarrow> nat \<Rightarrow> usize \<Rightarrow> (32 word \<times> u64 \<times> u64) op" where
  "scan_mapping env sh chunk_size s =
     Option.bind (chunk_iterator_new chunk_size s) (\<lambda>(it, s'). scan_chunks env sh it 0 0 0 s')"

definition chunked_processing :: "env \<Rightarrow> nat \<Rightarrow> path \<Rightarrow> nat \<Rightarrow> (32 word \<times> u64 \<times> u64) prog" where
  "chunked_processing env sh pth total_bytes =
     temp_file env pth
       (prog_bind (with_mmap env (create_rw env pth (of_nat total_bytes))
          (op_bind (op_for (seed_page env total_bytes) (step_by 4096 total_bytes)) (\<lambda>_. mmap_flush env))) (\<lambda>_.
        with_mmap env (open_ro env pth) (scan_mapping env sh (64 * 1024))))"

text \<open>The \<open>while\<close> of the hot write loop.\<close>

partial_function (option) write_loop ::
  "env \<Rightarrow> u64 \<Rightarrow> byte list \<Rightarrow> u64 \<Rightarrow> sys \<Rightarrow> ((mmap_io_error + unit) \<times> sys) option" where
  "write_loop env sz payload offset s =
     (if offset < sz
      then Option.bind (update_region env offset payload s) (\<lambda>(r, s').
             case r of
               Inl e \<Rightarrow> Some (Inl e, s')
             | Inr _ \<Rightarrow>
                 Option.bind (checked_add offset (of_nat (length payload))) (\<lambda>offset'.
                   write_loop env sz payload offset' s'))
      else Some (Inr (), s))"

text \<open>The length, and whether huge pages back the mapping.\<close>

definition huge_fill :: "env \<Rightarrow> bool \<Rightarrow> path \<Rightarrow> u64 \<Rightarrow> (u64 \<times> bool option) prog" where
  "huge_fill env spawned pth sz =
     with_mmap env
       (created env spawned (builder_touch_hint Hint_Eager (builder_set_huge_pages True
          (builder_size sz (builder_mode ReadWrite (builder_new pth))))))
       (op_bind (write_loop env sz (replicate 4096 0xC7) 0) (\<lambda>_.
        op_bind (mmap_flush env) (\<lambda>_ s.
          map_option (\<lambda>huge. (Inr (mmap_len s, huge), s)) (is_hugepage_backed env s))))"

definition huge_pages_simulation :: "env \<Rightarrow> bool \<Rightarrow> path \<Rightarrow> u64 \<Rightarrow> (u64 \<times> bool option) prog" where
  "huge_pages_simulation env spawned pth sz =
     temp_file env pth (huge_fill env spawned pth sz)"

section \<open>Filling page by page\<close>

definition seed_bytes :: "nat \<Rightarrow> byte list" where
  "seed_bytes i = replicate 4096 (of_nat i * 7)"

lemma length_seed_bytes: "length (seed_bytes i) = 4096"
  by (simp add: seed_bytes_def)

lemma step_by_pages: "step_by 4096 (n * 4096) = map (\<lambda>i. i * 4096) [0..<n]"
proof -
  have "(n * 4096 + 4096 - 1) div 4096 = n" by (rule div_nat_eqI) simp_all
  then show ?thesis by (simp add: step_by_def)
qed

lemma seed_runs:
  assumes "n * 4096 < 2 ^ 63"
  shows "runs (granting lim env) (on_file lim env pth (replicate (n * 4096) 0))
    (op_for (seed_page env (n * 4096)) (step_by 4096 (n * 4096))) (\<lambda>_. on_file lim env pth (concat (map seed_bytes [0..<n])))"
proof -
  have "seed_page env (n * 4096) (i * 4096) = update_region env (of_nat (i * 4096)) (seed_bytes i)" if "i < n" for i
  proof -
    have "4096 \<le> n * 4096 - i * 4096" using that by simp
    then show ?thesis by (simp add: seed_page_def Let_def seed_bytes_def)
  qed
  then have "op_for (seed_page env (n * 4096)) (step_by 4096 (n * 4096)) =
      op_for (\<lambda>i. update_region env (of_nat (i * 4096)) (seed_bytes i)) [0..<n]"
    unfolding step_by_pages op_for_map by (intro op_for_cong) simp
  with on_one.fill_pages [of seed_bytes 4096 n "replicate (n * 4096) 0", OF length_seed_bytes _ assms] show ?thesis
    by (simp add: paged_all)
qed

section \<open>Scanning\<close>

lemma fold_sum: "fold (\<lambda>b a. a + ucast b) bs (a :: u64) = a + of_nat (byte_sum bs)"
proof (induction bs arbitrary: a)
  case (Cons b bs)
  have "(ucast b :: u64) = of_nat (unat b)" by simp
  then show ?case using Cons [of "a + ucast b"] by (simp add: byte_sum_def algebra_simps)
qed (simp add: byte_sum_def)

text \<open>One turn of the loop over a read-only mapping.\<close>

abbreviation shared_at :: "usize \<Rightarrow> usize \<Rightarrow> usize \<Rightarrow> chunk_iterator" where
  "shared_at tot chunk off \<equiv> \<lparr>ci_locked = False, ci_total_len = tot, ci_chunk_size = chunk, ci_offset = off\<rparr>"

lemma shared_next:
  assumes "reading env bs w s" "chunk \<noteq> 0" "unat tot = length bs" "unat off < length bs" "fin = off + min (tot - off) chunk"
  shows "unat fin = unat off + min (length bs - unat off) (unat chunk)"
    "chunk_next env sh (shared_at tot chunk off) s = Some (Some (Slice_Owned (unat off) (unat fin)), shared_at tot chunk fin, s)"
    "slice_bytes s (Slice_Owned (unat off) (unat fin)) = sub_slice bs (unat off) (unat fin)"
proof -
  have lt: "off < tot" using assms(3,4) by (simp add: word_less_unat)
  have d: "unat (tot - off) = length bs - unat off" using lt assms(3) by (simp add: unat_sub_exact)
  then have m: "unat (min (tot - off) chunk) = min (length bs - unat off) (unat chunk)" by (simp add: min_def word_le_unat)
  show "unat fin = unat off + min (length bs - unat off) (unat chunk)"
    unfolding assms(5) m [symmetric] by (rule unat_add_exact) (use m assms(3,4) unat_bound [of tot] in simp)
  show "chunk_next env sh (shared_at tot chunk off) s = Some (Some (Slice_Owned (unat off) (unat fin)), shared_at tot chunk fin, s)"
    using lt assms(2,5) by (simp add: chunk_next_def Let_def)
  show "slice_bytes s (Slice_Owned (unat off) (unat fin)) = sub_slice bs (unat off) (unat fin)"
    using assms(1) by (simp add: reading_def slice_bytes_def)
qed

lemma scan_chunks_ok:
  assumes "reading env bs w s" "chunk \<noteq> 0" "unat tot = length bs"
  shows "unat off \<le> length bs \<Longrightarrow> unat cs + (length bs - unat off) < 2 ^ 32 \<Longrightarrow> unat seen + (length bs - unat off) < 2 ^ 64 \<Longrightarrow>
    scan_chunks env sh (shared_at tot chunk off) cs seen acc s =
      Some (Inr (cs + of_nat (length (chunks_of (unat chunk) (drop (unat off) bs))), seen + of_nat (length bs - unat off),
                 acc + of_nat (byte_sum (drop (unat off) bs))), s)"
proof (induction "length bs - unat off" arbitrary: off cs seen acc rule: less_induct)
  case less
  show ?case
  proof (cases "unat off < length bs")
    case False
    then have "\<not> off < tot" using assms(3) by (simp add: word_less_unat)
    with False show ?thesis
      by (subst scan_chunks.simps) (simp add: chunk_next_def not_less chunk_iterator_drop_def byte_sum_def)
  next
    case True
    define fin where "fin = off + min (tot - off) chunk"
    note N = shared_next [OF assms True fin_def]
    let ?o = "unat off" and ?e = "unat fin"
    have c: "0 < unat chunk" using assms(2) by (simp add: unat_gt_0)
    have e: "?o < ?e" "?e \<le> length bs" using True c N(1) by simp_all
    define m where "m = ?e - ?o"
    have m: "?e = ?o + m" "0 < m" "length bs - ?o = m + (length bs - ?e)" using e by (simp_all add: m_def)
    have len: "slice_len s (Slice_Owned ?o ?e) = m" using N(3) e by (simp add: slice_len_def sub_slice_def m_def)
    have lim: "m < 2 ^ 64" "unat seen + m < 2 ^ 64" using less.prems(3) m by linarith+
    then have k: "unat (of_nat m :: u64) = m" by (simp add: unat_of_nat)
    have cs: "checked_add cs 1 = Some (cs + 1)" "unat (cs + 1) = unat cs + 1"
      using less.prems(2) True by (simp_all add: checked_add_def unat_add_exact)
    have seen: "checked_add seen (of_nat m) = Some (seen + of_nat m)" "unat (seen + of_nat m) = unat seen + m"
      using lim(2) k by (simp_all add: checked_add_def unat_add_exact)
    have split: "drop ?o bs = sub_slice bs ?o ?e @ drop ?e bs"
      using e by (metis append_take_drop_id drop_drop le_add_diff_inverse2 less_imp_le sub_slice_def)
    have IH: "scan_chunks env sh (shared_at tot chunk fin) (cs + 1) (seen + of_nat m) (acc + of_nat (byte_sum (sub_slice bs ?o ?e))) s =
        Some (Inr (cs + 1 + of_nat (length (chunks_of (unat chunk) (drop ?e bs))), seen + of_nat m + of_nat (length bs - ?e),
          acc + of_nat (byte_sum (sub_slice bs ?o ?e)) + of_nat (byte_sum (drop ?e bs))), s)"
      by (rule less.hyps) (use less.prems m(2,3) e cs(2) seen(2) in linarith)+
    have "length (chunks_of (unat chunk) (drop ?o bs)) = Suc (length (chunks_of (unat chunk) (drop ?e bs)))"
      using chunks_of_drop [OF True c] N(1) by simp
    moreover have "scan_chunks env sh (shared_at tot chunk off) cs seen acc s =
        scan_chunks env sh (shared_at tot chunk fin) (cs + 1) (seen + of_nat m) (acc + of_nat (byte_sum (sub_slice bs ?o ?e))) s"
      by (subst scan_chunks.simps) (simp add: N(2,3) len cs(1) seen(1) fold_sum drop_slice_def)
    ultimately show ?thesis unfolding IH by (simp only: split m(3) byte_sum_append of_nat_add of_nat_Suc add.assoc)
  qed
qed

lemma scan_runs:
  assumes "length bs < 2 ^ 32" "chunk_size \<noteq> 0"
  shows "runs g (reading env bs w) (scan_mapping env sh chunk_size)
    (\<lambda>x s. reading env bs w s \<and> x = (of_nat (length (chunks_of (unat chunk_size) bs)), of_nat (length bs), of_nat (byte_sum bs)))"
proof (rule runsI)
  fix s assume s: "reading env bs w s"
  then obtain m where m: "i_map (s_mm s) = Ro m" by (auto simp: reading_def)
  have "sys_ok s" "s_bytes s = bs" using s session_start_idle(1) by (auto simp: reading_def)
  with m have "unat (m_len m) = length bs" using sys_okD(5) [of s] by simp
  from scan_chunks_ok [OF s assms(2) this, of 0 0 0 sh 0] assms(1) m s
  show "\<exists>r s'. scan_mapping env sh chunk_size s = Some (r, s') \<and> (\<forall>x. r = Inr x \<longrightarrow> reading env bs w s' \<and>
      x = (of_nat (length (chunks_of (unat chunk_size) bs)), of_nat (length bs), of_nat (byte_sum bs))) \<and> (g \<longrightarrow> is_ok r)"
    by (simp add: scan_mapping_def chunk_iterator_new_def)
qed

text \<open>What the scan of \<open>n\<close> seeded pages finds.\<close>

definition seed_sum :: "nat \<Rightarrow> nat" where
  "seed_sum n = 4096 * (\<Sum>i<n. i * 7 mod 256)"

lemma byte_sum_replicate: "byte_sum (replicate k b) = k * unat b"
  by (simp add: byte_sum_def sum_list_replicate)

lemma byte_sum_seeded: "byte_sum (concat (map seed_bytes [0..<n])) = seed_sum n"
proof (induction n)
  case (Suc n)
  have "(of_nat n * 7 :: byte) = of_nat (n * 7)" by simp
  then have "unat (of_nat n * 7 :: byte) = n * 7 mod 256" by (simp only: unat_of_nat) simp
  with Suc show ?case by (simp add: seed_sum_def seed_bytes_def byte_sum_replicate algebra_simps)
qed (simp add: seed_sum_def byte_sum_def)

lemma seed_sum_256: "seed_sum 256 = 133693440"
proof -
  have "(\<Sum>i<256. i * 7 mod 256) = sum_list (map (\<lambda>i. i * 7 mod 256) [0..<256::nat])"
    by (simp only: interv_sum_list_conv_sum_set_nat atLeast0LessThan set_upt)
  also have "\<dots> = 32640" by (simp add: upt_rec)
  finally show ?thesis by (simp add: seed_sum_def)
qed

section \<open>The whole programs\<close>

lemma div_ceil_16: "n * 4096 div 65536 + (if n * 4096 mod 65536 > 0 then 1 else 0) = (n + 15) div (16 :: nat)"
proof -
  have "n * 4096 div (16 * 4096) = n div 16" "n * 4096 mod (16 * 4096) = (n mod 16) * 4096"
    by (rule div_mult_mult2, simp, rule mult_mod_left [symmetric])
  moreover have "(16 * q + r + 15) div 16 = q + (if r > 0 then 1 else 0)" if "r < 16" for q r :: nat
    by (rule div_nat_eqI) (use that in auto)
  from this [of "n mod 16" "n div 16"] have "(n + 15) div 16 = n div 16 + (if n mod 16 > 0 then 1 else 0)" by simp
  ultimately show ?thesis by simp
qed

lemma size_small:
  assumes "0 < k" "k < 2 ^ 32"
  shows "(of_nat k :: u64) \<noteq> 0" "\<not> (of_nat k :: u64) > MAX_MMAP_SIZE" "unat (of_nat k :: u64) = k"
proof -
  show u: "unat (of_nat k :: u64) = k" by (rule unat_small) (use assms(2) in simp)
  then show "(of_nat k :: u64) \<noteq> 0" using assms(1) by (metis less_irrefl unat_0)
  have "unat MAX_MMAP_SIZE \<ge> 2 ^ 32" by (simp add: MAX_MMAP_SIZE_def)
  with u assms(2) show "\<not> (of_nat k :: u64) > MAX_MMAP_SIZE" by (simp only: word_less_unat)
qed

lemma chunked_processing_runs:
  assumes "0 < n" "n * 4096 \<le> lim" "n * 4096 < 2 ^ 32"
  shows "runs (granting lim env) world_ok (chunked_processing env sh pth (n * 4096))
    (\<lambda>x w. x = (of_nat ((n + 15) div 16), of_nat (n * 4096), of_nat (seed_sum n)) \<and> (granting lim env \<longrightarrow> no_file pth w))"
proof -
  let ?bs = "concat (map seed_bytes [0..<n])"
  have len: "length ?bs = n * 4096" by (rule length_pages) (rule length_seed_bytes)
  have "0 < n * 4096" using assms(1) by simp
  note small = size_small [OF this assms(3)]
  have chunks: "length (chunks_of (unat (64 * 1024 :: usize)) ?bs) = (n + 15) div 16"
    using length_chunks_of [of 65536 ?bs] len div_ceil_16 [of n] by simp
  have wr: "runs (granting lim env) world_ok (with_mmap env (create_rw env pth (of_nat (n * 4096)))
      (op_bind (op_for (seed_page env (n * 4096)) (step_by 4096 (n * 4096))) (\<lambda>_. mmap_flush env))) (\<lambda>_. has_file pth ?bs)"
  proof (rule create_runs [OF small(1,2)])
    show "runs (granting lim env) (on_file lim env pth (replicate (unat (of_nat (n * 4096) :: u64)) 0))
        (op_bind (op_for (seed_page env (n * 4096)) (step_by 4096 (n * 4096))) (\<lambda>_. mmap_flush env))
        (\<lambda>_ s. \<exists>bs. on_file lim env pth bs s \<and> (\<forall>w. has_file pth bs w \<longrightarrow> has_file pth ?bs w))"
      unfolding small(3)
      by (rule runs_bind [OF seed_runs], use assms(3) in simp, rule runs_post [OF flush_runs]) blast
  qed (simp only: small(3) assms(2))
  have rd: "runs (granting lim env) (has_file pth ?bs) (with_mmap env (open_ro env pth) (scan_mapping env sh (64 * 1024)))
      (\<lambda>x w. has_file pth ?bs w \<and> x = (of_nat ((n + 15) div 16), of_nat (n * 4096), of_nat (seed_sum n)))"
  proof (rule open_runs)
    show "runs (granting lim env) (reading env ?bs w) (scan_mapping env sh (64 * 1024))
        (\<lambda>x s. reading env ?bs w s \<and> x = (of_nat ((n + 15) div 16), of_nat (n * 4096), of_nat (seed_sum n)))" for w
      using scan_runs [of ?bs "64 * 1024"] assms(3) unfolding len chunks byte_sum_seeded by simp
  qed (use assms(1,2) len in \<open>fastforce simp del: concat_eq_Nil_conv\<close>, use assms(2) len in simp)
  show ?thesis
    unfolding chunked_processing_def
    by (rule temp_file_runs [OF runs_prog_bind [OF wr rd]])
qed

text \<open>The \<open>while\<close> that writes one payload after the other.\<close>

lemma write_loop_runs:
  assumes "length payload = 4096" "unat sz = n * 4096" "n * 4096 < 2 ^ 63"
  shows "k \<le> n \<Longrightarrow> unat off = k * 4096 \<Longrightarrow>
    runs (granting lim env) (on_file lim env pth (paged (\<lambda>_. payload) 4096 (replicate (n * 4096) 0) k)) (write_loop env sz payload off)
      (\<lambda>_. on_file lim env pth (paged (\<lambda>_. payload) 4096 (replicate (n * 4096) 0) n))"
proof (induction "n - k" arbitrary: k off)
  case 0
  then have "k = n" "\<not> off < sz" using assms(2) by (simp_all add: word_less_unat)
  then show ?case by (intro runsI, subst write_loop.simps) simp
next
  case (Suc d)
  then have k: "k < n" "Suc k * 4096 \<le> n * 4096" "d = n - Suc k" by simp_all
  have lt: "off < sz" using Suc.prems(2) assms(2) k(1) by (simp add: word_less_unat)
  have fits: "unat off + unat (of_nat (length payload) :: u64) < 2 ^ 64" using Suc.prems(2) assms(1,3) k(2) by simp
  have nxt: "checked_add off (of_nat (length payload)) = Some (off + of_nat (length payload))"
    "unat (off + of_nat (length payload)) = Suc k * 4096"
    using fits Suc.prems(2) assms(1) by (simp_all add: checked_add_def unat_add_exact)
  have step: "runs (granting lim env) (on_file lim env pth (paged (\<lambda>_. payload) 4096 (replicate (n * 4096) 0) k)) (update_region env off payload)
      (\<lambda>_. on_file lim env pth (paged (\<lambda>_. payload) 4096 (replicate (n * 4096) 0) (Suc k)))"
    using on_one.write_page [of "\<lambda>_. payload" 4096 k "replicate (n * 4096) 0" off, OF assms(1) _ Suc.prems(2)] k(2) by simp
  note rest = Suc.hyps(1) [OF k(3) _ nxt(2)]
  show ?case
  proof (rule runsI)
    fix s assume "on_file lim env pth (paged (\<lambda>_. payload) 4096 (replicate (n * 4096) 0) k) s"
    from step this show "\<exists>r s'. write_loop env sz payload off s = Some (r, s') \<and>
        (\<forall>x. r = Inr x \<longrightarrow> on_file lim env pth (paged (\<lambda>_. payload) 4096 (replicate (n * 4096) 0) n) s') \<and> (granting lim env \<longrightarrow> is_ok r)"
    proof (cases rule: runsE)
      case 1
      then show ?thesis by (subst write_loop.simps) (simp add: lt)
    next
      case (2 x s1)
      with runsD [OF rest 2(2)] k(1) show ?thesis by (subst write_loop.simps) (simp add: lt nxt(1))
    qed
  qed
qed

lemma concat_payload: "concat (map (\<lambda>_. replicate p b) [0..<n]) = replicate (n * p) b"
  by (induction n) (simp_all add: add.commute flip: replicate_add)

lemma huge_fill_runs:
  assumes "0 < n" "n * 4096 \<le> lim" "n * 4096 < 2 ^ 32"
  shows "runs (granting lim env) world_ok (huge_fill env spawned pth (of_nat (n * 4096)))
    (\<lambda>x w. has_file pth (replicate (n * 4096) 0xC7) w \<and> fst x = of_nat (n * 4096))"
proof -
  let ?sz = "of_nat (n * 4096) :: u64" and ?bs = "replicate (n * 4096) 0xC7 :: byte list"
  have "0 < n * 4096" using assms(1) by simp
  note small = size_small [OF this assms(3)]
  have fill: "runs (granting lim env) (on_file lim env pth (replicate (n * 4096) 0)) (write_loop env ?sz (replicate 4096 0xC7) 0)
      (\<lambda>_. on_file lim env pth ?bs)"
    using write_loop_runs [of "replicate 4096 0xC7" ?sz n 0 0 lim env pth] small(3) assms(3)
    by (simp add: paged_all concat_payload)
  have answer: "runs g (on_file lim env pth ?bs) (\<lambda>s. map_option (\<lambda>huge. (Inr (mmap_len s, huge), s)) (is_hugepage_backed env s))
      (\<lambda>x s. \<exists>bs. on_file lim env pth bs s \<and> (\<forall>w. has_file pth bs w \<longrightarrow> has_file pth ?bs w \<and> fst x = ?sz))" for g
  proof (rule runsI)
    fix s assume s: "on_file lim env pth ?bs s"
    obtain huge where h: "is_hugepage_backed env s = Some huge" using hugepage_answer [OF s] by blast
    moreover have "mmap_len s = ?sz" using mirrorsD(9) [OF on_file_sys(3) [OF s]] by simp
    ultimately show "\<exists>r s'. map_option (\<lambda>huge. (Inr (mmap_len s, huge), s)) (is_hugepage_backed env s) = Some (r, s') \<and>
        (\<forall>x. r = Inr x \<longrightarrow> (\<exists>bs. on_file lim env pth bs s' \<and> (\<forall>w. has_file pth bs w \<longrightarrow> has_file pth ?bs w \<and> fst x = ?sz))) \<and>
        (g \<longrightarrow> is_ok r)" using s by auto
  qed
  show ?thesis
    unfolding huge_fill_def
  proof (rule created_runs [OF _ _ _ small(1,2)])
    show "runs (granting lim env) (on_file lim env pth (replicate (unat ?sz) 0))
        (op_bind (write_loop env ?sz (replicate 4096 0xC7) 0) (\<lambda>_. op_bind (mmap_flush env) (\<lambda>_ s.
          map_option (\<lambda>huge. (Inr (mmap_len s, huge), s)) (is_hugepage_backed env s))))
        (\<lambda>x s. \<exists>bs. on_file lim env pth bs s \<and> (\<forall>w. has_file pth bs w \<longrightarrow> has_file pth ?bs w \<and> fst x = ?sz))"
      unfolding small(3) by (rule runs_bind [OF fill flush_then]) (rule answer)
  qed (simp_all only: small(3) assms(2), simp_all add: builder_touch_hint_def builder_set_huge_pages_def builder_size_def
      builder_mode_def builder_new_def)
qed

section \<open>Properties\<close>

text \<open>The huge-page example leaves a file that holds the payload throughout when its mapping is dropped, whatever the kernel makes of
  the hint.\<close>

lemma huge_pages_written:
  assumes "world_ok w" "0 < n" "n * 4096 \<le> lim" "n * 4096 < 2 ^ 32"
  shows "\<exists>r w'. huge_fill env spawned pth (of_nat (n * 4096)) w = Some (r, w')
    \<and> (\<forall>x. r = Inr x \<longrightarrow> has_file pth (replicate (n * 4096) 0xC7) w' \<and> fst x = of_nat (n * 4096))
    \<and> (granting lim env \<longrightarrow> is_ok r)"
  by (rule runsD [OF huge_fill_runs [OF assms(2-4)] assms(1)])

lemma huge_pages_simulation_runs:
  assumes "0 < n" "n * 4096 \<le> lim" "n * 4096 < 2 ^ 32"
  shows "runs (granting lim env) world_ok (huge_pages_simulation env spawned pth (of_nat (n * 4096)))
    (\<lambda>x w. fst x = of_nat (n * 4096) \<and> (granting lim env \<longrightarrow> no_file pth w))"
  unfolding huge_pages_simulation_def by (rule temp_file_runs [OF huge_fill_runs [OF assms]])

text \<open>C39. The scan example counts exactly. For every number of pages up to 4 GiB: the program returns; when it does not end with an error it
  has seen every byte once, in one chunk per started 64 KiB, no counter overflowed, and the sum is that of the pattern it
  wrote; on a system that grants its calls it ends without an error and its file is gone.\<close>

theorem chunked_scan_exact:
  assumes "world_ok w" "0 < n" "n * 4096 \<le> lim" "n * 4096 < 2 ^ 32"
  shows "\<exists>r w'. chunked_processing env sh pth (n * 4096) w = Some (r, w')
    \<and> (\<forall>x. r = Inr x \<longrightarrow>
          x = (of_nat ((n + 15) div 16), of_nat (n * 4096), of_nat (4096 * (\<Sum>i<n. i * 7 mod 256))))
    \<and> (granting lim env \<longrightarrow> is_ok r \<and> no_file pth w')"
  using runsD [OF chunked_processing_runs [OF assms(2-4), of env sh pth] assms(1)] unfolding is_ok_iff seed_sum_def by blast

theorem chunked_scan_exact_witness:
  "\<exists>w'. chunked_processing sample_env 0 ''example_06_scan.bin'' (1024 * 1024) sample_world =
    Some (Inr (16, 1048576, 133693440), w')"
proof -
  have n: "(0::nat) < 256" "256 * 4096 \<le> (1024 * 1024 :: nat)" "256 * 4096 < (2 ^ 32 :: nat)" by simp_all
  have s: "of_nat (4096 * (\<Sum>i<256. i * 7 mod 256)) = (133693440 :: u64)" using seed_sum_256 by (simp add: seed_sum_def)
  from chunked_scan_exact [OF sample_world_ok n, of sample_env 0 "''example_06_scan.bin''"] sample_granting [of "1024 * 1024"] s
  show ?thesis by (auto simp: is_ok_iff)
qed

end
