(* ===== verification/Fleet.thy ===== *)
theory Fleet
  imports Programs
begin

text \<open>
  Several mappings of different files, open at once in one file system. A state is the list of their handles and the world; a step
  runs one call on one of them or opens another. What is written through one handle is seen in its own file only, and every other
  mapping keeps showing the bytes it showed.
\<close>

section \<open>States and steps\<close>

type_synonym 'a fleet_op = "inner list \<times> world \<Rightarrow> ((mmap_io_error + 'a) \<times> inner list \<times> world) option"

definition open_next :: "inner open_io \<Rightarrow> unit fleet_op" where
  "open_next mk = (\<lambda>(hs, w).
     case mk w of
       (Inl e, w') \<Rightarrow> Some (Inl e, hs, w')
     | (Inr mm, w') \<Rightarrow> Some (Inr (), hs @ [mm], w'))"

definition on_handle :: "nat \<Rightarrow> 'a op \<Rightarrow> 'a fleet_op" where
  "on_handle k m = (\<lambda>(hs, w).
     if k < length hs
     then (case m \<lparr>s_mm = hs ! k, s_world = w\<rparr> of
             None \<Rightarrow> None
           | Some (r, s') \<Rightarrow> Some (r, hs[k := s_mm s'], s_world s'))
     else None)"

text \<open>Dropping handles in the order of the list.\<close>

definition drop_handles :: "env \<Rightarrow> inner list \<Rightarrow> world \<Rightarrow> world" where
  "drop_handles env hs w = fold (\<lambda>mm. mapping_drop env (variant_mapping (i_map mm))) hs w"

section \<open>Independence\<close>

definition fleet :: "nat \<Rightarrow> env \<Rightarrow> (path \<times> byte list) list \<Rightarrow> inner list \<times> world \<Rightarrow> bool" where
  "fleet lim env ms = (\<lambda>(hs, w). length hs = length ms \<and> world_ok w \<and> distinct (map i_file hs)
     \<and> (\<forall>k < length ms. mirrors lim env (fst (ms ! k)) \<lparr>s_mm = hs ! k, s_world = w\<rparr> (snd (ms ! k))))"

text \<open>A change of the world that leaves the file and the path of a mapping alone.\<close>

lemma mirrors_elsewhere:
  assumes "mirrors lim env pth \<lparr>s_mm = mm, s_world = w\<rparr> bs" "w_dir w' pth = w_dir w pth" "w_data w' (i_file mm) = w_data w (i_file mm)"
    and "world_ok w'"
  shows "mirrors lim env pth \<lparr>s_mm = mm, s_world = w'\<rparr> bs"
proof -
  let ?s = "\<lparr>s_mm = mm, s_world = w\<rparr>" and ?s' = "\<lparr>s_mm = mm, s_world = w'\<rparr>"
  note F = mirrorsD [OF assms(1)]
  obtain m where m: "i_map mm = Rw m" using assms(1) by (auto simp: mirrors_def)
  have win: "m_mem m = Window (i_file mm) 0" using rw_facts(1) [OF F(1)] m by simp
  have b: "s_bytes ?s' = s_bytes ?s" using win m assms(3) by (simp add: mapping_bytes_def)
  have "mapping_ok w' m" using sys_okD(1) [OF F(1)] m win assms(3) by (simp add: mapping_ok_def split: if_splits)
  moreover have "variant_ok ?s'" using sys_okD(2) [OF F(1)] m assms(3) by (simp add: variant_ok_def)
  ultimately have "sys_ok ?s'" using F(1) assms(4) m by (simp add: sys_ok_def world_ok_def)
  then have "session_ok env (session_start ?s')" using F(2,15) by (intro session_start_ok) (simp_all add: write_free_def)
  then show ?thesis using assms(1,2) b m by (simp add: mirrors_def)
qed

text \<open>What a call on one mapping may change: the contents of its file.\<close>

definition touches_only :: "sys \<Rightarrow> sys \<Rightarrow> bool" where
  "touches_only s s' \<longleftrightarrow> i_file (s_mm s') = i_file (s_mm s) \<and> w_dir (s_world s') = w_dir (s_world s)
     \<and> w_next (s_world s') = w_next (s_world s) \<and> (\<forall>g. g \<noteq> i_file (s_mm s) \<longrightarrow> w_data (s_world s') g = w_data (s_world s) g)"

lemma touches_only_refl [simp]: "touches_only s s"
  by (simp add: touches_only_def)

lemma touches_only_trans: "touches_only s s' \<Longrightarrow> touches_only s' s'' \<Longrightarrow> touches_only s s''"
  by (simp add: touches_only_def)

lemma quiet_touches: "quiet_sys s s' \<Longrightarrow> touches_only s s'"
  by (simp add: quiet_sys_def same_files_def touches_only_def)

text \<open>A call that takes a mapping from some bytes to others, and touches only its file.\<close>

definition moves :: "nat \<Rightarrow> env \<Rightarrow> path \<Rightarrow> byte list \<Rightarrow> 'a op \<Rightarrow> byte list \<Rightarrow> bool" where
  "moves lim env pth bs m bs' \<longleftrightarrow>
     (\<forall>s0. runs (granting lim env) (\<lambda>s. on_file lim env pth bs s \<and> touches_only s0 s) m
        (\<lambda>_ s. on_file lim env pth bs' s \<and> touches_only s0 s))"

lemma movesI:
  assumes "runs (granting lim env) (on_file lim env pth bs) m (\<lambda>_. on_file lim env pth bs')"
    and "\<And>s r s'. on_file lim env pth bs s \<Longrightarrow> m s = Some (r, s') \<Longrightarrow> touches_only s s'"
  shows "moves lim env pth bs m bs'"
  unfolding moves_def
proof (intro allI runsI)
  fix s0 s assume s: "on_file lim env pth bs s \<and> touches_only s0 s"
  from runsD [OF assms(1), of s] s assms(2) [of s] touches_only_trans [of s0 s]
  show "\<exists>r s'. m s = Some (r, s') \<and> (\<forall>x. r = Inr x \<longrightarrow> on_file lim env pth bs' s' \<and> touches_only s0 s') \<and> (granting lim env \<longrightarrow> is_ok r)"
    by blast
qed

lemma moves_return: "moves lim env pth bs (op_return x) bs"
  by (simp add: moves_def runs_return)

lemma moves_bind: "moves lim env pth bs m bs1 \<Longrightarrow> (\<And>x. moves lim env pth bs1 (f x) bs') \<Longrightarrow> moves lim env pth bs (op_bind m f) bs'"
  unfolding moves_def by (blast intro: runs_bind)

lemma moves_update:
  assumes "unat off + length d \<le> length bs"
  shows "moves lim env pth bs (update_region env off d) (splice_at bs (unat off) d)"
proof (rule movesI [OF update_runs [OF assms]])
  fix s r s' assume s: "on_file lim env pth bs s" and u: "update_region env off d s = Some (r, s')"
  have m: "mirrors lim env pth s bs" using s by (simp add: on_file_def)
  note F = mirrorsD [OF m]
  have "length d < 2 ^ 63" using assms F(10) by simp
  with update_mirrors [OF m this assms] u have e: "same_entry s s'" by auto
  obtain x where x: "i_map (s_mm s) = Rw x" using m by (auto simp: mirrors_def)
  have "\<forall>g. g \<noteq> i_file (s_mm s) \<longrightarrow> w_data (s_world s') g = w_data (s_world s) g"
  proof (cases "d = []")
    case True
    with u show ?thesis by (simp add: update_region_def)
  next
    case False
    have "unat off + max (unat (of_nat (length d) :: u64)) (length d) \<le> unat (m_len (s_mapping s))"
      using assms F(7) \<open>length d < 2 ^ 63\<close> by (simp add: unat_of_nat)
    from update_region_within_wrote [OF F(1,5,2) \<open>length d < 2 ^ 63\<close> this, of env] u False have "wrote (unat off) d s s'"
      by (auto simp: update_region_def)
    with x show ?thesis by (simp add: wrote_def)
  qed
  with e show "touches_only s s'" by (simp add: touches_only_def same_entry_def)
qed

text \<open>So this is such a judgement too.\<close>

interpretation alone: byte_program "moves lim env pth" "update_region env" for lim env pth
  by unfold_locales (auto intro: moves_return moves_bind moves_update)

lemma moves_quiet:
  assumes "\<And>s. on_file lim env pth bs s \<Longrightarrow> \<exists>r s'. m s = Some (r, s') \<and> quiet_sys s s' \<and> (granting lim env \<longrightarrow> is_ok r)"
  shows "moves lim env pth bs m bs"
proof (rule movesI)
  have "on_file lim env pth bs s'" if "on_file lim env pth bs s" "quiet_sys s s'" for s s'
    by (rule on_file_entry [OF that(1) mirrors_quiet [OF on_file_sys(3) [OF that(1)] that(2)] quiet_same_entry [OF that(2)]])
  then show "runs (granting lim env) (on_file lim env pth bs) m (\<lambda>_. on_file lim env pth bs)"
    using assms by (intro runsI) blast
  show "touches_only s s'" if "on_file lim env pth bs s" "m s = Some (r, s')" for s r s'
    using assms [OF that(1)] that(2) quiet_touches by auto
qed

lemma moves_touch: "moves lim env pth bs (touch_pages env) bs"
  using mirrorsD(3) by (intro moves_quiet) (auto simp: on_file_def touch_pages_def map_read_def)

lemma moves_touch_range:
  assumes "unat off + unat len \<le> length bs"
  shows "moves lim env pth bs (touch_pages_range env off len) bs"
proof (rule moves_quiet)
  fix s assume "on_file lim env pth bs s"
  then have "mirrors lim env pth s bs" by (simp add: on_file_def)
  note F = mirrorsD [OF this]
  show "\<exists>r s'. touch_pages_range env off len s = Some (r, s') \<and> quiet_sys s s' \<and> (granting lim env \<longrightarrow> is_ok r)"
    using assms F(3,7) by (simp add: touch_pages_range_def op_return_def map_read_eq op_bind_def op_lift_def slice_range64_eq Let_def)
qed

lemma moves_flush_range:
  assumes "unat off + unat len \<le> length bs"
  shows "moves lim env pth bs (flush_range env off len) bs"
proof (rule moves_quiet)
  fix s assume "on_file lim env pth bs s"
  then have m: "mirrors lim env pth s bs" by (simp add: on_file_def)
  note F = mirrorsD [OF m]
  obtain x where x: "i_map (s_mm s) = Rw x" using m by (auto simp: mirrors_def)
  have "flush_range env off len s \<noteq> None"
    using F(3) x flush_mirrors [OF m]
    by (auto simp: flush_range_def op_return_def map_read_eq op_bind_def op_lift_def op_io_def split: prod.splits sum.splits)
  then obtain r s' where r: "flush_range env off len s = Some (r, s')" by auto
  moreover have "is_ok r" if "granting lim env"
    using granted_flush_range [OF that F(1) x F(3), of off len] assms F(7) r x by auto
  ultimately show "\<exists>r s'. flush_range env off len s = Some (r, s') \<and> quiet_sys s s' \<and> (granting lim env \<longrightarrow> is_ok r)"
    using flush_range_quiet by blast
qed

section \<open>Steps of a fleet\<close>

text \<open>Since the start, in the world \<open>w0\<close>: the paths of \<open>ps\<close> name no file yet, no path outside \<open>P\<close> and no file that was there has changed,
  and every mapping is one of a file made since.\<close>

definition apart :: "world \<Rightarrow> path set \<Rightarrow> path set \<Rightarrow> inner list \<times> world \<Rightarrow> bool" where
  "apart w0 P ps = (\<lambda>(hs, w). (\<forall>p \<in> ps. w_dir w p = None) \<and> (\<forall>q. q \<notin> P \<longrightarrow> w_dir w q = w_dir w0 q)
     \<and> (\<forall>g < w_next w0. w_data w g = w_data w0 g) \<and> w_next w0 \<le> w_next w \<and> (\<forall>mm \<in> set hs. w_next w0 \<le> i_file mm))"

lemma fleet_step:
  assumes "k < length ms" "ms ! k = (pth, bs)" "moves lim env pth bs m bs'"
  shows "runs (granting lim env) (\<lambda>st. fleet lim env ms st \<and> apart w0 P ps st) (on_handle k m)
    (\<lambda>_ st. fleet lim env (ms[k := (pth, bs')]) st \<and> apart w0 P ps st)"
proof (rule runsI)
  fix st assume st: "fleet lim env ms st \<and> apart w0 P ps st"
  obtain hs w where st_eq: "st = (hs, w)" by (cases st)
  let ?s = "\<lparr>s_mm = hs ! k, s_world = w\<rparr>"
  have len: "length hs = length ms" and w: "world_ok w" and dist: "distinct (map i_file hs)"
    and mir: "\<And>i. i < length ms \<Longrightarrow> mirrors lim env (fst (ms ! i)) \<lparr>s_mm = hs ! i, s_world = w\<rparr> (snd (ms ! i))"
    using st st_eq by (auto simp: fleet_def)
  have "on_file lim env pth bs ?s" using mir [OF assms(1)] assms(2) w by (simp add: on_file_def)
  with assms(3) [unfolded moves_def, rule_format, of ?s] obtain r s' where r: "m ?s = Some (r, s')" "granting lim env \<longrightarrow> is_ok r"
    and post: "\<And>x. r = Inr x \<Longrightarrow> on_file lim env pth bs' s' \<and> touches_only ?s s'" unfolding runs_def by fastforce
  have "fleet lim env (ms[k := (pth, bs')]) (hs[k := s_mm s'], s_world s') \<and> apart w0 P ps (hs[k := s_mm s'], s_world s')" if "r = Inr x" for x
  proof -
    have s': "mirrors lim env pth s' bs'" "world_ok (s_world s')" "i_file (s_mm s') = i_file (hs ! k)" "w_dir (s_world s') = w_dir w"
      "w_next (s_world s') = w_next w" "\<And>g. g \<noteq> i_file (hs ! k) \<Longrightarrow> w_data (s_world s') g = w_data w g"
      using post [OF that] by (simp_all add: on_file_def touches_only_def)
    have files: "map i_file (hs[k := s_mm s']) = map i_file hs"
      using s'(3) assms(1) len by (simp add: map_update list_update_same_conv)
    have "mirrors lim env (fst (ms[k := (pth, bs')] ! i)) \<lparr>s_mm = hs[k := s_mm s'] ! i, s_world = s_world s'\<rparr> (snd (ms[k := (pth, bs')] ! i))"
      if i: "i < length ms" for i
    proof (cases "i = k")
      case True
      have "mirrors lim env pth \<lparr>s_mm = s_mm s', s_world = s_world s'\<rparr> bs'" using s'(1) by (cases s') simp
      with True assms(1) len show ?thesis by simp
    next
      case False
      have "i_file (hs ! i) \<noteq> i_file (hs ! k)" using dist False i assms(1) len by (simp add: distinct_conv_nth)
      with mirrors_elsewhere [OF mir [OF i] _ _ s'(2)] s'(4,6) False show ?thesis by simp
    qed
    moreover have "apart w0 P ps (hs[k := s_mm s'], s_world s')"
    proof -
      have a: "apart w0 P ps (hs, w)" and k: "k < length hs" using st st_eq assms(1) len by simp_all
      then have new: "w_next w0 \<le> i_file (hs ! k)" by (simp add: apart_def)
      then have "\<forall>mm \<in> set (hs[k := s_mm s']). w_next w0 \<le> i_file mm"
        using a s'(3) set_update_subset_insert [of hs k "s_mm s'"] by (auto simp: apart_def)
      moreover have "w_data (s_world s') g = w_data w g" if "g < w_next w0" for g using s'(6) [of g] new that by simp
      ultimately show ?thesis using a s'(4,5) by (simp add: apart_def)
    qed
    ultimately show ?thesis using s'(2) files dist len by (simp add: fleet_def)
  qed
  with r len assms(1) show "\<exists>r st'. on_handle k m st = Some (r, st') \<and> (\<forall>x. r = Inr x \<longrightarrow> fleet lim env (ms[k := (pth, bs')]) st' \<and> apart w0 P ps st') \<and>
      (granting lim env \<longrightarrow> is_ok r)"
    by (auto simp: st_eq on_handle_def)
qed

text \<open>Opening another: where the path names no file, the builder makes a new one.\<close>

lemma builder_new_file:
  assumes "builder_create env spawned b w = (Inr (mm, acc), w')" "world_ok w" "b_mode b = Some ReadWrite" "b_size b = Some n"
    and "w_dir w (b_path b) = None"
  shows "i_file mm = w_next w" "w_dir w' = (w_dir w)(b_path b \<mapsto> w_next w)" "\<And>g. g \<noteq> w_next w \<Longrightarrow> w_data w' g = w_data w g"
    "w_next w' = Suc (w_next w)"
proof -
  obtain f w1 w2 where n: "n \<noteq> 0" "\<not> n > MAX_MMAP_SIZE" and o: "fs_open env (b_path b) opts_truncate w = (Inr f, w1)"
    and sl: "fs_set_len env f n w1 = (Inr (), w2)" and fin: "finish_rw env spawned b f n w2 = (Inr (mm, acc), w')"
    using assms(1,3,4) by (auto simp: builder_create_def validated_create_size_def bind_se_Inr split: if_splits)
  note W = world_ok_create [OF assms(2) o _ sl n]
  note E = opened_finish [OF W(1) fin W(2) [symmetric] n(1)]
  have O: "f = w_next w" "w_dir w1 = (w_dir w)(b_path b \<mapsto> f)" "w_data w1 = (w_data w)(f := [])"
    "w_next w1 = Suc f"
    using fs_open_truncating(2) [OF o _ _ _ refl] assms(5) by (auto simp: path_exists_def)
  show "i_file mm = w_next w" "w_dir w' = (w_dir w)(b_path b \<mapsto> w_next w)" "\<And>g. g \<noteq> w_next w \<Longrightarrow> w_data w' g = w_data w g"
    "w_next w' = Suc (w_next w)"
    using E(2,4) O sl by (auto simp: same_files_def fs_set_len_Inr)
qed

lemma fleet_open:
  assumes "b_mode b = Some ReadWrite" "b_size b = Some n" "b_path b = pth" "n \<noteq> 0" "\<not> n > MAX_MMAP_SIZE" "unat n \<le> lim" "pth \<notin> ps" "pth \<in> P"
  shows "runs (granting lim env) (\<lambda>st. fleet lim env ms st \<and> apart w0 P (insert pth ps) st) (open_next (created env spawned b))
    (\<lambda>_ st. fleet lim env (ms @ [(pth, replicate (unat n) 0)]) st \<and> apart w0 P ps st)"
proof (rule runsI)
  fix st assume st: "fleet lim env ms st \<and> apart w0 P (insert pth ps) st"
  obtain hs w where st_eq: "st = (hs, w)" by (cases st)
  have len: "length hs = length ms" and w: "world_ok w" and dist: "distinct (map i_file hs)" and ap: "apart w0 P (insert pth ps) (hs, w)"
    and mir: "\<And>i. i < length ms \<Longrightarrow> mirrors lim env (fst (ms ! i)) \<lparr>s_mm = hs ! i, s_world = w\<rparr> (snd (ms ! i))"
    using st st_eq by (auto simp: fleet_def)
  then have none: "\<forall>p \<in> insert pth ps. w_dir w p = None" by (simp add: apart_def)
  obtain q w' where c: "builder_create env spawned b w = (q, w')" by fastforce
  have old: "w_dir w (fst (ms ! i)) = Some (i_file (hs ! i))" "i_file (hs ! i) < w_next w" if "i < length ms" for i
    using mir [OF that] w by (auto simp: mirrors_def world_ok_def)
  show "\<exists>r st'. open_next (created env spawned b) st = Some (r, st') \<and>
      (\<forall>x. r = Inr x \<longrightarrow> fleet lim env (ms @ [(pth, replicate (unat n) 0)]) st' \<and> apart w0 P ps st') \<and> (granting lim env \<longrightarrow> is_ok r)"
  proof (cases q)
    case (Inl e)
    have "\<not> granting lim env" using granted_builder_create [OF _ assms(1,2,4-6), of env spawned w] c Inl by auto
    with c Inl show ?thesis by (simp add: st_eq open_next_def created_def bind_se_def)
  next
    case (Inr p)
    then obtain mm acc where q: "q = Inr (mm, acc)" by (cases p) simp
    note B = builder_created [OF c [unfolded q] w assms(1,2,6), unfolded assms(3)]
    have "w_dir w (b_path b) = None" using none assms(3) by simp
    note N = builder_new_file [OF c [unfolded q] w assms(1,2) this, unfolded assms(3)]
    have "mirrors lim env (fst (ms ! i)) \<lparr>s_mm = hs ! i, s_world = w'\<rparr> (snd (ms ! i))" if i: "i < length ms" for i
    proof (rule mirrors_elsewhere [OF mir [OF i] _ _ B(2)])
      have "fst (ms ! i) \<noteq> pth" using old(1) [OF i] none by auto
      then show "w_dir w' (fst (ms ! i)) = w_dir w (fst (ms ! i))" by (simp add: N(2))
      show "w_data w' (i_file (hs ! i)) = w_data w (i_file (hs ! i))" using old(2) [OF i] by (intro N(3)) simp
    qed
    moreover have "w_next w \<notin> set (map i_file hs)" using old(2) len unfolding in_set_conv_nth length_map by (metis less_irrefl nth_map)
    ultimately have "fleet lim env (ms @ [(pth, replicate (unat n) 0)]) (hs @ [mm], w')"
      using B dist len N(1) by (simp add: fleet_def nth_append less_Suc_eq)
    moreover have "apart w0 P ps (hs @ [mm], w')" using ap none assms(7,8) N(1,3,4) by (auto simp: apart_def N(2))
    ultimately show ?thesis using c q by (simp add: st_eq open_next_def created_def bind_se_def return_se_def)
  qed
qed

text \<open>After the drops every file holds the bytes its mapping showed.\<close>

lemma drop_handles_files: "same_files w (drop_handles env hs w)"
proof (induction hs arbitrary: w)
  case (Cons mm hs)
  have "same_files w (mapping_drop env (variant_mapping (i_map mm)) w)" by (rule mapping_drop_files)
  with Cons [of "mapping_drop env (variant_mapping (i_map mm)) w"] show ?case by (simp add: drop_handles_def same_files_def)
qed (simp add: drop_handles_def same_files_def)

lemma fleet_dropped:
  assumes "fleet lim env ms (hs, w)" "k < length ms"
  shows "has_file (fst (ms ! k)) (snd (ms ! k)) (drop_handles env hs' w)"
proof -
  let ?s = "\<lparr>s_mm = hs ! k, s_world = w\<rparr>"
  have "on_file lim env (fst (ms ! k)) (snd (ms ! k)) ?s" using assms by (auto simp: fleet_def on_file_def)
  from dropped_file [OF this] mapping_drop_files [of w env "s_mapping ?s"]
  have "has_file (fst (ms ! k)) (snd (ms ! k)) w" by (auto simp: has_file_def same_files_def world_ok_def)
  then show ?thesis by (rule has_file_same [OF _ drop_handles_files])
qed

end
