(* ===== verification/Example_Demo.thy ===== *)
theory Example_Demo
  imports Fleet Example_Bulk
begin

text \<open>
  \<open>examples/critical_features_demo.rs\<close>: five mappings open at the same time, made with the huge-page hint, eager touching, a time-based and a
  byte-based flush policy; two of them are written, in turn. The program is modelled whole; clocks and printing are left out. On an
  early return the handles are dropped in the reverse order of their declarations, at the end in the order of the calls.
\<close>

section \<open>The program\<close>

definition demo_builder :: "path \<Rightarrow> u64 \<Rightarrow> builder" where
  "demo_builder pth sz = builder_size sz (builder_mode ReadWrite (builder_new pth))"

text \<open>The loops of the comparison: 512 pages of one payload.\<close>

definition write_pages :: "env \<Rightarrow> byte list \<Rightarrow> unit op" where
  "write_pages env payload = op_for (\<lambda>i. update_region env (of_nat (i * 4096)) payload) [0..<512]"

text \<open>Without the feature the hint is not asked for.\<close>

definition demo_hint :: "env \<Rightarrow> builder \<Rightarrow> builder" where
  "demo_hint env b = (if e_hugepages env then builder_set_huge_pages True b else b)"

definition demo_steps :: "env \<Rightarrow> bool \<Rightarrow> bool option fleet_op" where
  "demo_steps env spawned =
     prog_bind (open_next (created env spawned (demo_hint env (demo_builder ''demo_huge.bin'' (4 * 1024 * 1024))))) (\<lambda>_.
     prog_bind (on_handle 0 (\<lambda>s. map_option (\<lambda>huge. (Inr huge, s)) (is_hugepage_backed env s))) (\<lambda>huge.
     prog_bind (open_next (created env spawned
       (builder_touch_hint Hint_Eager (demo_builder ''benchmark.bin'' (2 * 1024 * 1024))))) (\<lambda>_.
     prog_bind (open_next (created env spawned
       (builder_flush_policy (EveryMillis 500) (demo_builder ''auto_flush.bin'' (1024 * 1024))))) (\<lambda>_.
     prog_bind (open_next (created env spawned (demo_hint env
       (builder_flush_policy (EveryBytes (1024 * 1024))
         (builder_touch_hint Hint_Eager (demo_builder ''ultimate.bin'' (8 * 1024 * 1024))))))) (\<lambda>_.
     prog_bind (on_handle 3 (touch_pages env)) (\<lambda>_.
     prog_bind (on_handle 3 (touch_pages_range env 0 (1024 * 1024))) (\<lambda>_.
     prog_bind (on_handle 3 (update_region env 0 (replicate 512 0x42))) (\<lambda>_.
     prog_bind (on_handle 3 (flush_range env 0 512)) (\<lambda>_.
     prog_bind (open_next (created env spawned
       (builder_touch_hint Hint_Never (demo_builder ''cold.bin'' (2 * 1024 * 1024))))) (\<lambda>_.
     prog_bind (on_handle 4 (write_pages env (replicate 4096 0xAB))) (\<lambda>_.
     prog_bind (on_handle 3 (write_pages env (replicate 4096 0xAB))) (\<lambda>_.
       prog_return huge))))))))))))"

text \<open>Everything up to the clean-up, with the drops.\<close>

definition demo_run :: "env \<Rightarrow> bool \<Rightarrow> bool option prog" where
  "demo_run env spawned w =
     (case demo_steps env spawned ([], w) of
        None \<Rightarrow> None
      | Some (Inl e, hs, w') \<Rightarrow> Some (Inl e, drop_handles env (rev hs) w')
      | Some (Inr huge, hs, w') \<Rightarrow> Some (Inr huge, drop_handles env hs w'))"

text \<open>\<open>cleanup_path\<close>. What \<open>remove_dir_all\<close> answers for the path is the argument \<open>rmdir\<close>; a panic is \<open>None\<close>.\<close>

definition cleanup_path :: "env \<Rightarrow> (path \<Rightarrow> io_error + unit) \<Rightarrow> path \<Rightarrow> world \<Rightarrow> world option" where
  "cleanup_path env rmdir p w =
     (case fs_remove_file env p w of
        (Inr _, w') \<Rightarrow> Some w'
      | (Inl e, w') \<Rightarrow>
          if io_kind e = NotFound then Some w'
          else (case rmdir p of
                  Inr _ \<Rightarrow> Some w'
                | Inl e' \<Rightarrow> if io_kind e' \<noteq> NotFound then None else Some w'))"

definition demo_paths :: "path list" where
  "demo_paths = [''demo_huge.bin'', ''benchmark.bin'', ''auto_flush.bin'', ''ultimate.bin'', ''cold.bin'']"

fun cleanup_paths :: "env \<Rightarrow> (path \<Rightarrow> io_error + unit) \<Rightarrow> path list \<Rightarrow> world \<Rightarrow> world option" where
  "cleanup_paths env rmdir [] w = Some w"
| "cleanup_paths env rmdir (p # ps) w = Option.bind (cleanup_path env rmdir p w) (cleanup_paths env rmdir ps)"

definition demo_main :: "env \<Rightarrow> bool \<Rightarrow> (path \<Rightarrow> io_error + unit) \<Rightarrow> bool option prog" where
  "demo_main env spawned rmdir w =
     Option.bind (demo_run env spawned w) (\<lambda>(r, w').
       case r of
         Inl e \<Rightarrow> Some (Inl e, w')
       | Inr huge \<Rightarrow> map_option (\<lambda>w''. (Inr huge, w'')) (cleanup_paths env rmdir demo_paths w'))"

section \<open>Its steps\<close>

lemma moves_write_pages:
  assumes "length payload = 4096" "512 * 4096 \<le> length bs"
  shows "moves lim env pth bs (write_pages env payload) (concat (replicate 512 payload) @ drop (512 * 4096) bs)"
  using alone.fill_pages [of "\<lambda>_. payload" 4096 512 bs lim env pth, OF assms(1)] assms(2)
  by (simp add: write_pages_def paged_def map_replicate_const)

lemma moves_hugepage: "moves lim env pth bs (\<lambda>s. map_option (\<lambda>huge. (Inr huge, s)) (is_hugepage_backed env s)) bs"
  using hugepage_answer by (intro moves_quiet) force

lemma demo_builder_fields:
  "b_mode (demo_builder pth sz) = Some ReadWrite" "b_size (demo_builder pth sz) = Some sz" "b_path (demo_builder pth sz) = pth"
  "b_mode (builder_touch_hint h b) = b_mode b" "b_size (builder_touch_hint h b) = b_size b" "b_path (builder_touch_hint h b) = b_path b"
  "b_mode (builder_flush_policy p b) = b_mode b" "b_size (builder_flush_policy p b) = b_size b" "b_path (builder_flush_policy p b) = b_path b"
  "b_mode (demo_hint env b) = b_mode b" "b_size (demo_hint env b) = b_size b" "b_path (demo_hint env b) = b_path b"
  by (simp_all add: demo_builder_def builder_size_def builder_mode_def builder_new_def builder_touch_hint_def
      builder_flush_policy_def demo_hint_def builder_set_huge_pages_def)

text \<open>What the files hold in the end.\<close>

definition demo_ultimate :: "byte list" where
  "demo_ultimate = concat (replicate 512 (replicate 4096 0xAB)) @ replicate (6 * 1024 * 1024) 0"

definition demo_files :: "(path \<times> byte list) list" where
  "demo_files =
     [(''demo_huge.bin'', replicate (4 * 1024 * 1024) 0), (''benchmark.bin'', replicate (2 * 1024 * 1024) 0),
      (''auto_flush.bin'', replicate (1024 * 1024) 0), (''ultimate.bin'', demo_ultimate),
      (''cold.bin'', concat (replicate 512 (replicate 4096 0xAB)))]"

lemma demo_open:
  assumes "b_mode b = Some ReadWrite" "b_size b = Some n" "b_path b = pth" "unat n = k" "0 < k" "k \<le> 8 * 1024 * 1024" "pth \<notin> ps" "pth \<in> set demo_paths"
    and "8 * 1024 * 1024 \<le> lim"
  shows "runs (granting lim env) (\<lambda>st. fleet lim env ms st \<and> apart w0 (set demo_paths) (insert pth ps) st) (open_next (created env spawned b))
    (\<lambda>_ st. fleet lim env (ms @ [(pth, replicate k 0)]) st \<and> apart w0 (set demo_paths) ps st)"
proof -
  have "n \<noteq> 0" using assms(4,5) by auto
  moreover have "\<not> n > MAX_MMAP_SIZE" using assms(4,6) by (simp add: word_less_unat MAX_MMAP_SIZE_def)
  ultimately show ?thesis using fleet_open [OF assms(1-3), of lim ps "set demo_paths"] assms(4,6-9) by simp
qed

text \<open>The mappings as they are opened, then as the shared one is written.\<close>

definition demo_opened :: "(path \<times> byte list) list" where
  "demo_opened =
     [(''demo_huge.bin'', replicate (4 * 1024 * 1024) 0), (''benchmark.bin'', replicate (2 * 1024 * 1024) 0),
      (''auto_flush.bin'', replicate (1024 * 1024) 0), (''ultimate.bin'', replicate (8 * 1024 * 1024) 0),
      (''cold.bin'', replicate (2 * 1024 * 1024) 0)]"

definition demo_marked :: "byte list" where
  "demo_marked = splice_at (replicate (8 * 1024 * 1024) 0) 0 (replicate 512 0x42)"

lemma demo_marked:
  "length demo_marked = 8 * 1024 * 1024" "concat (replicate 512 (replicate 4096 0xAB)) @ drop (512 * 4096) demo_marked = demo_ultimate"
  by (simp_all add: demo_marked_def splice_at_def demo_ultimate_def)

abbreviation demo_later :: "nat \<Rightarrow> path set" where
  "demo_later k \<equiv> set (drop k demo_paths)"

lemmas demo_simps = demo_builder_fields demo_paths_def demo_opened_def

lemma demo_open_0:
  assumes "8 * 1024 * 1024 \<le> lim"
  shows "runs (granting lim env) (\<lambda>st. fleet lim env ([]) st \<and> apart w0 (set demo_paths) (demo_later 0) st)
    (open_next (created env spawned (demo_hint env (demo_builder ''demo_huge.bin'' (4 * 1024 * 1024)))))
    (\<lambda>_ st. fleet lim env (take 1 demo_opened) st \<and> apart w0 (set demo_paths) (demo_later 1) st)"
  using demo_open [where ms = "[]" and pth = "''demo_huge.bin''" and ps = "demo_later 1" and n = "4 * 1024 * 1024" and k = "4 * 1024 * 1024"
    and b = "demo_hint env (demo_builder ''demo_huge.bin'' (4 * 1024 * 1024))", OF _ _ _ _ _ _ _ _ assms]
  by (simp add: demo_simps)

lemma demo_open_1:
  assumes "8 * 1024 * 1024 \<le> lim"
  shows "runs (granting lim env) (\<lambda>st. fleet lim env (take 1 demo_opened) st \<and> apart w0 (set demo_paths) (demo_later 1) st)
    (open_next (created env spawned (builder_touch_hint Hint_Eager (demo_builder ''benchmark.bin'' (2 * 1024 * 1024)))))
    (\<lambda>_ st. fleet lim env (take 2 demo_opened) st \<and> apart w0 (set demo_paths) (demo_later 2) st)"
  using demo_open [where ms = "take 1 demo_opened" and pth = "''benchmark.bin''" and ps = "demo_later 2" and n = "2 * 1024 * 1024" and k = "2 * 1024 * 1024"
    and b = "builder_touch_hint Hint_Eager (demo_builder ''benchmark.bin'' (2 * 1024 * 1024))", OF _ _ _ _ _ _ _ _ assms]
  by (simp add: demo_simps)

lemma demo_open_2:
  assumes "8 * 1024 * 1024 \<le> lim"
  shows "runs (granting lim env) (\<lambda>st. fleet lim env (take 2 demo_opened) st \<and> apart w0 (set demo_paths) (demo_later 2) st)
    (open_next (created env spawned (builder_flush_policy (EveryMillis 500) (demo_builder ''auto_flush.bin'' (1024 * 1024)))))
    (\<lambda>_ st. fleet lim env (take 3 demo_opened) st \<and> apart w0 (set demo_paths) (demo_later 3) st)"
  using demo_open [where ms = "take 2 demo_opened" and pth = "''auto_flush.bin''" and ps = "demo_later 3" and n = "1024 * 1024" and k = "1024 * 1024"
    and b = "builder_flush_policy (EveryMillis 500) (demo_builder ''auto_flush.bin'' (1024 * 1024))", OF _ _ _ _ _ _ _ _ assms]
  by (simp add: demo_simps)

lemma demo_open_3:
  assumes "8 * 1024 * 1024 \<le> lim"
  shows "runs (granting lim env) (\<lambda>st. fleet lim env (take 3 demo_opened) st \<and> apart w0 (set demo_paths) (demo_later 3) st)
    (open_next (created env spawned (demo_hint env (builder_flush_policy (EveryBytes (1024 * 1024))
        (builder_touch_hint Hint_Eager (demo_builder ''ultimate.bin'' (8 * 1024 * 1024)))))))
    (\<lambda>_ st. fleet lim env (take 4 demo_opened) st \<and> apart w0 (set demo_paths) (demo_later 4) st)"
  using demo_open [where ms = "take 3 demo_opened" and pth = "''ultimate.bin''" and ps = "demo_later 4" and n = "8 * 1024 * 1024" and k = "8 * 1024 * 1024"
    and b = "demo_hint env (builder_flush_policy (EveryBytes (1024 * 1024))
        (builder_touch_hint Hint_Eager (demo_builder ''ultimate.bin'' (8 * 1024 * 1024))))", OF _ _ _ _ _ _ _ _ assms]
  by (simp add: demo_simps)

lemma demo_open_4:
  assumes "8 * 1024 * 1024 \<le> lim"
  shows "runs (granting lim env) (\<lambda>st. fleet lim env ((take 4 demo_opened)[3 := (''ultimate.bin'', demo_marked)]) st \<and> apart w0 (set demo_paths) (demo_later 4) st)
    (open_next (created env spawned (builder_touch_hint Hint_Never (demo_builder ''cold.bin'' (2 * 1024 * 1024)))))
    (\<lambda>_ st. fleet lim env (demo_opened[3 := (''ultimate.bin'', demo_marked)]) st \<and> apart w0 (set demo_paths) (demo_later 5) st)"
  using demo_open [where ms = "(take 4 demo_opened)[3 := (''ultimate.bin'', demo_marked)]" and pth = "''cold.bin''" and ps = "demo_later 5" and n = "2 * 1024 * 1024" and k = "2 * 1024 * 1024"
    and b = "builder_touch_hint Hint_Never (demo_builder ''cold.bin'' (2 * 1024 * 1024))", OF _ _ _ _ _ _ _ _ assms]
  by (simp add: demo_simps)

lemma demo_steps_runs:
  assumes "8 * 1024 * 1024 \<le> lim"
  shows "runs (granting lim env) (\<lambda>st. fleet lim env [] st \<and> apart w0 (set demo_paths) (demo_later 0) st) (demo_steps env spawned)
    (\<lambda>_ st. fleet lim env demo_files st \<and> apart w0 (set demo_paths) {} st)"
proof -
  note at_ultimate = fleet_step [where k = 3 and pth = "''ultimate.bin''" and lim = lim and env = env]
  let ?M = "(take 4 demo_opened)[3 := (''ultimate.bin'', demo_marked)]"
  have huge: "runs (granting lim env) (\<lambda>st. fleet lim env (take 1 demo_opened) st \<and> apart w0 (set demo_paths) (demo_later 1) st)
      (on_handle 0 (\<lambda>s. map_option (\<lambda>huge. (Inr huge, s)) (is_hugepage_backed env s)))
      (\<lambda>_ st. fleet lim env (take 1 demo_opened) st \<and> apart w0 (set demo_paths) (demo_later 1) st)"
    using fleet_step [OF _ _ moves_hugepage, of 0 "take 1 demo_opened"] by (simp add: demo_opened_def)
  have quiet4: "runs (granting lim env) (\<lambda>st. fleet lim env (take 4 demo_opened) st \<and> apart w0 (set demo_paths) (demo_later 4) st) (on_handle 3 m)
      (\<lambda>_ st. fleet lim env (take 4 demo_opened) st \<and> apart w0 (set demo_paths) (demo_later 4) st)"
    if "moves lim env ''ultimate.bin'' (replicate (8 * 1024 * 1024) 0) m (replicate (8 * 1024 * 1024) 0)" for m :: "'a op"
    using at_ultimate [OF _ _ that, of "take 4 demo_opened"] by (simp add: demo_opened_def)
  have mark: "runs (granting lim env) (\<lambda>st. fleet lim env (take 4 demo_opened) st \<and> apart w0 (set demo_paths) (demo_later 4) st)
      (on_handle 3 (update_region env 0 (replicate 512 0x42))) (\<lambda>_ st. fleet lim env ?M st \<and> apart w0 (set demo_paths) (demo_later 4) st)"
    using at_ultimate [OF _ _ moves_update [where bs = "replicate (8 * 1024 * 1024) 0" and off = 0 and d = "replicate 512 0x42"],
      where ms = "take 4 demo_opened" and ps = "demo_later 4"]
    by (simp add: demo_opened_def demo_marked_def)
  have flush: "runs (granting lim env) (\<lambda>st. fleet lim env ?M st \<and> apart w0 (set demo_paths) (demo_later 4) st)
      (on_handle 3 (flush_range env 0 512)) (\<lambda>_ st. fleet lim env ?M st \<and> apart w0 (set demo_paths) (demo_later 4) st)"
    using at_ultimate [OF _ _ moves_flush_range [where bs = demo_marked and off = 0 and len = 512], where ms = ?M and ps = "demo_later 4"]
    by (simp add: demo_opened_def demo_marked(1))
  let ?P = "replicate 4096 0xAB :: byte list" and ?C = "demo_opened[3 := (''ultimate.bin'', demo_marked)]"
  let ?D = "?C[4 := (''cold.bin'', concat (replicate 512 ?P))]"
  have cold: "runs (granting lim env) (\<lambda>st. fleet lim env ?C st \<and> apart w0 (set demo_paths) (demo_later 5) st) (on_handle 4 (write_pages env ?P))
      (\<lambda>_ st. fleet lim env ?D st \<and> apart w0 (set demo_paths) (demo_later 5) st)"
    using fleet_step [OF _ _ moves_write_pages [where payload = ?P and bs = "replicate (2 * 1024 * 1024) 0"],
      where k = 4 and ms = ?C and pth = "''cold.bin''" and ps = "demo_later 5"] by (simp add: demo_opened_def)
  have warm: "runs (granting lim env) (\<lambda>st. fleet lim env ?D st \<and> apart w0 (set demo_paths) (demo_later 5) st) (on_handle 3 (write_pages env ?P))
      (\<lambda>_ st. fleet lim env demo_files st \<and> apart w0 (set demo_paths) (demo_later 5) st)"
    using at_ultimate [OF _ _ moves_write_pages [where payload = ?P and bs = demo_marked], where ms = ?D and ps = "demo_later 5"]
    unfolding demo_marked(2) by (simp add: demo_opened_def demo_files_def demo_marked(1))
  show ?thesis
    unfolding demo_steps_def
    by (rule runs_prog_bind [OF demo_open_0 [OF assms]], rule runs_prog_bind [OF huge], rule runs_prog_bind [OF demo_open_1 [OF assms]],
        rule runs_prog_bind [OF demo_open_2 [OF assms]], rule runs_prog_bind [OF demo_open_3 [OF assms]],
        rule runs_prog_bind [OF quiet4 [OF moves_touch]], rule runs_prog_bind [OF quiet4 [OF moves_touch_range]], simp,
        rule runs_prog_bind [OF mark], rule runs_prog_bind [OF flush], rule runs_prog_bind [OF demo_open_4 [OF assms]],
        rule runs_prog_bind [OF cold], rule runs_prog_bind [OF warm], rule runs_prog_return) (auto simp: apart_def)
qed

section \<open>The whole program\<close>

text \<open>What the program leaves alone.\<close>

definition others_kept :: "world \<Rightarrow> world \<Rightarrow> bool" where
  "others_kept w0 w \<longleftrightarrow> (\<forall>q. q \<notin> set demo_paths \<longrightarrow> w_dir w q = w_dir w0 q) \<and> (\<forall>g < w_next w0. w_data w g = w_data w0 g)"

lemma demo_run_runs:
  assumes "8 * 1024 * 1024 \<le> lim" "world_ok w0" "\<forall>p \<in> set demo_paths. w_dir w0 p = None"
  shows "runs (granting lim env) (\<lambda>w. w = w0) (demo_run env spawned)
    (\<lambda>_ w. (\<forall>(p, bs) \<in> set demo_files. has_file p bs w) \<and> others_kept w0 w)"
proof (rule runsI)
  fix w assume w: "w = w0"
  then have "fleet lim env [] ([], w) \<and> apart w0 (set demo_paths) (demo_later 0) ([], w)"
    using assms(2,3) by (simp add: fleet_def apart_def)
  from demo_steps_runs [OF assms(1), of env w0 spawned] this
  show "\<exists>r w'. demo_run env spawned w = Some (r, w') \<and>
      (\<forall>x. r = Inr x \<longrightarrow> (\<forall>(p, bs) \<in> set demo_files. has_file p bs w') \<and> others_kept w0 w') \<and> (granting lim env \<longrightarrow> is_ok r)"
  proof (cases rule: runsE)
    case (1 e st)
    then show ?thesis by (cases st) (simp add: demo_run_def)
  next
    case (2 huge st)
    obtain hs w' where st: "st = (hs, w')" by (cases st)
    have "has_file p bs (drop_handles env hs w')" if "(p, bs) \<in> set demo_files" for p bs
      using that fleet_dropped [of lim env demo_files hs w' _ hs] 2(2) st by (fastforce simp: in_set_conv_nth)
    moreover have "others_kept w0 (drop_handles env hs w')"
      using 2(2) st drop_handles_files [of w' env hs] by (simp add: others_kept_def apart_def same_files_def)
    ultimately show ?thesis using 2(1) st by (auto simp: demo_run_def)
  qed
qed

text \<open>The mapping with the time-based policy is never written: whenever its flusher wakes, it finds nothing pending and does nothing.\<close>

lemma created_flusher_idle:
  assumes "created env spawned b w = (Inr mm, w')" "b_mode b = Some ReadWrite"
  shows "flusher_callback env \<lparr>s_mm = mm, s_world = w''\<rparr> = Some (False, \<lparr>s_mm = mm, s_world = w''\<rparr>)"
proof -
  have "i_written mm = 0"
    using assms by (cases "b_policy b") (auto simp: created_def builder_create_def bind_se_Inr return_se_def finish_rw_def Let_def inner_new_def
        start_time_based_flusher_def)
  then show ?thesis by (simp add: flusher_callback_def)
qed

lemma cleanup_granted:
  assumes "granting lim env"
  shows "\<exists>w'. cleanup_path env rmdir p w = Some w' \<and> w_dir w' = (w_dir w)(p := None) \<and> w_data w' = w_data w"
  using granted_call [OF assms, of "Fs_remove_file p" w]
  by (auto simp: cleanup_path_def fs_remove_file_def bind_se_def io_new_def fun_upd_idem split: option.splits)

lemma cleanup_all_granted:
  assumes "granting lim env"
  shows "\<exists>w'. cleanup_paths env rmdir ps w = Some w' \<and> (\<forall>p. w_dir w' p = (if p \<in> set ps then None else w_dir w p)) \<and> w_data w' = w_data w"
proof (induction ps arbitrary: w)
  case (Cons p ps)
  obtain w1 where 1: "cleanup_path env rmdir p w = Some w1" "w_dir w1 = (w_dir w)(p := None)" "w_data w1 = w_data w"
    using cleanup_granted [OF assms] by blast
  with Cons [of w1] show ?case by auto
qed simp

text \<open>C40. Mappings of different files are independent. The demonstration keeps five mappings open at once and writes two of them in turn. From a
  file system without its five files, and whatever calls the kernel refuses, it reaches its clean-up or returns the error; at the clean-up
  each of the five files holds exactly what was written through its own mapping, and no other path and no file that was there before has
  changed. On a system that grants its calls it ends without an error or a panic, all five are gone and the rest of the file system is as
  it was.\<close>

theorem mappings_independent:
  assumes "world_ok w" "\<forall>p \<in> set demo_paths. w_dir w p = None" "8 * 1024 * 1024 \<le> lim"
  shows "\<exists>r w'. demo_run env spawned w = Some (r, w')
    \<and> (\<forall>x. r = Inr x \<longrightarrow>
          has_file ''demo_huge.bin'' (replicate (4 * 1024 * 1024) 0) w' \<and> has_file ''benchmark.bin'' (replicate (2 * 1024 * 1024) 0) w'
          \<and> has_file ''auto_flush.bin'' (replicate (1024 * 1024) 0) w'
          \<and> has_file ''ultimate.bin'' (replicate (2 * 1024 * 1024) 0xAB @ replicate (6 * 1024 * 1024) 0) w'
          \<and> has_file ''cold.bin'' (replicate (2 * 1024 * 1024) 0xAB) w' \<and> others_kept w w')
    \<and> (granting lim env \<longrightarrow> (\<exists>x w''. demo_main env spawned rmdir w = Some (Inr x, w'') \<and> others_kept w w''
          \<and> (\<forall>p \<in> set demo_paths. w_dir w'' p = None)))"
proof -
  obtain r w' where r: "demo_run env spawned w = Some (r, w')" "granting lim env \<longrightarrow> is_ok r"
    and post: "\<And>x. r = Inr x \<Longrightarrow> (\<forall>(p, bs) \<in> set demo_files. has_file p bs w') \<and> others_kept w w'"
    using runsD [OF demo_run_runs [OF assms(3,1,2), of env spawned] refl] by blast
  have pages: "concat (replicate 512 (replicate 4096 0xAB)) = (replicate (2 * 1024 * 1024) 0xAB :: byte list)"
    using concat_payload [of 4096 "0xAB" 512] by (simp add: map_replicate_const)
  have "\<exists>x w''. demo_main env spawned rmdir w = Some (Inr x, w'') \<and> others_kept w w'' \<and> (\<forall>p \<in> set demo_paths. w_dir w'' p = None)"
    if g: "granting lim env"
  proof -
    obtain x where x: "r = Inr x" using r(2) g by (auto simp: is_ok_iff)
    obtain w'' where "cleanup_paths env rmdir demo_paths w' = Some w''" "w_data w'' = w_data w'"
      "\<forall>p. w_dir w'' p = (if p \<in> set demo_paths then None else w_dir w' p)" using cleanup_all_granted [OF g] by blast
    with post [OF x] r(1) x show ?thesis by (simp add: demo_main_def others_kept_def)
  qed
  with r(1) post show ?thesis unfolding demo_files_def demo_ultimate_def pages by auto
qed

theorem mappings_independent_witness:
  "\<exists>x w''. demo_main sample_env True (\<lambda>_. Inr ()) sample_world = Some (Inr x, w'') \<and> others_kept sample_world w''"
proof -
  have "\<forall>p \<in> set demo_paths. w_dir sample_world p = None" by (simp add: demo_paths_def sample_world_def)
  from mappings_independent [OF sample_world_ok this order_refl, where env = sample_env and rmdir = "\<lambda>_. Inr ()" and spawned = True] sample_granting
  show ?thesis by blast
qed

end
