(* ===== verification/Spec2Isabelle.thy ===== *)
theory Spec2Isabelle
  imports Mmap_Props Views_Protocol Mmap_Open_Props Mmap_Reader Mmap_Smaps Segment Iterator_Props
    Atomic Anonymous Advise_Lock Watch Manager Mmap_Async Divergences
    Sessions Handles Granting Fuzz_Small Example_Log Example_Counter Example_Shared Example_Basics Example_Bulk Example_Demo
begin

text \<open>
  A verification of the \<^verbatim>\<open>mmap-io\<close> crate: memory-mapped files, anonymous mappings, and the views,
  iterators, segments, atomics, flushers and watchers on top of them. File names below are relative to
  \<^verbatim>\<open>src/\<close> of the crate; definitions carry the names of the functions they translate, with the name of
  the type in front where two of them collide.

  \<^bold>\<open>The program.\<close> Three layers. \<^verbatim>\<open>raw/\<close> makes, flushes, advises, locks, protects and releases one
  operating-system mapping. \<^verbatim>\<open>mmap.rs\<close> puts a file, a mode, a lock, a flush policy and the registry of live
  views around one raw mapping; \<^verbatim>\<open>anonymous.rs\<close> does the same without a file. Everything else is a client of
  these: \<^verbatim>\<open>atomic.rs\<close> (typed atomic views), \<^verbatim>\<open>segment.rs\<close>, \<^verbatim>\<open>iterator.rs\<close>, \<^verbatim>\<open>advise.rs\<close>, \<^verbatim>\<open>lock.rs\<close>,
  \<^verbatim>\<open>watch.rs\<close> and \<^verbatim>\<open>manager.rs\<close>. The components meet in two places: the lock around the mapping (a view
  holds its read side, writes and resizes take its write side), and the registry of \<^verbatim>\<open>views.rs\<close>, which keeps
  plain references and atomic references to the same bytes apart.

  \<^bold>\<open>What the model takes as given.\<close> The target has 64-bit pointers (\<open>usize\<close> is \<open>64 word\<close>; the arithmetic of
  \<open>Range\<close> is polymorphic in the width). The operating system, the compilation target and the cargo features are
  one argument, \<open>env\<close>: the kernel is a function from the trace of calls so far and the new call to a result, so
  every theorem holds for every pattern of failing calls. \<open>World\<close> models what the sources use of the file
  system (a directory, contents per file, handles that keep naming the file) and records every system call. A
  shared mapping is a window on the contents of its file, a private one has bytes of its own. The lock is a count of
  readers and a writer flag; an acquisition that would wait is the value \<open>None\<close>, so that a theorem says both when a
  call waits and what it does when it does not. Errors are values of a sum type with the source's variants
  and texts.

  \<^bold>\<open>The theories, bottom up.\<close>
    \<^item> \<open>Prelude\<close>, \<open>Text\<close>: checked and saturating integer operations, results, byte lists, the string functions the
      \<^verbatim>\<open>/proc\<close> parsers call. \<open>Byte_Store\<close>, \<open>Handle_Table\<close>, \<open>Joined_Worker\<close>: the interfaces, as locales (below).
    \<^item> \<open>Errors\<close> (\<^verbatim>\<open>errors.rs\<close>), \<open>Utils\<close> (\<^verbatim>\<open>utils.rs\<close>), \<open>Range\<close> (\<^verbatim>\<open>raw/range.rs\<close>): the range checks accept exactly
      the ranges inside the mapping, \<open>align_up\<close> is the least multiple, \<open>layout\<close> and \<open>flush_span\<close> give the aligned
      spans that cover a window.
    \<^item> \<open>World\<close>, \<open>Raw_Os\<close> (\<^verbatim>\<open>raw/unix.rs\<close>, \<^verbatim>\<open>raw/windows.rs\<close>, \<^verbatim>\<open>raw/stub.rs\<close>), \<open>Raw\<close> (\<^verbatim>\<open>raw/mod.rs\<close>): a mapping shows exactly
      the requested window, its ranged calls stay inside it, its drop releases exactly what was mapped.
    \<^item> \<open>Views\<close>, \<open>Views_Copy\<close>, \<open>Views_Protocol\<close> (\<^verbatim>\<open>views.rs\<close>): the registry run sequentially and its abstract
      specification (the sets of live plain and atomic views); copies that read atomic bytes with atomic loads
      only; and the registration protocol as a step relation in which any number of activities interleave,
      with the invariant that keeps overlapping plain and atomic views from both being live.
    \<^item> \<open>Flush\<close> (\<^verbatim>\<open>flush.rs\<close>): the policies, and the background worker with its joining drop as a state machine.
    \<^item> \<open>Mmap\<close>, \<open>Mmap_Facts\<close>, \<open>Mmap_Props\<close> (\<^verbatim>\<open>mmap.rs\<close>): the record \<open>inner\<close>, reads, slices, updates, flushing and its
      accounting, resizing on both shrink orders, unmapping; the invariant \<open>sys_ok\<close>, that every operation keeps
      it, and the contracts of the operations on every branch. \<open>Mmap_Open\<close>, \<open>Mmap_Open_Props\<close>: the constructors
      and the builder, what they establish and what a failed creation leaves behind. \<open>Mmap_Reader\<close>: the cursor.
      \<open>Mmap_Smaps\<close>: the parser of \<^verbatim>\<open>/proc/self/smaps\<close>, exact on the kernel's format. \<open>Mmap_Async\<close>: the
      asynchronous wrappers as the calls they run.
    \<^item> \<open>Segment\<close> (\<^verbatim>\<open>segment.rs\<close>), \<open>Iterator\<close>, \<open>Iterator_Props\<close> (\<^verbatim>\<open>iterator.rs\<close>), \<open>Atomic\<close> (\<^verbatim>\<open>atomic.rs\<close>), \<open>Anonymous\<close>
      (\<^verbatim>\<open>anonymous.rs\<close> and its half of \<^verbatim>\<open>atomic.rs\<close>), \<open>Advise_Lock\<close> (\<^verbatim>\<open>advise.rs\<close>, \<^verbatim>\<open>lock.rs\<close>), \<open>Manager\<close>
      (\<^verbatim>\<open>manager.rs\<close>): the clients, each composed from the operations it calls. Segment writes stay inside the
      segment, chunks partition the mapping, atomic views have their lifecycle on lock and registry, an
      anonymous mapping refines a writable copy-on-write one, what the manager writes it reads back.
    \<^item> \<open>Watch\<close> (\<^verbatim>\<open>watch.rs\<close>): dispatcher, handle and channel as a state machine: the callbacks are those of a
      reference function of the messages, none comes after the drop has returned, and the drop returns.
    \<^item> \<open>Sessions\<close>: all clients of one mapping together, as a machine whose steps are the operations of the API and
      whose state holds every live slice, atomic view, iterator and mutable guard: in every reachable state each
      live view shows bytes inside the mapping, and views that may not coexist do not. \<open>Handles\<close>: the small operations of slices, files, iterators, segments and raw mappings, and that no live
      handle can fail the assertion or the index check its code relies on. \<open>Granting\<close>: the outcomes on a system that
      refuses no reasonable call: every valid request succeeds. \<open>Mirror\<close>: what a client without views relies on, as one relation between a mapping
      and the list of its bytes that updates, flushes, resizes and reads keep or change accordingly; the programs below are verified against it.
      \<open>Little_Endian\<close>, \<open>Cells\<close>: words as bytes, and atomic integers in a file that several mappings may show.
    \<^item> \<open>Fuzz_Managed\<close>, \<open>Fuzz_Managed_Props\<close>, \<open>Fuzz_Raw\<close>, \<open>Fuzz_Small\<close> (\<^verbatim>\<open>../fuzz/fuzz_targets\<close>): the fuzz harnesses as programs, in which a
      failed assertion is \<open>None\<close>, and that no input makes them fail. The harness of the managed mapping composes the builder,
      reads, slices, writes, resizes, flushes, segments, iterators, hints, the cursor and the background flusher; its
      assertions are those the authors chose as the contract of the crate.
    \<^item> \<open>Example_Log\<close> (\<^verbatim>\<open>../examples/05_log_appender.rs\<close>): the append-only log as a whole program: what it appends it reads back, across growth,
      flushes, drop and reopening. \<open>Example_Counter\<close> (\<^verbatim>\<open>../examples/04_atomic_counter.rs\<close>): threads that add to one atomic counter, interleaved in
      every order: none is refused, none waits for ever, and the sum is exact. \<open>Example_Shared\<close> (\<^verbatim>\<open>../examples/10_ipc_shared_state.rs\<close>): a writer and a reader with
      mappings of their own of one file: what one stores the other sees, and the final count is exact.
    \<^item> \<open>Programs\<close>: a program logic of total triples for clients (a program returns, with an error only where the kernel refused a call, and
      what it returns satisfies the postcondition). \<open>Example_Basics\<close> (\<^verbatim>\<open>../examples/01\<close>, \<^verbatim>\<open>02\<close>, \<^verbatim>\<open>03\<close>, \<^verbatim>\<open>09\<close>): reading a file, writing and
      reading back, segments across a shrink, asynchronous writes. \<open>Example_Bulk\<close> (\<^verbatim>\<open>../examples/06\<close>, \<^verbatim>\<open>08\<close>): the chunked scan counts every byte
      once, for any number of pages; the huge-page example fills its file. \<open>Fleet\<close>, \<open>Example_Demo\<close> (\<^verbatim>\<open>../examples/critical_features_demo.rs\<close>):
      several mappings of different files open at once are independent of each other and of the rest of the file system.
    \<^item> \<open>Divergences\<close>: where documentation and code differ, as facts about the model.

  \<^bold>\<open>Interfaces.\<close> \<open>byte_store\<close> (contents of fixed length, stores inside them) is provided by the raw, the managed and the
  anonymous mapping; \<open>handle_table\<close> (fresh handles, exact removal) by the slab of plain views and the list of
  atomic views; \<open>range_check\<close> by the two range checks; \<open>joined_worker\<close> (an ended thread makes no
  callback, a drop that has returned has seen the end) by the flusher and the dispatcher; \<open>byte_program\<close> (which bytes a loop of writes leaves) by the triples of
  \<open>Programs\<close> and by those of \<open>Fleet\<close>, which also say that nothing else changes. The lemmas of each locale are used through
  these interpretations.

  \<^bold>\<open>Loops and bounds.\<close> The loops of the sources are structural recursion or have a termination proof.
  \<open>open_or_create\<close> makes the two passes its source makes. Where a theorem drives an operation repeatedly (reading
  to the end, draining the buffer, collecting chunks), the driver has fuel, and the theorem states that one call
  more than there are items (at most one per byte) is enough and that the driver ends; so does the loop over chunks of the
  fuzz harness. The walk over the records of the log has no bound in its source and none in the model; the theorem about it
  states that it returns; so do the loops over chunks and payloads of the bulk examples. The steps of the threads of the counter are bounded by the theorem: one per call; the reader of the shared file may poll for any time. The steps of worker,
  dispatcher and registration protocol are relations without a bound.

  \<^bold>\<open>Not modelled.\<close> Formatting (\<open>Debug\<close>); the module declarations of \<^verbatim>\<open>lib.rs\<close>; tests and benchmarks; the watch example, which prints what
  the operating system happens to deliver while it sleeps (the watch itself is in \<open>Watch\<close>); what \<open>libFuzzer\<close> does to find inputs. The
  thread pool behind the asynchronous wrappers and the \<open>notify\<close> backend are third-party: the first runs the call
  it is given, the second may send any messages at any time. What the kernel does to page contents after a
  hint, and memory orderings weaker than the sequentially consistent ones the registration protocol asks for, are
  outside the model, as are panicking callbacks.
\<close>

end
